(* ===== verification/Prelude.thy ===== *)
theory Prelude
  imports Main "HOL-Library.Char_ord" "HOL-Library.List_Lexorder" "HOL-Library.Multiset"
begin

text \<open>
  Shared material of the development: C++ integer narrowing written out as arithmetic on
  \<open>int\<close>, decimal output, \<open>std::string\<close> searches, the outcome type of operations whose C++
  behaviour can be undefined or exceptional, and the generic list lemmas that several
  components use.

  A \<open>std::string\<close> is a \<open>string\<close> (a list of bytes). A \<open>time_t\<close> or \<open>long\<close> value is an \<open>int\<close>;
  where the code narrows it to \<open>int\<close> or \<open>unsigned\<close> the narrowing is explicit
  (\<open>int32\<close>, \<open>uint32\<close>).
\<close>

named_theorems cpp_arith \<open>unfoldings of the machine-integer conversions\<close>
named_theorems cpp_step \<open>definitions of the one-step operations of the components\<close>

section \<open>Machine integers\<close>

definition int32 :: "int \<Rightarrow> int" where
  "int32 x = (x + 2 ^ 31) mod 2 ^ 32 - 2 ^ 31"

definition uint32 :: "int \<Rightarrow> int" where
  "uint32 x = x mod 2 ^ 32"

definition int64 :: "int \<Rightarrow> int" where
  "int64 x = (x + 2 ^ 63) mod 2 ^ 64 - 2 ^ 63"

definition uint64 :: "int \<Rightarrow> int" where
  "uint64 x = x mod 2 ^ 64"

lemmas cpp_conv_defs [cpp_arith] = int32_def uint32_def int64_def uint64_def

lemma int32_id [simp]: "- (2 ^ 31) \<le> x \<Longrightarrow> x < 2 ^ 31 \<Longrightarrow> int32 x = x"
  by (simp add: int32_def)

lemma uint32_id [simp]: "0 \<le> x \<Longrightarrow> x < 2 ^ 32 \<Longrightarrow> uint32 x = x"
  by (simp add: uint32_def)

lemma int32_range: "- (2 ^ 31) \<le> int32 x \<and> int32 x < 2 ^ 31"
  by (simp add: int32_def)

lemma uint32_range: "0 \<le> uint32 x \<and> uint32 x < 2 ^ 32"
  by (simp add: uint32_def)

lemma int32_wraps: "2 ^ 31 \<le> x \<Longrightarrow> x < 2 ^ 32 \<Longrightarrow> int32 x = x - 2 ^ 32"
proof -
  assume a: "2 ^ 31 \<le> x" "x < 2 ^ 32"
  have "(x + 2 ^ 31) mod 2 ^ 32 = (x + 2 ^ 31 - 2 ^ 32) mod 2 ^ 32"
    by (metis minus_mod_self2)
  also have "\<dots> = x + 2 ^ 31 - 2 ^ 32" using a by simp
  finally show ?thesis by (simp add: int32_def)
qed

section \<open>Outcomes\<close>

text \<open>
  The result of an operation that can throw a \<open>std::exception\<close> (with its message) or run into
  behaviour C++ leaves undefined. \<open>Diverges\<close> marks a loop or a recursion without end.
\<close>

datatype 'a outcome = Ok 'a | Throws string | Undefined | Diverges

fun bind_outcome :: "'a outcome \<Rightarrow> ('a \<Rightarrow> 'b outcome) \<Rightarrow> 'b outcome" where
  "bind_outcome (Ok x) f = f x"
| "bind_outcome (Throws m) f = Throws m"
| "bind_outcome Undefined f = Undefined"
| "bind_outcome Diverges f = Diverges"

lemma bind_outcome_Ok [simp]:
  "bind_outcome m f = Ok y \<longleftrightarrow> (\<exists>x. m = Ok x \<and> f x = Ok y)"
  by (cases m) auto

section \<open>Decimal output: \<open>std::to_string\<close> and \<open>ostream <<\<close> on integers\<close>

definition digit_char :: "nat \<Rightarrow> char" where
  "digit_char d = char_of (48 + d)"

fun show_nat :: "nat \<Rightarrow> string" where
  "show_nat n = (if n < 10 then [digit_char n] else show_nat (n div 10) @ [digit_char (n mod 10)])"

declare show_nat.simps [simp del]

definition show_int :: "int \<Rightarrow> string" where
  "show_int i = (if i < 0 then CHR ''-'' # show_nat (nat (- i)) else show_nat (nat i))"

definition digit_val :: "char \<Rightarrow> nat option" where
  "digit_val c = (let n = of_char c :: nat in if 48 \<le> n \<and> n \<le> 57 then Some (n - 48) else None)"

definition is_digit :: "char \<Rightarrow> bool" where
  "is_digit c = (digit_val c \<noteq> None)"

lemma digit_val_digit_char [simp]: "d < 10 \<Longrightarrow> digit_val (digit_char d) = Some d"
  by (simp add: digit_val_def digit_char_def Let_def)

lemma digit_val_bound: "digit_val c = Some d \<Longrightarrow> d < 10"
  by (auto simp: digit_val_def Let_def split: if_splits)

lemma is_digit_digit_char [simp]: "d < 10 \<Longrightarrow> is_digit (digit_char d)"
  by (simp add: is_digit_def)

lemma show_nat_nonempty [simp]: "show_nat n \<noteq> []"
  by (subst show_nat.simps) simp

lemma show_nat_digits: "c \<in> set (show_nat n) \<Longrightarrow> is_digit c"
proof (induction n rule: show_nat.induct)
  case (1 n)
  then show ?case
    by (cases "n < 10") (auto simp: show_nat.simps [of n])
qed

text \<open>Reading digits left to right, as every decimal scanner of the program does.\<close>

fun read_digits :: "nat \<Rightarrow> string \<Rightarrow> nat \<times> string" where
  "read_digits acc [] = (acc, [])"
| "read_digits acc (c # cs) =
     (case digit_val c of Some d \<Rightarrow> read_digits (10 * acc + d) cs | None \<Rightarrow> (acc, c # cs))"

definition no_digit_first :: "string \<Rightarrow> bool" where
  "no_digit_first s = (case s of [] \<Rightarrow> True | c # _ \<Rightarrow> \<not> is_digit c)"

lemma no_digit_first_simps [simp]:
  "no_digit_first []" "no_digit_first (c # s) \<longleftrightarrow> \<not> is_digit c"
  by (simp_all add: no_digit_first_def)

lemma read_digits_stop: "no_digit_first rest \<Longrightarrow> read_digits acc rest = (acc, rest)"
  by (cases rest) (auto simp: is_digit_def)

lemma read_digits_append:
  "\<forall>c \<in> set ds. is_digit c \<Longrightarrow>
   read_digits acc (ds @ rest) = read_digits (fst (read_digits acc ds)) rest"
  by (induction ds arbitrary: acc) (auto simp: is_digit_def)

lemma read_digits_show_nat_acc:
  "fst (read_digits 0 (show_nat n)) = n"
proof (induction n rule: show_nat.induct)
  case (1 n)
  show ?case
  proof (cases "n < 10")
    case True
    then show ?thesis by (simp add: show_nat.simps [of n])
  next
    case False
    have d: "\<forall>c \<in> set (show_nat (n div 10)). is_digit c" by (simp add: show_nat_digits)
    have "fst (read_digits 0 (show_nat (n div 10) @ [digit_char (n mod 10)]))
        = 10 * fst (read_digits 0 (show_nat (n div 10))) + n mod 10"
      by (simp add: read_digits_append [OF d])
    with False 1 show ?thesis by (simp add: show_nat.simps [of n])
  qed
qed

lemma read_digits_show_nat:
  "no_digit_first rest \<Longrightarrow> read_digits 0 (show_nat n @ rest) = (n, rest)"
  using read_digits_append [of "show_nat n" 0 rest]
  by (simp add: show_nat_digits read_digits_show_nat_acc read_digits_stop)

section \<open>Bytes and strings\<close>

definition newline :: string where
  "newline = [char_of (10 :: nat)]"

definition is_space :: "char \<Rightarrow> bool" where
  "is_space c = (let n = of_char c :: nat in n = 32 \<or> (9 \<le> n \<and> n \<le> 13))"

lemma digit_not_space: "is_digit c \<Longrightarrow> \<not> is_space c"
  by (auto simp: is_digit_def digit_val_def is_space_def Let_def split: if_splits)

fun join_strings :: "string \<Rightarrow> string list \<Rightarrow> string" where
  "join_strings sep [] = []"
| "join_strings sep [x] = x"
| "join_strings sep (x # y # xs) = x @ sep @ join_strings sep (y # xs)"

definition quoted :: "string \<Rightarrow> string" where
  "quoted s = [CHR 39] @ s @ [CHR 39]"

definition dquoted :: "string \<Rightarrow> string" where
  "dquoted s = [CHR 34] @ s @ [CHR 34]"

section \<open>Lists\<close>

lemma takeWhile_dropWhile_split:
  "takeWhile P xs @ dropWhile P xs = xs"
  by (rule takeWhile_dropWhile_id)

lemma fold_append_map: "fold (\<lambda>x acc. acc @ f x) xs acc = acc @ concat (map f xs)"
  by (induction xs arbitrary: acc) auto

lemma filter_partition_mset:
  "mset (filter P xs) + mset (filter (\<lambda>x. \<not> P x) xs) = mset xs"
  by (induction xs) auto

lemma mset_concat_map: "mset (concat (map f xs)) = (\<Sum>x \<leftarrow> xs. mset (f x))"
  by (induction xs) auto

end
