(* ===== verification/Std_Map.thy ===== *)
theory Std_Map
  imports Prelude
begin

text \<open>
  \<open>std::map\<close> as an association list in key order: \<open>map_of\<close> is \<open>find\<close>, \<open>sm_set\<close> is
  \<open>m[k] = v\<close>, \<open>sm_insert\<close> is \<open>insert\<close> (an existing entry stays), \<open>sm_erase\<close> is \<open>erase\<close>.
  Iteration over the map is iteration over the list. The locale \<open>key_store\<close> is what clients
  rely on; it is interpreted on these definitions, and its client lemmas about the
  "append to the vector under a key" loops serve the merge, the link list and the event
  tables.
\<close>

fun sm_set :: "'k::linorder \<Rightarrow> 'v \<Rightarrow> ('k \<times> 'v) list \<Rightarrow> ('k \<times> 'v) list" where
  "sm_set k v [] = [(k, v)]"
| "sm_set k v ((k', v') # m) =
     (if k < k' then (k, v) # (k', v') # m
      else if k = k' then (k, v) # m
      else (k', v') # sm_set k v m)"

definition sm_insert :: "'k::linorder \<Rightarrow> 'v \<Rightarrow> ('k \<times> 'v) list \<Rightarrow> ('k \<times> 'v) list" where
  "sm_insert k v m = (case map_of m k of None \<Rightarrow> sm_set k v m | Some _ \<Rightarrow> m)"

definition sm_erase :: "'k \<Rightarrow> ('k \<times> 'v) list \<Rightarrow> ('k \<times> 'v) list" where
  "sm_erase k m = filter (\<lambda>p. fst p \<noteq> k) m"

definition sm_ok :: "('k::linorder \<times> 'v) list \<Rightarrow> bool" where
  "sm_ok m = sorted_wrt (<) (map fst m)"

lemma sm_ok_Nil [simp]: "sm_ok []"
  by (simp add: sm_ok_def)

lemma sm_ok_Cons [simp]: "sm_ok ((k, v) # m) \<longleftrightarrow> (\<forall>k' \<in> fst ` set m. k < k') \<and> sm_ok m"
  by (simp add: sm_ok_def)

lemma fst_set_sm_set [simp]: "fst ` set (sm_set k v m) = insert k (fst ` set m)"
  by (induction k v m rule: sm_set.induct) auto

lemma sm_set_ok [simp]: "sm_ok m \<Longrightarrow> sm_ok (sm_set k v m)"
  by (induction k v m rule: sm_set.induct) (auto dest: less_trans)

lemma sm_ok_distinct: "sm_ok m \<Longrightarrow> distinct (map fst m)"
  by (simp add: sm_ok_def strict_sorted_iff)

lemma map_of_sm_set: "sm_ok m \<Longrightarrow> map_of (sm_set k v m) = (map_of m)(k \<mapsto> v)"
proof (induction k v m rule: sm_set.induct)
  case (1 k v)
  then show ?case by simp
next
  case (2 k v k' v' m)
  then show ?case by (auto simp: fun_eq_iff)
qed

lemma map_of_sm_erase [simp]: "map_of (sm_erase k m) = (map_of m)(k := None)"
  by (induction m) (auto simp: sm_erase_def fun_eq_iff)

lemma sm_filter_ok [simp]: "sm_ok m \<Longrightarrow> sm_ok (filter P m)"
  by (simp add: sm_ok_def sorted_wrt_map sorted_wrt_filter)

lemma sm_erase_ok [simp]: "sm_ok m \<Longrightarrow> sm_ok (sm_erase k m)"
  by (simp add: sm_erase_def)

lemma sm_insert_ok [simp]: "sm_ok m \<Longrightarrow> sm_ok (sm_insert k v m)"
  by (simp add: sm_insert_def split: option.split)

lemma set_sm_erase: "set (sm_erase k m) = {p \<in> set m. fst p \<noteq> k}"
  by (auto simp: sm_erase_def)

lemma set_sm_set_subset: "set (sm_set k v m) \<subseteq> insert (k, v) (set m)"
  by (induction k v m rule: sm_set.induct) auto

lemma sm_setD: "(k', v') \<in> set (sm_set k v m) \<Longrightarrow> (k', v') = (k, v) \<or> (k', v') \<in> set m"
  using set_sm_set_subset [of k v m] by auto

lemma sm_set_not_old:
  "sm_ok m \<Longrightarrow> (k', v') \<in> set (sm_set k v m) \<Longrightarrow> k' \<noteq> k \<Longrightarrow> (k', v') \<in> set m"
  by (auto dest: sm_setD)

lemma sm_find_in: "map_of m k = Some v \<Longrightarrow> (k, v) \<in> set m"
  by (rule map_of_SomeD)

lemma sm_in_find: "sm_ok m \<Longrightarrow> (k, v) \<in> set m \<Longrightarrow> map_of m k = Some v"
  by (simp add: sm_ok_distinct)

lemma sm_erase_fresh: "map_of m k = None \<Longrightarrow> sm_erase k m = m"
  by (force simp: sm_erase_def filter_id_conv map_of_eq_None_iff)

lemma mset_sm_set:
  "sm_ok m \<Longrightarrow> mset (sm_set k v m) = add_mset (k, v) (mset (sm_erase k m))"
proof (induction k v m rule: sm_set.induct)
  case (1 k v)
  then show ?case by (simp add: sm_erase_def)
next
  case (2 k v k' v' m)
  have fresh: "k < k' \<Longrightarrow> sm_erase k ((k', v') # m) = (k', v') # m"
    using "2.prems" by (force simp: sm_erase_def filter_id_conv)
  have gone: "k = k' \<Longrightarrow> sm_erase k m = m"
    using "2.prems" by (force simp: sm_erase_def filter_id_conv)
  show ?case
    using 2 fresh gone by (auto simp: sm_erase_def)
qed

lemma mset_sm_erase:
  "sm_ok m \<Longrightarrow> map_of m k = Some v \<Longrightarrow> mset m = add_mset (k, v) (mset (sm_erase k m))"
proof (induction m)
  case Nil
  then show ?case by simp
next
  case (Cons p m)
  obtain k' v' where p: "p = (k', v')" by (cases p)
  show ?case
  proof (cases "k' = k")
    case True
    with Cons.prems p have "map_of m k = None"
      by (auto simp: map_of_eq_None_iff)
    then have "sm_erase k m = m" by (rule sm_erase_fresh)
    with True p Cons.prems show ?thesis by (simp add: sm_erase_def)
  next
    case False
    with Cons p show ?thesis by (auto simp: sm_erase_def)
  qed
qed

section \<open>The interface clients use\<close>

locale key_store =
  fixes find_key :: "'m \<Rightarrow> 'k \<Rightarrow> 'v option"
    and put :: "'k \<Rightarrow> 'v \<Rightarrow> 'm \<Rightarrow> 'm"
    and del :: "'k \<Rightarrow> 'm \<Rightarrow> 'm"
    and store_ok :: "'m \<Rightarrow> bool"
  assumes find_put: "store_ok m \<Longrightarrow> find_key (put k v m) k' = (if k' = k then Some v else find_key m k')"
    and find_del: "store_ok m \<Longrightarrow> find_key (del k m) k' = (if k' = k then None else find_key m k')"
    and put_ok: "store_ok m \<Longrightarrow> store_ok (put k v m)"
    and del_ok: "store_ok m \<Longrightarrow> store_ok (del k m)"
begin

lemma put_all_ok: "store_ok m \<Longrightarrow> store_ok (fold (\<lambda>x. put (key x) (val x)) xs m)"
  by (induction xs arbitrary: m) (simp_all add: put_ok)

text \<open>Storing a sequence: the last element with a key wins, other keys keep their value.\<close>

lemma find_put_all:
  "store_ok m \<Longrightarrow>
   find_key (fold (\<lambda>x. put (key x) (val x)) xs m) k =
     (case filter (\<lambda>x. key x = k) xs of [] \<Rightarrow> find_key m k
      | y # ys \<Rightarrow> Some (val (last (y # ys))))"
  by (induction xs rule: rev_induct)
    (auto simp: find_put put_all_ok split: list.splits if_splits)

lemma del_all_ok: "store_ok m \<Longrightarrow> store_ok (fold del ks m)"
  by (induction ks arbitrary: m) (simp_all add: del_ok)

lemma find_del_all:
  "store_ok m \<Longrightarrow> find_key (fold del ks m) k = (if k \<in> set ks then None else find_key m k)"
  by (induction ks arbitrary: m) (auto simp: find_del del_ok)

end

locale bucket_store = key_store find_key put del store_ok
  for find_key :: "'m \<Rightarrow> 'k \<Rightarrow> 'v list option"
    and put :: "'k \<Rightarrow> 'v list \<Rightarrow> 'm \<Rightarrow> 'm"
    and del :: "'k \<Rightarrow> 'm \<Rightarrow> 'm"
    and store_ok :: "'m \<Rightarrow> bool" +
  fixes push :: "'k \<Rightarrow> 'v \<Rightarrow> 'm \<Rightarrow> 'm"
  assumes push_put: "push k v m =
    put k ((case find_key m k of None \<Rightarrow> [] | Some vs \<Rightarrow> vs) @ [v]) m"
begin

definition bucket :: "'m \<Rightarrow> 'k \<Rightarrow> 'v list" where
  "bucket m k = (case find_key m k of None \<Rightarrow> [] | Some vs \<Rightarrow> vs)"

lemma push_ok: "store_ok m \<Longrightarrow> store_ok (push k v m)"
  by (simp add: push_put put_ok)

lemma bucket_push: "store_ok m \<Longrightarrow> bucket (push k v m) k' = bucket m k' @ (if k' = k then [v] else [])"
  by (simp add: bucket_def push_put find_put)

lemma push_all_ok: "store_ok m \<Longrightarrow> store_ok (fold (\<lambda>x. push (key x) x) xs m)"
  by (induction xs arbitrary: m) (simp_all add: push_ok)

text \<open>Pushing a sequence groups it: under every key, its elements in arrival order.\<close>

lemma bucket_push_all:
  "store_ok m \<Longrightarrow>
   bucket (fold (\<lambda>x. push (key x) x) xs m) k = bucket m k @ filter (\<lambda>x. key x = k) xs"
  by (induction xs arbitrary: m) (auto simp: bucket_push push_ok)

end

text \<open>
  \<open>m[k].push_back(v)\<close>: \<open>operator[]\<close> makes an empty vector first when the key is new.
\<close>

definition sm_push :: "'k::linorder \<Rightarrow> 'v \<Rightarrow> ('k \<times> 'v list) list \<Rightarrow> ('k \<times> 'v list) list" where
  "sm_push k v m = sm_set k ((case map_of m k of None \<Rightarrow> [] | Some vs \<Rightarrow> vs) @ [v]) m"

interpretation smap: key_store map_of sm_set sm_erase sm_ok
  by unfold_locales (simp_all add: map_of_sm_set)

interpretation sbucket: bucket_store map_of sm_set sm_erase sm_ok sm_push
  by unfold_locales (simp add: sm_push_def)

lemma sm_push_ok [simp]: "sm_ok m \<Longrightarrow> sm_ok (sm_push k v m)"
  by (rule sbucket.push_ok)

lemma sm_bucket_def: "sbucket.bucket m k = (case map_of m k of None \<Rightarrow> [] | Some vs \<Rightarrow> vs)"
  by (rule sbucket.bucket_def)

definition bucket_items :: "('k \<times> 'v list) list \<Rightarrow> 'v list" where
  "bucket_items m = concat (map snd m)"

lemma bucket_items_erase:
  "sm_ok m \<Longrightarrow> map_of m k = Some vs \<Longrightarrow>
   mset (bucket_items m) = mset vs + mset (bucket_items (sm_erase k m))"
proof (induction m)
  case Nil
  then show ?case by simp
next
  case (Cons p m)
  obtain k' v' where p: "p = (k', v')" by (cases p)
  show ?case
  proof (cases "k' = k")
    case True
    with Cons.prems p have "map_of m k = None" by (auto simp: map_of_eq_None_iff)
    then have "sm_erase k m = m" by (rule sm_erase_fresh)
    with True p Cons.prems show ?thesis by (simp add: sm_erase_def bucket_items_def)
  next
    case False
    with Cons p show ?thesis by (auto simp: sm_erase_def bucket_items_def)
  qed
qed

lemma bucket_items_set:
  "sm_ok m \<Longrightarrow> mset (bucket_items (sm_set k vs m)) = mset vs + mset (bucket_items (sm_erase k m))"
proof (induction k vs m rule: sm_set.induct)
  case (1 k v)
  then show ?case by (simp add: bucket_items_def sm_erase_def)
next
  case (2 k v k' v' m)
  have fresh: "k < k' \<Longrightarrow> sm_erase k ((k', v') # m) = (k', v') # m"
    using "2.prems" by (force simp: sm_erase_def filter_id_conv)
  have gone: "k = k' \<Longrightarrow> sm_erase k m = m"
    using "2.prems" by (force simp: sm_erase_def filter_id_conv)
  show ?case
    using 2 fresh gone by (auto simp: sm_erase_def bucket_items_def)
qed

lemma bucket_items_push:
  "sm_ok m \<Longrightarrow> mset (bucket_items (sm_push k v m)) = add_mset v (mset (bucket_items m))"
  by (cases "map_of m k")
    (simp_all add: sm_push_def bucket_items_set sm_erase_fresh bucket_items_erase)

lemma bucket_items_push_all:
  "sm_ok m \<Longrightarrow>
   mset (bucket_items (fold (\<lambda>x. sm_push (key x) x) xs m)) = mset xs + mset (bucket_items m)"
  by (induction xs arbitrary: m) (simp_all add: bucket_items_push)

lemma sm_push_in:
  "(k', vs) \<in> set (sm_push k v m) \<Longrightarrow>
   (k', vs) \<in> set m \<or> (k' = k \<and> (\<exists>us. vs = us @ [v] \<and> (us = [] \<or> (k, us) \<in> set m)))"
  by (auto simp: sm_push_def dest!: sm_setD split: option.splits dest: map_of_SomeD)

end
