(* ===== verification/Std_Lib.thy ===== *)
theory Std_Lib
  imports Std_Map
begin

text \<open>
  What the sources use of the C and C++ standard library: C strings, \<open>strtol\<close> and its kin,
  \<open>find\<close>, \<open>substr\<close>, the binary searches \<open>lower_bound\<close> and \<open>upper_bound\<close> (the loop of the
  library, so that they are defined on unsorted input too), and the contract of \<open>std::sort\<close>,
  which does not say how equal elements are ordered.
\<close>

section \<open>C strings and number scanning\<close>

definition c_str :: "string \<Rightarrow> string" where
  "c_str s = takeWhile (\<lambda>c. c \<noteq> char_of (0 :: nat)) s"

lemma c_str_id: "char_of (0 :: nat) \<notin> set s \<Longrightarrow> c_str s = s"
  by (auto simp: c_str_def takeWhile_eq_all_conv)

definition long_min :: int where "long_min = - (2 ^ 63)"
definition long_max :: int where "long_max = 2 ^ 63 - 1"
definition ulong_max :: int where "ulong_max = 2 ^ 64 - 1"

definition scan_sign :: "string \<Rightarrow> bool \<times> string" where
  "scan_sign s = (case s of [] \<Rightarrow> (False, [])
     | c # cs \<Rightarrow> if c = CHR ''-'' then (True, cs) else if c = CHR ''+'' then (False, cs) else (False, s))"

text \<open>The scanned value before clipping, and what is left (all of the input when no digit is found).\<close>

definition scan_int :: "string \<Rightarrow> (bool \<times> nat \<times> string) option" where
  "scan_int s =
     (let (neg, ds) = scan_sign (dropWhile is_space s)
      in if no_digit_first ds then None
         else let (n, rest) = read_digits 0 ds in Some (neg, n, rest))"

definition strtol :: "string \<Rightarrow> int \<times> string" where
  "strtol s = (case scan_int s of None \<Rightarrow> (0, s)
     | Some (neg, n, rest) \<Rightarrow>
         (let v = (if neg then - int n else int n)
          in (if v < long_min then long_min else if v > long_max then long_max else v, rest)))"

definition strtoul :: "string \<Rightarrow> int \<times> string" where
  "strtoul s = (case scan_int s of None \<Rightarrow> (0, s)
     | Some (neg, n, rest) \<Rightarrow>
         (if int n > ulong_max then (ulong_max, rest)
          else (uint64 (if neg then - int n else int n), rest)))"

text \<open>\<open>atoi\<close> and \<open>atoll\<close> of the C library: \<open>strtol\<close> with the end pointer dropped.\<close>

definition atoll :: "string \<Rightarrow> int" where
  "atoll s = fst (strtol s)"

definition atoi :: "string \<Rightarrow> int" where
  "atoi s = int32 (fst (strtol s))"

lemma is_digit_not_sign: "is_digit c \<Longrightarrow> c \<noteq> CHR ''-'' \<and> c \<noteq> CHR ''+''"
  by (auto simp: is_digit_def digit_val_def Let_def)

lemma show_nat_Cons: "\<exists>c cs. show_nat n = c # cs \<and> is_digit c"
proof -
  obtain c cs where "show_nat n = c # cs" by (cases "show_nat n") auto
  moreover from this have "is_digit c" using show_nat_digits [of c n] by simp
  ultimately show ?thesis by blast
qed

lemma dropWhile_space_digits:
  "is_digit c \<Longrightarrow> dropWhile is_space (c # cs) = c # cs"
  by (simp add: digit_not_space)

lemma scan_int_show_int:
  assumes "no_digit_first rest"
  shows "scan_int (show_int i @ rest) = Some (i < 0, nat \<bar>i\<bar>, rest)"
proof (cases "i < 0")
  case True
  obtain c cs where c: "show_nat (nat (- i)) = c # cs" "is_digit c" using show_nat_Cons by blast
  have sp: "\<not> is_space CHR ''-''" by (simp add: is_space_def Let_def)
  have "read_digits 0 (show_nat (nat (- i)) @ rest) = (nat (- i), rest)"
    using assms by (rule read_digits_show_nat)
  with True c sp show ?thesis
    by (simp add: scan_int_def show_int_def scan_sign_def)
next
  case False
  obtain c cs where c: "show_nat (nat i) = c # cs" "is_digit c" using show_nat_Cons by blast
  have "read_digits 0 (show_nat (nat i) @ rest) = (nat i, rest)"
    using assms by (rule read_digits_show_nat)
  with False c show ?thesis
    by (simp add: scan_int_def show_int_def scan_sign_def digit_not_space is_digit_not_sign
        del: read_digits.simps)
qed

lemma strtol_show_int:
  assumes "no_digit_first rest" "long_min \<le> i" "i \<le> long_max"
  shows "strtol (show_int i @ rest) = (i, rest)"
  using assms by (simp add: strtol_def scan_int_show_int Let_def)

lemma atoi_show_int: "- (2 ^ 31) \<le> i \<Longrightarrow> i < 2 ^ 31 \<Longrightarrow> atoi (show_int i) = i"
  using strtol_show_int [of "[]" i]
  by (simp add: atoi_def long_min_def long_max_def)

lemma atoll_show_int: "long_min \<le> i \<Longrightarrow> i \<le> long_max \<Longrightarrow> atoll (show_int i) = i"
  using strtol_show_int [of "[]" i] by (simp add: atoll_def)

lemma strtol_range: "long_min \<le> fst (strtol s) \<and> fst (strtol s) \<le> long_max"
  by (auto simp: strtol_def long_min_def long_max_def Let_def split: option.splits prod.splits)

section \<open>\<open>std::string\<close> searches\<close>

text \<open>\<open>find\<close> of a character, from the left and from the right; \<open>None\<close> is \<open>npos\<close>.\<close>

fun find_char :: "char \<Rightarrow> string \<Rightarrow> nat option" where
  "find_char c [] = None"
| "find_char c (x # xs) = (if x = c then Some 0 else map_option Suc (find_char c xs))"

definition find_last_char :: "char \<Rightarrow> string \<Rightarrow> nat option" where
  "find_last_char c s = map_option (\<lambda>i. length s - 1 - i) (find_char c (rev s))"

definition substr :: "nat \<Rightarrow> nat \<Rightarrow> string \<Rightarrow> string" where
  "substr pos len s = take len (drop pos s)"

fun is_prefix :: "string \<Rightarrow> string \<Rightarrow> bool" where
  "is_prefix [] s = True"
| "is_prefix (p # ps) [] = False"
| "is_prefix (p # ps) (c # cs) = (p = c \<and> is_prefix ps cs)"

fun find_sub :: "string \<Rightarrow> string \<Rightarrow> nat option" where
  "find_sub pat [] = (if pat = [] then Some 0 else None)"
| "find_sub pat (c # cs) =
     (if is_prefix pat (c # cs) then Some 0 else map_option Suc (find_sub pat cs))"

lemma find_char_None: "find_char c s = None \<longleftrightarrow> c \<notin> set s"
  by (induction s) auto

lemma find_char_Some:
  "find_char c s = Some i \<Longrightarrow> i < length s \<and> s ! i = c \<and> c \<notin> set (take i s)"
  by (induction s arbitrary: i) (auto split: if_splits)

lemma find_char_append:
  "c \<notin> set xs \<Longrightarrow> find_char c (xs @ c # ys) = Some (length xs)"
  by (induction xs) auto

lemma find_last_char_None: "find_last_char c s = None \<longleftrightarrow> c \<notin> set s"
  by (simp add: find_last_char_def find_char_None)

lemma find_last_char_append:
  "c \<notin> set ys \<Longrightarrow> find_last_char c (xs @ c # ys) = Some (length xs)"
  using find_char_append [of c "rev ys" "rev xs"]
  by (simp add: find_last_char_def)

lemma is_prefix_iff: "is_prefix p s \<longleftrightarrow> (\<exists>r. s = p @ r)"
  by (induction p s rule: is_prefix.induct) auto

lemma is_prefix_append [simp]: "is_prefix p (p @ r)"
  by (auto simp: is_prefix_iff)

lemma find_sub_Some:
  "find_sub pat s = Some i \<Longrightarrow> i + length pat \<le> length s \<and> take (length pat) (drop i s) = pat"
proof (induction s arbitrary: i)
  case Nil
  then show ?case by (auto split: if_splits)
next
  case (Cons c cs)
  show ?case
  proof (cases "is_prefix pat (c # cs)")
    case True
    then obtain r where "c # cs = pat @ r" by (auto simp: is_prefix_iff)
    moreover have "i = 0" using True Cons.prems by simp
    moreover have "length (c # cs) = length (pat @ r)" using calculation by simp
    ultimately show ?thesis by simp
  next
    case False
    with Cons show ?thesis by auto
  qed
qed

lemma find_sub_first:
  "find_sub pat s = Some i \<Longrightarrow> j < i \<Longrightarrow> \<not> is_prefix pat (drop j s)"
proof (induction s arbitrary: i j)
  case Nil
  then show ?case by (auto split: if_splits)
next
  case (Cons c cs)
  then show ?case by (cases j) (auto split: if_splits)
qed

lemma find_sub_None: "find_sub pat s = None \<longleftrightarrow> (\<forall>j \<le> length s. \<not> is_prefix pat (drop j s))"
proof (induction s)
  case Nil
  then show ?case by (cases pat) auto
next
  case (Cons c cs)
  show ?case
  proof
    assume a: "find_sub pat (c # cs) = None"
    show "\<forall>j \<le> length (c # cs). \<not> is_prefix pat (drop j (c # cs))"
    proof (intro allI impI)
      fix j assume "j \<le> length (c # cs)"
      with a Cons show "\<not> is_prefix pat (drop j (c # cs))"
        by (cases j) (auto split: if_splits)
    qed
  next
    assume a: "\<forall>j \<le> length (c # cs). \<not> is_prefix pat (drop j (c # cs))"
    from a have "\<not> is_prefix pat (c # cs)" by (metis drop0 le0)
    moreover from a have "\<forall>j \<le> length cs. \<not> is_prefix pat (drop j cs)"
      by (metis Suc_le_mono drop_Suc_Cons length_Cons)
    ultimately show "find_sub pat (c # cs) = None" using Cons by simp
  qed
qed

section \<open>Binary searches\<close>

text \<open>
  Both searches are the same loop over a predicate "go right of this position":
  \<open>half = len / 2\<close>; right of the middle when the predicate holds there, left of it otherwise.
\<close>

function bisect :: "(nat \<Rightarrow> bool) \<Rightarrow> nat \<Rightarrow> nat \<Rightarrow> nat" where
  "bisect right first len =
     (if len = 0 then first
      else let half = len div 2; mid = first + half
           in if right mid then bisect right (mid + 1) (len - half - 1)
              else bisect right first half)"
  by pat_completeness auto
termination
  by (relation "measure (\<lambda>(right, first, len). len)") auto

declare bisect.simps [simp del]

definition lower_bound :: "('a \<Rightarrow> bool) \<Rightarrow> 'a list \<Rightarrow> nat" where
  "lower_bound goes_right xs = bisect (\<lambda>i. goes_right (xs ! i)) 0 (length xs)"

definition upper_bound :: "('a \<Rightarrow> bool) \<Rightarrow> 'a list \<Rightarrow> nat" where
  "upper_bound beyond xs = bisect (\<lambda>i. \<not> beyond (xs ! i)) 0 (length xs)"

lemma bisect_range: "first \<le> bisect right first len \<and> bisect right first len \<le> first + len"
proof (induction right first len rule: bisect.induct)
  case (1 right first len)
  show ?case
  proof (cases "len = 0")
    case True
    then show ?thesis by (simp add: bisect.simps)
  next
    case False
    let ?half = "len div 2"
    show ?thesis
    proof (cases "right (first + ?half)")
      case True
      with "1.IH"(1) [OF False refl refl] False show ?thesis
        by (simp add: bisect.simps [of right first len] Let_def)
    next
      case False2: False
      have "bisect right first ?half \<le> first + ?half"
        using "1.IH"(2) [OF False refl refl False2] by simp
      also have "\<dots> \<le> first + len" by simp
      finally show ?thesis
        using "1.IH"(2) [OF False refl refl False2] False False2
        by (simp add: bisect.simps [of right first len] Let_def)
    qed
  qed
qed

lemma bisect_partition:
  assumes "\<And>i j. \<lbrakk>first \<le> i; i \<le> j; j < first + len; right j\<rbrakk> \<Longrightarrow> right i"
  shows "(\<forall>i. first \<le> i \<and> i < bisect right first len \<longrightarrow> right i) \<and>
         (\<forall>i. bisect right first len \<le> i \<and> i < first + len \<longrightarrow> \<not> right i)"
  using assms
proof (induction right first len rule: bisect.induct)
  case (1 right first len)
  show ?case
  proof (cases "len = 0")
    case True
    then show ?thesis by (auto simp: bisect.simps)
  next
    case False
    let ?half = "len div 2" and ?mid = "first + len div 2"
    show ?thesis
    proof (cases "right ?mid")
      case True
      have down: "\<And>i. first \<le> i \<Longrightarrow> i \<le> ?mid \<Longrightarrow> right i"
        using "1.prems" [of _ ?mid] True False by simp
      have ih: "(\<forall>i. ?mid + 1 \<le> i \<and> i < bisect right (?mid + 1) (len - ?half - 1) \<longrightarrow> right i) \<and>
        (\<forall>i. bisect right (?mid + 1) (len - ?half - 1) \<le> i \<and> i < ?mid + 1 + (len - ?half - 1) \<longrightarrow> \<not> right i)"
        by (rule "1.IH"(1) [OF False refl refl True]) (rule "1.prems", auto)
      have eq: "bisect right first len = bisect right (?mid + 1) (len - ?half - 1)"
        using True False by (simp add: bisect.simps [of right first len] Let_def)
      show ?thesis unfolding eq
        using ih down False by (auto simp: not_less_eq_eq) (metis not_less_eq_eq)
    next
      case nr: False
      have up: "\<And>i. ?mid \<le> i \<Longrightarrow> i < first + len \<Longrightarrow> \<not> right i"
        using "1.prems" [of ?mid] nr by auto
      have ih: "(\<forall>i. first \<le> i \<and> i < bisect right first ?half \<longrightarrow> right i) \<and>
        (\<forall>i. bisect right first ?half \<le> i \<and> i < first + ?half \<longrightarrow> \<not> right i)"
        by (rule "1.IH"(2) [OF False refl refl nr]) (rule "1.prems", auto)
      have eq: "bisect right first len = bisect right first ?half"
        using nr False by (simp add: bisect.simps [of right first len] Let_def)
      show ?thesis unfolding eq using ih up by (metis linorder_not_less)
    qed
  qed
qed

text \<open>On a sequence ordered by a key, the searches cut it at the key.\<close>

lemma lower_bound_sorted:
  fixes key :: "'a \<Rightarrow> 'b::linorder"
  assumes "sorted (map key xs)"
  shows "let p = lower_bound (\<lambda>x. key x < k) xs
         in p \<le> length xs \<and> (\<forall>i < p. key (xs ! i) < k) \<and>
            (\<forall>i. p \<le> i \<and> i < length xs \<longrightarrow> k \<le> key (xs ! i))"
proof -
  have mono: "\<And>i j. \<lbrakk>i \<le> j; j < length xs; key (xs ! j) < k\<rbrakk> \<Longrightarrow> key (xs ! i) < k"
    using sorted_nth_mono [OF assms] by fastforce
  have "lower_bound (\<lambda>x. key x < k) xs \<le> length xs"
    using bisect_range [of 0] by (simp add: lower_bound_def)
  moreover have "(\<forall>i. 0 \<le> i \<and> i < lower_bound (\<lambda>x. key x < k) xs \<longrightarrow> key (xs ! i) < k) \<and>
      (\<forall>i. lower_bound (\<lambda>x. key x < k) xs \<le> i \<and> i < 0 + length xs \<longrightarrow> \<not> key (xs ! i) < k)"
    unfolding lower_bound_def by (rule bisect_partition) (use mono in auto)
  ultimately show ?thesis unfolding Let_def by (auto simp only: not_less add_0 le0 simp_thms)
qed

lemma upper_bound_sorted:
  fixes key :: "'a \<Rightarrow> 'b::linorder"
  assumes "sorted (map key xs)"
  shows "let p = upper_bound (\<lambda>x. k < key x) xs
         in p \<le> length xs \<and> (\<forall>i < p. key (xs ! i) \<le> k) \<and>
            (\<forall>i. p \<le> i \<and> i < length xs \<longrightarrow> k < key (xs ! i))"
proof -
  have mono: "\<And>i j. \<lbrakk>i \<le> j; j < length xs; \<not> k < key (xs ! j)\<rbrakk> \<Longrightarrow> \<not> k < key (xs ! i)"
  proof -
    fix i j assume ij: "i \<le> j" "j < length xs" "\<not> k < key (xs ! j)"
    have "key (xs ! i) \<le> key (xs ! j)" using sorted_nth_mono [OF assms, of i j] ij by simp
    with ij(3) show "\<not> k < key (xs ! i)" by (simp add: not_less)
  qed
  have "upper_bound (\<lambda>x. k < key x) xs \<le> length xs"
    using bisect_range [of 0] by (simp add: upper_bound_def)
  moreover have "(\<forall>i. 0 \<le> i \<and> i < upper_bound (\<lambda>x. k < key x) xs \<longrightarrow> \<not> k < key (xs ! i)) \<and>
      (\<forall>i. upper_bound (\<lambda>x. k < key x) xs \<le> i \<and> i < 0 + length xs \<longrightarrow> \<not> \<not> k < key (xs ! i))"
    unfolding upper_bound_def by (rule bisect_partition) (use mono in auto)
  ultimately show ?thesis unfolding Let_def by (auto simp only: not_less add_0 le0 simp_thms)
qed

section \<open>The contract of \<open>std::sort\<close>\<close>

locale std_sort =
  fixes lt :: "'a \<Rightarrow> 'a \<Rightarrow> bool" and srt :: "'a list \<Rightarrow> 'a list"
  assumes srt_mset: "mset (srt xs) = mset xs"
    and srt_sorted: "sorted_wrt (\<lambda>x y. \<not> lt y x) (srt xs)"
begin

lemma srt_set: "set (srt xs) = set xs"
  by (metis srt_mset set_mset_mset)

lemma srt_length: "length (srt xs) = length xs"
  by (metis srt_mset size_mset)

lemma srt_empty: "srt xs = [] \<longleftrightarrow> xs = []"
  using srt_length [of xs] by (cases xs; cases "srt xs") auto

lemma srt_hd_least: "x \<in> set (srt xs) \<Longrightarrow> x = hd (srt xs) \<or> \<not> lt x (hd (srt xs))"
  using srt_sorted [of xs] by (cases "srt xs") auto

lemma srt_last_greatest: "x \<in> set (srt xs) \<Longrightarrow> x = last (srt xs) \<or> \<not> lt (last (srt xs)) x"
  using srt_sorted [of xs]
  by (cases "srt xs" rule: rev_cases) (auto simp: sorted_wrt_append)

end

text \<open>Insertion sort by a key is one sort that meets the contract.\<close>

lemma std_sort_sort_key:
  "std_sort (\<lambda>x y. key x < key y) (sort_key (key :: 'a \<Rightarrow> 'b::linorder))"
  by unfold_locales
    (use sorted_sort_key in \<open>auto simp: sorted_wrt_map not_less\<close>)

end
