(* ===== verification/Calendar.thy ===== *)
theory Calendar
  imports Std_Lib
begin

text \<open>
  The calendar functions of the C library that the program calls: \<open>gmtime_r\<close>, \<open>timegm\<close>,
  the two \<open>strftime\<close> formats it uses and \<open>sscanf\<close> with \<open>%d\<close> conversions. Days are
  counted from 1970-01-01 in the proleptic Gregorian calendar; \<open>tm_year\<close> counts from 1900
  and \<open>tm_mon\<close> from 0, as in C. \<open>gmtime_r\<close> is total here: years that do not fit an \<open>int\<close>,
  where the C function reports an overflow, are outside the model.
\<close>

record tm =
  tm_year :: int
  tm_mon :: int
  tm_mday :: int
  tm_hour :: int
  tm_min :: int
  tm_sec :: int

definition leap :: "int \<Rightarrow> bool" where
  "leap y \<longleftrightarrow> y mod 4 = 0 \<and> (y mod 100 \<noteq> 0 \<or> y mod 400 = 0)"

definition month_lengths :: "int \<Rightarrow> int list" where
  "month_lengths y = [31, if leap y then 29 else 28, 31, 30, 31, 30, 31, 31, 30, 31, 30, 31]"

definition days_before :: "int \<Rightarrow> int" where
  "days_before y = 365 * (y - 1970) + (y - 1969) div 4 - (y - 1901) div 100 + (y - 1601) div 400"

lemma days_before_epoch: "days_before 1970 = 0"
  by (simp add: days_before_def)

lemma div_step:
  fixes x k :: int
  assumes "0 < k"
  shows "(x + 1) div k = x div k + (if (x + 1) mod k = 0 then 1 else 0)"
proof -
  have r: "0 \<le> x mod k" "x mod k < k" using assms by simp_all
  have x: "x + 1 = k * (x div k) + (x mod k + 1)" using mult_div_mod_eq [of k x] by linarith
  have "x mod k + 1 = k \<or> x mod k + 1 < k" using r by linarith
  then show ?thesis
  proof
    assume "x mod k + 1 = k"
    with x have x': "x + 1 = k * (x div k + 1)" by (simp only: distrib_left mult_1_right)
    show ?thesis unfolding x' using assms by (simp del: distrib_left_numeral)
  next
    assume lt: "x mod k + 1 < k"
    have "(x + 1) div k = x div k"
      by (rule int_div_pos_eq [OF x]) (use r lt in linarith)+
    moreover have "(x + 1) mod k = x mod k + 1"
      by (rule int_mod_pos_eq [OF x]) (use r lt in linarith)+
    moreover have "x mod k + 1 \<noteq> 0" using r by linarith
    ultimately show ?thesis by (simp only: if_False add_0_right)
  qed
qed

lemma div_step_shift:
  fixes y k c :: int
  assumes "0 < k" "k dvd c"
  shows "(y + 1 - (c + 1)) div k = (y - (c + 1)) div k + (if y mod k = 0 then 1 else 0)"
proof -
  have e: "(y - (c + 1)) + 1 = y - c" "y + 1 - (c + 1) = y - c" by simp_all
  have "(y - c) mod k = (y - c mod k) mod k" by (rule mod_diff_right_eq [symmetric])
  then have m: "(y - c) mod k = y mod k" using assms(2) by (simp only: dvd_imp_mod_0 diff_zero)
  show ?thesis
    using div_step [OF assms(1), of "y - (c + 1)"] unfolding e m .
qed

lemma leap_count:
  "(B \<Longrightarrow> A) \<Longrightarrow> (C \<Longrightarrow> B) \<Longrightarrow>
   (if A \<and> (\<not> B \<or> C) then 1 else 0 :: int)
     = (if A then 1 else 0) - (if B then 1 else 0) + (if C then 1 else 0)"
  by (cases A; cases B; cases C) simp_all

lemma days_before_Suc: "days_before (y + 1) = days_before y + sum_list (month_lengths y)"
proof -
  have a: "(y + 1 - 1969) div 4 = (y - 1969) div 4 + (if y mod 4 = 0 then 1 else 0)"
    using div_step_shift [of 4 1968 y] by simp
  have b: "(y + 1 - 1901) div 100 = (y - 1901) div 100 + (if y mod 100 = 0 then 1 else 0)"
    using div_step_shift [of 100 1900 y] by simp
  have c: "(y + 1 - 1601) div 400 = (y - 1601) div 400 + (if y mod 400 = 0 then 1 else 0)"
    using div_step_shift [of 400 1600 y] by simp
  have d: "y mod 100 = 0 \<Longrightarrow> y mod 4 = 0"
    using mod_mod_cancel [of 4 100 y] by simp
  have e: "y mod 400 = 0 \<Longrightarrow> y mod 100 = 0"
    using mod_mod_cancel [of 100 400 y] by simp
  have s: "sum_list (month_lengths y) = 365 + (if leap y then 1 else 0)"
    by (simp add: month_lengths_def)
  have l: "(if leap y then 1 else 0 :: int) = (if y mod 4 = 0 then 1 else 0)
      - (if y mod 100 = 0 then 1 else 0) + (if y mod 400 = 0 then 1 else 0)"
    unfolding leap_def by (rule leap_count) (erule d, erule e)
  show ?thesis
    unfolding days_before_def a b c s l by (simp add: algebra_simps)
qed

lemma month_lengths_pos: "m \<in> set (month_lengths y) \<Longrightarrow> 28 \<le> m \<and> m \<le> 31"
  by (auto simp: month_lengths_def split: if_splits)

lemma length_month_lengths [simp]: "length (month_lengths y) = 12"
  by (simp add: month_lengths_def)

lemma year_length: "365 \<le> sum_list (month_lengths y) \<and> sum_list (month_lengths y) \<le> 366"
  by (simp add: month_lengths_def)

lemma days_before_less: "days_before y < days_before (y + 1)"
  using days_before_Suc [of y] year_length [of y] by linarith

section \<open>Days to dates\<close>

text \<open>The year of a day, searched from a first guess.\<close>

function civil_year :: "int \<Rightarrow> int \<Rightarrow> int" where
  "civil_year y d =
     (if d < days_before y then civil_year (y - 1) d
      else if days_before (y + 1) \<le> d then civil_year (y + 1) d else y)"
  by pat_completeness auto
termination
proof (relation "measure (\<lambda>(y, d). if d < days_before y then nat (days_before y - d)
    else if days_before (y + 1) \<le> d then nat (d - days_before y) else 0)", goal_cases)
  case 1
  show ?case by simp
next
  case (2 y d)
  then show ?case using days_before_less [of "y - 1"] by simp
next
  case (3 y d)
  then show ?case using days_before_less [of y] by simp
qed

declare civil_year.simps [simp del]

definition year_of_day :: "int \<Rightarrow> int" where
  "year_of_day d = civil_year (1970 + d * 400 div 146097) d"

lemma civil_year_bounds: "days_before (civil_year y d) \<le> d \<and> d < days_before (civil_year y d + 1)"
  by (induction y d rule: civil_year.induct) (subst (1 2) civil_year.simps, auto)

lemma year_of_day_bounds: "days_before (year_of_day d) \<le> d" "d < days_before (year_of_day d + 1)"
  using civil_year_bounds by (simp_all add: year_of_day_def)

text \<open>The month and the day of the month of a day of the year.\<close>

fun split_month :: "int list \<Rightarrow> int \<Rightarrow> int \<times> int" where
  "split_month [] k = (0, k)"
| "split_month (m # ms) k = (if k < m then (0, k) else (case split_month ms (k - m) of (i, r) \<Rightarrow> (i + 1, r)))"

lemma split_month_sum:
  assumes "0 \<le> k" "k < sum_list ms" "\<forall>m \<in> set ms. 0 < m"
  shows "(case split_month ms k of (i, r) \<Rightarrow>
     0 \<le> i \<and> i < int (length ms) \<and> 0 \<le> r \<and> r < ms ! nat i \<and> sum_list (take (nat i) ms) + r = k)"
  using assms
proof (induction ms arbitrary: k)
  case Nil
  then show ?case by simp
next
  case (Cons m ms)
  show ?case
  proof (cases "k < m")
    case True
    with Cons.prems show ?thesis by simp
  next
    case False
    obtain i r where ir: "split_month ms (k - m) = (i, r)" by fastforce
    with Cons.IH [of "k - m"] Cons.prems False
    have h: "0 \<le> i" "i < int (length ms)" "0 \<le> r" "r < ms ! nat i"
      "sum_list (take (nat i) ms) + r = k - m" by auto
    have "nat (i + 1) = Suc (nat i)" using h(1) by simp
    with ir h False show ?thesis by simp
  qed
qed

section \<open>\<open>gmtime_r\<close> and \<open>timegm\<close>\<close>

definition tm_of :: "int \<Rightarrow> int \<Rightarrow> tm" where
  "tm_of d s =
     (let y = year_of_day d; (m, r) = split_month (month_lengths y) (d - days_before y)
      in \<lparr>tm_year = y - 1900, tm_mon = m, tm_mday = r + 1,
          tm_hour = s div 3600, tm_min = s mod 3600 div 60, tm_sec = s mod 60\<rparr>)"

definition gmtime :: "int \<Rightarrow> tm" where
  "gmtime t = tm_of (t div 86400) (t mod 86400)"

text \<open>\<open>timegm\<close> accepts fields out of their ranges: a month past the year moves the year.\<close>

definition timegm :: "tm \<Rightarrow> int" where
  "timegm b =
     (let y = 1900 + tm_year b + tm_mon b div 12; m = tm_mon b mod 12
      in 86400 * (days_before y + sum_list (take (nat m) (month_lengths y)) + (tm_mday b - 1))
         + 3600 * tm_hour b + 60 * tm_min b + tm_sec b)"

lemma split_hms: "(s::int) = 3600 * (s div 3600) + 60 * (s mod 3600 div 60) + s mod 60"
proof -
  have a: "s = 3600 * (s div 3600) + s mod 3600" by simp
  have b: "s mod 3600 = 60 * (s mod 3600 div 60) + s mod 3600 mod 60" by simp
  have c: "s mod 3600 mod 60 = s mod 60" by (rule mod_mod_cancel) simp
  show ?thesis using a b c by linarith
qed

lemma split_hms_range:
  fixes s :: int
  assumes "0 \<le> s" "s < 86400"
  shows "0 \<le> s div 3600" "s div 3600 < 24" "0 \<le> s mod 3600 div 60" "s mod 3600 div 60 < 60"
    "0 \<le> s mod 60" "s mod 60 < 60"
proof -
  have m: "0 \<le> s mod 3600" "s mod 3600 < 3600" by simp_all
  show "0 \<le> s div 3600" "s div 3600 < 24" using assms by linarith+
  show "0 \<le> s mod 3600 div 60" "s mod 3600 div 60 < 60" using m by linarith+
  show "0 \<le> s mod 60" "s mod 60 < 60" by simp_all
qed

definition tm_valid :: "tm \<Rightarrow> bool" where
  "tm_valid b \<longleftrightarrow> 0 \<le> tm_mon b \<and> tm_mon b < 12 \<and>
     1 \<le> tm_mday b \<and> tm_mday b \<le> month_lengths (1900 + tm_year b) ! nat (tm_mon b) \<and>
     0 \<le> tm_hour b \<and> tm_hour b < 24 \<and> 0 \<le> tm_min b \<and> tm_min b < 60 \<and>
     0 \<le> tm_sec b \<and> tm_sec b < 60"

lemma tm_of_day:
  obtains m r where "split_month (month_lengths (year_of_day d)) (d - days_before (year_of_day d)) = (m, r)"
    "0 \<le> m" "m < 12" "0 \<le> r" "r < month_lengths (year_of_day d) ! nat m"
    "sum_list (take (nat m) (month_lengths (year_of_day d))) + r = d - days_before (year_of_day d)"
proof -
  let ?y = "year_of_day d" and ?k = "d - days_before (year_of_day d)"
  have "0 \<le> ?k" "?k < sum_list (month_lengths ?y)"
    using year_of_day_bounds [of d] days_before_Suc [of ?y] by simp_all
  moreover have "\<forall>m \<in> set (month_lengths ?y). 0 < m" using month_lengths_pos by fastforce
  ultimately have "(case split_month (month_lengths ?y) ?k of (i, r) \<Rightarrow>
     0 \<le> i \<and> i < int (length (month_lengths ?y)) \<and> 0 \<le> r \<and> r < month_lengths ?y ! nat i \<and>
     sum_list (take (nat i) (month_lengths ?y)) + r = ?k)"
    by (rule split_month_sum)
  then show ?thesis by (auto split: prod.splits intro: that)
qed

lemma tm_of_eq:
  "split_month (month_lengths (year_of_day d)) (d - days_before (year_of_day d)) = (m, r) \<Longrightarrow>
   tm_of d s = \<lparr>tm_year = year_of_day d - 1900, tm_mon = m, tm_mday = r + 1,
     tm_hour = s div 3600, tm_min = s mod 3600 div 60, tm_sec = s mod 60\<rparr>"
  by (simp only: tm_of_def Let_def prod.case)

lemma tm_of_valid:
  assumes "0 \<le> s" "s < 86400"
  shows "tm_valid (tm_of d s)"
proof -
  obtain m r where d: "split_month (month_lengths (year_of_day d)) (d - days_before (year_of_day d)) = (m, r)"
    "0 \<le> m" "m < 12" "0 \<le> r" "r < month_lengths (year_of_day d) ! nat m"
    by (rule tm_of_day)
  then have "1 \<le> r + 1" "r + 1 \<le> month_lengths (1900 + (year_of_day d - 1900)) ! nat m" by simp_all
  then show ?thesis
    unfolding tm_of_eq [OF d(1)] tm_valid_def tm.select_convs
    by (intro conjI d split_hms_range assms)
qed

lemma tm_of_day_sum:
  "days_before (1900 + tm_year (tm_of d s))
     + sum_list (take (nat (tm_mon (tm_of d s))) (month_lengths (1900 + tm_year (tm_of d s))))
     + (tm_mday (tm_of d s) - 1) = d"
proof -
  obtain m r where d: "split_month (month_lengths (year_of_day d)) (d - days_before (year_of_day d)) = (m, r)"
    "sum_list (take (nat m) (month_lengths (year_of_day d))) + r = d - days_before (year_of_day d)"
    by (rule tm_of_day)
  then show ?thesis
    unfolding tm_of_eq [OF d(1)] tm.select_convs by simp
qed

lemma tm_of_secs: "3600 * tm_hour (tm_of d s) + 60 * tm_min (tm_of d s) + tm_sec (tm_of d s) = s"
proof -
  obtain m r where d: "split_month (month_lengths (year_of_day d)) (d - days_before (year_of_day d)) = (m, r)"
    by (meson surj_pair)
  show ?thesis
    unfolding tm_of_eq [OF d] tm.select_convs by (rule split_hms [symmetric])
qed

lemma gmtime_valid: "tm_valid (gmtime t)"
  unfolding gmtime_def by (rule tm_of_valid) simp_all

lemma gmtime_mon: "0 \<le> tm_mon (gmtime t)" "tm_mon (gmtime t) < 12"
  using gmtime_valid [of t] by (simp_all add: tm_valid_def)

lemma timegm_in_range:
  assumes "0 \<le> tm_mon b" "tm_mon b < 12"
  shows "timegm b = 86400 * (days_before (1900 + tm_year b)
      + sum_list (take (nat (tm_mon b)) (month_lengths (1900 + tm_year b))) + (tm_mday b - 1))
      + (3600 * tm_hour b + 60 * tm_min b + tm_sec b)"
  using assms by (simp add: timegm_def Let_def)

lemma timegm_gmtime [simp]: "timegm (gmtime t) = t"
  unfolding timegm_in_range [OF gmtime_mon] unfolding gmtime_def tm_of_day_sum tm_of_secs by simp

section \<open>\<open>strftime\<close>\<close>

text \<open>\<open>%m\<close>, \<open>%d\<close>, \<open>%H\<close>, \<open>%M\<close> and \<open>%S\<close> print two digits; \<open>%Y\<close> prints the year as a number.\<close>

definition pad2 :: "int \<Rightarrow> string" where
  "pad2 v = (if 0 \<le> v \<and> v < 10 then CHR ''0'' # show_int v else show_int v)"

definition strftime_date :: "tm \<Rightarrow> string" where
  "strftime_date b = show_int (1900 + tm_year b) @ ''-'' @ pad2 (tm_mon b + 1) @ ''-'' @ pad2 (tm_mday b)"

definition strftime_datetime :: "tm \<Rightarrow> string" where
  "strftime_datetime b = strftime_date b @ '' '' @ pad2 (tm_hour b) @ '':'' @ pad2 (tm_min b) @ '':'' @ pad2 (tm_sec b)"

section \<open>\<open>sscanf\<close>\<close>

datatype scan_item = ScanInt | ScanLit char | ScanWs

text \<open>The values stored before the first conversion or literal that does not match.\<close>

fun sscanf :: "scan_item list \<Rightarrow> string \<Rightarrow> int list" where
  "sscanf [] s = []"
| "sscanf (ScanInt # fs) s =
     (case scan_int s of None \<Rightarrow> []
      | Some (neg, n, rest) \<Rightarrow> int32 (fst (strtol s)) # sscanf fs rest)"
| "sscanf (ScanLit c # fs) s = (case s of [] \<Rightarrow> [] | x # xs \<Rightarrow> if x = c then sscanf fs xs else [])"
| "sscanf (ScanWs # fs) s = sscanf fs (dropWhile is_space s)"

lemma scan_int_zero:
  "is_digit c \<Longrightarrow> scan_int (CHR ''0'' # c # s) = scan_int (c # s)"
proof -
  assume c: "is_digit c"
  have z: "\<not> is_space CHR ''0''" "is_digit CHR ''0''" "digit_val CHR ''0'' = Some 0"
    by (simp_all add: is_space_def is_digit_def digit_val_def Let_def)
  then show ?thesis using c
    by (simp add: scan_int_def scan_sign_def digit_not_space is_digit_not_sign)
qed

lemma show_int_nonneg_Cons: "0 \<le> v \<Longrightarrow> \<exists>c cs. show_int v = c # cs \<and> is_digit c"
  using show_nat_Cons by (simp add: show_int_def)

lemma scan_int_pad2:
  assumes "0 \<le> v" "no_digit_first rest"
  shows "scan_int (pad2 v @ rest) = Some (False, nat v, rest)"
proof -
  obtain c cs where c: "show_int v = c # cs" "is_digit c"
    using show_int_nonneg_Cons [OF assms(1)] by blast
  have "scan_int (show_int v @ rest) = Some (False, nat v, rest)"
    using scan_int_show_int [OF assms(2), of v] assms(1) by simp
  with c scan_int_zero [OF c(2), of "cs @ rest"] show ?thesis by (simp add: pad2_def)
qed

lemma strtol_of_scan:
  "scan_int s = Some (neg, n, rest) \<Longrightarrow> n < 2 ^ 31 \<Longrightarrow>
   int32 (fst (strtol s)) = (if neg then - int n else int n)"
  by (simp add: strtol_def long_min_def long_max_def Let_def)

section \<open>Dates to days\<close>

lemma days_before_mono: "y \<le> z \<Longrightarrow> days_before y \<le> days_before z"
proof (induction "nat (z - y)" arbitrary: z)
  case 0
  then show ?case by simp
next
  case (Suc n)
  then have "days_before y \<le> days_before (z - 1)" by simp
  also have "\<dots> \<le> days_before z" using days_before_less [of "z - 1"] by simp
  finally show ?case .
qed

lemma year_of_day_unique:
  assumes "days_before y \<le> d" "d < days_before (y + 1)"
  shows "year_of_day d = y"
proof (rule ccontr)
  assume "year_of_day d \<noteq> y"
  then consider "year_of_day d + 1 \<le> y" | "y + 1 \<le> year_of_day d" by linarith
  then show False
    using days_before_mono year_of_day_bounds [of d] assms by cases fastforce+
qed

lemma year_of_day_ge: "y \<le> year_of_day d \<longleftrightarrow> days_before y \<le> d"
proof
  assume "y \<le> year_of_day d"
  with days_before_mono year_of_day_bounds(1) [of d] show "days_before y \<le> d" by fastforce
next
  assume d: "days_before y \<le> d"
  show "y \<le> year_of_day d"
  proof (rule ccontr)
    assume "\<not> y \<le> year_of_day d"
    then have "days_before (year_of_day d + 1) \<le> days_before y" by (intro days_before_mono) simp
    with d year_of_day_bounds(2) [of d] show False by simp
  qed
qed

lemma split_month_inverse:
  "i < length ms \<Longrightarrow> 0 \<le> r \<Longrightarrow> r < ms ! i \<Longrightarrow> \<forall>m \<in> set ms. 0 < m \<Longrightarrow>
   split_month ms (sum_list (take i ms) + r) = (int i, r)"
proof (induction ms arbitrary: i)
  case Nil
  then show ?case by simp
next
  case (Cons m ms)
  show ?case
  proof (cases i)
    case 0
    with Cons.prems show ?thesis by simp
  next
    case (Suc j)
    have "0 \<le> sum_list (take j ms)"
      by (rule sum_list_nonneg) (use Cons.prems in \<open>auto dest!: in_set_takeD\<close>)
    with Suc Cons show ?thesis by simp
  qed
qed

lemma sum_take_less:
  "i < length ms \<Longrightarrow> \<forall>m \<in> set ms. (0::int) < m \<Longrightarrow> sum_list (take i ms) + ms ! i \<le> sum_list ms"
proof (induction ms arbitrary: i)
  case Nil
  then show ?case by simp
next
  case (Cons m ms)
  have "0 \<le> sum_list ms" by (rule sum_list_nonneg) (use Cons.prems in auto)
  with Cons show ?case by (cases i) auto
qed

lemma tm_of_day_inverse:
  assumes "0 \<le> m" "m < 12" "0 \<le> r" "r < month_lengths y ! nat m"
  shows "tm_of (days_before y + sum_list (take (nat m) (month_lengths y)) + r) s =
    \<lparr>tm_year = y - 1900, tm_mon = m, tm_mday = r + 1,
     tm_hour = s div 3600, tm_min = s mod 3600 div 60, tm_sec = s mod 60\<rparr>"
proof -
  let ?d = "days_before y + sum_list (take (nat m) (month_lengths y)) + r"
  have pos: "\<forall>k \<in> set (month_lengths y). 0 < k" using month_lengths_pos by fastforce
  have i: "nat m < length (month_lengths y)" using assms by auto
  have "0 \<le> sum_list (take (nat m) (month_lengths y))"
    by (rule sum_list_nonneg) (use pos in \<open>auto dest!: in_set_takeD\<close>)
  then have "year_of_day ?d = y"
    using sum_take_less [OF i pos] assms days_before_Suc [of y]
    by (intro year_of_day_unique) simp_all
  moreover have "split_month (month_lengths y) (sum_list (take (nat m) (month_lengths y)) + r) = (m, r)"
    using split_month_inverse [OF i assms(3,4) pos] assms(1) by simp
  ultimately show ?thesis using tm_of_eq [of ?d m r s] by (simp add: add.assoc)
qed

text \<open>The first instant of a month reads back as that month.\<close>

lemma gmtime_month_start:
  assumes "0 \<le> m" "m < 12"
  shows "gmtime (86400 * (days_before (1900 + y) + sum_list (take (nat m) (month_lengths (1900 + y)))))
    = \<lparr>tm_year = y, tm_mon = m, tm_mday = 1, tm_hour = 0, tm_min = 0, tm_sec = 0\<rparr>"
proof -
  have i: "nat m < length (month_lengths (1900 + y))" using assms by auto
  have "month_lengths (1900 + y) ! nat m \<in> set (month_lengths (1900 + y))" by (rule nth_mem [OF i])
  then have "0 < month_lengths (1900 + y) ! nat m" using month_lengths_pos by fastforce
  from tm_of_day_inverse [OF assms order_refl this, of 0] show ?thesis
    unfolding gmtime_def by (simp del: distrib_left_numeral)
qed

end
