(* ===== verification/Common.thy ===== *)
theory Common
  imports Calendar
begin

text \<open>
  \<open>src/common.cpp\<close>, \<open>src/common.hpp\<close> and \<open>src/common/numeric.hpp\<close>: checked number
  conversions, time formatting and parsing, day and month boundaries, and the extraction of
  the integers embedded in a text. A conversion that throws is a \<open>Throws\<close> outcome with the
  message; the text of \<open>__PRETTY_FUNCTION__\<close> is the parameter \<open>pf\<close>, indexed by the function.
\<close>

section \<open>Number conversions\<close>

text \<open>The instances of \<open>to<T>\<close> over the C scanners.\<close>

datatype num_type = TInt | TUnsigned | TUShort | TLong | TLongLong | TULong | TULongLong

definition narrow :: "num_type \<Rightarrow> int \<Rightarrow> int" where
  "narrow k v = (case k of TInt \<Rightarrow> int32 v | TUnsigned \<Rightarrow> uint32 v | TUShort \<Rightarrow> v mod 2 ^ 16
     | TLong \<Rightarrow> int64 v | TLongLong \<Rightarrow> int64 v | TULong \<Rightarrow> uint64 v | TULongLong \<Rightarrow> uint64 v)"

definition is_signed :: "num_type \<Rightarrow> bool" where
  "is_signed k = (case k of TInt \<Rightarrow> True | TLong \<Rightarrow> True | TLongLong \<Rightarrow> True | _ \<Rightarrow> False)"

definition c_cast :: "num_type \<Rightarrow> string \<Rightarrow> int \<times> string" where
  "c_cast k s = (if is_signed k then strtol s else strtoul s)"

definition numeric_cast :: "(string \<Rightarrow> string) \<Rightarrow> num_type \<Rightarrow> int \<Rightarrow> int outcome" where
  "numeric_cast pf k src =
     (if narrow k src \<noteq> src
      then Throws (''['' @ pf ''numeric_cast'' @ ''] cannot convert from '' @ show_int src)
      else Ok (narrow k src))"

definition to_number :: "(string \<Rightarrow> string) \<Rightarrow> num_type \<Rightarrow> string \<Rightarrow> int outcome" where
  "to_number pf k str =
     (let (v, rest) = c_cast k str
      in bind_outcome (numeric_cast pf k v)
           (\<lambda>result. if rest \<noteq> []
              then Throws (''['' @ pf ''to_number'' @ ''] Cannot convert string \"'' @ str @ ''\" '')
              else Ok result))"

text \<open>\<open>to<T>(std::string const&)\<close> goes through \<open>c_str\<close>; \<open>safe_to\<close> turns a throw into \<open>T{}\<close>.\<close>

definition to :: "(string \<Rightarrow> string) \<Rightarrow> num_type \<Rightarrow> string \<Rightarrow> int outcome" where
  "to pf k s = to_number pf k (c_str s)"

definition safe_to :: "(string \<Rightarrow> string) \<Rightarrow> num_type \<Rightarrow> string \<Rightarrow> int" where
  "safe_to pf k s = (case to pf k s of Ok v \<Rightarrow> v | _ \<Rightarrow> 0)"

definition type_range :: "num_type \<Rightarrow> int \<Rightarrow> bool" where
  "type_range k v = (case k of
       TInt \<Rightarrow> - (2 ^ 31) \<le> v \<and> v < 2 ^ 31 | TUnsigned \<Rightarrow> 0 \<le> v \<and> v < 2 ^ 32
     | TUShort \<Rightarrow> 0 \<le> v \<and> v < 2 ^ 16
     | TLong \<Rightarrow> - (2 ^ 63) \<le> v \<and> v < 2 ^ 63 | TLongLong \<Rightarrow> - (2 ^ 63) \<le> v \<and> v < 2 ^ 63
     | TULong \<Rightarrow> 0 \<le> v \<and> v < 2 ^ 64 | TULongLong \<Rightarrow> 0 \<le> v \<and> v < 2 ^ 64)"

lemma narrow_id_iff: "narrow k v = v \<longleftrightarrow> type_range k v"
proof -
  have m: "(x mod n = x) = (0 \<le> x \<and> x < n)" if "0 < n" for x n :: int
    using that by (metis mod_pos_pos_trivial pos_mod_bound pos_mod_sign)
  have "((v + 2 ^ 31) mod 2 ^ 32 - 2 ^ 31 = v) = ((v + 2 ^ 31) mod 2 ^ 32 = v + 2 ^ 31)" by linarith
  moreover have "((v + 2 ^ 63) mod 2 ^ 64 - 2 ^ 63 = v) = ((v + 2 ^ 63) mod 2 ^ 64 = v + 2 ^ 63)" by linarith
  ultimately show ?thesis
    by (cases k) (auto simp: narrow_def type_range_def int32_def int64_def uint32_def uint64_def m)
qed

lemma numeric_cast_Ok: "numeric_cast pf k v = Ok w \<longleftrightarrow> w = v \<and> type_range k v"
  using narrow_id_iff [of k v] by (auto simp: numeric_cast_def)

lemma to_Ok_iff:
  "to pf k s = Ok v \<longleftrightarrow> c_cast k (c_str s) = (v, []) \<and> type_range k v"
  by (cases "c_cast k (c_str s)")
    (auto simp: to_def to_number_def numeric_cast_Ok split: if_splits)

lemma c_str_show_int: "c_str (show_int v) = show_int v"
proof (rule c_str_id)
  have "char_of (0 :: nat) \<notin> set (show_nat n)" for n
    using show_nat_digits [of "char_of (0 :: nat)" n] by (auto simp: is_digit_def digit_val_def)
  moreover have "char_of (0 :: nat) \<noteq> CHR ''-''" by (simp add: char_of_def)
  ultimately show "char_of (0 :: nat) \<notin> set (show_int v)" by (simp add: show_int_def)
qed

lemma strtoul_show_int:
  "no_digit_first rest \<Longrightarrow> 0 \<le> v \<Longrightarrow> v < 2 ^ 64 \<Longrightarrow> strtoul (show_int v @ rest) = (v, rest)"
  by (auto simp: strtoul_def scan_int_show_int ulong_max_def uint64_def)

lemma c_cast_show_int: "type_range k v \<Longrightarrow> c_cast k (show_int v) = (v, [])"
  using strtol_show_int [of "[]" v] strtoul_show_int [of "[]" v]
  by (cases k) (simp_all add: c_cast_def is_signed_def type_range_def long_min_def long_max_def)

section \<open>Text\<close>

definition escape_string :: "string \<Rightarrow> string" where
  "escape_string s = filter (\<lambda>c. of_char c \<notin> {0x27 :: nat, 0x22, 0x3f, 0x5c}) s"

text \<open>
  \<open>extractIntegralValues\<close>: maximal runs of digits and minus signs, each converted on its own;
  a run that does not convert is dropped. \<open>put\<close> is \<open>push_back\<close> or the \<open>insert\<close> of a set.
\<close>

definition number_char :: "char \<Rightarrow> bool" where
  "number_char c \<longleftrightarrow> is_digit c \<or> c = CHR ''-''"

definition store_number ::
  "(string \<Rightarrow> string) \<Rightarrow> num_type \<Rightarrow> (int \<Rightarrow> 'c \<Rightarrow> 'c) \<Rightarrow> string \<Rightarrow> 'c \<Rightarrow> 'c" where
  "store_number pf k put number c = (case to pf k number of Ok v \<Rightarrow> put v c | _ \<Rightarrow> c)"

fun extract_loop ::
  "(string \<Rightarrow> string) \<Rightarrow> num_type \<Rightarrow> (int \<Rightarrow> 'c \<Rightarrow> 'c) \<Rightarrow> string \<Rightarrow> string \<Rightarrow> 'c \<Rightarrow> 'c" where
  "extract_loop pf k put number [] c =
     (if number \<noteq> [] then store_number pf k put number c else c)"
| "extract_loop pf k put number (x # xs) c =
     (if number_char x then extract_loop pf k put (number @ [x]) xs c
      else if number \<noteq> [] then extract_loop pf k put [] xs (store_number pf k put number c)
      else extract_loop pf k put number xs c)"

definition extractIntegralValues :: "(string \<Rightarrow> string) \<Rightarrow> num_type \<Rightarrow> string \<Rightarrow> int list" where
  "extractIntegralValues pf k s = extract_loop pf k (\<lambda>v c. c @ [v]) [] s []"

definition extractIntegralValuesToSet :: "(string \<Rightarrow> string) \<Rightarrow> num_type \<Rightarrow> string \<Rightarrow> int set" where
  "extractIntegralValuesToSet pf k s = extract_loop pf k insert [] s {}"

lemma extract_loop_run:
  "\<forall>x \<in> set ds. number_char x \<Longrightarrow>
   extract_loop pf k put number (ds @ xs) c = extract_loop pf k put (number @ ds) xs c"
  by (induction ds arbitrary: number) auto

lemma number_char_show_int: "x \<in> set (show_int v) \<Longrightarrow> number_char x"
  by (auto simp: show_int_def number_char_def show_nat_digits split: if_splits)

lemma store_show_int: "type_range k v \<Longrightarrow> store_number pf k put (show_int v) c = put v c"
proof -
  assume "type_range k v"
  then have "to pf k (show_int v) = Ok v" by (simp add: to_Ok_iff c_str_show_int c_cast_show_int)
  then show ?thesis by (simp add: store_number_def)
qed

lemma show_int_nonempty [simp]: "show_int v \<noteq> []"
  by (simp add: show_int_def)

lemma extract_loop_join:
  assumes "\<forall>v \<in> set vs. type_range k v" "\<not> number_char sep"
  shows "extract_loop pf k put [] (join_strings [sep] (map show_int vs)) c = fold put vs c"
  using assms
proof (induction vs arbitrary: c rule: induct_list012)
  case 1
  then show ?case by simp
next
  case (2 v)
  have "extract_loop pf k put [] (show_int v @ []) c = extract_loop pf k put ([] @ show_int v) [] c"
    by (rule extract_loop_run) (simp add: number_char_show_int)
  with 2 show ?case by (simp add: store_show_int)
next
  case (3 v w ws)
  let ?rest = "join_strings [sep] (map show_int (w # ws))"
  have run: "extract_loop pf k put [] (show_int v @ sep # ?rest) c
      = extract_loop pf k put ([] @ show_int v) (sep # ?rest) c"
    by (rule extract_loop_run) (simp add: number_char_show_int)
  have "extract_loop pf k put [] ?rest (put v c) = fold put (w # ws) (put v c)"
    using 3 by simp
  with run 3 show ?case by (simp add: store_show_int)
qed

lemma extract_loop_abs:
  assumes "\<And>v c. abs_c (put v c) = put' v (abs_c c)"
  shows "abs_c (extract_loop pf k put number s c) = extract_loop pf k put' number s (abs_c c)"
  using assms
  by (induction pf k put number s c rule: extract_loop.induct)
    (simp_all add: store_number_def split: outcome.split)

section \<open>Times\<close>

definition epoch_1900 :: "tm \<Rightarrow> tm" where
  "epoch_1900 b = b\<lparr>tm_year := 0, tm_mon := 0, tm_mday := 1\<rparr>"

definition string_time :: "int \<Rightarrow> string" where
  "string_time dt =
     (let b = gmtime dt
      in strftime_datetime
           (if tm_year b < 0 \<or> tm_year b > 3000
            then (epoch_1900 b)\<lparr>tm_hour := 0, tm_min := 0, tm_sec := 0\<rparr> else b))"

text \<open>The constant the source names after the year 5001.\<close>

definition UNIXTIME_50010101 :: int where
  "UNIXTIME_50010101 = 95649120000"

definition string_date :: "int \<Rightarrow> string" where
  "string_date dt =
     (if dt > UNIXTIME_50010101 then ''5000-01-01''
      else let b = gmtime dt
           in strftime_date (if tm_year b < 0 \<or> tm_year b > 3000 then epoch_1900 b else b))"

text \<open>
  \<open>parseDateTime\<close> leaves the fields that \<open>sscanf\<close> does not reach as they were in the
  uninitialised \<open>struct tm\<close>: the parameter \<open>g\<close>.
\<close>

definition datetime_format :: "scan_item list" where
  "datetime_format = [ScanInt, ScanLit CHR ''-'', ScanInt, ScanLit CHR ''-'', ScanInt, ScanWs,
     ScanInt, ScanLit CHR '':'', ScanInt, ScanLit CHR '':'', ScanInt]"

definition fill_tm :: "tm \<Rightarrow> int list \<Rightarrow> tm" where
  "fill_tm g vs =
     (let at = (\<lambda>i d. if i < length vs then vs ! i else d)
      in \<lparr>tm_year = at 0 (tm_year g), tm_mon = at 1 (tm_mon g), tm_mday = at 2 (tm_mday g),
          tm_hour = at 3 (tm_hour g), tm_min = at 4 (tm_min g), tm_sec = at 5 (tm_sec g)\<rparr>)"

definition parseDateTime :: "tm \<Rightarrow> string \<Rightarrow> int" where
  "parseDateTime g str =
     (let vs = sscanf datetime_format str
      in if length vs > 0
         then let b = fill_tm g vs in timegm (b\<lparr>tm_year := tm_year b - 1900, tm_mon := tm_mon b - 1\<rparr>)
         else 0)"

definition midnight :: "tm \<Rightarrow> tm" where
  "midnight b = b\<lparr>tm_hour := 0, tm_min := 0, tm_sec := 0\<rparr>"

definition get_day_ts :: "int \<Rightarrow> int \<Rightarrow> int" where
  "get_day_ts timestamp timezone_offset =
     (let b = gmtime (timestamp + 3600 * timezone_offset)
      in timegm (midnight b) - 3600 * timezone_offset)"

definition get_day_end_ts :: "int \<Rightarrow> int \<Rightarrow> int" where
  "get_day_end_ts timestamp timezone_offset = get_day_ts timestamp timezone_offset + 86399"

definition get_month_ts :: "int \<Rightarrow> int \<Rightarrow> int" where
  "get_month_ts timestamp timezone_offset =
     (let b = gmtime (timestamp + 3600 * timezone_offset)
      in timegm ((midnight b)\<lparr>tm_mday := 1\<rparr>) - 3600 * timezone_offset)"

definition advance_month :: "tm \<Rightarrow> tm" where
  "advance_month b =
     (let b = b\<lparr>tm_mon := tm_mon b + 1\<rparr>
      in if tm_mon b = 12 then b\<lparr>tm_mon := 0, tm_year := tm_year b + 1\<rparr> else b)"

definition get_month_end_ts :: "int \<Rightarrow> int \<Rightarrow> int" where
  "get_month_end_ts timestamp timezone_offset =
     (let b = (midnight (gmtime (timestamp + 3600 * timezone_offset)))\<lparr>tm_mday := 1\<rparr>;
          b = advance_month b
      in timegm b - 1 - 3600 * timezone_offset)"

lemma no_digit_colon [simp]: "\<not> is_digit CHR '':''" "\<not> is_digit CHR ''-''" "\<not> is_digit CHR '' ''"
  by (simp_all add: is_digit_def digit_val_def Let_def)

lemma pad2_no_space: "0 \<le> v \<Longrightarrow> dropWhile is_space (pad2 v @ s) = pad2 v @ s"
proof -
  assume "0 \<le> v"
  then obtain c cs where "show_int v = c # cs" "is_digit c" using show_int_nonneg_Cons by blast
  moreover have "\<not> is_space CHR ''0''" by (simp add: is_space_def Let_def)
  ultimately show ?thesis by (simp add: pad2_def digit_not_space)
qed

lemma strtol_pad2:
  assumes "0 \<le> v" "v < 2 ^ 31" "no_digit_first rest"
  shows "int32 (fst (strtol (pad2 v @ rest))) = v"
  using strtol_of_scan [OF scan_int_pad2 [OF assms(1,3)]] assms by simp

lemma strtol_year:
  assumes "0 \<le> v" "v < 2 ^ 31" "no_digit_first rest"
  shows "int32 (fst (strtol (show_int v @ rest))) = v"
  using strtol_of_scan [OF scan_int_show_int [OF assms(3), of v]] assms by simp

text \<open>Scanning what \<open>strftime\<close> printed gives the six fields back.\<close>

lemma sscanf_strftime:
  assumes v: "tm_valid b" and y: "- 1900 \<le> tm_year b" "tm_year b < 10000"
  shows "sscanf datetime_format (strftime_datetime b)
    = [1900 + tm_year b, tm_mon b + 1, tm_mday b, tm_hour b, tm_min b, tm_sec b]"
proof -
  have md: "1 \<le> tm_mday b" "tm_mday b \<le> 31"
  proof -
    have i: "nat (tm_mon b) < 12" using v by (auto simp: tm_valid_def)
    have "month_lengths (1900 + tm_year b) ! nat (tm_mon b) \<in> set (month_lengths (1900 + tm_year b))"
      by (rule nth_mem) (use i in simp)
    then show "1 \<le> tm_mday b" "tm_mday b \<le> 31"
      using v month_lengths_pos by (fastforce simp: tm_valid_def)+
  qed
  have sp: "is_space CHR '' ''" by (simp add: is_space_def Let_def)
  have r: "0 \<le> tm_mon b" "tm_mon b < 12" "0 \<le> tm_hour b" "tm_hour b < 24"
    "0 \<le> tm_min b" "tm_min b < 60" "0 \<le> tm_sec b" "tm_sec b < 60"
    using v by (simp_all add: tm_valid_def)
  have last: "scan_int (pad2 (tm_sec b)) = Some (False, nat (tm_sec b), [])"
    "int32 (fst (strtol (pad2 (tm_sec b)))) = tm_sec b"
    using scan_int_pad2 [of "tm_sec b" "[]"] strtol_pad2 [of "tm_sec b" "[]"] r by simp_all
  show ?thesis
    using r y md
    by (simp add: datetime_format_def strftime_datetime_def strftime_date_def scan_int_show_int
        scan_int_pad2 strtol_pad2 strtol_year pad2_no_space sp last del: sscanf.simps(1))
      (simp add: numeral_eq_Suc)?
qed

lemma parse_strftime:
  assumes "tm_valid b" "- 1900 \<le> tm_year b" "tm_year b < 10000"
  shows "parseDateTime g (strftime_datetime b) = timegm b"
  unfolding parseDateTime_def sscanf_strftime [OF assms] by (cases b) (simp add: fill_tm_def Let_def)

lemma timegm_midnight: "timegm (midnight (gmtime t)) = 86400 * (t div 86400)"
proof -
  have "0 \<le> tm_mon (midnight (gmtime t))" "tm_mon (midnight (gmtime t)) < 12"
    using gmtime_mon [of t] by (simp_all add: midnight_def)
  from timegm_in_range [OF this] show ?thesis
    using tm_of_day_sum [of "t div 86400" "t mod 86400"] by (simp add: midnight_def gmtime_def)
qed

lemma timegm_month_start:
  "timegm ((midnight (gmtime t))\<lparr>tm_mday := 1\<rparr>) =
   86400 * (days_before (1900 + tm_year (gmtime t))
     + sum_list (take (nat (tm_mon (gmtime t))) (month_lengths (1900 + tm_year (gmtime t)))))"
proof -
  let ?b = "(midnight (gmtime t))\<lparr>tm_mday := 1\<rparr>"
  have "0 \<le> tm_mon ?b" "tm_mon ?b < 12"
    using gmtime_mon [of t] by (simp_all add: midnight_def)
  from timegm_in_range [OF this] show ?thesis by (simp add: midnight_def)
qed

lemma tm_day_in_month:
  "0 \<le> tm_mday (gmtime t) - 1"
  "tm_mday (gmtime t) \<le> month_lengths (1900 + tm_year (gmtime t)) ! nat (tm_mon (gmtime t))"
  using gmtime_valid [of t] by (simp_all add: tm_valid_def)

text \<open>The instant one past the month: the first of the next month, of the next year after December.\<close>

lemma next_month_start:
  assumes "b = (midnight (gmtime t))\<lparr>tm_mday := 1\<rparr>"
  shows "timegm (advance_month b)
    = timegm b + 86400 * month_lengths (1900 + tm_year (gmtime t)) ! nat (tm_mon (gmtime t))"
proof (cases "tm_mon (gmtime t) = 11")
  case True
  let ?y = "1900 + tm_year (gmtime t)"
  let ?c = "b\<lparr>tm_mon := 0, tm_year := tm_year b + 1\<rparr>"
  have "timegm ?c = 86400 * days_before (?y + 1)"
    using timegm_in_range [of ?c] assms by (simp add: midnight_def add.commute)
  moreover have "sum_list (month_lengths ?y) = sum_list (take 11 (month_lengths ?y)) + month_lengths ?y ! 11"
    by (simp add: month_lengths_def)
  ultimately show ?thesis
    using True timegm_month_start [of t] days_before_Suc [of ?y] assms
    by (simp add: midnight_def advance_month_def Let_def)
next
  case False
  let ?y = "1900 + tm_year (gmtime t)" and ?m = "tm_mon (gmtime t)"
  let ?c = "b\<lparr>tm_mon := tm_mon b + 1\<rparr>"
  have m: "0 \<le> ?m" "?m < 11" using gmtime_mon [of t] False by simp_all
  have i: "nat ?m < length (month_lengths ?y)" "nat (?m + 1) = Suc (nat ?m)" using m by auto
  have "sum_list (take (nat (?m + 1)) (month_lengths ?y))
      = sum_list (take (nat ?m) (month_lengths ?y)) + month_lengths ?y ! nat ?m"
    unfolding i(2) take_Suc_conv_app_nth [OF i(1)] by simp
  moreover have "timegm ?c = 86400 * (days_before ?y + sum_list (take (nat (?m + 1)) (month_lengths ?y)))"
    using timegm_in_range [of ?c] assms m by (simp add: midnight_def)
  ultimately show ?thesis
    using False timegm_month_start [of t] assms m by (simp add: midnight_def advance_month_def Let_def)
qed

section \<open>Properties\<close>

text \<open>
  C39 (round trip): parsing what \<open>string_time\<close> printed gives the time stamp back, whatever was in
  the uninitialised \<open>struct tm\<close>, for every second from the year 1900 to the year 4900.
\<close>

theorem parse_string_time:
  assumes "- 2208988800 \<le> t" "t < 92493446400"
  shows "parseDateTime g (string_time t) = t"
proof -
  let ?d = "t div 86400"
  have d: "days_before 1900 \<le> ?d" "?d < days_before 4901"
    using assms by (simp_all add: days_before_def)
  have "1900 \<le> year_of_day ?d" using d(1) by (simp add: year_of_day_ge)
  moreover have "\<not> 4901 \<le> year_of_day ?d" using d(2) by (simp add: year_of_day_ge)
  moreover have "tm_year (gmtime t) = year_of_day ?d - 1900"
    by (simp add: gmtime_def tm_of_def Let_def split: prod.split)
  ultimately have y: "0 \<le> tm_year (gmtime t)" "tm_year (gmtime t) \<le> 3000" by simp_all
  then have "string_time t = strftime_datetime (gmtime t)" by (simp add: string_time_def Let_def)
  with y show ?thesis using parse_strftime [OF gmtime_valid [of t]] by simp
qed

theorem parse_string_time_witness:
  "parseDateTime \<lparr>tm_year = 7, tm_mon = 7, tm_mday = 7, tm_hour = 7, tm_min = 7, tm_sec = 7\<rparr>
     (string_time 1592000000) = 1592000000"
  by (rule parse_string_time) simp_all

text \<open>
  \<open>get_day_ts\<close> and \<open>get_day_end_ts\<close> are the first and the last second of the
  day of the given time in the given time zone: the time lies between them, the start is a
  multiple of a day in local time, and the day has 86400 seconds.
\<close>

theorem get_day_ts_brackets:
  "get_day_ts t off \<le> t \<and> t \<le> get_day_end_ts t off \<and>
   (get_day_ts t off + 3600 * off) mod 86400 = 0 \<and>
   get_day_ts (get_day_end_ts t off + 1) off = get_day_end_ts t off + 1"
proof -
  have eq: "get_day_ts u off = 86400 * ((u + 3600 * off) div 86400) - 3600 * off" for u
    by (simp add: get_day_ts_def Let_def timegm_midnight)
  have "86400 * ((t + 3600 * off) div 86400) \<le> t + 3600 * off"
    "t + 3600 * off \<le> 86400 * ((t + 3600 * off) div 86400) + 86399" by linarith+
  then show ?thesis by (simp add: eq get_day_end_ts_def)
qed

text \<open>
  \<open>get_month_ts\<close> and \<open>get_month_end_ts\<close> are the first and the last second of
  the month of the given time in the given zone, and the second after the end is the start of
  the next month, across the end of the year as well.
\<close>

theorem get_month_ts_brackets:
  "get_month_ts t off \<le> t \<and> t \<le> get_month_end_ts t off \<and>
   get_month_ts (get_month_ts t off) off = get_month_ts t off"
proof -
  let ?u = "t + 3600 * off"
  let ?y = "1900 + tm_year (gmtime ?u)" and ?m = "tm_mon (gmtime ?u)"
  let ?s = "86400 * (days_before ?y + sum_list (take (nat ?m) (month_lengths ?y)))"
  have s: "get_month_ts t off = ?s - 3600 * off"
    by (simp add: get_month_ts_def Let_def timegm_month_start)
  have e: "get_month_end_ts t off = ?s + 86400 * month_lengths ?y ! nat ?m - 1 - 3600 * off"
    using next_month_start [OF refl, of ?u] timegm_month_start [of ?u]
    by (simp add: get_month_end_ts_def Let_def)
  have d: "days_before ?y + sum_list (take (nat ?m) (month_lengths ?y)) + (tm_mday (gmtime ?u) - 1) = ?u div 86400"
    unfolding gmtime_def by (rule tm_of_day_sum)
  have "86400 * (?u div 86400) \<le> ?u" "?u \<le> 86400 * (?u div 86400) + 86399" by linarith+
  then have "?s \<le> ?u" "?u \<le> ?s + 86400 * month_lengths ?y ! nat ?m - 1"
    using tm_day_in_month [of ?u] d by (simp_all add: algebra_simps)
  moreover have "get_month_ts (get_month_ts t off) off = get_month_ts t off"
    using gmtime_month_start [OF gmtime_mon, of "tm_year (gmtime ?u)"] timegm_month_start [of ?s]
    unfolding s by (simp add: get_month_ts_def Let_def del: distrib_left_numeral)
  ultimately show ?thesis unfolding s e by simp
qed

text \<open>
  \<open>extractIntegralValues\<close> gives back, in order, the numbers of a text that
  joins them with a separator that is neither a digit nor a minus sign.
\<close>

theorem extractIntegralValues_join:
  assumes "\<forall>v \<in> set vs. type_range k v" "\<not> number_char sep"
  shows "extractIntegralValues pf k (join_strings [sep] (map show_int vs)) = vs"
proof -
  have "fold (\<lambda>v c. c @ [v]) vs c = c @ vs" for c :: "int list" by (induction vs arbitrary: c) auto
  then show ?thesis by (simp add: extractIntegralValues_def extract_loop_join [OF assms])
qed

theorem extractIntegralValues_join_witness:
  "extractIntegralValues (\<lambda>f. f) TUShort (join_strings '','' (map show_int [7, 65535])) = [7, 65535]"
  by (rule extractIntegralValues_join)
    (simp_all add: type_range_def number_char_def is_digit_def digit_val_def)

text \<open>
  On every text, \<open>extractIntegralValuesToSet\<close> is the set of what
  \<open>extractIntegralValues\<close> returns, although the two loops are written apart.
\<close>

theorem extract_set_of_vector:
  "extractIntegralValuesToSet pf k s = set (extractIntegralValues pf k s)"
  unfolding extractIntegralValuesToSet_def extractIntegralValues_def
  using extract_loop_abs [of set "\<lambda>v c. c @ [v]" insert pf k "[]" s "[]"] by simp

text \<open>
  \<open>to<int>\<close> of a printed number is that number when it fits an \<open>int\<close> and a throw
  when it does not; \<open>to<long>\<close> of a number above the range gives \<open>LONG_MAX\<close> instead,
  because \<open>errno\<close> is not looked at.
\<close>

theorem to_int_checked_to_long_saturates:
  "(type_range TInt v \<longrightarrow> to pf TInt (show_int v) = Ok v) \<and>
   (\<not> type_range TInt v \<longrightarrow> (\<exists>m. to pf TInt (show_int v) = Throws m)) \<and>
   (v > long_max \<longrightarrow> to pf TLong (show_int v) = Ok long_max)"
proof (intro conjI impI)
  show "type_range TInt v \<Longrightarrow> to pf TInt (show_int v) = Ok v"
    by (simp add: to_Ok_iff c_str_show_int c_cast_show_int)
next
  have sc: "strtol (show_int v) = (if v < long_min then long_min else if v > long_max then long_max else v, [])"
    using scan_int_show_int [of "[]" v]
    by (simp add: strtol_def Let_def long_min_def long_max_def)
  show "v > long_max \<Longrightarrow> to pf TLong (show_int v) = Ok long_max"
    by (simp add: to_Ok_iff c_str_show_int c_cast_def is_signed_def sc type_range_def long_max_def long_min_def)
  assume "\<not> type_range TInt v"
  then have "\<not> type_range TInt (fst (strtol (show_int v)))"
    by (simp add: sc type_range_def long_min_def long_max_def)
  then show "\<exists>m. to pf TInt (show_int v) = Throws m"
    using narrow_id_iff [of TInt "fst (strtol (show_int v))"]
    by (simp add: to_def c_str_show_int to_number_def c_cast_def is_signed_def sc numeric_cast_def)
qed

theorem to_int_checked_to_long_saturates_witness:
  "to (\<lambda>f. f) TInt (show_int 12) = Ok 12 \<and> to (\<lambda>f. f) TLong (show_int (2 ^ 63)) = Ok long_max"
  using to_int_checked_to_long_saturates [of 12 "\<lambda>f. f"]
    to_int_checked_to_long_saturates [of "2 ^ 63" "\<lambda>f. f"]
  by (simp add: type_range_def long_max_def)

end
