(* ===== verification/Split.thy ===== *)
theory Split
  imports Common "HOL-Library.Monad_Syntax"
begin

text \<open>
  \<open>src/common/split.cpp\<close>: splitting at separator characters, replacing a substring, trimming,
  and the base64 encoder of \<open>src/common.cpp\<close>. \<open>replace_all_subs\<close> does not return for an empty
  pattern; it is a partial function whose value is \<open>None\<close> there.
\<close>

section \<open>Splitting\<close>

datatype split_opts = allow_blank | skip_blank

definition sep_matches :: "char \<Rightarrow> string \<Rightarrow> bool" where
  "sep_matches findable seps \<longleftrightarrow> findable \<in> set (c_str seps)"

function split_any :: "string \<Rightarrow> string \<Rightarrow> split_opts \<Rightarrow> string list" where
  "split_any src seps opts =
     (if src = [] then []
      else
        let piece = takeWhile (\<lambda>c. \<not> sep_matches c seps) src;
            rest = dropWhile (\<lambda>c. \<not> sep_matches c seps) src;
            it = (if rest = [] then [] else tl rest)
        in if piece = [] \<and> opts = skip_blank then split_any it seps opts
           else piece # split_any it seps opts)"
  by pat_completeness auto
termination
proof (relation "measure (\<lambda>(src, seps, opts). length src)", goal_cases)
  case (2 src seps opts piece rest it)
  have "length (dropWhile (\<lambda>c. \<not> sep_matches c seps) src) \<le> length src" by (rule length_dropWhile_le)
  with 2 show ?case by (cases "dropWhile (\<lambda>c. \<not> sep_matches c seps) src") auto
next
  case (3 src seps opts piece rest it)
  have "length (dropWhile (\<lambda>c. \<not> sep_matches c seps) src) \<le> length src" by (rule length_dropWhile_le)
  with 3 show ?case by (cases "dropWhile (\<lambda>c. \<not> sep_matches c seps) src") auto
qed simp

declare split_any.simps [simp del]

definition ltrim :: "string \<Rightarrow> string" where
  "ltrim s = dropWhile is_space s"

definition rtrim :: "string \<Rightarrow> string" where
  "rtrim s = rev (dropWhile is_space (rev s))"

definition trim :: "string \<Rightarrow> string" where
  "trim s = ltrim (rtrim s)"

fun split_to_loop :: "(string \<Rightarrow> string) \<Rightarrow> num_type \<Rightarrow> string list \<Rightarrow> int list outcome" where
  "split_to_loop pf k [] = Ok []"
| "split_to_loop pf k (v # vs) =
     bind_outcome (to pf k (trim v)) (\<lambda>n. bind_outcome (split_to_loop pf k vs) (\<lambda>ns. Ok (n # ns)))"

definition split_to :: "(string \<Rightarrow> string) \<Rightarrow> num_type \<Rightarrow> string \<Rightarrow> string \<Rightarrow> int list outcome" where
  "split_to pf k source_str separators = split_to_loop pf k (split_any source_str separators skip_blank)"

lemma split_any_Nil [simp]: "split_any [] seps opts = []"
  by (simp add: split_any.simps)

lemma split_any_last:
  "\<forall>c \<in> set x. \<not> sep_matches c seps \<Longrightarrow>
   split_any x seps opts = (if x = [] then [] else [x])"
proof -
  assume a: "\<forall>c \<in> set x. \<not> sep_matches c seps"
  then have t: "takeWhile (\<lambda>c. \<not> sep_matches c seps) x = x" "dropWhile (\<lambda>c. \<not> sep_matches c seps) x = []"
    by (auto simp: takeWhile_eq_all_conv dropWhile_eq_Nil_conv)
  show ?thesis unfolding split_any.simps [of x seps opts] Let_def t by simp
qed

lemma split_any_piece:
  assumes "\<forall>c \<in> set x. \<not> sep_matches c seps" "sep_matches s seps"
  shows "split_any (x @ s # rest) seps opts =
    (if x = [] \<and> opts = skip_blank then split_any rest seps opts else x # split_any rest seps opts)"
proof -
  have "takeWhile (\<lambda>c. \<not> sep_matches c seps) (x @ s # rest) = x"
    "dropWhile (\<lambda>c. \<not> sep_matches c seps) (x @ s # rest) = s # rest"
    using assms by (auto simp: takeWhile_append2 dropWhile_append2)
  then show ?thesis by (simp add: split_any.simps [of "x @ s # rest"])
qed

lemma split_any_skips:
  "split_any src seps skip_blank = filter (\<lambda>p. p \<noteq> []) (split_any src seps allow_blank)"
proof (induction "length src" arbitrary: src rule: less_induct)
  case less
  show ?case
  proof (cases "src = []")
    case True
    then show ?thesis by simp
  next
    case False
    let ?it = "tl (dropWhile (\<lambda>c. \<not> sep_matches c seps) src)"
    have "length (dropWhile (\<lambda>c. \<not> sep_matches c seps) src) \<le> length src" by (rule length_dropWhile_le)
    moreover have "0 < length src" using False by simp
    ultimately have "length ?it < length src" by (simp only: length_tl)
    from less [OF this] show ?thesis
      by (auto simp: split_any.simps [of src] Let_def dest!: sym [of "_ = []"])
  qed
qed

lemma rtrim_no_space: "\<forall>c \<in> set s. \<not> is_space c \<Longrightarrow> rtrim s = s"
proof -
  assume a: "\<forall>c \<in> set s. \<not> is_space c"
  have "dropWhile is_space (rev s) = rev s"
  proof (cases "rev s")
    case (Cons c cs)
    then have "c \<in> set s" by (metis list.set_intros(1) set_rev)
    with a Cons show ?thesis by simp
  qed simp
  then show ?thesis by (simp add: rtrim_def)
qed

section \<open>Replacing\<close>

partial_function (option) replace_loop :: "string \<Rightarrow> string \<Rightarrow> string \<Rightarrow> string option" where
  "replace_loop from_s to_s s =
     (case find_sub from_s s of
        None \<Rightarrow> Some s
      | Some i \<Rightarrow> Option.bind (replace_loop from_s to_s (drop (i + length from_s) s))
                    (\<lambda>r. Some (take i s @ to_s @ r)))"

definition replace_all_subs :: "string \<Rightarrow> string \<Rightarrow> string \<Rightarrow> string option" where
  "replace_all_subs src from_s to_s = replace_loop from_s to_s src"

text \<open>Reference: scanning one character at a time.\<close>

function replace_spec :: "string \<Rightarrow> string \<Rightarrow> string \<Rightarrow> string" where
  "replace_spec from_s to_s s =
     (case s of [] \<Rightarrow> []
      | c # cs \<Rightarrow> if is_prefix from_s s \<and> from_s \<noteq> [] then to_s @ replace_spec from_s to_s (drop (length from_s) s)
                 else c # replace_spec from_s to_s cs)"
  by pat_completeness auto
termination
  by (relation "measure (\<lambda>(from_s, to_s, s). length s)") auto

declare replace_spec.simps [simp del]

lemma replace_spec_skip:
  "from_s \<noteq> [] \<Longrightarrow> i \<le> length s \<Longrightarrow> \<forall>j < i. \<not> is_prefix from_s (drop j s) \<Longrightarrow>
   replace_spec from_s to_s s = take i s @ replace_spec from_s to_s (drop i s)"
proof (induction i arbitrary: s)
  case 0
  then show ?case by simp
next
  case (Suc i)
  then obtain c cs where s: "s = c # cs" by (cases s) auto
  have "\<not> is_prefix from_s s" using Suc.prems(3) by (metis drop0 zero_less_Suc)
  moreover have "\<forall>j < i. \<not> is_prefix from_s (drop j cs)"
    using Suc.prems(3) s by (metis Suc_less_eq drop_Suc_Cons)
  ultimately show ?case
    using Suc s by (simp add: replace_spec.simps [of from_s to_s "c # cs"])
qed

lemma replace_loop_spec:
  "from_s \<noteq> [] \<Longrightarrow> replace_loop from_s to_s s = Some (replace_spec from_s to_s s)"
proof (induction "length s" arbitrary: s rule: less_induct)
  case less
  show ?case
  proof (cases "find_sub from_s s")
    case None
    then have "\<forall>j < length s. \<not> is_prefix from_s (drop j s)" by (simp add: find_sub_None)
    then have "replace_spec from_s to_s s = s @ replace_spec from_s to_s []"
      using replace_spec_skip [of from_s "length s" s] less.prems by simp
    with None show ?thesis by (simp add: replace_loop.simps [of _ _ s] replace_spec.simps [of _ _ "[]"])
  next
    case (Some i)
    have i: "i + length from_s \<le> length s" "take (length from_s) (drop i s) = from_s"
      using find_sub_Some [OF Some] by simp_all
    then have "i < length s" using less.prems by (cases from_s) auto
    then obtain c cs where d: "drop i s = c # cs" by (cases "drop i s") auto
    have p: "is_prefix from_s (drop i s)" using i(2) by (metis append_take_drop_id is_prefix_append)
    have "replace_spec from_s to_s s = take i s @ replace_spec from_s to_s (drop i s)"
      using replace_spec_skip [of from_s i s] find_sub_first [OF Some] i less.prems by simp
    also have "replace_spec from_s to_s (drop i s) = to_s @ replace_spec from_s to_s (drop (i + length from_s) s)"
    proof -
      have "drop (length from_s) (c # cs) = drop (i + length from_s) s"
        unfolding d [symmetric] by (simp add: add.commute)
      with p d less.prems show ?thesis by (simp add: replace_spec.simps [of _ _ "c # cs"])
    qed
    finally have eq: "replace_spec from_s to_s s = take i s @ to_s @ replace_spec from_s to_s (drop (i + length from_s) s)" .
    have "length (drop (i + length from_s) s) < length s" using \<open>i < length s\<close> less.prems by (cases from_s) auto
    from less.hyps [OF this less.prems] Some eq show ?thesis by (simp add: replace_loop.simps [of _ _ s])
  qed
qed

lemma replace_loop_empty_pattern:
  assumes "replace_loop from_s to_s s = Some r"
  shows "from_s \<noteq> []"
proof (rule replace_loop.raw_induct [of "\<lambda>f t s r. f \<noteq> []", OF _ assms])
  fix rl :: "string \<Rightarrow> string \<Rightarrow> string \<Rightarrow> string option" and f t s r
  assume ih: "\<And>f t s r. rl f t s = Some r \<Longrightarrow> f \<noteq> []"
    and eq: "(case find_sub f s of None \<Rightarrow> Some s
      | Some i \<Rightarrow> Option.bind (rl f t (drop (i + length f) s)) (\<lambda>r. Some (take i s @ t @ r))) = Some r"
  show "f \<noteq> []"
  proof
    assume "f = []"
    moreover have "find_sub [] s = Some 0" by (cases s) auto
    ultimately obtain y where "rl [] t s = Some y" using eq by (auto simp: bind_eq_Some_conv)
    then show False using ih by blast
  qed
qed

section \<open>Base64\<close>

definition base64_alphabet :: string where
  "base64_alphabet = ''ABCDEFGHIJKLMNOPQRSTUVWXYZabcdefghijklmnopqrstuvwxyz0123456789+/''"

text \<open>\<open>(val >> valb) & 0x3F\<close>; the shift of a negative \<open>int\<close> rounds down.\<close>

definition sextet :: "int \<Rightarrow> int \<Rightarrow> char" where
  "sextet val valb = base64_alphabet ! nat (val div 2 ^ nat valb mod 64)"

function emit_sextets :: "int \<Rightarrow> int \<Rightarrow> string \<Rightarrow> int \<times> string" where
  "emit_sextets val valb out =
     (if valb \<ge> 0 then emit_sextets val (valb - 6) (out @ [sextet val valb]) else (valb, out))"
  by pat_completeness auto
termination
  by (relation "measure (\<lambda>(val, valb, out). nat (valb + 6))") auto

declare emit_sextets.simps [simp del]

text \<open>\<open>val\<close> is an \<open>int\<close> that wraps.\<close>

fun encode_loop :: "string \<Rightarrow> int \<Rightarrow> int \<Rightarrow> string \<Rightarrow> int \<times> int \<times> string" where
  "encode_loop [] val valb out = (val, valb, out)"
| "encode_loop (c # cs) val valb out =
     (let val = int32 (int32 (val * 256) + int (of_char c));
          (valb, out) = emit_sextets val (valb + 8) out
      in encode_loop cs val valb out)"

definition pad_to_four :: "string \<Rightarrow> string" where
  "pad_to_four out = out @ replicate ((4 - length out mod 4) mod 4) CHR ''=''"

definition encode_base64 :: "string \<Rightarrow> string" where
  "encode_base64 s =
     (let (val, valb, out) = encode_loop s 0 (- 6) [];
          out = (if valb > - 6 then out @ [sextet (int32 (val * 256)) (valb + 8)] else out)
      in pad_to_four out)"

text \<open>The definition of base64: three bytes are four sextets.\<close>

definition b64 :: "nat \<Rightarrow> char" where
  "b64 i = base64_alphabet ! i"

fun base64_spec :: "string \<Rightarrow> string" where
  "base64_spec [] = []"
| "base64_spec [x] = (let a = of_char x in [b64 (a div 4), b64 (a mod 4 * 16), CHR ''='', CHR ''=''])"
| "base64_spec [x, y] = (let a = of_char x; b = of_char y
     in [b64 (a div 4), b64 (a mod 4 * 16 + b div 16), b64 (b mod 16 * 4), CHR ''=''])"
| "base64_spec (x # y # z # rest) = (let a = of_char x; b = of_char y; c = of_char z
     in [b64 (a div 4), b64 (a mod 4 * 16 + b div 16), b64 (b mod 16 * 4 + c div 64), b64 (c mod 64)]
        @ base64_spec rest)"

lemma div_mod_shift:
  fixes x :: int
  shows "x div 2 ^ k mod 2 ^ m = x mod 2 ^ (k + m) div 2 ^ k"
proof -
  have "x mod 2 ^ (k + m) = 2 ^ k * (x div 2 ^ k mod 2 ^ m) + x mod 2 ^ k"
    unfolding power_add by (rule zmod_zmult2_eq) simp
  moreover have "(2 ^ k * q + x mod 2 ^ k) div 2 ^ k = q" for q :: int
    by (rule int_div_pos_eq [OF refl]) simp_all
  ultimately show ?thesis by simp
qed

lemma int32_mod: "k \<le> 32 \<Longrightarrow> int32 x mod 2 ^ k = x mod 2 ^ k"
proof -
  assume k: "k \<le> 32"
  then obtain j where j: "32 = k + j" by (metis le_add_diff_inverse)
  have "(2::int) ^ k dvd 2 ^ 32" unfolding j power_add by simp
  then have "(x + 2 ^ 31) mod 2 ^ 32 mod 2 ^ k = (x + 2 ^ 31) mod 2 ^ k" by (rule mod_mod_cancel)
  then have "int32 x mod 2 ^ k = (x + 2 ^ 31 - 2 ^ 31) mod 2 ^ k"
    unfolding int32_def by (metis mod_diff_left_eq)
  then show ?thesis by simp
qed

definition push_byte :: "int \<Rightarrow> int \<Rightarrow> int" where
  "push_byte v c = int32 (int32 (v * 256) + c)"

lemma push_byte_mod:
  assumes "k \<le> 24" "0 \<le> c" "c < 256"
  shows "push_byte v c mod 2 ^ (k + 8) = v mod 2 ^ k * 256 + c"
proof -
  have k: "k + 8 \<le> 32" using assms by simp
  have "push_byte v c mod 2 ^ (k + 8) = (int32 (v * 256) + c) mod 2 ^ (k + 8)"
    unfolding push_byte_def by (rule int32_mod [OF k])
  also have "\<dots> = (int32 (v * 256) mod 2 ^ (k + 8) + c) mod 2 ^ (k + 8)" by (rule mod_add_left_eq [symmetric])
  also have "int32 (v * 256) mod 2 ^ (k + 8) = v * 256 mod 2 ^ (k + 8)" by (rule int32_mod [OF k])
  also have "v * 256 mod 2 ^ (k + 8) = v mod 2 ^ k * 256"
    using mult_mod_right [of 256 v "2 ^ k"] by (simp add: power_add mult.commute)
  also have "(v mod 2 ^ k * 256 + c) mod 2 ^ (k + 8) = v mod 2 ^ k * 256 + c"
  proof (rule mod_pos_pos_trivial)
    have "v mod 2 ^ k + 1 \<le> 2 ^ k" by (rule zless_imp_add1_zle) simp
    then have "(v mod 2 ^ k + 1) * 256 \<le> 2 ^ k * 256" by (rule mult_right_mono) simp
    moreover have "v mod 2 ^ k * 256 + c < (v mod 2 ^ k + 1) * 256" using assms by (simp only: distrib_right)
    ultimately show "v mod 2 ^ k * 256 + c < 2 ^ (k + 8)" by (simp add: power_add)
  qed (use assms in simp)
  finally show ?thesis .
qed

lemma sextet_mod: "sextet v (int k) = base64_alphabet ! nat (v mod 2 ^ (k + 6) div 2 ^ k)"
  using div_mod_shift [of v k 6] by (simp add: sextet_def)

text \<open>The bits that a byte leaves for the next sextets, whatever was pushed before.\<close>

lemma push_first: "a < 256 \<Longrightarrow> push_byte v (int a) mod 256 = int a"
  using push_byte_mod [of 0 "int a" v] by simp

lemma push_low: "a < 256 \<Longrightarrow> k \<le> 8 \<Longrightarrow> push_byte v (int a) mod 2 ^ k = int (a mod 2 ^ k)"
proof -
  assume a: "a < 256" and k: "k \<le> 8"
  then obtain j where j: "8 = k + j" by (metis le_add_diff_inverse)
  have "(2::int) ^ k dvd 2 ^ 8" unfolding j power_add by simp
  then have "push_byte v (int a) mod 2 ^ 8 mod 2 ^ k = push_byte v (int a) mod 2 ^ k" by (rule mod_mod_cancel)
  with push_first [OF a, of v] show ?thesis by (simp add: zmod_int)
qed

lemma push_two:
  assumes "a < 256" "b < 256" "k \<le> 8"
  shows "push_byte (push_byte v (int a)) (int b) mod 2 ^ (k + 8) = int (a mod 2 ^ k * 256 + b)"
  using push_byte_mod [of k "int b" "push_byte v (int a)"] push_low [OF assms(1,3), of v] assms by simp

lemma sextet_eq: "v mod 2 ^ (k + 6) = int n \<Longrightarrow> sextet v (int k) = b64 (n div 2 ^ k)"
proof -
  assume "v mod 2 ^ (k + 6) = int n"
  then have "v mod 2 ^ (k + 6) div 2 ^ k = int (n div 2 ^ k)" by (simp add: zdiv_int)
  then show ?thesis by (simp add: sextet_mod b64_def)
qed

lemma sextets:
  assumes "a < 256" "b < 256"
  shows "sextet (push_byte v (int a)) 2 = b64 (a div 4)"
    "sextet (push_byte (push_byte v (int a)) (int b)) 4 = b64 (a mod 4 * 16 + b div 16)"
    "sextet (push_byte (push_byte v (int a)) (int b)) 6 = b64 (a mod 16 * 4 + b div 64)"
    "sextet (push_byte v (int a)) 0 = b64 (a mod 64)"
proof -
  show "sextet (push_byte v (int a)) 2 = b64 (a div 4)"
    using sextet_eq [of "push_byte v (int a)" 2 a] push_first [OF assms(1), of v] by simp
  have "(a mod 4 * 256 + b) div 16 = a mod 4 * 16 + b div 16"
    using div_mult_self3 [of 16 b "a mod 4 * 16"] by simp
  then show "sextet (push_byte (push_byte v (int a)) (int b)) 4 = b64 (a mod 4 * 16 + b div 16)"
    using sextet_eq [of "push_byte (push_byte v (int a)) (int b)" 4 "a mod 4 * 256 + b"]
      push_two [OF assms, of 2 v] by simp
  have "(a mod 16 * 256 + b) div 64 = a mod 16 * 4 + b div 64"
    using div_mult_self3 [of 64 b "a mod 16 * 4"] by simp
  then show "sextet (push_byte (push_byte v (int a)) (int b)) 6 = b64 (a mod 16 * 4 + b div 64)"
    using sextet_eq [of "push_byte (push_byte v (int a)) (int b)" 6 "a mod 16 * 256 + b"]
      push_two [OF assms, of 4 v] by simp
  show "sextet (push_byte v (int a)) 0 = b64 (a mod 64)"
    using sextet_eq [of "push_byte v (int a)" 0 "a mod 64"] push_low [OF assms(1), of 6 v] by simp
qed

lemma emit_simps:
  "emit_sextets v 2 out = (- 4, out @ [sextet v 2])"
  "emit_sextets v 4 out = (- 2, out @ [sextet v 4])"
  "emit_sextets v 6 out = (- 6, out @ [sextet v 6, sextet v 0])"
  by (simp_all add: emit_sextets.simps)

lemma encode_loop_Cons:
  "encode_loop (c # cs) val valb out =
     (case emit_sextets (push_byte val (int (of_char c))) (valb + 8) out of
        (valb, out) \<Rightarrow> encode_loop cs (push_byte val (int (of_char c))) valb out)"
  by (simp add: push_byte_def Let_def)

lemma sextet_zero_byte:
  "sextet (int32 (v * 256)) k = sextet (push_byte v (int 0)) k" 
proof -
  have "int32 (int32 (v * 256)) = int32 (v * 256)" by (simp add: int32_def mod_diff_right_eq)
  then show ?thesis by (simp add: push_byte_def)
qed

definition finish_base64 :: "int \<times> int \<times> string \<Rightarrow> string" where
  "finish_base64 p = (case p of (val, valb, out) \<Rightarrow>
     pad_to_four (if valb > - 6 then out @ [sextet (int32 (val * 256)) (valb + 8)] else out))"

lemma encode_loop_spec:
  "length out mod 4 = 0 \<Longrightarrow> finish_base64 (encode_loop s val (- 6) out) = out @ base64_spec s"
proof (induction s arbitrary: val out rule: base64_spec.induct)
  case 1
  then show ?case by (simp add: finish_base64_def pad_to_four_def)
next
  case (2 x)
  have "(length out + 2) mod 4 = 2" using 2 by presburger
  then show ?case
    using sextets [of "of_char x" 0 val]
    by (simp add: encode_loop_Cons emit_simps finish_base64_def sextet_zero_byte pad_to_four_def Let_def
        numeral_2_eq_2 del: encode_loop.simps(2))
next
  case (3 x y)
  have "(3 + length out) mod 4 = 3" using 3 by presburger
  then show ?case
    using sextets [of "of_char x" "of_char y" val] sextets [of "of_char y" 0 "push_byte val (int (of_char x))"]
    by (simp add: encode_loop_Cons emit_simps finish_base64_def sextet_zero_byte pad_to_four_def Let_def
        del: encode_loop.simps(2))
next
  case (4 x y z rest)
  let ?v = "push_byte val (int (of_char x))" and ?w = "push_byte (push_byte val (int (of_char x))) (int (of_char y))"
  let ?out = "out @ [b64 (of_char x div 4), b64 (of_char x mod 4 * 16 + of_char y div 16),
      b64 (of_char y mod 16 * 4 + of_char z div 64), b64 (of_char z mod 64)]"
  have len: "length ?out mod 4 = 0" using "4.prems" by simp
  have "encode_loop (x # y # z # rest) val (- 6) out
      = encode_loop rest (push_byte ?w (int (of_char z))) (- 6) ?out"
    using sextets [of "of_char x" "of_char y" val] sextets [of "of_char y" "of_char z" ?v]
      sextets [of "of_char z" 0 ?w]
    by (simp add: encode_loop_Cons emit_simps del: encode_loop.simps(2))
  with "4.IH" [OF refl refl refl len] show ?case by (simp add: Let_def)
qed

text \<open>Pieces without a separator, the last one not blank.\<close>

lemma split_any_joined:
  assumes "\<forall>x \<in> set xs. \<forall>c \<in> set x. \<not> sep_matches c seps" "sep_matches s seps"
    "xs \<noteq> [] \<longrightarrow> last xs \<noteq> []"
  shows "split_any (join_strings [s] xs) seps allow_blank = xs"
  using assms by (induction xs rule: induct_list012) (auto simp: split_any_last split_any_piece)

section \<open>Properties\<close>

text \<open>
  \<open>split_any\<close> takes apart what was joined with a separator of its list, when
  the last piece is not blank (a blank last piece is dropped), and skipping blanks is the same
  as dropping the blank pieces afterwards.
\<close>

theorem split_any_join:
  assumes "\<forall>x \<in> set xs. \<forall>c \<in> set x. \<not> sep_matches c seps" "sep_matches s seps"
    "xs \<noteq> [] \<longrightarrow> last xs \<noteq> []"
  shows "split_any (join_strings [s] xs) seps allow_blank = xs \<and>
    split_any (join_strings [s] xs) seps skip_blank = filter (\<lambda>x. x \<noteq> []) xs"
  using split_any_joined [OF assms] by (simp add: split_any_skips)

theorem split_any_join_witness:
  "split_any (join_strings '';'' [''ab'', [], ''c'']) '',;'' allow_blank = [''ab'', [], ''c''] \<and>
   split_any (join_strings '';'' [''ab'', [], ''c'']) '',;'' skip_blank = filter (\<lambda>x. x \<noteq> []) [''ab'', [], ''c'']"
  by (rule split_any_join) (simp_all add: sep_matches_def c_str_def char_of_def)

text \<open>
  C40 (termination): \<open>replace_all_subs\<close> returns exactly for a non-empty pattern, and then it is the
  character by character replacement of every non-overlapping occurrence from the left; for an
  empty pattern the loop never ends.
\<close>

theorem replace_all_subs_returns:
  "replace_all_subs src from_s to_s = (if from_s = [] then None else Some (replace_spec from_s to_s src))"
  using replace_loop_spec [of from_s to_s src] replace_loop_empty_pattern [of "[]" to_s src]
  by (cases "replace_loop [] to_s src") (auto simp: replace_all_subs_def)

text \<open>
  The streaming encoder, whose accumulator is an \<open>int\<close> that overflows on every
  input of five bytes or more, computes the base64 of the definition for every input.
\<close>

theorem encode_base64_spec: "encode_base64 s = base64_spec s"
  using encode_loop_spec [of "[]" s 0]
  by (simp add: encode_base64_def finish_base64_def split: prod.splits)

end
