(* ===== verification/Containers.thy ===== *)
theory Containers
  imports Common
begin

text \<open>
  The containers and small utilities of \<open>src/systems\<close> and \<open>src/common\<close>: the ring buffer, the
  blocking queue, the arena allocator, the time-stamped vector, ranges of sorted arrays and
  views, guards and exceptions, and the timer. The ring buffer is a bounded FIFO that forgets
  its oldest element; the locale \<open>forgetful_fifo\<close> is that contract, and its clients (the lists
  of recent errors and messages) use the locale's lemmas.
\<close>

section \<open>The contract of a FIFO that forgets\<close>

locale forgetful_fifo =
  fixes contents :: "'s \<Rightarrow> 'a list" and push :: "'a \<Rightarrow> 's \<Rightarrow> 's" and pop :: "'s \<Rightarrow> 's"
    and cap :: nat and ok :: "'s \<Rightarrow> bool"
  assumes push_ok: "ok s \<Longrightarrow> ok (push x s)"
    and pop_ok: "ok s \<Longrightarrow> ok (pop s)"
    and len_le: "ok s \<Longrightarrow> length (contents s) \<le> cap"
    and contents_push: "ok s \<Longrightarrow> contents (push x s) =
          (if length (contents s) = cap then tl (contents s) else contents s) @ [x]"
    and contents_pop: "ok s \<Longrightarrow> contents (pop s) = tl (contents s)"
begin

lemma fold_push_ok: "ok s \<Longrightarrow> ok (fold push xs s)"
  by (induction xs arbitrary: s) (simp_all add: push_ok)

text \<open>After pushing a sequence the last \<open>cap\<close> elements are there, in order.\<close>

lemma contents_fold_push:
  "ok s \<Longrightarrow> contents (fold push xs s) =
   drop (length (contents s @ xs) - cap) (contents s @ xs)"
proof (induction xs rule: rev_induct)
  case Nil
  then show ?case using len_le [of s] by simp
next
  case (snoc x xs)
  let ?c = "contents s @ xs" and ?s = "fold push xs s"
  have ok: "ok ?s" using snoc.prems by (rule fold_push_ok)
  have c: "contents ?s = drop (length ?c - cap) ?c" using snoc by simp
  show ?case
  proof (cases "length (contents ?s) = cap")
    case True
    then have "length ?c - cap + cap = length ?c" using c by simp
    then have "length (?c @ [x]) - cap = Suc (length ?c - cap)" by simp
    moreover have "tl (drop (length ?c - cap) ?c) = drop (Suc (length ?c - cap)) ?c"
      by (simp only: drop_Suc tl_drop)
    moreover have "Suc (length ?c - cap) \<le> length ?c \<or> cap = 0" using True c by (cases cap) auto
    ultimately show ?thesis
      using contents_push [OF ok, of x] True c len_le [OF push_ok [OF ok, of x]]
      by (cases "cap = 0") auto
  next
    case False
    with len_le [OF ok] have "length (contents ?s) < cap" by simp
    then have "length ?c - cap = 0" using c by (simp add: min_def split: if_splits)
    then show ?thesis using contents_push [OF ok, of x] False c by simp
  qed
qed

lemma contents_last_push: "ok s \<Longrightarrow> last (contents (push x s)) = x"
  by (simp add: contents_push)

end

section \<open>\<open>RingBuffer\<close>\<close>

text \<open>The size \<open>S\<close> of the template is the length of the buffer.\<close>

record 'a ring =
  rb_buffer :: "'a list"
  rb_size :: nat
  rb_front :: nat
  rb_back :: nat

definition rb_S :: "'a ring \<Rightarrow> nat" where
  "rb_S r = length (rb_buffer r)"

definition rb_clear :: "'a ring \<Rightarrow> 'a ring" where
  "rb_clear r = r\<lparr>rb_size := 0, rb_front := 0, rb_back := rb_S r - 1\<rparr>"

definition rb_new :: "'a list \<Rightarrow> 'a ring" where
  "rb_new buf = rb_clear \<lparr>rb_buffer = buf, rb_size = 0, rb_front = 0, rb_back = 0\<rparr>"

definition rb_full :: "'a ring \<Rightarrow> bool" where
  "rb_full r \<longleftrightarrow> rb_size r = rb_S r"

definition rb_front_elem :: "'a ring \<Rightarrow> 'a" where
  "rb_front_elem r = rb_buffer r ! rb_front r"

definition rb_back_elem :: "'a ring \<Rightarrow> 'a" where
  "rb_back_elem r = rb_buffer r ! rb_back r"

definition rb_advance :: "'a ring \<Rightarrow> 'a ring" where
  "rb_advance r =
     (let r = r\<lparr>rb_back := (rb_back r + 1) mod rb_S r\<rparr>
      in if rb_size r = rb_S r then r\<lparr>rb_front := (rb_front r + 1) mod rb_S r\<rparr>
         else r\<lparr>rb_size := rb_size r + 1\<rparr>)"

definition rb_push :: "'a \<Rightarrow> 'a ring \<Rightarrow> 'a ring" where
  "rb_push x r = (let r = rb_advance r in r\<lparr>rb_buffer := (rb_buffer r)[rb_back r := x]\<rparr>)"

definition rb_pop :: "'a ring \<Rightarrow> 'a ring" where
  "rb_pop r =
     (if rb_size r > 0
      then r\<lparr>rb_size := rb_size r - 1, rb_front := (rb_front r + 1) mod rb_S r\<rparr> else r)"

fun rb_copy_loop :: "'a ring \<Rightarrow> nat \<Rightarrow> nat \<Rightarrow> 'a list" where
  "rb_copy_loop r idx 0 = []"
| "rb_copy_loop r idx (Suc n) =
     (let idx = idx mod rb_S r in rb_buffer r ! idx # rb_copy_loop r (idx + 1) n)"

definition rb_copy_to :: "'a ring \<Rightarrow> 'a list" where
  "rb_copy_to r = rb_copy_loop r (rb_front r) (rb_size r)"

definition rb_ok :: "nat \<Rightarrow> 'a ring \<Rightarrow> bool" where
  "rb_ok S r \<longleftrightarrow> 0 < S \<and> rb_S r = S \<and> rb_size r \<le> S \<and> rb_front r < S \<and> rb_back r < S \<and>
     (rb_front r + rb_size r) mod S = (rb_back r + 1) mod S"

lemma rb_copy_loop_nth:
  "rb_copy_loop r idx n = map (\<lambda>i. rb_buffer r ! ((idx + i) mod rb_S r)) [0..<n]"
proof (induction n arbitrary: idx)
  case 0
  then show ?case by simp
next
  case (Suc n)
  have "map (\<lambda>i. rb_buffer r ! ((idx mod rb_S r + 1 + i) mod rb_S r)) [0..<n]
      = map (\<lambda>i. rb_buffer r ! ((idx + Suc i) mod rb_S r)) [0..<n]"
  proof -
    have "(idx mod rb_S r + 1 + i) mod rb_S r = (idx + Suc i) mod rb_S r" for i
      using mod_add_left_eq [of idx "rb_S r" "1 + i"] by simp
    then show ?thesis by simp
  qed
  then show ?case
    using Suc by (simp add: Let_def upt_conv_Cons map_Suc_upt [symmetric] comp_def del: upt_Suc)
qed

lemma rb_copy_to_nth:
  "rb_copy_to r = map (\<lambda>i. rb_buffer r ! ((rb_front r + i) mod rb_S r)) [0..<rb_size r]"
  by (simp add: rb_copy_to_def rb_copy_loop_nth)

lemma length_rb_copy_to [simp]: "length (rb_copy_to r) = rb_size r"
  by (simp add: rb_copy_to_nth)

lemma rb_new_ok: "buf \<noteq> [] \<Longrightarrow> rb_ok (length buf) (rb_new buf) \<and> rb_copy_to (rb_new buf) = []"
  by (simp add: rb_new_def rb_clear_def rb_ok_def rb_S_def rb_copy_to_nth)

lemma rb_push_ok: "rb_ok S r \<Longrightarrow> rb_ok S (rb_push x r)"
  by (auto simp: rb_ok_def rb_push_def rb_advance_def rb_S_def Let_def mod_simps)
    (metis add_Suc mod_Suc_eq)+

lemma rb_pop_ok: "rb_ok S r \<Longrightarrow> rb_ok S (rb_pop r)"
proof -
  assume r: "rb_ok S r"
  show ?thesis
  proof (cases "rb_size r")
    case 0
    with r show ?thesis by (simp add: rb_pop_def)
  next
    case (Suc n)
    have "(Suc (rb_front r) mod S + n) mod S = (rb_front r + rb_size r) mod S"
      using Suc mod_add_left_eq [of "Suc (rb_front r)" S n] by simp
    with r Suc show ?thesis by (auto simp: rb_ok_def rb_pop_def rb_S_def)
  qed
qed

text \<open>Positions of the live elements are distinct, so a write at the back leaves the others.\<close>

lemma ring_pos_inj:
  fixes f i j S :: nat
  assumes "i < S" "j < S" "(f + i) mod S = (f + j) mod S"
  shows "i = j"
proof (rule ccontr)
  assume "i \<noteq> j"
  have "\<And>a b. a < b \<Longrightarrow> b < S \<Longrightarrow> (f + a) mod S \<noteq> (f + b) mod S"
  proof
    fix a b assume ab: "a < b" "b < S" "(f + a) mod S = (f + b) mod S"
    then have "S dvd (f + b) - (f + a)" by (metis mod_eq_dvd_iff_nat nat_add_left_cancel_le less_imp_le)
    with ab show False by (auto dest: dvd_imp_le)
  qed
  with assms \<open>i \<noteq> j\<close> show False by (metis nat_neq_iff)
qed

lemma rb_push_contents:
  assumes "rb_ok S r"
  shows "rb_copy_to (rb_push x r) =
    (if length (rb_copy_to r) = S then tl (rb_copy_to r) else rb_copy_to r) @ [x]"
proof (rule nth_equalityI)
  have S: "rb_S r = S" "length (rb_buffer r) = S" "0 < S" "rb_size r \<le> S" "rb_front r < S"
    using assms by (simp_all add: rb_ok_def rb_S_def)
  let ?f = "rb_front r"
  let ?n = "rb_size r"
  have bk: "(rb_back r + 1) mod S = (?f + ?n) mod S" using assms by (simp add: rb_ok_def)
  show "length (rb_copy_to (rb_push x r)) =
    length ((if length (rb_copy_to r) = S then tl (rb_copy_to r) else rb_copy_to r) @ [x])"
    using S by (simp add: rb_push_def rb_advance_def Let_def rb_S_def)
  fix i assume i: "i < length (rb_copy_to (rb_push x r))"
  show "rb_copy_to (rb_push x r) ! i =
    ((if length (rb_copy_to r) = S then tl (rb_copy_to r) else rb_copy_to r) @ [x]) ! i"
  proof (cases "?n = S")
    case True
    have b: "(rb_back r + 1) mod S = ?f" using bk True S(5) by simp
    have iS: "i < S" using i True S by (simp add: rb_push_def rb_advance_def Let_def rb_S_def)
    have new: "rb_copy_to (rb_push x r) ! i = (rb_buffer r)[?f := x] ! ((?f + Suc i) mod S)"
      using i True S b mod_add_left_eq [of "Suc ?f" S i]
      by (simp add: rb_push_def rb_advance_def Let_def rb_copy_to_nth rb_S_def)
    show ?thesis
    proof (cases "Suc i < S")
      case lt: True
      have "(?f + Suc i) mod S \<noteq> ?f"
        using ring_pos_inj [of "Suc i" S 0 ?f] lt S by auto
      then have "rb_copy_to (rb_push x r) ! i = rb_buffer r ! ((?f + Suc i) mod S)" using new by simp
      moreover have "i < S - 1" using lt by simp
      moreover have "tl (rb_copy_to r) ! i = rb_buffer r ! ((?f + Suc i) mod S)"
        using True lt S by (simp add: nth_tl) (simp add: rb_copy_to_nth)
      ultimately show ?thesis using True S by (simp add: nth_append)
    next
      case False
      then have "Suc i = S" using iS by simp
      then have "(?f + Suc i) mod S = ?f" "i = S - 1" using S by simp_all
      then show ?thesis using new True S by (simp add: nth_append)
    qed
  next
    case False
    then have lt: "?n < S" using S by simp
    have new: "rb_copy_to (rb_push x r) ! i = (rb_buffer r)[(?f + ?n) mod S := x] ! ((?f + i) mod S)"
      using i False S bk
      by (simp add: rb_push_def rb_advance_def Let_def rb_copy_to_nth rb_S_def del: upt_Suc)
    have iS: "i \<le> ?n" using i False S by (simp add: rb_push_def rb_advance_def Let_def rb_S_def)
    show ?thesis
    proof (cases "i = ?n")
      case True
      then show ?thesis using new False S by (simp add: nth_append)
    next
      case ne: False
      then have "(?f + i) mod S \<noteq> (?f + ?n) mod S"
        using ring_pos_inj [of i S ?n ?f] iS lt by auto
      moreover have "i < ?n" using ne iS by simp
      moreover from this have "rb_copy_to r ! i = rb_buffer r ! ((?f + i) mod S)"
        using S by (simp add: rb_copy_to_nth)
      ultimately show ?thesis using new False S by (simp add: nth_append)
    qed
  qed
qed

lemma rb_pop_contents: "rb_ok S r \<Longrightarrow> rb_copy_to (rb_pop r) = tl (rb_copy_to r)"
proof -
  assume r: "rb_ok S r"
  show ?thesis
  proof (cases "rb_size r")
    case 0
    then show ?thesis by (simp add: rb_pop_def rb_copy_to_nth)
  next
    case (Suc n)
    have "(Suc (rb_front r) mod rb_S r + i) mod rb_S r = (rb_front r + Suc i) mod rb_S r" for i
      using mod_add_left_eq [of "Suc (rb_front r)" "rb_S r" i] by simp
    then have "rb_copy_to (rb_pop r) = map (\<lambda>i. rb_buffer r ! ((rb_front r + Suc i) mod rb_S r)) [0..<n]"
      using Suc by (simp add: rb_pop_def rb_copy_to_nth rb_S_def)
    also have "\<dots> = map (\<lambda>i. rb_buffer r ! ((rb_front r + i) mod rb_S r)) (map Suc [0..<n])"
      by (simp only: map_map comp_def)
    finally show ?thesis using Suc by (simp add: rb_copy_to_nth map_Suc_upt upt_conv_Cons del: upt_Suc)
  qed
qed

interpretation ring: forgetful_fifo rb_copy_to rb_push rb_pop S "rb_ok S" for S
  by unfold_locales (simp_all add: rb_push_ok rb_pop_ok rb_push_contents rb_pop_contents, simp add: rb_ok_def)

end
