(* ===== verification/Utilities.thy ===== *)
theory Utilities
  imports Containers "HOL-Library.Monad_Syntax"
begin

text \<open>
  The other utilities of \<open>src/systems\<close> and \<open>src/common\<close>: the blocking queue, the arena
  allocator, the time-stamped vector, ranges of sorted arrays and views, guards, exceptions,
  the timer, and the text helpers.
\<close>

section \<open>\<open>BlockedQueue\<close>\<close>

text \<open>\<open>None\<close> is a call that waits on the condition variable.\<close>

definition bq_enqueue :: "'a \<Rightarrow> 'a list \<Rightarrow> 'a list" where
  "bq_enqueue x q = q @ [x]"

definition bq_dequeue :: "'a list \<Rightarrow> ('a \<times> 'a list) option" where
  "bq_dequeue q = (if q = [] then None else Some (hd q, tl q))"

text \<open>\<open>dequeue_array\<close> swaps: what was in the destination becomes the queue.\<close>

definition bq_dequeue_array :: "'a list \<Rightarrow> 'a list \<Rightarrow> ('a list \<times> 'a list) option" where
  "bq_dequeue_array destination q = (if q = [] then None else Some (q, destination))"

fun bq_drain :: "'a list \<Rightarrow> 'a list \<Rightarrow> 'a list" where
  "bq_drain [] out = out"
| "bq_drain (x # q) out = bq_drain q (out @ [x])"

text \<open>The bound of \<open>wait_dequeue_bulk\<close> is not used.\<close>

definition bq_wait_dequeue_bulk :: "nat \<Rightarrow> 'a list \<Rightarrow> ('a list \<times> 'a list) option" where
  "bq_wait_dequeue_bulk n q = (if q = [] then None else Some (bq_drain q [], []))"

definition bq_stop :: "'a \<Rightarrow> 'a list \<Rightarrow> 'a list" where
  "bq_stop fake_object q = bq_enqueue fake_object q"

lemma bq_drain_append: "bq_drain q out = out @ q"
  by (induction q out rule: bq_drain.induct) auto

section \<open>\<open>Allocator\<close>\<close>

text \<open>
  The arena: the base addresses of its extents, the newest last, and the position in the newest.
  \<open>fresh n\<close> is the address \<open>new\<close> gives the n-th extent.
\<close>

record arena =
  ar_position :: nat
  ar_storage :: "nat list"

definition extent_size :: nat where
  "extent_size = 65536"

definition allocate_extent :: "(nat \<Rightarrow> nat) \<Rightarrow> arena \<Rightarrow> arena" where
  "allocate_extent fresh a = a\<lparr>ar_storage := ar_storage a @ [fresh (length (ar_storage a))], ar_position := 0\<rparr>"

definition new_arena :: "(nat \<Rightarrow> nat) \<Rightarrow> arena" where
  "new_arena fresh = allocate_extent fresh \<lparr>ar_position = extent_size, ar_storage = []\<rparr>"

definition alignment_gap :: "nat \<Rightarrow> nat \<Rightarrow> nat" where
  "alignment_gap address alignment =
     (let r = address mod alignment in if r \<noteq> 0 then alignment - r else r)"

definition current_position :: "arena \<Rightarrow> nat" where
  "current_position a = last (ar_storage a) + ar_position a"

definition bytes_for_alignment :: "nat \<Rightarrow> arena \<Rightarrow> nat" where
  "bytes_for_alignment alignment a = alignment_gap (current_position a) alignment"

partial_function (option) allocate_aligned ::
  "(nat \<Rightarrow> nat) \<Rightarrow> nat \<Rightarrow> nat \<Rightarrow> arena \<Rightarrow> (nat \<times> arena) option" where
  "allocate_aligned fresh sz alignment a =
     (if ar_position a + bytes_for_alignment alignment a + sz > extent_size
      then allocate_aligned fresh sz alignment (allocate_extent fresh a)
      else Some (current_position a + bytes_for_alignment alignment a,
             a\<lparr>ar_position := ar_position a + (bytes_for_alignment alignment a + sz)\<rparr>))"

definition consumedMemory :: "arena \<Rightarrow> nat" where
  "consumedMemory a = length (ar_storage a) * extent_size"

lemma alignment_gap_less: "0 < alignment \<Longrightarrow> alignment_gap p alignment < alignment"
  by (simp add: alignment_gap_def Let_def)

lemma alignment_gap_aligns: "0 < alignment \<Longrightarrow> (p + alignment_gap p alignment) mod alignment = 0"
proof -
  assume k: "0 < alignment"
  show ?thesis
  proof (cases "p mod alignment = 0")
    case True
    then show ?thesis by (simp add: alignment_gap_def)
  next
    case False
    have "(p + (alignment - p mod alignment)) mod alignment = (p mod alignment + (alignment - p mod alignment)) mod alignment"
      by (rule mod_add_left_eq [symmetric])
    also have "p mod alignment + (alignment - p mod alignment) = alignment"
      using k by (simp add: less_imp_le)
    finally show ?thesis using False by (simp add: alignment_gap_def Let_def)
  qed
qed

lemma allocate_too_big:
  assumes "allocate_aligned fresh sz alignment a = Some r"
  shows "sz \<le> extent_size"
proof (rule allocate_aligned.raw_induct [of "\<lambda>f sz al a r. sz \<le> extent_size", OF _ assms])
  fix alloc :: "(nat \<Rightarrow> nat) \<Rightarrow> nat \<Rightarrow> nat \<Rightarrow> arena \<Rightarrow> (nat \<times> arena) option"
    and fresh sz alignment a r
  assume ih: "\<And>f sz al a r. alloc f sz al a = Some r \<Longrightarrow> sz \<le> extent_size"
    and eq: "(if ar_position a + bytes_for_alignment alignment a + sz > extent_size
      then alloc fresh sz alignment (allocate_extent fresh a)
      else Some (current_position a + bytes_for_alignment alignment a,
             a\<lparr>ar_position := ar_position a + (bytes_for_alignment alignment a + sz)\<rparr>)) = Some r"
  then show "sz \<le> extent_size" by (auto split: if_splits dest: ih)
qed

section \<open>\<open>timed_vector\<close>\<close>

record 'v timed_storage =
  ts_date_start :: int
  ts_date_end :: int
  ts_value :: 'v

definition find_by_start :: "int \<Rightarrow> 'v timed_storage list \<Rightarrow> nat" where
  "find_by_start start v = lower_bound (\<lambda>e. ts_date_start e < start) v"

definition insert_range ::
  "int \<Rightarrow> int \<Rightarrow> 'v \<Rightarrow> 'v timed_storage list \<Rightarrow> 'v timed_storage list" where
  "insert_range start finish value v =
     (let it = find_by_start start v
      in take it v @ [\<lparr>ts_date_start = start, ts_date_end = finish, ts_value = value\<rparr>] @ drop it v)"

text \<open>\<open>d\<close> is the value \<open>Type{}\<close>.\<close>

definition find_value :: "'v \<Rightarrow> int \<Rightarrow> 'v timed_storage list \<Rightarrow> 'v" where
  "find_value d time v =
     (let it = upper_bound (\<lambda>e. ts_date_end e > time) v
      in if it = length v \<or> ts_date_end (v ! it) < time then d else ts_value (v ! it))"

section \<open>Ranges and views\<close>

text \<open>A view is a position in the array it looks into and a size; \<open>nullptr\<close> is the empty view.\<close>

record 'a array_view =
  av_array :: "'a list"
  av_ptr :: "nat option"
  av_size :: nat

definition av_of_vector :: "'a list \<Rightarrow> 'a array_view" where
  "av_of_vector vec = \<lparr>av_array = vec, av_ptr = Some 0, av_size = length vec\<rparr>"

definition av_null :: "'a array_view" where
  "av_null = \<lparr>av_array = [], av_ptr = None, av_size = 0\<rparr>"

definition av_empty :: "'a array_view \<Rightarrow> bool" where
  "av_empty v \<longleftrightarrow> av_size v = 0 \<or> av_ptr v = None"

text \<open>A failed assertion is \<open>Undefined\<close>: release builds read past the view.\<close>

definition av_at :: "'a array_view \<Rightarrow> nat \<Rightarrow> 'a outcome" where
  "av_at v i = (case av_ptr v of
       Some p \<Rightarrow> if i < av_size v then Ok (av_array v ! (p + i)) else Undefined
     | None \<Rightarrow> Undefined)"

definition av_front :: "'a array_view \<Rightarrow> 'a outcome" where
  "av_front v = (case av_ptr v of
       Some p \<Rightarrow> if av_size v > 0 then Ok (av_array v ! p) else Undefined
     | None \<Rightarrow> Undefined)"

definition av_back :: "'a array_view \<Rightarrow> 'a outcome" where
  "av_back v = (case av_ptr v of
       Some p \<Rightarrow> if av_size v > 0 then Ok (av_array v ! (p + av_size v - 1)) else Undefined
     | None \<Rightarrow> Undefined)"

definition av_items :: "'a array_view \<Rightarrow> 'a list" where
  "av_items v = (case av_ptr v of Some p \<Rightarrow> take (av_size v) (drop p (av_array v)) | None \<Rightarrow> [])"

definition extract_range :: "('a \<Rightarrow> 'k::linorder) \<Rightarrow> 'k \<Rightarrow> 'a list \<Rightarrow> 'a array_view" where
  "extract_range mem_ptr seeking xs =
     (let lb = lower_bound (\<lambda>l. mem_ptr l < seeking) xs
      in if lb = length xs then av_null
         else let ub = lb + upper_bound (\<lambda>r. seeking < mem_ptr r) (drop lb xs)
              in \<lparr>av_array = xs, av_ptr = Some lb, av_size = ub - lb\<rparr>)"

definition to_vector :: "('a \<Rightarrow> 'b) \<Rightarrow> 'a list \<Rightarrow> 'b list" where
  "to_vector f cont = fold (\<lambda>v result. result @ [f v]) cont []"

text \<open>Values of a total order: \<open>std::sort\<close> has one result. \<open>std::unique\<close> keeps the first of each run.\<close>

definition to_unique_vector :: "('a \<Rightarrow> 'b::linorder) \<Rightarrow> 'a list \<Rightarrow> 'b list" where
  "to_unique_vector f cont = remdups_adj (sort (to_vector f cont))"

lemma to_vector_map: "to_vector f cont = map f cont"
  using fold_append_map [of "\<lambda>v. [f v]" cont "[]"] by (simp add: to_vector_def)

lemma sorted_cut:
  fixes key :: "'a \<Rightarrow> 'k::linorder"
  assumes "sorted (map key xs)"
    and "p \<le> length xs" "\<forall>i < p. key (xs ! i) < k" "\<forall>i. p \<le> i \<and> i < length xs \<longrightarrow> k \<le> key (xs ! i)"
  shows "filter (\<lambda>x. key x = k) xs = filter (\<lambda>x. key x = k) (drop p xs)"
proof -
  have "filter (\<lambda>x. key x = k) (take p xs) = []"
  proof (unfold filter_empty_conv, rule ballI)
    fix x assume "x \<in> set (take p xs)"
    then obtain i where "i < p" "x = xs ! i" using assms(2) by (auto simp: in_set_conv_nth)
    with assms(3) show "key x \<noteq> k" by auto
  qed
  then show ?thesis by (metis append_Nil append_take_drop_id filter_append)
qed

lemma upper_cut:
  fixes key :: "'a \<Rightarrow> 'k::linorder"
  assumes s: "sorted (map key ys)" and ge: "\<forall>y \<in> set ys. k \<le> key y"
  shows "filter (\<lambda>x. key x = k) ys = take (upper_bound (\<lambda>r. k < key r) ys) ys"
proof -
  let ?u = "upper_bound (\<lambda>r. k < key r) ys"
  have u: "?u \<le> length ys" "\<forall>i < ?u. key (ys ! i) \<le> k" "\<forall>i. ?u \<le> i \<and> i < length ys \<longrightarrow> k < key (ys ! i)"
    using upper_bound_sorted [OF s, of k] by (simp_all add: Let_def)
  have "\<forall>y \<in> set (take ?u ys). key y = k"
  proof
    fix y assume y: "y \<in> set (take ?u ys)"
    then have "key y \<le> k" using u by (auto simp: in_set_conv_nth)
    moreover have "k \<le> key y" using ge in_set_takeD [OF y] by blast
    ultimately show "key y = k" by simp
  qed
  moreover have "\<forall>y \<in> set (drop ?u ys). key y \<noteq> k"
  proof
    fix y assume "y \<in> set (drop ?u ys)"
    then obtain i where "i < length (drop ?u ys)" "y = drop ?u ys ! i" unfolding in_set_conv_nth by blast
    then have "?u + i < length ys" "y = ys ! (?u + i)" using u(1) by simp_all
    then have "k < key y" using u(3) by simp
    then show "key y \<noteq> k" by simp
  qed
  ultimately have "filter (\<lambda>x. key x = k) (take ?u ys) = take ?u ys"
    "filter (\<lambda>x. key x = k) (drop ?u ys) = []"
    by (simp_all only: filter_True filter_False)
  then have "filter (\<lambda>x. key x = k) (take ?u ys @ drop ?u ys) = take ?u ys"
    unfolding filter_append by (simp only: append_Nil2)
  then show ?thesis by (simp only: append_take_drop_id)
qed

lemma extract_range_filter:
  fixes key :: "'a \<Rightarrow> 'k::linorder"
  assumes s: "sorted (map key xs)"
  shows "av_items (extract_range key k xs) = filter (\<lambda>x. key x = k) xs"
proof -
  let ?lb = "lower_bound (\<lambda>l. key l < k) xs"
  have lb: "?lb \<le> length xs" "\<forall>i < ?lb. key (xs ! i) < k"
    "\<forall>i. ?lb \<le> i \<and> i < length xs \<longrightarrow> k \<le> key (xs ! i)"
    using lower_bound_sorted [OF s, of k] by (simp_all add: Let_def)
  note cut = sorted_cut [OF s lb]
  show ?thesis
  proof (cases "?lb = length xs")
    case True
    with cut show ?thesis by (simp add: extract_range_def av_items_def av_null_def)
  next
    case False
    have "sorted (map key (drop ?lb xs))"
      using s sorted_wrt_drop [of "(\<le>)" "map key xs" ?lb] by (simp add: drop_map)
    moreover have "\<forall>y \<in> set (drop ?lb xs). k \<le> key y" using lb by (auto simp: in_set_conv_nth)
    ultimately show ?thesis
      using upper_cut [of key "drop ?lb xs" k] cut False
      by (simp add: extract_range_def av_items_def Let_def)
  qed
qed

lemma sorted_remdups_adj_strict: "sorted xs \<Longrightarrow> sorted_wrt (<) (remdups_adj (xs :: 'a::linorder list))"
  by (induction xs rule: remdups_adj.induct) (auto simp: less_le)

section \<open>\<open>ScopeGuard\<close> and \<open>reusable_object\<close>\<close>

text \<open>A guard is its committed flag; leaving the scope says whether the task runs.\<close>

record scope_guard =
  sg_committed :: bool

definition sg_new :: scope_guard where
  "sg_new = \<lparr>sg_committed = False\<rparr>"

definition sg_commit :: "scope_guard \<Rightarrow> scope_guard" where
  "sg_commit g = g\<lparr>sg_committed := True\<rparr>"

text \<open>The move constructor: the new guard and the one moved from.\<close>

definition sg_move :: "scope_guard \<Rightarrow> scope_guard \<times> scope_guard" where
  "sg_move other = (\<lparr>sg_committed = sg_committed other\<rparr>, other\<lparr>sg_committed := True\<rparr>)"

definition sg_destroy :: "scope_guard \<Rightarrow> bool" where
  "sg_destroy g = (\<not> sg_committed g)"

record 'a reusable =
  ru_poolId :: int
  ru_instance :: "'a option"

definition ru_copy :: "'a reusable \<Rightarrow> 'a reusable" where
  "ru_copy other = \<lparr>ru_poolId = ru_poolId other, ru_instance = ru_instance other\<rparr>"

definition ru_move :: "'a reusable \<Rightarrow> 'a reusable \<times> 'a reusable" where
  "ru_move other = (other, other\<lparr>ru_instance := None\<rparr>)"

text \<open>The destructor hands the instance to the callback, which is given the pool.\<close>

definition ru_destroy :: "(int \<Rightarrow> 'a \<Rightarrow> 's \<Rightarrow> 's) \<Rightarrow> 'a reusable \<Rightarrow> 's \<Rightarrow> 's" where
  "ru_destroy callback r st = (case ru_instance r of None \<Rightarrow> st | Some x \<Rightarrow> callback (ru_poolId r) x st)"

section \<open>Text\<close>

fun join_loop :: "string \<Rightarrow> bool \<Rightarrow> string list \<Rightarrow> string \<Rightarrow> string" where
  "join_loop sep first [] out = out"
| "join_loop sep first (v # vs) out = join_loop sep False vs ((if first then out else out @ sep) @ v)"

text \<open>Both overloads of \<open>join_through\<close>, on values as they print.\<close>

definition join_through :: "string list \<Rightarrow> string \<Rightarrow> string" where
  "join_through container separator = join_loop (c_str separator) True container []"

definition dump_container :: "string list \<Rightarrow> string" where
  "dump_container values = ''{'' @ join_loop '','' True values [] @ ''}''"

definition concat_args :: "string list \<Rightarrow> string" where
  "concat_args args = fold (\<lambda>a result. result @ a) args []"

fun scan_back :: "string \<Rightarrow> nat \<Rightarrow> nat" where
  "scan_back pretty 0 = 0"
| "scan_back pretty (Suc p) = (if pretty ! p \<noteq> CHR '' '' then scan_back pretty p else Suc p)"

definition compact_pretty_function :: "string option \<Rightarrow> string option \<Rightarrow> string" where
  "compact_pretty_function pretty name =
     (case (pretty, name) of
        (Some pretty, Some name) \<Rightarrow>
          (case find_sub (name @ ''('') pretty of
             None \<Rightarrow> ''Unknown''
           | Some func_place \<Rightarrow>
               let place = scan_back pretty func_place
               in substr place (func_place + length name - place) pretty)
      | _ \<Rightarrow> [])"

lemma join_loop_eq:
  "join_loop sep first vs out =
     out @ (if first \<or> vs = [] then [] else sep) @ join_strings sep vs"
proof (induction vs arbitrary: first out)
  case Nil
  then show ?case by simp
next
  case (Cons v vs)
  show ?case using Cons.IH [of False "(if first then out else out @ sep) @ v"] by (cases vs) auto
qed

lemma join_through_strings: "join_through vs sep = join_strings (c_str sep) vs"
  by (simp add: join_through_def join_loop_eq)

lemma concat_args_concat: "concat_args args = concat args"
  using fold_append_map [of "\<lambda>a. a" args "[]"] by (simp add: concat_args_def)

section \<open>Exceptions\<close>

record exception =
  ex_message :: string
  ex_traceList :: "string list"

text \<open>The constructor concatenates all its arguments into the message.\<close>

definition new_exception :: "string list \<Rightarrow> exception" where
  "new_exception inpts = \<lparr>ex_message = concat_args inpts, ex_traceList = []\<rparr>"

definition addTrace :: "string \<Rightarrow> exception \<Rightarrow> exception" where
  "addTrace trace e = e\<lparr>ex_traceList := trace # ex_traceList e\<rparr>"

definition getFullMessage :: "exception \<Rightarrow> string" where
  "getFullMessage e =
     (let message = fold (\<lambda>t m. m @ t @ '' -> '') (ex_traceList e) [];
          message = (if length message > 0 then message @ newline else message)
      in message @ ex_message e)"

text \<open>\<open>ExceptionHolder\<close>: the stored \<open>exception_ptr\<close>; the result of \<open>try_rethrow\<close> is what it throws.\<close>

definition save_exception :: "'e option \<Rightarrow> 'e option \<Rightarrow> 'e option" where
  "save_exception ex holder = ex"

definition try_rethrow :: "'e option \<Rightarrow> 'e option \<times> 'e option" where
  "try_rethrow holder = (case holder of None \<Rightarrow> (None, None) | Some e \<Rightarrow> (Some e, None))"

definition have_exception :: "'e option \<Rightarrow> bool" where
  "have_exception holder = (holder \<noteq> None)"

section \<open>\<open>Timer\<close>\<close>

text \<open>
  Times are exact nanoseconds; the source keeps intervals as \<open>double\<close>. Each operation takes the
  calling thread and the reading of each clock, processor time first as in the template chain.
\<close>

datatype timer_state = STARTED | STOPPED

record clock_part =
  ck_lastMeasuredInterval :: int
  ck_totalMeasuredIntervals :: int
  ck_startPoint :: int

record timer =
  tr_state :: timer_state
  tr_startedFrom :: "nat option"
  tr_nDoneMeasurements :: nat
  tr_cpu :: clock_part
  tr_mono :: clock_part

definition timer_new :: timer where
  "timer_new = \<lparr>tr_state = STOPPED, tr_startedFrom = None, tr_nDoneMeasurements = 0,
     tr_cpu = \<lparr>ck_lastMeasuredInterval = 0, ck_totalMeasuredIntervals = 0, ck_startPoint = 0\<rparr>,
     tr_mono = \<lparr>ck_lastMeasuredInterval = 0, ck_totalMeasuredIntervals = 0, ck_startPoint = 0\<rparr>\<rparr>"

text \<open>Each step gives the state it leaves and the message of what it throws, if it throws.\<close>

definition base_start :: "nat \<Rightarrow> timer \<Rightarrow> timer \<times> string option" where
  "base_start tid t =
     (if tr_state t \<noteq> STOPPED then (t, Some ''can't start timer from not STOPPED state'')
      else (t\<lparr>tr_state := STARTED, tr_startedFrom := Some tid\<rparr>, None))"

definition base_stop :: "nat \<Rightarrow> timer \<Rightarrow> timer \<times> string option" where
  "base_stop tid t =
     (if tr_state t \<noteq> STARTED then (t, Some ''can't stop timer from not STARTED state'')
      else if tr_startedFrom t \<noteq> Some tid then (t, Some ''can't start/stop timer from different threads'')
      else (t\<lparr>tr_state := STOPPED, tr_startedFrom := None,
              tr_nDoneMeasurements := tr_nDoneMeasurements t + 1\<rparr>, None))"

definition timer_start :: "nat \<Rightarrow> int \<Rightarrow> int \<Rightarrow> timer \<Rightarrow> timer \<times> string option" where
  "timer_start tid cpu_now mono_now t =
     (case base_start tid t of
        (t, Some m) \<Rightarrow> (t, Some m)
      | (t, None) \<Rightarrow>
          (t\<lparr>tr_mono := (tr_mono t)\<lparr>ck_startPoint := mono_now\<rparr>,
             tr_cpu := (tr_cpu t)\<lparr>ck_startPoint := cpu_now\<rparr>\<rparr>, None))"

definition close_interval :: "int \<Rightarrow> clock_part \<Rightarrow> clock_part" where
  "close_interval now c =
     (let d = now - ck_startPoint c
      in \<lparr>ck_lastMeasuredInterval = d, ck_totalMeasuredIntervals = ck_totalMeasuredIntervals c + d,
          ck_startPoint = 0\<rparr>)"

definition timer_stop :: "nat \<Rightarrow> int \<Rightarrow> int \<Rightarrow> timer \<Rightarrow> timer \<times> string option" where
  "timer_stop tid cpu_now mono_now t =
     (if tr_state t \<noteq> STARTED then (t, Some ''Timer::currentMeasuredInterval: timer is not started'')
      else
        let t = t\<lparr>tr_cpu := close_interval cpu_now (tr_cpu t)\<rparr>;
            t = t\<lparr>tr_mono := close_interval mono_now (tr_mono t)\<rparr>
        in base_stop tid t)"

definition time_units :: "(int \<times> char) list" where
  "time_units = [(86400, CHR ''d''), (3600, CHR ''h''), (60, CHR ''m'')]"

text \<open>Division of a non-negative \<open>int\<close>; for a negative one no unit is extracted.\<close>

fun derive_units :: "(int \<times> char) list \<Rightarrow> int \<Rightarrow> string \<Rightarrow> string \<times> int" where
  "derive_units [] rest_seconds units_str = (units_str, rest_seconds)"
| "derive_units ((duration, unit_letter) # us) rest_seconds units_str =
     (let n = rest_seconds div duration
      in if n > 0
         then derive_units us (rest_seconds - n * duration) (units_str @ show_int n @ [CHR '' '', unit_letter, CHR '' ''])
         else derive_units us rest_seconds units_str)"

definition extract_derived_units_time_str :: "int \<Rightarrow> string \<times> int" where
  "extract_derived_units_time_str seconds =
     (let (units_str, rest_seconds) = derive_units time_units seconds [] in (units_str, seconds - rest_seconds))"

definition seconds_to_human_readable_str :: "int \<Rightarrow> string" where
  "seconds_to_human_readable_str seconds =
     (let prefix = extract_derived_units_time_str seconds
      in fst prefix @ show_int (seconds - snd prefix) @ '' s'')"

lemma derive_units_rest:
  assumes "\<forall>(d, c) \<in> set us. 0 < d" "0 \<le> s"
  shows "0 \<le> snd (derive_units us s str) \<and> snd (derive_units us s str) \<le> s \<and>
    (us \<noteq> [] \<longrightarrow> snd (derive_units us s str) < fst (last us))"
  using assms
proof (induction us s str rule: derive_units.induct)
  case (1 s str)
  then show ?case by simp
next
  case (2 d c us s str)
  let ?n = "s div d"
  have d: "0 < d" using 2 by simp
  have r: "s - ?n * d = s mod d" by (simp add: minus_div_mult_eq_mod)
  have m: "0 \<le> s mod d" "s mod d < d" "s mod d \<le> s" using d 2 by (simp_all add: zmod_le_nonneg_dividend)
  show ?case
  proof (cases "?n > 0")
    case True
    with 2 m show ?thesis by (auto simp: Let_def r)
  next
    case False
    then have "s < d" using d 2 by (simp add: pos_imp_zdiv_pos_iff)
    with False 2 show ?thesis by (auto simp: Let_def)
  qed
qed

lemma allocate_extent_fields [simp]:
  "ar_position (allocate_extent fresh a) = 0"
  "ar_storage (allocate_extent fresh a) = ar_storage a @ [fresh (length (ar_storage a))]"
  by (simp_all add: allocate_extent_def)

lemma allocate_fits:
  assumes "0 < alignment" "ar_position a + bytes_for_alignment alignment a + sz \<le> extent_size"
  shows "allocate_aligned fresh sz alignment a = Some (current_position a + bytes_for_alignment alignment a,
           a\<lparr>ar_position := ar_position a + (bytes_for_alignment alignment a + sz)\<rparr>)"
  using assms by (subst allocate_aligned.simps) simp

section \<open>Properties\<close>

text \<open>
  The ring buffer is a queue that forgets. After pushing any sequence onto a good
  ring of size \<open>S\<close>, what \<open>copy_to\<close> writes is the last \<open>S\<close> of the old contents followed by the
  sequence, oldest first.
\<close>

theorem ring_keeps_last:
  assumes "rb_ok S r"
  shows "rb_copy_to (fold rb_push xs r) =
    drop (length (rb_copy_to r @ xs) - S) (rb_copy_to r @ xs) \<and> rb_ok S (fold rb_push xs r)"
  using ring.contents_fold_push [OF assms] ring.fold_push_ok [OF assms] by blast

theorem ring_keeps_last_witness:
  "rb_copy_to (fold rb_push [1, 2, 3, 4] (rb_new [0, 0, 0 :: int])) = [2, 3, 4]"
  using ring_keeps_last [of 3 "rb_new [0, 0, 0]" "[1, 2, 3, 4 :: int]"] rb_new_ok [of "[0, 0, 0 :: int]"]
  by (simp add: numeral_3_eq_3)

text \<open>
  On an array sorted by the member, \<open>extract_range\<close> is the view of exactly the
  elements whose member is the sought value, in order.
\<close>

theorem extract_range_sorted:
  fixes mem_ptr :: "'a \<Rightarrow> 'k::linorder"
  assumes "sorted (map mem_ptr xs)"
  shows "av_items (extract_range mem_ptr k xs) = filter (\<lambda>x. mem_ptr x = k) xs"
  using assms by (rule extract_range_filter)

theorem extract_range_sorted_witness:
  "av_items (extract_range fst (2::int) [(1, ''a''), (2, ''b''), (2, ''c''), (5, ''d'')]) = [(2, ''b''), (2, ''c'')]"
  using extract_range_sorted [of fst "[(1, ''a''), (2, ''b''), (2, ''c''), (5, ''d'')]" "2::int"] by simp

text \<open>
  The arena. An allocation that fits an extent with its alignment returns an
  aligned address whose bytes lie inside the newest extent, past everything given out there
  before; an allocation larger than an extent never returns, because it asks for a new extent
  again and again.
\<close>

theorem allocate_aligned_result:
  assumes "0 < alignment"
  shows "(sz > extent_size \<longrightarrow> allocate_aligned fresh sz alignment a = None) \<and>
    (sz + alignment \<le> extent_size + 1 \<longrightarrow>
       (\<exists>p a'. allocate_aligned fresh sz alignment a = Some (p, a') \<and> p mod alignment = 0 \<and>
          last (ar_storage a') \<le> p \<and> p + sz \<le> last (ar_storage a') + extent_size \<and>
          p + sz = current_position a' \<and>
          (ar_storage a' = ar_storage a \<longrightarrow> current_position a \<le> p)))"
proof (intro conjI impI)
  show "sz > extent_size \<Longrightarrow> allocate_aligned fresh sz alignment a = None"
    using allocate_too_big [of fresh sz alignment a] by (cases "allocate_aligned fresh sz alignment a") auto
  assume fits: "sz + alignment \<le> extent_size + 1"
  have al: "(current_position b + bytes_for_alignment alignment b) mod alignment = 0" for b
    using alignment_gap_aligns [OF assms] by (simp add: bytes_for_alignment_def)
  show "\<exists>p a'. allocate_aligned fresh sz alignment a = Some (p, a') \<and> p mod alignment = 0 \<and>
      last (ar_storage a') \<le> p \<and> p + sz \<le> last (ar_storage a') + extent_size \<and>
      p + sz = current_position a' \<and> (ar_storage a' = ar_storage a \<longrightarrow> current_position a \<le> p)"
  proof (cases "ar_position a + bytes_for_alignment alignment a + sz \<le> extent_size")
    case True
    with al [of a] show ?thesis by (auto simp: allocate_fits [OF assms] current_position_def)
  next
    case False
    let ?b = "allocate_extent fresh a"
    have "bytes_for_alignment alignment ?b < alignment"
      using alignment_gap_less [OF assms] by (simp add: bytes_for_alignment_def)
    then have f: "ar_position ?b + bytes_for_alignment alignment ?b + sz \<le> extent_size" using fits by simp
    have "allocate_aligned fresh sz alignment a = allocate_aligned fresh sz alignment ?b"
      using False by (subst allocate_aligned.simps) simp
    with al [of ?b] f show ?thesis by (auto simp: allocate_fits [OF assms f] current_position_def)
  qed
qed

theorem allocate_aligned_result_witness:
  "allocate_aligned (\<lambda>n. 100000 * n) 70000 8 (new_arena (\<lambda>n. 100000 * n)) = None"
  using allocate_aligned_result [of 8 70000 "\<lambda>n. 100000 * n" "new_arena (\<lambda>n. 100000 * n)"]
  by (simp add: extent_size_def)

text \<open>
  The timer. From a stopped timer, a start and a stop by one thread count one
  measurement and add exactly the elapsed time; a second start throws and changes nothing; a
  stop from another thread throws and leaves the timer started, but its interval has been
  added to the total already and the start point is gone.
\<close>

theorem timer_start_stop:
  assumes "tr_state t = STOPPED"
  shows "\<exists>u. timer_start tid c0 m0 t = (u, None) \<and>
    timer_start tid2 c1 m1 u = (u, Some ''can't start timer from not STOPPED state'') \<and>
    (\<exists>w. timer_stop tid c1 m1 u = (w, None) \<and> tr_state w = STOPPED \<and>
       tr_nDoneMeasurements w = tr_nDoneMeasurements t + 1 \<and>
       ck_totalMeasuredIntervals (tr_mono w) = ck_totalMeasuredIntervals (tr_mono t) + (m1 - m0) \<and>
       ck_totalMeasuredIntervals (tr_cpu w) = ck_totalMeasuredIntervals (tr_cpu t) + (c1 - c0)) \<and>
    (tid2 \<noteq> tid \<longrightarrow> (\<exists>w m. timer_stop tid2 c1 m1 u = (w, Some m) \<and> tr_state w = STARTED \<and>
       tr_nDoneMeasurements w = tr_nDoneMeasurements t \<and>
       ck_totalMeasuredIntervals (tr_mono w) = ck_totalMeasuredIntervals (tr_mono t) + (m1 - m0) \<and>
       ck_startPoint (tr_mono w) = 0))"
  using assms
  by (simp add: timer_start_def timer_stop_def base_start_def base_stop_def close_interval_def Let_def)

theorem timer_start_stop_witness:
  "\<exists>u w. timer_start 1 0 10 timer_new = (u, None) \<and> timer_stop 1 5 25 u = (w, None) \<and>
     ck_totalMeasuredIntervals (tr_mono w) = 15"
proof -
  have "tr_state timer_new = STOPPED" by (simp add: timer_new_def)
  from timer_start_stop [OF this, of 1 0 10 2 5 25] show ?thesis by (auto simp: timer_new_def)
qed

end
