(* ===== verification/Db_Result.thy ===== *)
theory Db_Result
  imports Complex_Main Split Utilities
begin

text \<open>
  The data side of \<open>src/db\<close>: query results and their cursor (\<open>BDbResult\<close>), the in-memory result
  of the tests (\<open>MockBDbResult\<close>), parameter sets (\<open>ParamQuery\<close>), transactions, the connection
  pool and the speed limiter. \<open>libpq\<close> is not part of the sources: a \<open>PGresult\<close> is its number
  of tuples and the documented look-ups by column name, where \<open>None\<close> is the null pointer that
  \<open>PQgetvalue\<close> returns for a row or column that does not exist.
\<close>

section \<open>\<open>BDbResult\<close>\<close>

record pg_result =
  pg_ntuples :: nat
  pg_getvalue :: "int \<Rightarrow> string \<Rightarrow> string option"
  pg_getisnull :: "int \<Rightarrow> string \<Rightarrow> bool"

record bdb_result =
  br_res :: "pg_result option"
  br_count :: int
  br_index :: int
  br_noticies :: "string list"

definition br_new :: "pg_result \<Rightarrow> string list \<Rightarrow> bdb_result" where
  "br_new res noticies =
     \<lparr>br_res = Some res, br_count = int (pg_ntuples res), br_index = - 1, br_noticies = noticies\<rparr>"

text \<open>A move leaves the source empty: the new result and the one moved from.\<close>

definition br_move :: "bdb_result \<Rightarrow> bdb_result \<times> bdb_result" where
  "br_move bd = (bd, \<lparr>br_res = None, br_count = 0, br_index = - 1, br_noticies = []\<rparr>)"

definition br_size :: "bdb_result \<Rightarrow> int" where
  "br_size br = uint64 (br_count br)"

definition br_position :: "bdb_result \<Rightarrow> int" where
  "br_position br = uint64 (br_index br)"

text \<open>The text of a field of the current row; using a null pointer is undefined.\<close>

definition br_field :: "bdb_result \<Rightarrow> int \<Rightarrow> string \<Rightarrow> string outcome" where
  "br_field br r name = (case br_res br of None \<Rightarrow> Undefined
     | Some res \<Rightarrow> (case pg_getvalue res r name of None \<Rightarrow> Undefined | Some s \<Rightarrow> Ok (c_str s)))"

definition br_is_null :: "bdb_result \<Rightarrow> string \<Rightarrow> bool" where
  "br_is_null br name = (case br_res br of None \<Rightarrow> True | Some res \<Rightarrow> pg_getisnull res (br_index br) name)"

definition br_get_i :: "bdb_result \<Rightarrow> string \<Rightarrow> int outcome" where
  "br_get_i br name = bind_outcome (br_field br (br_index br) name) (\<lambda>s. Ok (atoi s))"

definition br_get_ll :: "bdb_result \<Rightarrow> string \<Rightarrow> int outcome" where
  "br_get_ll br name = bind_outcome (br_field br (br_index br) name) (\<lambda>s. Ok (atoll s))"

definition br_get_b :: "bdb_result \<Rightarrow> string \<Rightarrow> bool outcome" where
  "br_get_b br name =
     bind_outcome (br_field br (br_index br) name) (\<lambda>s. Ok (s \<noteq> [] \<and> hd s = CHR ''t''))"

definition br_get_s :: "bdb_result \<Rightarrow> string \<Rightarrow> string outcome" where
  "br_get_s br name = br_field br (br_index br) name"

text \<open>\<open>strncpy\<close> of at most \<open>size - 1\<close> bytes, padded with zeros; the last byte is left as it was.\<close>

definition br_fill_cs :: "bdb_result \<Rightarrow> string \<Rightarrow> string \<Rightarrow> string outcome" where
  "br_fill_cs br name str =
     bind_outcome (br_field br (br_index br) name)
       (\<lambda>s. let n = length str - 1; t = take n s
            in Ok (t @ replicate (n - length t) (char_of (0 :: nat)) @ drop n str))"

definition br_next :: "bdb_result \<Rightarrow> bool \<times> bdb_result" where
  "br_next br = (let br = br\<lparr>br_index := br_index br + 1\<rparr> in (br_count br > 0 \<and> br_index br < br_count br, br))"

definition br_set :: "int \<Rightarrow> bdb_result \<Rightarrow> bdb_result" where
  "br_set posid br = (if br_index br < br_count br then br\<lparr>br_index := posid\<rparr> else br)"

definition br_previous :: "bdb_result \<Rightarrow> bool \<times> bdb_result" where
  "br_previous br = (let br = br\<lparr>br_index := br_index br - 1\<rparr> in (br_count br > 0 \<and> br_index br < br_count br, br))"

definition br_first :: "bdb_result \<Rightarrow> bool \<times> bdb_result" where
  "br_first br = (if br_count br > 0 then (True, br\<lparr>br_index := 0\<rparr>) else (False, br))"

definition br_last :: "bdb_result \<Rightarrow> bool \<times> bdb_result" where
  "br_last br = (if br_count br > 0 then (True, br\<lparr>br_index := br_count br - 1\<rparr>) else (False, br))"

definition br_force_free :: "bdb_result \<Rightarrow> bdb_result" where
  "br_force_free br = br\<lparr>br_res := None\<rparr>"

text \<open>The loop \<open>while (res.next()) { body }\<close> that every reader of the program is.\<close>

function br_rows :: "(bdb_result \<Rightarrow> 'a) \<Rightarrow> bdb_result \<Rightarrow> 'a list" where
  "br_rows body br = (if fst (br_next br) then body (snd (br_next br)) # br_rows body (snd (br_next br)) else [])"
  by pat_completeness auto
termination
  by (relation "measure (\<lambda>(body, br). nat (br_count br - br_index br))") (auto simp: br_next_def Let_def)

declare br_rows.simps [simp del]

lemma br_rows_from:
  "i + n = int (pg_ntuples res) - 1 \<Longrightarrow> - 1 \<le> i \<Longrightarrow> n = int k \<Longrightarrow>
   br_rows body \<lparr>br_res = Some res, br_count = int (pg_ntuples res), br_index = i, br_noticies = ns\<rparr>
     = map (\<lambda>j. body \<lparr>br_res = Some res, br_count = int (pg_ntuples res), br_index = i + 1 + int j, br_noticies = ns\<rparr>)
         [0..<k]"
proof (induction k arbitrary: i n)
  case 0
  then show ?case by (subst br_rows.simps) (simp add: br_next_def Let_def)
next
  case (Suc k)
  from Suc.IH [of "i + 1" "int k"] Suc.prems show ?case
    by (subst br_rows.simps)
      (simp add: br_next_def Let_def upt_conv_Cons map_Suc_upt [symmetric] comp_def add.assoc del: upt_Suc)
qed

lemma br_rows_all:
  "br_rows body (br_new res ns) =
   map (\<lambda>j. body ((br_new res ns)\<lparr>br_index := int j\<rparr>)) [0..<pg_ntuples res]"
  using br_rows_from [of "- 1" "int (pg_ntuples res)" res "pg_ntuples res" body ns]
  by (simp add: br_new_def)

section \<open>\<open>MockBDbResult\<close>\<close>

record mock_result =
  mk_data :: "string list"
  mk_state :: "string list"
  mk_index :: int

definition mk_new :: "string list \<Rightarrow> mock_result" where
  "mk_new data = \<lparr>mk_data = data, mk_state = [], mk_index = - 1\<rparr>"

text \<open>\<open>at\<close> throws \<open>std::out_of_range\<close>.\<close>

definition vector_at :: "'a list \<Rightarrow> int \<Rightarrow> 'a outcome" where
  "vector_at v i = (if 0 \<le> i \<and> i < int (length v) then Ok (v ! nat i) else Throws ''vector::_M_range_check'')"

definition mk_parse :: "mock_result \<Rightarrow> mock_result outcome" where
  "mk_parse m = bind_outcome (vector_at (mk_data m) (mk_index m))
     (\<lambda>src. Ok (m\<lparr>mk_state := map trim (split_any src ''|'' allow_blank)\<rparr>))"

definition mk_get_s :: "mock_result \<Rightarrow> int \<Rightarrow> string outcome" where
  "mk_get_s m f = vector_at (mk_state m) f"

definition mk_get_i :: "mock_result \<Rightarrow> int \<Rightarrow> int outcome" where
  "mk_get_i m f = bind_outcome (mk_get_s m f) (\<lambda>s. Ok (atoi (c_str s)))"

definition mk_get_b :: "mock_result \<Rightarrow> int \<Rightarrow> bool outcome" where
  "mk_get_b m f = bind_outcome (mk_get_s m f) (\<lambda>s. Ok (c_str s = ''t''))"

definition mk_is_null :: "mock_result \<Rightarrow> int \<Rightarrow> bool outcome" where
  "mk_is_null m f = bind_outcome (vector_at (mk_data m) f) (\<lambda>s. Ok (s = ''NULL''))"

definition mk_move_to :: "int \<Rightarrow> bool \<Rightarrow> mock_result \<Rightarrow> (bool \<times> mock_result) outcome" where
  "mk_move_to i b m = bind_outcome (mk_parse (m\<lparr>mk_index := i\<rparr>)) (\<lambda>m. Ok (b, m))"

definition mk_next :: "mock_result \<Rightarrow> (bool \<times> mock_result) outcome" where
  "mk_next m = (if mk_index m = int (length (mk_data m)) - 1 then Ok (False, m)
     else mk_move_to (mk_index m + 1) True m)"

definition mk_previous :: "mock_result \<Rightarrow> (bool \<times> mock_result) outcome" where
  "mk_previous m = (if mk_index m = 0 then Ok (False, m) else mk_move_to (mk_index m - 1) True m)"

definition mk_first :: "mock_result \<Rightarrow> (bool \<times> mock_result) outcome" where
  "mk_first m = (if mk_data m = [] then Ok (False, m) else mk_move_to 0 True m)"

definition mk_last :: "mock_result \<Rightarrow> (bool \<times> mock_result) outcome" where
  "mk_last m = (if mk_data m = [] then Ok (False, m)
     else mk_move_to (int (length (mk_data m)) - 1) False m)"

definition mock_of_text :: "string \<Rightarrow> mock_result" where
  "mock_of_text src = mk_new (split_any src newline skip_blank)"

section \<open>\<open>ParamQuery\<close>\<close>

text \<open>A parameter is a C string, or \<open>None\<close> for \<open>nullptr\<close>.\<close>

record param_query =
  pq_query :: string
  pq_width :: nat
  pq_rows :: "string option list list"

definition pq_new :: "string \<Rightarrow> nat \<Rightarrow> param_query" where
  "pq_new query width = \<lparr>pq_query = query, pq_width = width, pq_rows = [[]]\<rparr>"

definition pq_isEmpty :: "param_query \<Rightarrow> bool" where
  "pq_isEmpty q = list_all (\<lambda>level. level = []) (pq_rows q)"

definition pq_isEmpty_row :: "nat \<Rightarrow> param_query \<Rightarrow> bool" where
  "pq_isEmpty_row row_idx q = (if length (pq_rows q) \<le> row_idx then True else pq_rows q ! row_idx = [])"

definition pq_levelsCount :: "param_query \<Rightarrow> nat" where
  "pq_levelsCount q = length (pq_rows q)"

definition pq_push_back :: "string option \<Rightarrow> param_query \<Rightarrow> param_query" where
  "pq_push_back p q = q\<lparr>pq_rows := butlast (pq_rows q) @ [last (pq_rows q) @ [p]]\<rparr>"

definition pq_addValue :: "string \<Rightarrow> param_query \<Rightarrow> param_query" where
  "pq_addValue src q = pq_push_back (Some (c_str src)) q"

definition pq_addNull :: "param_query \<Rightarrow> param_query" where
  "pq_addNull q = pq_push_back None q"

definition pq_endRow :: "param_query \<Rightarrow> param_query" where
  "pq_endRow q = q\<lparr>pq_rows := pq_rows q @ [[]]\<rparr>"

text \<open>The Russian texts of the two messages are the parameters \<open>oob\<close> and \<open>bad\<close>.\<close>

definition pq_parameters ::
  "string \<Rightarrow> string \<Rightarrow> nat \<Rightarrow> param_query \<Rightarrow> string option list option outcome" where
  "pq_parameters oob bad row_idx q =
     (if length (pq_rows q) < row_idx then Throws oob
      else if length (pq_rows q) = row_idx then Undefined
      else if pq_rows q ! row_idx = [] then Ok None
      else if length (pq_rows q ! row_idx) \<noteq> pq_width q then Throws bad
      else Ok (Some (pq_rows q ! row_idx)))"

section \<open>\<open>BDbTransaction\<close>\<close>

text \<open>\<open>ex s w\<close> is \<open>db->exec\<close>: the exception it throws, if any, and the new world.\<close>

definition tx_begin :: "(string \<Rightarrow> 'w \<Rightarrow> 'e option \<times> 'w) \<Rightarrow> bool \<times> 'w \<Rightarrow> 'e option \<times> bool \<times> 'w" where
  "tx_begin ex s = (case ex ''BEGIN'' (snd s) of
     (Some e, w) \<Rightarrow> (Some e, fst s, w) | (None, w) \<Rightarrow> (None, True, w))"

definition tx_new :: "(string \<Rightarrow> 'w \<Rightarrow> 'e option \<times> 'w) \<Rightarrow> bool \<Rightarrow> 'w \<Rightarrow> 'e option \<times> bool \<times> 'w" where
  "tx_new ex start w = (if start then tx_begin ex (False, w) else (None, False, w))"

definition tx_commit :: "(string \<Rightarrow> 'w \<Rightarrow> 'e option \<times> 'w) \<Rightarrow> bool \<times> 'w \<Rightarrow> 'e option \<times> bool \<times> 'w" where
  "tx_commit ex s = (case ex ''COMMIT'' (snd s) of
     (Some e, w) \<Rightarrow> (Some e, fst s, w) | (None, w) \<Rightarrow> (None, False, w))"

definition tx_rollback :: "(string \<Rightarrow> 'w \<Rightarrow> 'e option \<times> 'w) \<Rightarrow> bool \<times> 'w \<Rightarrow> 'e option \<times> bool \<times> 'w" where
  "tx_rollback ex s = (case ex ''ROLLBACK'' (snd s) of
     (Some e, w) \<Rightarrow> (Some e, fst s, w) | (None, w) \<Rightarrow> (None, False, w))"

definition tx_destroy :: "(string \<Rightarrow> 'w \<Rightarrow> 'e option \<times> 'w) \<Rightarrow> bool \<times> 'w \<Rightarrow> 'w" where
  "tx_destroy ex s = (if fst s then snd (snd (tx_rollback ex s)) else snd s)"

section \<open>\<open>DbPool\<close>\<close>

record 'c db_pool =
  pool_string :: string
  pool_connections :: "(int \<times> 'c) list"

definition pool_new :: "string \<Rightarrow> 'c db_pool" where
  "pool_new s = \<lparr>pool_string = s, pool_connections = []\<rparr>"

definition pool_set_connection_string :: "string \<Rightarrow> 'c db_pool \<Rightarrow> 'c db_pool" where
  "pool_set_connection_string s p =
     (if pool_string p = s then p else \<lparr>pool_string = s, pool_connections = []\<rparr>)"

text \<open>\<open>connect s\<close> is a new connection object for the string.\<close>

definition pool_get :: "(string \<Rightarrow> 'c) \<Rightarrow> 'c db_pool \<Rightarrow> 'c \<times> 'c db_pool" where
  "pool_get connect p = (case pool_connections p of
       [] \<Rightarrow> (connect (pool_string p), p)
     | (k, c) # rest \<Rightarrow> (c, p\<lparr>pool_connections := rest\<rparr>))"

definition pool_back :: "int \<Rightarrow> 'c \<Rightarrow> 'c db_pool \<Rightarrow> 'c db_pool" where
  "pool_back now conn p = p\<lparr>pool_connections := sm_set now conn (pool_connections p)\<rparr>"

text \<open>Erasing the entry under the iterator and then advancing it is undefined.\<close>

definition pool_delete_older_then :: "int \<Rightarrow> int \<Rightarrow> 'c db_pool \<Rightarrow> 'c db_pool outcome" where
  "pool_delete_older_then now threshold p = (case pool_connections p of
       [] \<Rightarrow> Ok p
     | (k, c) # rest \<Rightarrow> if now - k < threshold then Ok p else Undefined)"

definition pool_empty :: "'c db_pool \<Rightarrow> bool" where
  "pool_empty p = (pool_connections p = [])"

section \<open>\<open>SpeedLimiter\<close>\<close>

text \<open>
  The ring of reper points as \<open>(time, total)\<close> pairs. Times are nanoseconds; the interval test
  and the remaining time are exact, \<open>per_byte\<close> is the time a byte may take.
\<close>

record speed_limiter =
  sl_enabled :: bool
  sl_per_byte :: rat
  sl_min_between :: int
  sl_queue :: "(int \<times> int) list"
  sl_size :: nat
  sl_tail :: nat
  sl_total :: int

definition sl_max_queue_size :: nat where
  "sl_max_queue_size = 128"

definition sl_new :: "rat \<Rightarrow> int \<Rightarrow> speed_limiter" where
  "sl_new mbits min_between =
     \<lparr>sl_enabled = (mbits > 0), sl_per_byte = 1000000000 / (mbits * 1024 * 1024 / 8),
      sl_min_between = min_between, sl_queue = replicate sl_max_queue_size (0, 0),
      sl_size = 0, sl_tail = 0, sl_total = 0\<rparr>"

text \<open>\<open>& index_wrap_mask\<close> of a \<open>size_t\<close> that may have wrapped below zero.\<close>

definition sl_wrap :: "int \<Rightarrow> nat" where
  "sl_wrap i = nat (i mod int sl_max_queue_size)"

definition sl_first :: "speed_limiter \<Rightarrow> int \<times> int" where
  "sl_first l = sl_queue l ! sl_wrap (int (sl_tail l) - int (sl_size l) + 1)"

definition sl_penult :: "speed_limiter \<Rightarrow> int \<times> int" where
  "sl_penult l = sl_queue l ! sl_wrap (int (sl_tail l) - 1)"

definition sl_last :: "speed_limiter \<Rightarrow> int \<times> int" where
  "sl_last l = sl_queue l ! sl_tail l"

definition sl_remaining_time :: "speed_limiter \<Rightarrow> int \<times> int \<Rightarrow> int \<times> int \<Rightarrow> rat" where
  "sl_remaining_time l start finish =
     of_int (snd finish - snd start) * sl_per_byte l - of_int (fst finish - fst start)"

text \<open>The new state and the nanoseconds slept.\<close>

definition sl_on_progress_updated :: "int \<Rightarrow> int \<Rightarrow> speed_limiter \<Rightarrow> speed_limiter \<times> rat" where
  "sl_on_progress_updated now bytes_read l =
     (if \<not> sl_enabled l then (l, 0)
      else
        let l = l\<lparr>sl_total := sl_total l + bytes_read\<rparr>;
            overridden = (sl_size l > 1 \<and> fst (sl_last l) - fst (sl_penult l) < sl_min_between l);
            l = (if \<not> overridden
                 then l\<lparr>sl_size := min sl_max_queue_size (sl_size l + 1), sl_tail := sl_wrap (int (sl_tail l) + 1)\<rparr>
                 else l);
            l = l\<lparr>sl_queue := (sl_queue l)[sl_tail l := (now, sl_total l)]\<rparr>
        in if sl_size l \<le> 1 then (l, 0)
           else let r = sl_remaining_time l (sl_first l) (sl_last l) in (l, if r \<le> 0 then 0 else r))"

section \<open>SQL values: \<open>Id.h\<close> and \<open>procedure/types.hpp\<close>\<close>

definition show_id :: "int \<Rightarrow> string" where
  "show_id i = (if i \<noteq> 0 then show_int i else ''NULL'')"

definition integer_impl :: "string \<Rightarrow> int \<Rightarrow> string" where
  "integer_impl name value = show_int value @ ''::'' @ name"

definition string_impl :: "string \<Rightarrow> string \<Rightarrow> string" where
  "string_impl name value = quoted value @ ''::'' @ name"

definition sql_smallint :: "int \<Rightarrow> string" where "sql_smallint i = integer_impl ''smallint'' i"
definition sql_bigint :: "int \<Rightarrow> string" where "sql_bigint i = integer_impl ''bigint'' i"
definition sql_integer :: "int \<Rightarrow> string" where "sql_integer i = integer_impl ''integer'' i"
definition sql_text :: "string \<Rightarrow> string" where "sql_text s = string_impl ''text'' s"
definition sql_inet :: "string \<Rightarrow> string" where "sql_inet s = string_impl ''inet'' s"

section \<open>Invariants\<close>

definition pq_ok :: "param_query \<Rightarrow> bool" where
  "pq_ok q \<longleftrightarrow> pq_rows q \<noteq> []"

lemma pq_ops_ok [simp]:
  "pq_ok (pq_new s w)" "pq_ok (pq_addValue v q)" "pq_ok (pq_addNull q)" "pq_ok (pq_endRow q)"
  by (simp_all add: pq_ok_def pq_new_def pq_addValue_def pq_addNull_def pq_push_back_def pq_endRow_def)

lemma sl_on_progress_bounds:
  assumes "sl_size l \<le> sl_max_queue_size" "sl_tail l < sl_max_queue_size" "length (sl_queue l) = sl_max_queue_size"
  shows "sl_size (fst (sl_on_progress_updated now n l)) \<le> sl_max_queue_size \<and>
    sl_tail (fst (sl_on_progress_updated now n l)) < sl_max_queue_size \<and>
    length (sl_queue (fst (sl_on_progress_updated now n l))) = sl_max_queue_size"
proof -
  have w: "sl_wrap i < sl_max_queue_size" for i
    by (simp add: sl_wrap_def sl_max_queue_size_def nat_less_iff)
  show ?thesis using assms w by (simp add: sl_on_progress_updated_def Let_def)
qed

end
