(* ===== verification/Db.thy ===== *)
theory Db
  imports Db_Result
begin

text \<open>
  \<open>src/db/BDb.cpp\<close>: the connection object, its retries and the statements it builds. The server
  and \<open>libpq\<close> are the parameters \<open>connectdb\<close> and \<open>execute\<close> over a world \<open>'w\<close>: what
  \<open>PQconnectdb\<close> and \<open>PQexec\<close> do next. \<open>None\<close> from \<open>connectdb\<close> is \<open>CONNECTION_OK\<close>, otherwise
  the error message; \<open>execute\<close> gives the status, the connection's error message and the result.
  The debug output of the statements is left out.
\<close>

datatype exec_status = PGRES_COMMAND_OK | PGRES_TUPLES_OK | PGRES_COPY_OUT | PGRES_COPY_IN | PGRES_FATAL_ERROR

record 'w pq_api =
  api_connectdb :: "string \<Rightarrow> 'w \<Rightarrow> string option \<times> 'w"
  api_execute :: "string \<Rightarrow> 'w \<Rightarrow> (exec_status \<times> string \<times> pg_result) \<times> 'w"
  api_execParams :: "string \<Rightarrow> string option list option \<Rightarrow> 'w \<Rightarrow> (exec_status \<times> string \<times> pg_result) \<times> 'w"

text \<open>What a method throws: a \<open>DbException\<close>, or anything else with its text.\<close>

datatype db_exn = DbExn exception | OtherExn string

record bdb =
  db_connected :: bool
  db_connstr :: string
  db_need_advisory_lock :: int
  db_noticies :: "string list"

type_synonym ('a, 'w) db_result = "(db_exn + 'a) \<times> bdb \<times> 'w"

definition bdb_new :: "string \<Rightarrow> bdb" where
  "bdb_new connstr = \<lparr>db_connected = False, db_connstr = connstr, db_need_advisory_lock = 0, db_noticies = []\<rparr>"

definition bdb_disconnect :: "bdb \<Rightarrow> bdb" where
  "bdb_disconnect db = db\<lparr>db_connected := False\<rparr>"

definition bdb_needAdvisoryLock :: "int \<Rightarrow> bdb \<Rightarrow> bdb" where
  "bdb_needAdvisoryLock key db = db\<lparr>db_need_advisory_lock := key\<rparr>"

definition bdb_on_notice :: "string \<Rightarrow> bdb \<Rightarrow> bdb" where
  "bdb_on_notice mes db = db\<lparr>db_noticies := db_noticies db @ [mes]\<rparr>"

text \<open>\<open>DbException(conn)\<close> copies at most 1023 bytes of the message; with a trace as second argument.\<close>

definition conn_exception :: "string \<Rightarrow> exception" where
  "conn_exception msg = \<lparr>ex_message = take 1023 msg, ex_traceList = []\<rparr>"

definition conn_exception_at :: "string \<Rightarrow> string \<Rightarrow> exception" where
  "conn_exception_at msg trace = addTrace trace (conn_exception msg)"

section \<open>\<open>connect\<close>\<close>

definition advisory_statement :: "int \<Rightarrow> string" where
  "advisory_statement key = ''select pg_try_advisory_lock('' @ show_int key @ '') as locked''"

definition timezone_statement :: string where
  "timezone_statement = ''set session time zone '' @ quoted ''+00''"

definition connect_lock :: "'w pq_api \<Rightarrow> bdb \<Rightarrow> 'w \<Rightarrow> db_exn option \<times> 'w" where
  "connect_lock api db w =
     (if db_need_advisory_lock db = 0 then (None, w)
      else case api_execute api (advisory_statement (db_need_advisory_lock db)) w of
        ((status, msg, res), w) \<Rightarrow>
          (if status \<noteq> PGRES_TUPLES_OK then (Some (DbExn (conn_exception_at msg ''BDb::try_advisory_lock'')), w)
           else if (case pg_getvalue res 0 ''locked'' of Some (c # _) \<Rightarrow> c \<noteq> CHR ''t'' | _ \<Rightarrow> True)
           then (Some (OtherExn (''Can not lock key'' @ show_int (db_need_advisory_lock db) @ ''BDb::try_advisory_lock'')), w)
           else (None, w)))"

definition connect_timezone :: "'w pq_api \<Rightarrow> 'w \<Rightarrow> db_exn option \<times> 'w" where
  "connect_timezone api w =
     (case api_execute api timezone_statement w of ((status, msg, res), w) \<Rightarrow>
        (if status \<noteq> PGRES_COMMAND_OK then (Some (DbExn (conn_exception_at msg ''BDb::connect set timezone'')), w)
         else (None, w)))"

definition bdb_connect :: "'w pq_api \<Rightarrow> bdb \<Rightarrow> 'w \<Rightarrow> (unit, 'w) db_result" where
  "bdb_connect api db w =
     (if db_connected db then (Inr (), db, w)
      else case api_connectdb api (db_connstr db) w of
        (Some msg, w) \<Rightarrow> (Inl (DbExn (conn_exception msg)), bdb_disconnect db, w)
      | (None, w) \<Rightarrow>
          (case connect_lock api db w of
             (Some e, w) \<Rightarrow> (Inl e, bdb_disconnect db, w)
           | (None, w) \<Rightarrow>
               (case connect_timezone api w of
                  (Some e, w) \<Rightarrow> (Inl e, bdb_disconnect db, w)
                | (None, w) \<Rightarrow> (Inr (), db\<lparr>db_connected := True\<rparr>, w))))"

section \<open>\<open>query\<close>, \<open>ping\<close> and \<open>exec\<close>\<close>

text \<open>\<open>DbException(errors, trace)\<close> goes to the variadic constructor, which concatenates both.\<close>

definition errors_exception :: "string \<Rightarrow> string \<Rightarrow> db_exn" where
  "errors_exception errors trace = DbExn (new_exception [errors, trace])"

text \<open>The \<open>while (attemps_count-- > 0)\<close> loop; only a \<open>DbException\<close> is caught.\<close>

fun query_attempts ::
  "'w pq_api \<Rightarrow> string \<Rightarrow> nat \<Rightarrow> string \<Rightarrow> bdb \<Rightarrow> 'w \<Rightarrow> (bdb_result, 'w) db_result" where
  "query_attempts api squery 0 errors db w = (Inl (errors_exception errors ''BDb::query''), db, w)"
| "query_attempts api squery (Suc n) errors db w =
     (case bdb_connect api db w of
        (Inl (OtherExn m), db, w) \<Rightarrow> (Inl (OtherExn m), db, w)
      | (Inl (DbExn e), db, w) \<Rightarrow> query_attempts api squery n (errors @ ex_message e @ newline) db w
      | (Inr _, db, w) \<Rightarrow>
          (case api_execute api squery w of ((status, msg, res), w) \<Rightarrow>
             (if status \<noteq> PGRES_TUPLES_OK
              then query_attempts api squery n (errors @ ex_message (conn_exception msg) @ newline) (bdb_disconnect db) w
              else (Inr (br_new res (db_noticies db)), db\<lparr>db_noticies := []\<rparr>, w))))"

definition bdb_query :: "'w pq_api \<Rightarrow> string \<Rightarrow> bdb \<Rightarrow> 'w \<Rightarrow> (bdb_result, 'w) db_result" where
  "bdb_query api squery db w =
     (let db = db\<lparr>db_noticies := []\<rparr>; squery = c_str squery
      in query_attempts api squery (if db_connected db then 2 else 1)
           (''BDb::query('' @ squery @ ''): '') db w)"

definition bdb_ping :: "'w pq_api \<Rightarrow> bdb \<Rightarrow> 'w \<Rightarrow> bool \<times> bdb \<times> 'w" where
  "bdb_ping api db w =
     (case bdb_query api ''SELECT 9 as result'' db w of
        (Inl e, db, w) \<Rightarrow> (False, db, w)
      | (Inr res, db, w) \<Rightarrow>
          ((br_size res = 1 \<and> bind_outcome (br_field res 0 ''result'') (\<lambda>s. Ok (atoi s)) = Ok 9), db, w))"

definition bdb_test :: "'w pq_api \<Rightarrow> string \<Rightarrow> 'w \<Rightarrow> bool" where
  "bdb_test api connstr w = fst (bdb_ping api (bdb_new connstr) w)"

text \<open>After a failed statement a connection that does not answer a ping is dropped.\<close>

definition check_alive :: "'w pq_api \<Rightarrow> bdb \<Rightarrow> 'w \<Rightarrow> bdb \<times> 'w" where
  "check_alive api db w =
     (case bdb_ping api db w of (alive, db, w) \<Rightarrow> (if alive then db else bdb_disconnect db, w))"

fun exec_attempts ::
  "'w pq_api \<Rightarrow> string \<Rightarrow> nat \<Rightarrow> string \<Rightarrow> bdb \<Rightarrow> 'w \<Rightarrow> (unit, 'w) db_result" where
  "exec_attempts api squery 0 errors db w = (Inl (errors_exception errors ''BDb::exec''), db, w)"
| "exec_attempts api squery (Suc n) errors db w =
     (case bdb_connect api db w of
        (Inl (OtherExn m), db, w) \<Rightarrow> (Inl (OtherExn m), db, w)
      | (Inl (DbExn e), db, w) \<Rightarrow> exec_attempts api squery n (errors @ ex_message e @ newline) db w
      | (Inr _, db, w) \<Rightarrow>
          (case api_execute api squery w of ((status, msg, res), w) \<Rightarrow>
             (if status \<noteq> PGRES_COMMAND_OK
              then case check_alive api db w of (db, w) \<Rightarrow>
                exec_attempts api squery n (errors @ ex_message (conn_exception msg) @ newline) db w
              else (Inr (), db, w))))"

definition bdb_exec :: "'w pq_api \<Rightarrow> string \<Rightarrow> bdb \<Rightarrow> 'w \<Rightarrow> (unit, 'w) db_result" where
  "bdb_exec api squery db w =
     (let db = db\<lparr>db_noticies := []\<rparr>
      in exec_attempts api (c_str squery) (if db_connected db then 2 else 1) [] db w)"

section \<open>Parameterised statements\<close>

text \<open>\<open>loc\<close> is the \<open>__FILE__\<close> and \<open>__LINE__\<close> text that a \<open>DbException\<close> gets as its trace.\<close>

definition trace_exn :: "string \<Rightarrow> db_exn \<Rightarrow> db_exn" where
  "trace_exn loc e = (case e of DbExn x \<Rightarrow> DbExn (addTrace loc x) | OtherExn m \<Rightarrow> OtherExn m)"

definition params_status_ok :: "exec_status \<Rightarrow> bool" where
  "params_status_ok status \<longleftrightarrow> status = PGRES_TUPLES_OK \<or> status = PGRES_COMMAND_OK"

fun exec_rows ::
  "'w pq_api \<Rightarrow> string \<Rightarrow> string \<Rightarrow> string \<Rightarrow> param_query \<Rightarrow> nat list \<Rightarrow> bdb \<Rightarrow> 'w \<Rightarrow> (unit, 'w) db_result" where
  "exec_rows api loc oob bad q [] db w = (Inr (), db, w)"
| "exec_rows api loc oob bad q (row_idx # rows) db w =
     (if pq_isEmpty_row row_idx q then exec_rows api loc oob bad q rows db w
      else case pq_parameters oob bad row_idx q of
        Ok params \<Rightarrow>
          (case api_execParams api (pq_query q) params w of ((status, msg, res), w) \<Rightarrow>
             (if \<not> params_status_ok status
              then case check_alive api db w of (db, w) \<Rightarrow> (Inl (trace_exn loc (DbExn (conn_exception msg))), db, w)
              else exec_rows api loc oob bad q rows db w))
      | Throws m \<Rightarrow> (Inl (OtherExn m), db, w)
      | _ \<Rightarrow> (Inl (OtherExn ''undefined''), db, w))"

definition bdb_exec_params ::
  "'w pq_api \<Rightarrow> string \<Rightarrow> string \<Rightarrow> string \<Rightarrow> param_query \<Rightarrow> bdb \<Rightarrow> 'w \<Rightarrow> (unit, 'w) db_result" where
  "bdb_exec_params api loc oob bad q db w =
     (case bdb_connect api db w of
        (Inl e, db, w) \<Rightarrow> (Inl (trace_exn loc e), db, w)
      | (Inr _, db, w) \<Rightarrow> exec_rows api loc oob bad q [0..<pq_levelsCount q] db w)"

definition bdb_query_params ::
  "'w pq_api \<Rightarrow> string \<Rightarrow> string \<Rightarrow> string \<Rightarrow> param_query \<Rightarrow> bdb \<Rightarrow> 'w \<Rightarrow> (bdb_result, 'w) db_result" where
  "bdb_query_params api loc oob bad q db w =
     (let db = db\<lparr>db_noticies := []\<rparr>
      in case bdb_connect api db w of
        (Inl e, db, w) \<Rightarrow> (Inl (trace_exn loc e), db, w)
      | (Inr _, db, w) \<Rightarrow>
          (case pq_parameters oob bad 0 q of
             Ok params \<Rightarrow>
               (case api_execParams api (pq_query q) params w of ((status, msg, res), w) \<Rightarrow>
                  (if \<not> params_status_ok status
                   then case check_alive api db w of (db, w) \<Rightarrow> (Inl (trace_exn loc (DbExn (conn_exception msg))), db, w)
                   else (Inr (br_new res []), db, w)))
           | Throws m \<Rightarrow> (Inl (OtherExn m), db, w)
           | _ \<Rightarrow> (Inl (OtherExn ''undefined''), db, w)))"

section \<open>Statements over a list of keys\<close>

definition removeFramingBrackets :: "string \<Rightarrow> string outcome" where
  "removeFramingBrackets s =
     (if length s < 2 \<or> hd s \<noteq> CHR ''('' \<or> last s \<noteq> CHR '')''
      then Throws (''extractFromBrackets: invalid input \"'' @ s @ ''\"'')
      else Ok (substr 1 (length s - 2) s))"

fun trim_values :: "string \<Rightarrow> string list \<Rightarrow> string list outcome" where
  "trim_values values_str [] = Ok []"
| "trim_values values_str (v # vs) =
     (if trim v = [] then Throws (''splitValues: invalid values_str \"'' @ values_str @ ''\"'')
      else bind_outcome (trim_values values_str vs) (\<lambda>r. Ok (trim v # r)))"

definition splitValues :: "string \<Rightarrow> string list outcome" where
  "splitValues values_str = trim_values values_str (split_any values_str '','' skip_blank)"

definition key_values :: "string \<Rightarrow> string list outcome" where
  "key_values keyValues =
     bind_outcome (removeFramingBrackets (trim keyValues)) (\<lambda>s.
     bind_outcome (splitValues s) (\<lambda>values.
       if values = [] then Throws ''BDb::query_reduce_select: keyValues is empty'' else Ok values))"

definition single_select :: "string \<Rightarrow> string \<Rightarrow> string \<Rightarrow> string \<Rightarrow> string \<Rightarrow> string" where
  "single_select columns table keyColumn reducingCondition v =
     ''select '' @ columns @ '' from '' @ table @ '' where '' @ keyColumn @ ''='' @ v @ '' '' @ reducingCondition"

fun union_loop :: "(string \<Rightarrow> string) \<Rightarrow> bool \<Rightarrow> string list \<Rightarrow> string \<Rightarrow> string" where
  "union_loop sel first [] squery = squery"
| "union_loop sel first (v # vs) squery =
     union_loop sel False vs ((if first then squery else squery @ ''union'') @ ''('' @ sel v @ '')'')"

definition reduce_select_statement ::
  "string \<Rightarrow> string \<Rightarrow> string \<Rightarrow> string \<Rightarrow> string \<Rightarrow> string outcome" where
  "reduce_select_statement columns table keyColumn keyValues reducingCondition =
     bind_outcome (key_values keyValues) (\<lambda>values.
       let sel = single_select columns table keyColumn reducingCondition
       in Ok (if length values = 1 then sel (values ! 0)
              else union_loop sel True values ''('' @ '')'' @ reducingCondition))"

definition fastcalc_statement :: "string \<Rightarrow> string \<Rightarrow> string \<Rightarrow> string \<Rightarrow> string outcome" where
  "fastcalc_statement columns schema_table timeColumn keyValues =
     bind_outcome (key_values keyValues) (\<lambda>values.
       let squery_sub = butlast (fold (\<lambda>x s. s @ x @ '','') values [])
       in Ok (''select '' @ columns @ '' from billing.get_hub_last_id('' @ quoted schema_table @ '',''
              @ quoted timeColumn @ '','' @ [CHR 39] @ ''{'' @ squery_sub @ ''}'' @ [CHR 39] @ ''::integer[]);''))"

section \<open>\<open>copy_ex\<close>\<close>

definition copy_read_statement :: "string \<Rightarrow> string \<Rightarrow> string \<Rightarrow> string" where
  "copy_read_statement src_columns src_table condition =
     ''copy ('' @ (''select '' @ src_columns @ '' from '' @ src_table
        @ (if condition \<noteq> [] then '' where '' @ condition else [])) @ '') to stdout with binary''"

definition copy_write_statement :: "string \<Rightarrow> string \<Rightarrow> string" where
  "copy_write_statement dst_table dst_columns =
     ''copy '' @ (if dst_columns = ''*'' then dst_table else dst_table @ ''('' @ dst_columns @ '')'')
       @ '' from stdin with binary''"

section \<open>Facts about the connection\<close>

lemma connect_connected: "db_connected db \<Longrightarrow> bdb_connect api db w = (Inr (), db, w)"
  by (simp add: bdb_connect_def)

text \<open>A call of \<open>connect\<close> that returns leaves the object connected, one that throws does not.\<close>

lemma connect_state:
  "bdb_connect api db w = (r, db', w') \<Longrightarrow> db_connected db' = (case r of Inr _ \<Rightarrow> True | Inl _ \<Rightarrow> False)"
  by (auto simp: bdb_connect_def bdb_disconnect_def split: if_splits prod.splits option.splits)

lemma query_attempts_ok:
  assumes "bdb_connect api db w = (Inr (), db1, w1)" "api_execute api squery w1 = ((PGRES_TUPLES_OK, msg, res), w2)"
  shows "query_attempts api squery (Suc n) errors db w =
    (Inr (br_new res (db_noticies db1)), db1\<lparr>db_noticies := []\<rparr>, w2)"
  using assms by simp

lemma query_attempts_failed:
  assumes "bdb_connect api db w = (Inr (), db1, w1)" "api_execute api squery w1 = ((st, msg, res), w2)"
    "st \<noteq> PGRES_TUPLES_OK"
  shows "query_attempts api squery (Suc n) errors db w =
    query_attempts api squery n (errors @ take 1023 msg @ newline) (bdb_disconnect db1) w2"
  using assms by (simp add: conn_exception_def)

text \<open>The world counts how often a statement was sent.\<close>

definition counting :: "string \<Rightarrow> 'w pq_api \<Rightarrow> ('w \<times> nat) pq_api" where
  "counting s api =
     \<lparr>api_connectdb = (\<lambda>c (w, n). case api_connectdb api c w of (r, w) \<Rightarrow> (r, (w, n))),
      api_execute = (\<lambda>q (w, n). case api_execute api q w of (r, w) \<Rightarrow> (r, (w, if q = s then Suc n else n))),
      api_execParams = (\<lambda>q p (w, n). case api_execParams api q p w of (r, w) \<Rightarrow> (r, (w, n)))\<rparr>"

lemma counting_exec:
  "api_execute (counting s api) q (w, n) =
     (case api_execute api q w of (r, w) \<Rightarrow> (r, (w, if q = s then Suc n else n)))"
  "api_connectdb (counting s api) c (w, n) = (case api_connectdb api c w of (r, w) \<Rightarrow> (r, (w, n)))"
  by (simp_all add: counting_def)

lemma counting_connect:
  assumes "bdb_connect (counting s api) db (w, n) = (r, db', (w', n'))"
    "s \<noteq> timezone_statement" "s \<noteq> advisory_statement (db_need_advisory_lock db)"
  shows "n' = n \<and> db_need_advisory_lock db' = db_need_advisory_lock db"
  using assms
  by (auto simp: bdb_connect_def connect_lock_def connect_timezone_def counting_exec bdb_disconnect_def
      split: if_splits prod.splits option.splits)

lemma counting_query_attempts:
  "query_attempts (counting s api) q k errors db (w, n) = (r, db', (w', n')) \<Longrightarrow>
   s \<noteq> timezone_statement \<Longrightarrow> s \<noteq> advisory_statement (db_need_advisory_lock db) \<Longrightarrow>
   n' \<le> n + (if q = s then k else 0) \<and> db_need_advisory_lock db' = db_need_advisory_lock db"
proof (induction k arbitrary: errors db w n)
  case 0
  then show ?case by simp
next
  case (Suc k)
  obtain c db1 w1 n1 where c: "bdb_connect (counting s api) db (w, n) = (c, db1, (w1, n1))"
    by (metis prod.collapse)
  note conn = counting_connect [OF c Suc.prems(2,3)]
  show ?case
  proof (cases c)
    case (Inl e)
    then show ?thesis
      using Suc.prems c conn Suc.IH [of _ db1 w1 n1] by (cases e) fastforce+
  next
    case (Inr u)
    obtain st msg res w2 where e: "api_execute api q w1 = ((st, msg, res), w2)" by (metis prod.collapse)
    show ?thesis
    proof (cases "st = PGRES_TUPLES_OK")
      case True
      then show ?thesis using Suc.prems c conn Inr e by (auto simp: counting_exec)
    next
      case False
      then show ?thesis
        using Suc.prems c conn Inr e
          Suc.IH [of _ "bdb_disconnect db1" w2 "if q = s then Suc n1 else n1"]
        by (fastforce simp: counting_exec bdb_disconnect_def split: if_splits)
    qed
  qed
qed

definition ping_statement :: string where
  "ping_statement = ''SELECT 9 as result''"

lemma c_str_ping: "c_str ''SELECT 9 as result'' = ping_statement"
  by (simp add: c_str_def ping_statement_def char_of_def)

lemma counting_check_alive:
  assumes "check_alive (counting s api) db (w, n) = (db', (w', n'))"
    "s \<noteq> timezone_statement" "s \<noteq> advisory_statement (db_need_advisory_lock db)" "s \<noteq> ping_statement"
  shows "n' \<le> n \<and> db_need_advisory_lock db' = db_need_advisory_lock db"
proof -
  obtain r db1 w1 n1 where q: "bdb_query (counting s api) ''SELECT 9 as result'' db (w, n) = (r, db1, (w1, n1))"
    by (metis prod.collapse)
  then have "n1 \<le> n \<and> db_need_advisory_lock db1 = db_need_advisory_lock db"
    unfolding bdb_query_def Let_def c_str_ping
    using assms by (auto dest!: counting_query_attempts)
  then show ?thesis
    using assms(1) q by (auto simp: check_alive_def bdb_ping_def bdb_disconnect_def split: sum.splits)
qed

lemma counting_exec_attempts:
  "exec_attempts (counting s api) s k errors db (w, n) = (r, db', (w', n')) \<Longrightarrow>
   s \<noteq> timezone_statement \<Longrightarrow> s \<noteq> advisory_statement (db_need_advisory_lock db) \<Longrightarrow> s \<noteq> ping_statement \<Longrightarrow>
   n' \<le> n + k"
proof (induction k arbitrary: errors db w n)
  case 0
  then show ?case by simp
next
  case (Suc k)
  obtain c db1 w1 n1 where c: "bdb_connect (counting s api) db (w, n) = (c, db1, (w1, n1))"
    by (metis prod.collapse)
  note conn = counting_connect [OF c Suc.prems(2,3)]
  show ?case
  proof (cases c)
    case (Inl e)
    then show ?thesis
      using Suc.prems c conn Suc.IH [of _ db1 w1 n1] by (cases e) fastforce+
  next
    case (Inr u)
    obtain st msg res w2 where e: "api_execute api s w1 = ((st, msg, res), w2)" by (metis prod.collapse)
    show ?thesis
    proof (cases "st = PGRES_COMMAND_OK")
      case True
      then show ?thesis using Suc.prems c conn Inr e by (auto simp: counting_exec)
    next
      case False
      obtain db2 w3 n3 where a: "check_alive (counting s api) db1 (w2, Suc n1) = (db2, (w3, n3))"
        by (metis prod.collapse)
      have "n3 \<le> Suc n1 \<and> db_need_advisory_lock db2 = db_need_advisory_lock db1"
        using counting_check_alive [OF a] Suc.prems conn by simp
      moreover have "exec_attempts (counting s api) s k (errors @ ex_message (conn_exception msg) @ newline) db2 (w3, n3)
          = (r, db', (w', n'))"
        using Suc.prems(1) c Inr e False a by (auto simp: counting_exec)
      ultimately show ?thesis
        using Suc.IH [of "errors @ ex_message (conn_exception msg) @ newline" db2 w3 n3] Suc.prems conn by auto
    qed
  qed
qed

text \<open>A server for the examples: every statement is a command that succeeds, or a query with one row.\<close>

definition ex_result :: pg_result where
  "ex_result = \<lparr>pg_ntuples = 1, pg_getvalue = (\<lambda>r n. Some ''9''), pg_getisnull = (\<lambda>r n. False)\<rparr>"

text \<open>The first \<open>n\<close> statements fail.\<close>

definition ex_api :: "nat pq_api" where
  "ex_api =
     \<lparr>api_connectdb = (\<lambda>c n. (None, n)),
      api_execute = (\<lambda>q n. ((if n > 0 then PGRES_FATAL_ERROR
         else if q = timezone_statement \<or> q = ''INSERT'' then PGRES_COMMAND_OK else PGRES_TUPLES_OK,
           ''lost'', ex_result), n - 1)),
      api_execParams = (\<lambda>q p n. ((PGRES_COMMAND_OK, [], ex_result), n))\<rparr>"

lemma ex_statements: "c_str ''INSERT'' = ''INSERT''" "''INSERT'' \<noteq> timezone_statement"
  "''INSERT'' \<noteq> advisory_statement k" "''INSERT'' \<noteq> ping_statement"
  by (simp_all add: c_str_def char_of_def timezone_statement_def advisory_statement_def ping_statement_def)

section \<open>Properties\<close>

text \<open>
  \<open>exec\<close> sends its statement at most twice, at most once on a connection that was
  not open, and exactly once when the server takes it the first time on an open connection,
  whatever the server answers to the pings and reconnects in between.
\<close>

theorem exec_sends_at_most_twice:
  assumes "bdb_exec (counting s api) s db (w, 0) = (r, db', (w', n))"
    "c_str s = s" "s \<noteq> timezone_statement" "s \<noteq> advisory_statement (db_need_advisory_lock db)" "s \<noteq> ping_statement"
  shows "n \<le> (if db_connected db then 2 else 1) \<and>
    (db_connected db \<and> fst (fst (api_execute api s w)) = PGRES_COMMAND_OK \<longrightarrow> n = 1 \<and> r = Inr ())"
proof
  show "n \<le> (if db_connected db then 2 else 1)"
    using assms counting_exec_attempts [of s api _ "[]" "db\<lparr>db_noticies := []\<rparr>" w 0 r db' w' n]
    by (auto simp: bdb_exec_def Let_def split: if_splits)
  show "db_connected db \<and> fst (fst (api_execute api s w)) = PGRES_COMMAND_OK \<longrightarrow> n = 1 \<and> r = Inr ()"
    using assms(1,2)
    by (cases "api_execute api s w")
      (auto simp: bdb_exec_def Let_def numeral_2_eq_2 connect_connected counting_exec split: prod.splits)
qed

theorem exec_sends_at_most_twice_witness:
  "snd (snd (snd (bdb_exec (counting ''INSERT'' ex_api) ''INSERT'' ((bdb_new ''c'')\<lparr>db_connected := True\<rparr>) (0, 0)))) = 1"
proof -
  obtain r db' w' n where q: "bdb_exec (counting ''INSERT'' ex_api) ''INSERT'' ((bdb_new ''c'')\<lparr>db_connected := True\<rparr>) (0, 0)
      = (r, db', (w', n))" by (metis prod.collapse)
  have "fst (fst (api_execute ex_api ''INSERT'' 0)) = PGRES_COMMAND_OK" by (simp add: ex_api_def)
  then show ?thesis
    using exec_sends_at_most_twice [OF q ex_statements(1,2) ex_statements(3) ex_statements(4)] q
    by (simp add: bdb_new_def)
qed

text \<open>
  A query on a connection that has gone away succeeds on the second attempt: the
  failed statement drops the connection, \<open>connect\<close> opens a new one with the session settings,
  and the result of the repeated statement is returned with the connection open.
\<close>

theorem query_reconnects:
  assumes "db_connected db" "db_need_advisory_lock db = 0"
    "api_execute api (c_str q) w = ((st, msg, res0), w1)" "st \<noteq> PGRES_TUPLES_OK"
    "api_connectdb api (db_connstr db) w1 = (None, w2)"
    "api_execute api timezone_statement w2 = ((PGRES_COMMAND_OK, msg2, res2), w3)"
    "api_execute api (c_str q) w3 = ((PGRES_TUPLES_OK, msg3, res), w4)"
  shows "bdb_query api q db w = (Inr (br_new res []), db\<lparr>db_noticies := []\<rparr>, w4)"
  using assms
  by (simp add: bdb_query_def Let_def numeral_2_eq_2 bdb_connect_def connect_lock_def connect_timezone_def
      bdb_disconnect_def)

theorem query_reconnects_witness:
  "bdb_query ex_api ''Q'' ((bdb_new ''c'')\<lparr>db_connected := True\<rparr>) 1
     = (Inr (br_new ex_result []), (bdb_new ''c'')\<lparr>db_connected := True\<rparr>\<lparr>db_noticies := []\<rparr>, 0)"
  by (rule query_reconnects [where st = PGRES_FATAL_ERROR and ?w1.0 = 0 and ?w2.0 = 0 and ?w3.0 = 0])
    (simp_all add: ex_api_def bdb_new_def c_str_def char_of_def timezone_statement_def)

text \<open>
  The cursor. The loop \<open>while (res.next())\<close> on a fresh result runs its body once
  for every row, from the first to the last; stepping back from the first row answers true
  although the cursor is then before the rows.
\<close>

theorem result_loop_visits_rows:
  "br_rows body (br_new res ns) = map (\<lambda>j. body ((br_new res ns)\<lparr>br_index := int j\<rparr>)) [0..<pg_ntuples res] \<and>
   fst (br_previous ((br_new res ns)\<lparr>br_index := 0\<rparr>)) = (pg_ntuples res > 0) \<and>
   br_index (snd (br_previous ((br_new res ns)\<lparr>br_index := 0\<rparr>))) = - 1"
  by (simp add: br_rows_all) (auto simp: br_previous_def br_new_def Let_def)

text \<open>
  The pool is keyed by the second a connection comes back. A second with no
  connection yet grows the pool by exactly this one; in a second that has one already, the
  older connection is dropped from the pool; and \<open>delete_older_then\<close> is undefined as soon as
  the oldest connection is old enough to go.
\<close>

theorem pool_back_keeps_one_per_second:
  assumes "sm_ok (pool_connections p)"
  shows "(map_of (pool_connections p) now = None \<longrightarrow>
      mset (map snd (pool_connections (pool_back now c p))) = add_mset c (mset (map snd (pool_connections p)))) \<and>
    (\<forall>old. map_of (pool_connections p) now = Some old \<longrightarrow>
      mset (map snd (pool_connections p)) =
        add_mset old (mset (map snd (pool_connections (pool_back now c p))) - {#c#})) \<and>
    (\<forall>k c' rest. pool_connections p = (k, c') # rest \<and> threshold \<le> now - k \<longrightarrow>
      pool_delete_older_then now threshold p = Undefined)"
proof (intro conjI allI impI)
  have new: "mset (map snd (pool_connections (pool_back now c p)))
      = add_mset c (mset (map snd (sm_erase now (pool_connections p))))"
    using mset_sm_set [OF assms, of now c] by (simp add: pool_back_def)
  show "map_of (pool_connections p) now = None \<Longrightarrow>
      mset (map snd (pool_connections (pool_back now c p))) = add_mset c (mset (map snd (pool_connections p)))"
    using new by (simp add: sm_erase_fresh)
  fix old assume "map_of (pool_connections p) now = Some old"
  from mset_sm_erase [OF assms this] new
  show "mset (map snd (pool_connections p)) =
      add_mset old (mset (map snd (pool_connections (pool_back now c p))) - {#c#})" by simp
next
  fix k c' rest assume "pool_connections p = (k, c') # rest \<and> threshold \<le> now - k"
  then show "pool_delete_older_then now threshold p = Undefined" by (simp add: pool_delete_older_then_def)
qed

theorem pool_back_keeps_one_per_second_witness:
  "mset (map snd (pool_connections (pool_back 5 ''b'' \<lparr>pool_string = [], pool_connections = [(4, ''a'')]\<rparr>)))
     = {#''b'', ''a''#}"
  using pool_back_keeps_one_per_second [of "\<lparr>pool_string = [], pool_connections = [(4, ''a'')]\<rparr>" 5 "''b''" 0]
  by simp

text \<open>
  Transactions. A guard that began its transaction and is destroyed without a
  successful commit or rollback sends exactly one \<open>ROLLBACK\<close>; after a successful commit its
  destruction sends nothing; a \<open>BEGIN\<close> that throws leaves no transaction to roll back.
\<close>

theorem transaction_rolls_back_once:
  assumes "\<And>s l. ex s l = (if s \<in> fails then Some e else None, l @ [s])"
  shows "(''BEGIN'' \<notin> fails \<longrightarrow> tx_new ex True [] = (None, True, [''BEGIN'']) \<and>
      tx_destroy ex (True, [''BEGIN'']) = [''BEGIN'', ''ROLLBACK''] \<and>
      (''COMMIT'' \<notin> fails \<longrightarrow>
         tx_destroy ex (snd (tx_commit ex (True, [''BEGIN'']))) = [''BEGIN'', ''COMMIT'']) \<and>
      (''COMMIT'' \<in> fails \<longrightarrow>
         tx_destroy ex (snd (tx_commit ex (True, [''BEGIN'']))) = [''BEGIN'', ''COMMIT'', ''ROLLBACK''])) \<and>
    (''BEGIN'' \<in> fails \<longrightarrow> tx_destroy ex (snd (tx_new ex True [])) = [''BEGIN''])"
  by (simp add: tx_new_def tx_begin_def tx_destroy_def tx_commit_def tx_rollback_def assms)

theorem transaction_rolls_back_once_witness:
  "tx_new (\<lambda>s l. (if s \<in> {''COMMIT''} then Some ''e'' else None, l @ [s])) True [] = (None, True, [''BEGIN''])"
  using transaction_rolls_back_once
    [of "\<lambda>s l. (if s \<in> {''COMMIT''} then Some ''e'' else None, l @ [s])" "{''COMMIT''}" "''e''"] by simp

end
