(* ===== verification/Models.thy ===== *)
theory Models
  imports Common
begin

text \<open>
  The data of the program, \<open>src/data/model/*.h\<close>: one record per struct with the fields in
  the order of the source, its \<open>dump\<close> as the text written and its \<open>json\<close> as the list of
  member assignments. A \<open>Json::Value\<close> is a value of the type parameter \<open>'j\<close>; \<open>styled\<close>
  stands for \<open>toStyledString\<close>. An \<open>ostream\<close> prints a \<open>bool\<close> as \<open>0\<close> or \<open>1\<close>.
\<close>

datatype 'j json_field = FInt int | FBool bool | FStr string | FJson 'j

type_synonym 'j json_object = "(string \<times> 'j json_field) list"

definition show_bool :: "bool \<Rightarrow> string" where
  "show_bool b = (if b then ''1'' else ''0'')"

text \<open>One line of a \<open>dump\<close>: label, value, and the separator that follows it.\<close>

definition dump_field :: "string \<Rightarrow> string \<Rightarrow> string" where
  "dump_field label v = label @ v @ '', ''"

section \<open>\<open>call_leg\<close>\<close>

record call_leg =
  cl_id :: int
  cl_server_id :: int
  cl_uniqueid :: string
  cl_channame :: string
  cl_orig :: bool
  cl_account_id :: int
  cl_vpbx_id :: int
  cl_start_time :: string
  cl_answer_time :: string
  cl_stop_time :: string
  cl_final_status :: string
  cl_q931_status :: int
  cl_hangup_cause :: string
  cl_number :: string
  cl_name :: string
  cl_did :: int
  cl_did_type :: string
  cl_object_type :: string
  cl_object_id :: int
  cl_sip_ip :: string
  cl_last_linked_id :: string
  cl_sip_call_hash_id :: string
  cl_call_id_md5 :: string
  cl_extra_info_id :: string

definition call_leg_dump :: "call_leg \<Rightarrow> string" where
  "call_leg_dump r = ''('' @ concat [
     dump_field ''id: '' (show_int (cl_id r)),
     dump_field ''server_id: '' (show_int (cl_server_id r)),
     dump_field ''uniqueid: '' (cl_uniqueid r),
     dump_field ''channame: '' (cl_channame r),
     dump_field ''orig: '' (show_bool (cl_orig r)),
     dump_field ''account_id: '' (show_int (cl_account_id r)),
     dump_field ''vpbx_id: '' (show_int (cl_vpbx_id r)),
     dump_field ''start_time: '' (cl_start_time r),
     dump_field ''answer_time: '' (cl_answer_time r),
     dump_field ''stop_time: '' (cl_stop_time r),
     dump_field ''final_status: '' (cl_final_status r),
     dump_field ''q931_status: '' (show_int (cl_q931_status r)),
     dump_field ''hangup_cause: '' (cl_hangup_cause r),
     dump_field ''number: '' (cl_number r),
     dump_field ''name: '' (cl_name r),
     dump_field ''did: '' (show_int (cl_did r)),
     dump_field ''did_type: '' (cl_did_type r),
     dump_field ''object_type: '' (cl_object_type r),
     dump_field ''object_id: '' (show_int (cl_object_id r)),
     dump_field ''sip_ip: '' (cl_sip_ip r),
     dump_field ''last_linked_id: '' (cl_last_linked_id r),
     dump_field ''sip_call_hash_id: '' (cl_sip_call_hash_id r),
     dump_field ''call_id_md5 '' (cl_call_id_md5 r),
     dump_field ''extra_info_id: '' (cl_extra_info_id r)] @ '')''"

definition call_leg_json :: "call_leg \<Rightarrow> 'j json_object" where
  "call_leg_json r = [
     (''id'', FInt (int32 (cl_id r))),
     (''server_id'', FInt (cl_server_id r)),
     (''uniqueid'', FStr (cl_uniqueid r)),
     (''channame'', FStr (cl_channame r)),
     (''orig'', FBool (cl_orig r)),
     (''account_id'', FInt (cl_account_id r)),
     (''vpbx_id'', FInt (cl_vpbx_id r)),
     (''start_time'', FStr (cl_start_time r)),
     (''answer_time'', FStr (cl_answer_time r)),
     (''stop_time'', FStr (cl_stop_time r)),
     (''final_status'', FStr (cl_final_status r)),
     (''q931_status'', FInt (cl_q931_status r)),
     (''hangup_cause'', FStr (cl_hangup_cause r)),
     (''number'', FStr (escape_string (cl_number r))),
     (''name'', FStr (escape_string (cl_name r))),
     (''did'', FInt (int32 (cl_did r))),
     (''did_type'', FStr (cl_did_type r)),
     (''object_type'', FStr (cl_object_type r)),
     (''object_id'', FInt (cl_object_id r)),
     (''sip_ip'', FStr (cl_sip_ip r)),
     (''last_linked_id'', FStr (cl_last_linked_id r)),
     (''sip_call_hash_id'', FStr (cl_sip_call_hash_id r)),
     (''call_id_md5'', FStr (cl_call_id_md5 r)),
     (''extra_info_id'', FStr (cl_extra_info_id r))]"

text \<open>
  \<open>CallLeg()\<close> as \<open>std::map::operator[]\<close> makes it: value initialisation, so the numbers are zero.
\<close>

definition call_leg_default :: call_leg where
  "call_leg_default = \<lparr>cl_id = 0, cl_server_id = 0, cl_uniqueid = '''', cl_channame = '''', cl_orig = False, cl_account_id = 0, cl_vpbx_id = 0, cl_start_time = '''', cl_answer_time = '''', cl_stop_time = '''', cl_final_status = '''', cl_q931_status = 0, cl_hangup_cause = '''', cl_number = '''', cl_name = '''', cl_did = 0, cl_did_type = '''', cl_object_type = '''', cl_object_id = 0, cl_sip_ip = '''', cl_last_linked_id = '''', cl_sip_call_hash_id = '''', cl_call_id_md5 = '''', cl_extra_info_id = ''''\<rparr>"

section \<open>\<open>call_leg_link\<close>\<close>

record 'j call_leg_link =
  cll_id :: int
  cll_server_id :: int
  cll_uniqueid_orig :: string
  cll_channame_orig :: string
  cll_uniqueid_term :: string
  cll_channame_term :: string
  cll_link_start_time :: string
  cll_link_answer_time :: string
  cll_link_end_time :: string
  cll_rec_filename :: string
  cll_status :: string
  cll_bridged :: bool
  cll_cf :: string
  cll_trf_by :: string
  cll_queue_callid :: string
  cll_object_type :: string
  cll_object_data :: 'j

definition call_leg_link_dump :: "('j \<Rightarrow> string) \<Rightarrow> 'j call_leg_link \<Rightarrow> string" where
  "call_leg_link_dump styled r = ''('' @ concat [
     dump_field ''id: '' (show_int (cll_id r)),
     dump_field ''server_id: '' (show_int (cll_server_id r)),
     dump_field ''uniqueid_orig: '' (cll_uniqueid_orig r),
     dump_field ''channame_orig: '' (cll_channame_orig r),
     dump_field ''uniqueid_term: '' (cll_uniqueid_term r),
     dump_field ''channame_term: '' (cll_channame_term r),
     dump_field ''link_start_time: '' (cll_link_start_time r),
     dump_field ''link_answer_time: '' (cll_link_answer_time r),
     dump_field ''link_end_time: '' (cll_link_end_time r),
     dump_field ''rec_filename: '' (cll_rec_filename r),
     dump_field ''status: '' (cll_status r),
     dump_field ''bridged: '' (show_bool (cll_bridged r)),
     dump_field ''cf: '' (cll_cf r),
     dump_field ''trf_by: '' (cll_trf_by r),
     dump_field ''queue_callid: '' (cll_queue_callid r),
     dump_field ''object_type: '' (cll_object_type r),
     dump_field ''object_data: '' (styled (cll_object_data r))] @ '')''"

definition call_leg_link_json :: "'j call_leg_link \<Rightarrow> 'j json_object" where
  "call_leg_link_json r = [
     (''id'', FInt (int32 (cll_id r))),
     (''server_id'', FInt (cll_server_id r)),
     (''uniqueid_orig'', FStr (cll_uniqueid_orig r)),
     (''channame_orig'', FStr (cll_channame_orig r)),
     (''uniqueid_term'', FStr (cll_uniqueid_term r)),
     (''channame_term'', FStr (cll_channame_term r)),
     (''link_start_time'', FStr (cll_link_start_time r)),
     (''link_answer_time'', FStr (cll_link_answer_time r)),
     (''link_end_time'', FStr (cll_link_end_time r)),
     (''rec_filename'', FStr (cll_rec_filename r)),
     (''status'', FStr (cll_status r)),
     (''bridged'', FBool (cll_bridged r)),
     (''cf'', FStr (cll_cf r)),
     (''trf_by'', FStr (cll_trf_by r)),
     (''queue_callid'', FStr (cll_queue_callid r)),
     (''object_type'', FStr (cll_object_type r)),
     (''object_data'', FJson (cll_object_data r))]"

section \<open>\<open>call_leg_online\<close>\<close>

record call_leg_online =
  clo_uniqueid :: string
  clo_channame :: string
  clo_orig :: bool
  clo_account_id :: int
  clo_vpbx_id :: int
  clo_start_time :: string
  clo_answer_time :: string
  clo_stop_time :: string
  clo_final_status :: string
  clo_q931_status :: int
  clo_hangup_cause :: string
  clo_number :: string
  clo_name :: string
  clo_did :: int
  clo_did_type :: string
  clo_object_type :: string
  clo_object_id :: int
  clo_sip_ip :: string
  clo_last_linked_id :: string
  clo_sip_call_hash_id :: string
  clo_extra_info_id :: string

definition call_leg_online_dump :: "call_leg_online \<Rightarrow> string" where
  "call_leg_online_dump r = ''('' @ concat [
     dump_field ''uniqueid: '' (clo_uniqueid r),
     dump_field ''channame: '' (clo_channame r),
     dump_field ''orig: '' (show_bool (clo_orig r)),
     dump_field ''account_id: '' (show_int (clo_account_id r)),
     dump_field ''vpbx_id: '' (show_int (clo_vpbx_id r)),
     dump_field ''start_time: '' (clo_start_time r),
     dump_field ''answer_time: '' (clo_answer_time r),
     dump_field ''stop_time: '' (clo_stop_time r),
     dump_field ''final_status: '' (clo_final_status r),
     dump_field ''q931_status: '' (show_int (clo_q931_status r)),
     dump_field ''hangup_cause: '' (clo_hangup_cause r),
     dump_field ''number: '' (clo_number r),
     dump_field ''name: '' (clo_name r),
     dump_field ''did: '' (show_int (clo_did r)),
     dump_field ''did_type: '' (clo_did_type r),
     dump_field ''object_type: '' (clo_object_type r),
     dump_field ''object_id: '' (show_int (clo_object_id r)),
     dump_field ''sip_ip: '' (clo_sip_ip r),
     dump_field ''last_linked_id: '' (clo_last_linked_id r),
     dump_field ''sip_call_hash_id: '' (clo_sip_call_hash_id r),
     dump_field ''extra_info_id: '' (clo_extra_info_id r)] @ '')''"

section \<open>\<open>call_leg_link_online\<close>\<close>

record call_leg_link_online =
  cllo_uniqueid_orig :: string
  cllo_channame_orig :: string
  cllo_uniqueid_term :: string
  cllo_channame_term :: string
  cllo_link_start_time :: string
  cllo_link_answer_time :: string
  cllo_link_end_time :: string
  cllo_rec_filename :: string
  cllo_status :: string
  cllo_bridged :: bool
  cllo_cf :: string
  cllo_trf_by :: string
  cllo_queue_callid :: string
  cllo_object_type :: string
  cllo_object_data :: string

definition call_leg_link_online_dump :: "call_leg_link_online \<Rightarrow> string" where
  "call_leg_link_online_dump r = ''('' @ concat [
     dump_field ''uniqueid_orig: '' (cllo_uniqueid_orig r),
     dump_field ''channame_orig: '' (cllo_channame_orig r),
     dump_field ''uniqueid_term: '' (cllo_uniqueid_term r),
     dump_field ''channame_term: '' (cllo_channame_term r),
     dump_field ''link_start_time: '' (cllo_link_start_time r),
     dump_field ''link_answer_time: '' (cllo_link_answer_time r),
     dump_field ''link_end_time: '' (cllo_link_end_time r),
     dump_field ''rec_filename: '' (cllo_rec_filename r),
     dump_field ''status: '' (cllo_status r),
     dump_field ''bridged: '' (show_bool (cllo_bridged r)),
     dump_field ''cf: '' (cllo_cf r),
     dump_field ''trf_by: '' (cllo_trf_by r),
     dump_field ''queue_callid: '' (cllo_queue_callid r),
     dump_field ''object_type: '' (cllo_object_type r),
     dump_field ''object_data: '' (cllo_object_data r)] @ '')''"

section \<open>\<open>call_record\<close>\<close>

record 'j call_record =
  cr_orig :: string
  cr_startTime :: int
  cr_legs :: "(string \<times> call_leg) list"
  cr_links :: "'j call_leg_link list"
  cr_a :: call_leg
  cr_b :: "call_leg list"

text \<open>
  The constructor. The member \<open>a\<close> is default-initialised: its strings are empty and its
  numbers indeterminate, the parameter \<open>a0\<close>.
\<close>

definition new_call_record :: "call_leg \<Rightarrow> call_leg \<Rightarrow> int \<Rightarrow> 'j call_record" where
  "new_call_record a0 leg stemp =
     \<lparr>cr_orig = cl_uniqueid leg, cr_startTime = stemp, cr_legs = sm_insert (cl_uniqueid leg) leg [],
      cr_links = [], cr_a = a0, cr_b = []\<rparr>"

definition call_record_dump :: "'j call_record \<Rightarrow> string" where
  "call_record_dump r =
     ''CallRecord start'' @ newline
     @ concat (map (\<lambda>(k, leg). ''leg: '' @ cl_uniqueid leg @ '' '' @ cl_start_time leg @ newline) (cr_legs r))
     @ concat (map (\<lambda>link. ''link: '' @ cll_uniqueid_orig link @ '' -> '' @ cll_uniqueid_term link
          @ '' '' @ cll_link_start_time link @ newline) (cr_links r))
     @ ''CallRecord stop with legs: ('' @ show_nat (length (cr_legs r)) @ '') links: (''
     @ show_nat (length (cr_links r)) @ '')'' @ newline"

section \<open>\<open>data_voip_record\<close>\<close>

record data_voip_record =
  dvr_telco_id :: int
  dvr_begin_connection_time :: string
  dvr_end_connection_time :: string
  dvr_client_info :: string
  dvr_server_info :: string
  dvr_point_id :: int
  dvr_voip_session_id :: string
  dvr_voip_conference_id :: string
  dvr_voip_duration :: int
  dvr_voip_originator_name :: string
  dvr_voip_call_type_id :: int
  dvr_calling_original_number :: string
  dvr_calling_translated_number :: string
  dvr_calling_e164_number :: string
  dvr_called_original_number :: string
  dvr_called_translated_number :: string
  dvr_called_e164_number :: string
  dvr_voip_in_bytes_count :: int
  dvr_voip_out_bytes_count :: int
  dvr_voip_fax :: bool
  dvr_voip_term_cause :: string
  dvr_inbound_trunk :: string
  dvr_outbound_trunk :: string
  dvr_voip_gateways :: string
  dvr_voip_protocol :: string
  dvr_supplement_service_id :: int
  dvr_voip_abonent_id :: string
  dvr_voip_nat_info :: string
  dvr_voip_location :: string
  dvr_voip_event :: string
  dvr_voip_data_content_id :: string
  dvr_vpbx_id :: int
  dvr_server_id :: int
  dvr_account_id :: int
  dvr_account_id_2 :: int
  dvr_orig_uniqueid :: string
  dvr_raw_data :: string

definition data_voip_record_dump :: "data_voip_record \<Rightarrow> string" where
  "data_voip_record_dump r = ''('' @ join_strings '', '' [
     (show_int (dvr_telco_id r)),
     (quoted (dvr_begin_connection_time r)),
     (quoted (dvr_end_connection_time r)),
     (quoted (dvr_client_info r)),
     (quoted (dvr_server_info r)),
     (show_int (dvr_point_id r)),
     (quoted (dvr_voip_session_id r)),
     (quoted (dvr_voip_conference_id r)),
     (show_int (dvr_voip_duration r)),
     (quoted (dvr_voip_originator_name r)),
     (show_int (dvr_voip_call_type_id r)),
     (quoted (dvr_calling_original_number r)),
     (quoted (dvr_calling_translated_number r)),
     (quoted (dvr_calling_e164_number r)),
     (quoted (dvr_called_original_number r)),
     (quoted (dvr_called_translated_number r)),
     (quoted (dvr_called_e164_number r)),
     (show_int (dvr_voip_in_bytes_count r)),
     (show_int (dvr_voip_out_bytes_count r)),
     (if dvr_voip_fax r then ''true'' else ''false''),
     (quoted (dvr_voip_term_cause r)),
     (quoted (dvr_inbound_trunk r)),
     (quoted (dvr_outbound_trunk r)),
     (quoted (dvr_voip_gateways r)),
     (quoted (dvr_voip_protocol r)),
     (show_int (dvr_supplement_service_id r)),
     (quoted (dvr_voip_abonent_id r)),
     (quoted (dvr_voip_nat_info r)),
     (quoted (dvr_voip_location r)),
     (quoted (dvr_voip_event r)),
     (quoted (dvr_voip_data_content_id r)),
     (show_int (dvr_vpbx_id r)),
     (show_int (dvr_server_id r)),
     (show_int (dvr_account_id r)),
     (show_int (dvr_account_id_2 r)),
     (quoted (dvr_orig_uniqueid r)),
     (quoted (dvr_raw_data r))] @ '')''"

section \<open>\<open>pstn_record\<close>\<close>

record pstn_record =
  pr_telco_id :: int
  pr_begin_connection_time :: string
  pr_duration :: int
  pr_call_type_id :: string
  pr_supplement_service_id :: string
  pr_in_abonent_type :: string
  pr_out_abonent_type :: string
  pr_switch_id :: string
  pr_inbound_trunk :: string
  pr_outbound_trunk :: string
  pr_term_cause :: string
  pr_in_info :: string
  pr_dialed_digits :: string
  pr_out_info :: string
  pr_forwarding_identifier :: string
  pr_message :: string
  pr_data_content_id :: int

definition pstn_record_dump :: "pstn_record \<Rightarrow> string" where
  "pstn_record_dump r = ''('' @ join_strings '', '' [
     (quoted (show_int (pr_telco_id r))),
     (quoted (pr_begin_connection_time r)),
     (show_int (pr_duration r)),
     (quoted (pr_call_type_id r)),
     (quoted (pr_supplement_service_id r)),
     (quoted (pr_in_abonent_type r)),
     (quoted (pr_out_abonent_type r)),
     (quoted (pr_switch_id r)),
     (quoted (pr_inbound_trunk r)),
     (quoted (pr_outbound_trunk r)),
     (quoted (pr_term_cause r)),
     (quoted (pr_in_info r)),
     (quoted (pr_dialed_digits r)),
     (quoted (pr_out_info r)),
     (quoted (pr_forwarding_identifier r)),
     (quoted (pr_message r)),
     (show_int (pr_data_content_id r))] @ '')''"

section \<open>\<open>legs_aggr_raw\<close>\<close>

record 'j legs_aggr_raw =
  lar_start_time :: string
  lar_stop_time :: string
  lar_uniqueid :: string
  lar_object_type :: string
  lar_object_type_l :: string
  lar_sip_ip :: string
  lar_sip_ip_l :: string
  lar_status :: string
  lar_call_id_md5 :: string
  lar_call_id_md5_l :: string
  lar_to_jsonb :: 'j

definition legs_aggr_raw_dump :: "('j \<Rightarrow> string) \<Rightarrow> 'j legs_aggr_raw \<Rightarrow> string" where
  "legs_aggr_raw_dump styled r = ''('' @ join_strings '', '' [
     (quoted (lar_start_time r)),
     (quoted (lar_stop_time r)),
     (quoted (lar_uniqueid r)),
     (quoted (lar_object_type r)),
     (quoted (lar_object_type_l r)),
     (quoted (lar_sip_ip r)),
     (quoted (lar_sip_ip_l r)),
     (quoted (lar_status r)),
     (quoted (lar_call_id_md5 r)),
     (quoted (lar_call_id_md5_l r)),
     (quoted (styled (lar_to_jsonb r)))] @ '')''"

end
