(* ===== verification/Merge_Container.thy ===== *)
theory Merge_Container
  imports Models
begin

text \<open>
  \<open>src/service/MergeContainer.cpp\<close>: the state of the merge thread and one pass of its loop. A
  pass takes legs and links from the reader queues, opens a \<open>CallRecord\<close> per originating
  leg, attaches links by the originating unique id and legs by the terminating unique ids
  of the links, and retires what is older than the longest call.

  The stamps are \<open>parseDateTime\<close> of the texts; \<open>g\<close> is the content of its uninitialised
  \<open>struct tm\<close>, \<open>a0\<close> that of the member \<open>a\<close> of a new record. The link reader runs beside
  the pass, so its \<open>getTime()\<close> is a new reading each time: \<open>lt n\<close> while the n-th record of
  the pass is swept, \<open>lk k\<close> while the leg under the key \<open>k\<close> is looked at. The queues are
  lists; the wait for space in the output queue is not a step of its own.
\<close>

record merge_settings =
  ms_max_call_time :: int
  ms_max_queue_size :: nat

record 'j merge_container =
  mc_data :: "'j call_record list"
  mc_legs :: "(string \<times> call_leg) list"
  mc_links :: "(string \<times> 'j call_leg_link list) list"
  mc_queueLeg :: "call_leg list"
  mc_queueLink :: "'j call_leg_link list"
  mc_output :: "'j call_record list"
  mc_leg_paused :: bool
  mc_link_paused :: bool
  mc_maxLegTime :: int
  mc_maxLinkTime :: int
  mc_start :: int

definition merge_init :: "int \<Rightarrow> 'j merge_container" where
  "merge_init start =
     \<lparr>mc_data = [], mc_legs = [], mc_links = [], mc_queueLeg = [], mc_queueLink = [], mc_output = [],
      mc_leg_paused = False, mc_link_paused = False,
      mc_maxLegTime = start, mc_maxLinkTime = start, mc_start = start\<rparr>"

definition setStart :: "int \<Rightarrow> 'j merge_container \<Rightarrow> 'j merge_container" where
  "setStart start st = st\<lparr>mc_start := start, mc_maxLegTime := start, mc_maxLinkTime := start\<rparr>"

definition getLinkSize :: "'j merge_container \<Rightarrow> nat \<times> nat" where
  "getLinkSize st =
     (length (mc_links st), fold (\<lambda>(k, ls) count. count + length ls) (mc_links st) 0)"

definition getLegSize :: "'j merge_container \<Rightarrow> nat" where
  "getLegSize st = length (mc_legs st)"

definition getDataSize :: "'j merge_container \<Rightarrow> nat" where
  "getDataSize st = length (mc_data st)"

definition getLegQueueSize :: "'j merge_container \<Rightarrow> nat" where
  "getLegQueueSize st = length (mc_queueLeg st)"

definition getLinkQueueSize :: "'j merge_container \<Rightarrow> nat" where
  "getLinkQueueSize st = length (mc_queueLink st)"

definition getOutputQueueSize :: "'j merge_container \<Rightarrow> nat" where
  "getOutputQueueSize st = length (mc_output st)"

definition getStart :: "'j merge_container \<Rightarrow> int" where
  "getStart st = mc_start st"

definition getMaxLegTime :: "'j merge_container \<Rightarrow> int" where
  "getMaxLegTime st = mc_maxLegTime st"

definition getMaxLinkTime :: "'j merge_container \<Rightarrow> int" where
  "getMaxLinkTime st = mc_maxLinkTime st"

section \<open>Intake\<close>

definition stamp_of :: "tm \<Rightarrow> string \<Rightarrow> int" where
  "stamp_of g s = parseDateTime g (c_str s)"

definition take_leg :: "tm \<Rightarrow> call_leg \<Rightarrow> call_leg \<Rightarrow> 'j merge_container \<Rightarrow> 'j merge_container" where
  "take_leg g a0 leg st =
     (let st = (if cl_orig leg
                then st\<lparr>mc_data := mc_data st @ [new_call_record a0 leg (stamp_of g (cl_start_time leg))]\<rparr>
                else st\<lparr>mc_legs := sm_set (cl_uniqueid leg) leg (mc_legs st)\<rparr>);
          stamp = stamp_of g (cl_start_time leg)
      in if mc_maxLegTime st < stamp then st\<lparr>mc_maxLegTime := stamp\<rparr> else st)"

definition take_link :: "tm \<Rightarrow> 'j call_leg_link \<Rightarrow> 'j merge_container \<Rightarrow> 'j merge_container" where
  "take_link g link st =
     (let links = (case map_of (mc_links st) (cll_uniqueid_orig link) of
             None \<Rightarrow> sm_push (cll_uniqueid_orig link) link (mc_links st)
           | Some ls \<Rightarrow> sm_set (cll_uniqueid_orig link) (ls @ [link]) (mc_links st));
          st = st\<lparr>mc_links := links\<rparr>;
          stamp = stamp_of g (cll_link_start_time link)
      in if mc_maxLinkTime st < stamp then st\<lparr>mc_maxLinkTime := stamp\<rparr> else st)"

section \<open>Reader control\<close>

definition recordSaveTime :: "merge_settings \<Rightarrow> 'j merge_container \<Rightarrow> int" where
  "recordSaveTime cfg st = int32 (mc_maxLegTime st - ms_max_call_time cfg)"

definition control_readers :: "merge_settings \<Rightarrow> 'j merge_container \<Rightarrow> 'j merge_container" where
  "control_readers cfg st =
     (if \<bar>mc_maxLegTime st - mc_maxLinkTime st\<bar> > uint32 (ms_max_call_time cfg * 2)
      then (if \<not> mc_leg_paused st \<and> \<not> mc_link_paused st
            then (if mc_maxLegTime st > mc_maxLinkTime st
                  then st\<lparr>mc_leg_paused := True\<rparr> else st\<lparr>mc_link_paused := True\<rparr>)
            else st)
      else st\<lparr>mc_leg_paused := False, mc_link_paused := False\<rparr>)"

section \<open>The sweep over the records\<close>

text \<open>Both attach loops work on the record and on the map they consume from.\<close>

definition attach_links ::
  "'j call_record \<Rightarrow> (string \<times> 'j call_leg_link list) list \<Rightarrow>
   'j call_record \<times> (string \<times> 'j call_leg_link list) list" where
  "attach_links r links =
     (case map_of links (cr_orig r) of
        None \<Rightarrow> (r, links)
      | Some ls \<Rightarrow> (r\<lparr>cr_links := fold (\<lambda>l acc. acc @ [l]) ls (cr_links r)\<rparr>, sm_erase (cr_orig r) links))"

fun attach_leg_loop ::
  "'j call_leg_link list \<Rightarrow> (string \<times> call_leg) list \<Rightarrow> (string \<times> call_leg) list \<Rightarrow>
   (string \<times> call_leg) list \<times> (string \<times> call_leg) list" where
  "attach_leg_loop [] own legs = (own, legs)"
| "attach_leg_loop (link # ls) own legs =
     (case map_of legs (cll_uniqueid_term link) of
        None \<Rightarrow> attach_leg_loop ls own legs
      | Some clt \<Rightarrow> attach_leg_loop ls (sm_set (cl_uniqueid clt) clt own)
                      (sm_erase (cll_uniqueid_term link) legs))"

definition attach_legs ::
  "'j call_record \<Rightarrow> (string \<times> call_leg) list \<Rightarrow> 'j call_record \<times> (string \<times> call_leg) list" where
  "attach_legs r legs =
     (let (own, legs) = attach_leg_loop (cr_links r) (cr_legs r) legs in (r\<lparr>cr_legs := own\<rparr>, legs))"

definition retires :: "merge_settings \<Rightarrow> int \<Rightarrow> int \<Rightarrow> 'j call_record \<Rightarrow> bool" where
  "retires cfg save lt r \<longleftrightarrow> cr_startTime r < save \<and> lt > cr_startTime r + ms_max_call_time cfg"

fun sweep ::
  "merge_settings \<Rightarrow> int \<Rightarrow> (nat \<Rightarrow> int) \<Rightarrow> nat \<Rightarrow> 'j call_record list \<Rightarrow>
   'j merge_container \<Rightarrow> 'j call_record list \<times> 'j merge_container" where
  "sweep cfg save lt n [] st = ([], st)"
| "sweep cfg save lt n (r # rs) st =
     (let (r, links) = attach_links r (mc_links st);
          (r, legs) = attach_legs r (mc_legs st);
          st = st\<lparr>mc_links := links, mc_legs := legs\<rparr>
      in if retires cfg save (lt n) r
         then sweep cfg save lt (Suc n) rs (st\<lparr>mc_output := mc_output st @ [r]\<rparr>)
         else let (kept, st) = sweep cfg save lt (Suc n) rs st in (r # kept, st))"

section \<open>The stale legs and links\<close>

definition drop_legs ::
  "merge_settings \<Rightarrow> tm \<Rightarrow> int \<Rightarrow> (string \<Rightarrow> int) \<Rightarrow> (string \<times> call_leg) list \<Rightarrow> (string \<times> call_leg) list" where
  "drop_legs cfg g save lk legs =
     filter (\<lambda>(k, leg). let stamp = stamp_of g (cl_start_time leg)
        in \<not> (stamp < save \<and> lk k > stamp + ms_max_call_time cfg)) legs"

text \<open>\<open>front()\<close> of an empty vector would be undefined; \<open>merge_inv\<close> below rules it out.\<close>

definition drop_links ::
  "tm \<Rightarrow> int \<Rightarrow> (string \<times> 'j call_leg_link list) list \<Rightarrow> (string \<times> 'j call_leg_link list) list" where
  "drop_links g save links =
     filter (\<lambda>(k, ls). \<not> stamp_of g (cll_link_start_time (hd ls)) < save) links"

section \<open>One pass\<close>

definition merge_pass ::
  "merge_settings \<Rightarrow> tm \<Rightarrow> call_leg \<Rightarrow> (nat \<Rightarrow> int) \<Rightarrow> (string \<Rightarrow> int) \<Rightarrow>
   'j merge_container \<Rightarrow> 'j merge_container" where
  "merge_pass cfg g a0 lt lk st =
     (let legsIn = take (ms_max_queue_size cfg) (mc_queueLeg st);
          linksIn = take (ms_max_queue_size cfg) (mc_queueLink st)
      in if legsIn = [] \<and> linksIn = [] then st
         else
           let st = st\<lparr>mc_queueLeg := drop (ms_max_queue_size cfg) (mc_queueLeg st),
                       mc_queueLink := drop (ms_max_queue_size cfg) (mc_queueLink st)\<rparr>;
               st = fold (take_leg g a0) legsIn st;
               st = fold (take_link g) linksIn st;
               save = recordSaveTime cfg st;
               st = control_readers cfg st;
               (kept, st) = sweep cfg save lt 0 (mc_data st) st;
               st = st\<lparr>mc_data := kept\<rparr>;
               st = st\<lparr>mc_legs := drop_legs cfg g save lk (mc_legs st)\<rparr>
           in st\<lparr>mc_links := drop_links g save (mc_links st)\<rparr>)"

text \<open>What happens between passes: the readers append to the queues, the consumer takes records.\<close>

inductive merge_step :: "merge_settings \<Rightarrow> 'j merge_container \<Rightarrow> 'j merge_container \<Rightarrow> bool" for cfg where
  leg_read: "merge_step cfg st (st\<lparr>mc_queueLeg := mc_queueLeg st @ [leg]\<rparr>)"
| link_read: "merge_step cfg st (st\<lparr>mc_queueLink := mc_queueLink st @ [link]\<rparr>)"
| consumed: "merge_step cfg st (st\<lparr>mc_output := drop n (mc_output st)\<rparr>)"
| pass: "merge_step cfg st (merge_pass cfg g a0 lt lk st)"

inductive merge_reachable :: "merge_settings \<Rightarrow> 'j merge_container \<Rightarrow> bool" for cfg where
  start: "merge_reachable cfg (merge_init start)"
| step: "merge_reachable cfg st \<Longrightarrow> merge_step cfg st st' \<Longrightarrow> merge_reachable cfg st'"

inductive_cases merge_stepE: "merge_step cfg st st'"

section \<open>What the steps leave alone\<close>

lemma fold_snoc [simp]: "fold (\<lambda>l acc. acc @ [l]) ls xs = xs @ ls"
  by (induction ls arbitrary: xs) auto

lemma attach_links_cases:
  "attach_links r links =
     (r\<lparr>cr_links := cr_links r @ sbucket.bucket links (cr_orig r)\<rparr>, sm_erase (cr_orig r) links)"
  by (auto simp: attach_links_def sm_bucket_def sm_erase_fresh split: option.split)

lemma attach_keeps:
  "attach_links r links = (r', links') \<Longrightarrow> cr_orig r' = cr_orig r \<and> cr_startTime r' = cr_startTime r"
  "attach_legs r legs = (r'', legs') \<Longrightarrow>
   cr_orig r'' = cr_orig r \<and> cr_startTime r'' = cr_startTime r \<and> cr_links r'' = cr_links r"
  by (auto simp: attach_links_cases attach_legs_def split: prod.splits)

lemma take_leg_keeps [simp]:
  "mc_links (take_leg g a0 leg st) = mc_links st"
  "mc_queueLeg (take_leg g a0 leg st) = mc_queueLeg st"
  "mc_queueLink (take_leg g a0 leg st) = mc_queueLink st"
  "mc_output (take_leg g a0 leg st) = mc_output st"
  "mc_leg_paused (take_leg g a0 leg st) = mc_leg_paused st"
  "mc_link_paused (take_leg g a0 leg st) = mc_link_paused st"
  "mc_maxLinkTime (take_leg g a0 leg st) = mc_maxLinkTime st"
  by (simp_all add: take_leg_def Let_def)

lemma take_link_keeps [simp]:
  "mc_data (take_link g link st) = mc_data st"
  "mc_legs (take_link g link st) = mc_legs st"
  "mc_queueLeg (take_link g link st) = mc_queueLeg st"
  "mc_queueLink (take_link g link st) = mc_queueLink st"
  "mc_output (take_link g link st) = mc_output st"
  "mc_leg_paused (take_link g link st) = mc_leg_paused st"
  "mc_link_paused (take_link g link st) = mc_link_paused st"
  "mc_maxLegTime (take_link g link st) = mc_maxLegTime st"
  by (simp_all add: take_link_def Let_def)

lemma take_link_links: "mc_links (take_link g link st) = sm_push (cll_uniqueid_orig link) link (mc_links st)"
  by (simp add: take_link_def Let_def sm_push_def split: option.split)

lemma control_readers_keeps [simp]:
  "mc_data (control_readers cfg st) = mc_data st"
  "mc_legs (control_readers cfg st) = mc_legs st"
  "mc_links (control_readers cfg st) = mc_links st"
  "mc_queueLeg (control_readers cfg st) = mc_queueLeg st"
  "mc_queueLink (control_readers cfg st) = mc_queueLink st"
  "mc_output (control_readers cfg st) = mc_output st"
  "mc_maxLegTime (control_readers cfg st) = mc_maxLegTime st"
  "mc_maxLinkTime (control_readers cfg st) = mc_maxLinkTime st"
  by (simp_all add: control_readers_def)

text \<open>One round of the sweep: the record after both attach loops is retired or kept.\<close>

lemma sweep_ConsE:
  assumes "sweep cfg save lt n (r # rs) st = (kept, st')"
  obtains (retired) r1 links r2 legs where
      "attach_links r (mc_links st) = (r1, links)" "attach_legs r1 (mc_legs st) = (r2, legs)"
      "retires cfg save (lt n) r2"
      "sweep cfg save lt (Suc n) rs
         (st\<lparr>mc_links := links, mc_legs := legs, mc_output := mc_output st @ [r2]\<rparr>) = (kept, st')"
    | (kept) r1 links r2 legs ks where
      "attach_links r (mc_links st) = (r1, links)" "attach_legs r1 (mc_legs st) = (r2, legs)"
      "\<not> retires cfg save (lt n) r2"
      "sweep cfg save lt (Suc n) rs (st\<lparr>mc_links := links, mc_legs := legs\<rparr>) = (ks, st')"
      "kept = r2 # ks"
proof -
  obtain r1 links where l: "attach_links r (mc_links st) = (r1, links)" by (meson surj_pair)
  obtain r2 legs where g: "attach_legs r1 (mc_legs st) = (r2, legs)" by (meson surj_pair)
  let ?st = "st\<lparr>mc_links := links, mc_legs := legs\<rparr>"
  obtain ks w where k: "sweep cfg save lt (Suc n) rs ?st = (ks, w)" by (meson surj_pair)
  show thesis
  proof (cases "retires cfg save (lt n) r2")
    case True
    with assms l g show ?thesis by (intro retired [OF l g True]) (simp add: Let_def)
  next
    case False
    with assms l g k have "kept = r2 # ks" "st' = w" by (simp_all add: Let_def)
    with k show ?thesis by (intro kept [OF l g False]) simp_all
  qed
qed

lemma sweep_keeps:
  "sweep cfg save lt n rs st = (kept, st') \<Longrightarrow>
   mc_queueLeg st' = mc_queueLeg st \<and> mc_queueLink st' = mc_queueLink st \<and>
   mc_maxLegTime st' = mc_maxLegTime st \<and> mc_maxLinkTime st' = mc_maxLinkTime st \<and>
   mc_leg_paused st' = mc_leg_paused st \<and> mc_link_paused st' = mc_link_paused st"
proof (induction rs arbitrary: n st kept)
  case Nil
  then show ?case by simp
next
  case (Cons r rs)
  from Cons.prems show ?case
    by (cases rule: sweep_ConsE) (use Cons.IH in force)+
qed

text \<open>The state after the intake, and after the sweep, of a pass that found data.\<close>

definition merge_intake ::
  "merge_settings \<Rightarrow> tm \<Rightarrow> call_leg \<Rightarrow> 'j merge_container \<Rightarrow> 'j merge_container" where
  "merge_intake cfg g a0 st =
     fold (take_link g) (take (ms_max_queue_size cfg) (mc_queueLink st))
      (fold (take_leg g a0) (take (ms_max_queue_size cfg) (mc_queueLeg st))
        (st\<lparr>mc_queueLeg := drop (ms_max_queue_size cfg) (mc_queueLeg st),
            mc_queueLink := drop (ms_max_queue_size cfg) (mc_queueLink st)\<rparr>))"

definition merge_idle :: "merge_settings \<Rightarrow> 'j merge_container \<Rightarrow> bool" where
  "merge_idle cfg st \<longleftrightarrow> take (ms_max_queue_size cfg) (mc_queueLeg st) = [] \<and>
     take (ms_max_queue_size cfg) (mc_queueLink st) = []"

lemma merge_pass_eq:
  "merge_pass cfg g a0 lt lk st =
     (if merge_idle cfg st then st
      else let m = merge_intake cfg g a0 st; save = recordSaveTime cfg m
           in case sweep cfg save lt 0 (mc_data m) (control_readers cfg m) of (kept, w) \<Rightarrow>
                w\<lparr>mc_data := kept, mc_legs := drop_legs cfg g save lk (mc_legs w),
                  mc_links := drop_links g save (mc_links w)\<rparr>)"
  by (simp add: merge_pass_def merge_idle_def merge_intake_def Let_def split: prod.split)

section \<open>The invariant\<close>

definition record_ok :: "'j call_record \<Rightarrow> bool" where
  "record_ok r \<longleftrightarrow> sm_ok (cr_legs r) \<and> map_of (cr_legs r) (cr_orig r) \<noteq> None \<and>
     (\<forall>l \<in> set (cr_links r). cll_uniqueid_orig l = cr_orig r) \<and>
     (\<forall>k leg. (k, leg) \<in> set (cr_legs r) \<longrightarrow> cl_uniqueid leg = k \<and>
        (k = cr_orig r \<or> (\<exists>l \<in> set (cr_links r). cll_uniqueid_term l = k)))"

definition legs_ok :: "(string \<times> call_leg) list \<Rightarrow> bool" where
  "legs_ok legs \<longleftrightarrow> sm_ok legs \<and> (\<forall>k leg. (k, leg) \<in> set legs \<longrightarrow> cl_uniqueid leg = k \<and> \<not> cl_orig leg)"

definition links_ok :: "(string \<times> 'j call_leg_link list) list \<Rightarrow> bool" where
  "links_ok links \<longleftrightarrow> sm_ok links \<and>
     (\<forall>k ls. (k, ls) \<in> set links \<longrightarrow> ls \<noteq> [] \<and> (\<forall>l \<in> set ls. cll_uniqueid_orig l = k))"

definition merge_inv :: "'j merge_container \<Rightarrow> bool" where
  "merge_inv st \<longleftrightarrow> legs_ok (mc_legs st) \<and> links_ok (mc_links st) \<and>
     (\<forall>r \<in> set (mc_data st). record_ok r) \<and> (\<forall>r \<in> set (mc_output st). record_ok r) \<and>
     \<not> (mc_leg_paused st \<and> mc_link_paused st)"

lemma legs_ok_set: "legs_ok legs \<Longrightarrow> \<not> cl_orig leg \<Longrightarrow> legs_ok (sm_set (cl_uniqueid leg) leg legs)"
  by (auto simp: legs_ok_def dest!: sm_setD)

lemma legs_ok_filter [simp]: "legs_ok legs \<Longrightarrow> legs_ok (filter P legs)"
  by (auto simp: legs_ok_def)

lemma links_ok_filter [simp]: "links_ok links \<Longrightarrow> links_ok (filter P links)"
  by (auto simp: links_ok_def)

lemma links_ok_push: "links_ok links \<Longrightarrow> links_ok (sm_push (cll_uniqueid_orig l) l links)"
  by (auto simp: links_ok_def dest!: sm_push_in)

lemma record_ok_new: "record_ok (new_call_record a0 leg t)"
  by (simp add: record_ok_def new_call_record_def sm_insert_def)

lemma bucket_links_ok:
  "links_ok links \<Longrightarrow> l \<in> set (sbucket.bucket links k) \<Longrightarrow> cll_uniqueid_orig l = k"
  by (cases "map_of links k") (auto simp: sm_bucket_def links_ok_def dest!: sm_find_in)

lemma attach_links_ok:
  assumes "record_ok r" "links_ok links" "attach_links r links = (r', links')"
  shows "record_ok r' \<and> links_ok links'"
  using assms by (auto simp: attach_links_cases record_ok_def sm_erase_def dest: bucket_links_ok) blast

lemma attach_leg_loop_ok:
  assumes "attach_leg_loop ls own legs = (own', legs')" "legs_ok legs" "sm_ok own" "set ls \<subseteq> set all_links"
    "\<forall>k leg. (k, leg) \<in> set own \<longrightarrow> cl_uniqueid leg = k \<and> (k = orig \<or> (\<exists>l \<in> set all_links. cll_uniqueid_term l = k))"
    "map_of own orig \<noteq> None"
  shows "legs_ok legs' \<and> sm_ok own' \<and> map_of own' orig \<noteq> None \<and>
    (\<forall>k leg. (k, leg) \<in> set own' \<longrightarrow> cl_uniqueid leg = k \<and> (k = orig \<or> (\<exists>l \<in> set all_links. cll_uniqueid_term l = k)))"
  using assms
proof (induction ls own legs rule: attach_leg_loop.induct)
  case (1 own legs)
  then show ?case by simp
next
  case (2 link ls own legs)
  show ?case
  proof (cases "map_of legs (cll_uniqueid_term link)")
    case None
    with 2 show ?thesis by simp
  next
    case (Some clt)
    then have "cl_uniqueid clt = cll_uniqueid_term link"
      using "2.prems"(2) by (auto simp: legs_ok_def dest!: sm_find_in)
    then show ?thesis
      using "2.prems" Some
      by (intro "2.IH"(2) [OF Some]) (auto simp: sm_erase_def map_of_sm_set dest!: sm_setD)
  qed
qed

lemma attach_legs_ok:
  assumes "record_ok r" "legs_ok legs" "attach_legs r legs = (r', legs')"
  shows "record_ok r' \<and> legs_ok legs'"
proof -
  obtain own where own: "attach_leg_loop (cr_links r) (cr_legs r) legs = (own, legs')"
    "r' = r\<lparr>cr_legs := own\<rparr>"
    using assms(3) by (auto simp: attach_legs_def split: prod.splits)
  from attach_leg_loop_ok [OF own(1) assms(2) _ subset_refl, of "cr_orig r"] assms(1)
  show ?thesis by (auto simp: record_ok_def own(2))
qed

lemma sweep_ok:
  assumes "sweep cfg save lt n rs st = (kept, st')" "legs_ok (mc_legs st)" "links_ok (mc_links st)"
    "\<forall>r \<in> set rs. record_ok r" "\<forall>r \<in> set (mc_output st). record_ok r"
  shows "legs_ok (mc_legs st') \<and> links_ok (mc_links st') \<and> (\<forall>r \<in> set kept. record_ok r) \<and>
    (\<forall>r \<in> set (mc_output st'). record_ok r)"
  using assms
proof (induction rs arbitrary: n st kept)
  case Nil
  then show ?case by simp
next
  case (Cons r rs)
  have ok: "record_ok r2 \<and> legs_ok legs \<and> links_ok links"
    if "attach_links r (mc_links st) = (r1, links)" "attach_legs r1 (mc_legs st) = (r2, legs)"
    for r1 links r2 legs
    using attach_links_ok [OF _ _ that(1)] attach_legs_ok [OF _ _ that(2)] Cons.prems by simp
  from Cons.prems(1) show ?case
  proof (cases rule: sweep_ConsE)
    case (retired r1 links r2 legs)
    show ?thesis by (rule Cons.IH [OF retired(4)]) (use ok [OF retired(1,2)] Cons.prems in auto)
  next
    case (kept r1 links r2 legs ks)
    have "legs_ok (mc_legs st') \<and> links_ok (mc_links st') \<and> (\<forall>r \<in> set ks. record_ok r) \<and>
      (\<forall>r \<in> set (mc_output st'). record_ok r)"
      by (rule Cons.IH [OF kept(4)]) (use ok [OF kept(1,2)] Cons.prems in auto)
    with ok [OF kept(1,2)] kept(5) show ?thesis by simp
  qed
qed

lemma intake_inv:
  assumes "merge_inv st"
  shows "merge_inv (merge_intake cfg g a0 st)"
proof -
  have leg: "merge_inv (take_leg g a0 l s)" if "merge_inv s" for l and s :: "'a merge_container"
    using that by (auto simp: merge_inv_def take_leg_def Let_def record_ok_new intro: legs_ok_set)
  have link: "merge_inv (take_link g l s)" if "merge_inv s" for l and s :: "'a merge_container"
    using that by (simp add: merge_inv_def take_link_links links_ok_push)
  have legs: "merge_inv (fold (take_leg g a0) ls s)" if "merge_inv s" for ls and s :: "'a merge_container"
    using that by (induction ls arbitrary: s) (auto simp: leg)
  have links: "merge_inv (fold (take_link g) ls s)" if "merge_inv s" for ls and s :: "'a merge_container"
    using that by (induction ls arbitrary: s) (auto simp: link)
  show ?thesis
    unfolding merge_intake_def by (intro links legs) (use assms in \<open>simp add: merge_inv_def\<close>)
qed

lemma control_readers_inv: "merge_inv st \<Longrightarrow> merge_inv (control_readers cfg st)"
  by (auto simp: merge_inv_def control_readers_def)

lemma merge_pass_inv:
  assumes "merge_inv st"
  shows "merge_inv (merge_pass cfg g a0 lt lk st)"
proof -
  let ?m = "merge_intake cfg g a0 st" and ?save = "recordSaveTime cfg (merge_intake cfg g a0 st)"
  obtain kept w where w: "sweep cfg ?save lt 0 (mc_data ?m) (control_readers cfg ?m) = (kept, w)"
    by fastforce
  have m: "merge_inv (control_readers cfg ?m)" using assms by (intro control_readers_inv intake_inv)
  then have "legs_ok (mc_legs w) \<and> links_ok (mc_links w) \<and> (\<forall>r \<in> set kept. record_ok r) \<and>
      (\<forall>r \<in> set (mc_output w). record_ok r)"
    by (intro sweep_ok [OF w]) (auto simp: merge_inv_def)
  moreover have "\<not> (mc_leg_paused w \<and> mc_link_paused w)"
    using sweep_keeps [OF w] m by (simp add: merge_inv_def)
  ultimately show ?thesis
    using assms by (auto simp: merge_pass_eq w Let_def merge_inv_def drop_legs_def drop_links_def)
qed

section \<open>The sweep, exactly\<close>

definition record_id :: "'j call_record \<Rightarrow> string \<times> int" where
  "record_id r = (cr_orig r, cr_startTime r)"

definition id_retires :: "merge_settings \<Rightarrow> int \<Rightarrow> (nat \<Rightarrow> int) \<Rightarrow> nat \<times> (string \<times> int) \<Rightarrow> bool" where
  "id_retires cfg save lt p \<longleftrightarrow>
     snd (snd p) < save \<and> lt (fst p) > snd (snd p) + ms_max_call_time cfg"

lemma sweep_ids:
  "sweep cfg save lt n rs st = (kept, st') \<Longrightarrow>
   map record_id kept = map snd (filter (\<lambda>p. \<not> id_retires cfg save lt p) (enumerate n (map record_id rs))) \<and>
   map record_id (mc_output st') = map record_id (mc_output st) @
     map snd (filter (id_retires cfg save lt) (enumerate n (map record_id rs)))"
proof (induction rs arbitrary: n st kept)
  case Nil
  then show ?case by simp
next
  case (Cons r rs)
  have id: "record_id r2 = record_id r" "retires cfg save (lt n) r2 = id_retires cfg save lt (n, record_id r)"
    if "attach_links r (mc_links st) = (r1, links)" "attach_legs r1 (mc_legs st) = (r2, legs)"
    for r1 links r2 legs
    using attach_keeps(1) [OF that(1)] attach_keeps(2) [OF that(2)]
    by (simp_all add: record_id_def retires_def id_retires_def)
  from Cons.prems show ?case
  proof (cases rule: sweep_ConsE)
    case (retired r1 links r2 legs)
    with Cons.IH [OF retired(4)] id [OF retired(1,2)] show ?thesis by simp
  next
    case (kept r1 links r2 legs ks)
    with Cons.IH [OF kept(4)] id [OF kept(1,2)] show ?thesis by simp
  qed
qed

text \<open>What the maps lose during a sweep they have lost to a record; nothing is added to them.\<close>

lemma attach_leg_loop_erases:
  "attach_leg_loop ls own legs = (own', legs') \<Longrightarrow>
   (\<forall>k. map_of legs k = None \<longrightarrow> map_of legs' k = None) \<and>
   (\<forall>l \<in> set ls. map_of legs' (cll_uniqueid_term l) = None)"
proof (induction ls own legs arbitrary: own' legs' rule: attach_leg_loop.induct)
  case (1 own legs)
  then show ?case by simp
next
  case (2 link ls own legs)
  then show ?case by (cases "map_of legs (cll_uniqueid_term link)") auto
qed

lemma attach_links_erases:
  "attach_links r links = (r', links') \<Longrightarrow>
   (\<forall>k. map_of links k = None \<longrightarrow> map_of links' k = None) \<and> map_of links' (cr_orig r) = None"
  by (auto simp: attach_links_cases)

lemma attach_legs_erases:
  "attach_legs r legs = (r', legs') \<Longrightarrow>
   (\<forall>k. map_of legs k = None \<longrightarrow> map_of legs' k = None) \<and>
   (\<forall>l \<in> set (cr_links r'). map_of legs' (cll_uniqueid_term l) = None)"
  using attach_leg_loop_erases [of "cr_links r" "cr_legs r" legs]
  by (auto simp: attach_legs_def split: prod.splits)

lemma sweep_mono:
  "sweep cfg save lt n rs st = (kept, st') \<Longrightarrow>
   (\<forall>k. map_of (mc_legs st) k = None \<longrightarrow> map_of (mc_legs st') k = None) \<and>
   (\<forall>k. map_of (mc_links st) k = None \<longrightarrow> map_of (mc_links st') k = None)"
proof (induction rs arbitrary: n st kept)
  case Nil
  then show ?case by simp
next
  case (Cons r rs)
  from Cons.prems show ?case
  proof (cases rule: sweep_ConsE)
    case (retired r1 links r2 legs)
    from Cons.IH [OF retired(4)] attach_links_erases [OF retired(1)] attach_legs_erases [OF retired(2)]
    show ?thesis by simp
  next
    case (kept r1 links r2 legs ks)
    from Cons.IH [OF kept(4)] attach_links_erases [OF kept(1)] attach_legs_erases [OF kept(2)]
    show ?thesis by simp
  qed
qed

lemma sweep_attached:
  "sweep cfg save lt n rs st = (kept, st') \<Longrightarrow> r \<in> set kept \<Longrightarrow>
   map_of (mc_links st') (cr_orig r) = None \<and>
   (\<forall>l \<in> set (cr_links r). map_of (mc_legs st') (cll_uniqueid_term l) = None)"
proof (induction rs arbitrary: n st kept)
  case Nil
  then show ?case by simp
next
  case (Cons r0 rs)
  from Cons.prems(1) show ?case
  proof (cases rule: sweep_ConsE)
    case (retired r1 links r2 legs)
    with Cons show ?thesis by blast
  next
    case (kept r1 links r2 legs ks)
    have "map_of links (cr_orig r2) = None"
      using attach_links_erases [OF kept(1)] attach_keeps(1) [OF kept(1)] attach_keeps(2) [OF kept(2)] by simp
    then have "map_of (mc_links st') (cr_orig r2) = None \<and>
        (\<forall>l \<in> set (cr_links r2). map_of (mc_legs st') (cll_uniqueid_term l) = None)"
      using sweep_mono [OF kept(4)] attach_legs_erases [OF kept(2)] by simp
    then show ?thesis using Cons.IH [OF kept(4)] Cons.prems(2) kept(5) by auto
  qed
qed

section \<open>Conservation\<close>

definition record_links :: "'j call_record list \<Rightarrow> 'j call_leg_link multiset" where
  "record_links rs = mset (concat (map cr_links rs))"

definition state_links :: "'j merge_container \<Rightarrow> 'j call_leg_link multiset" where
  "state_links st = mset (bucket_items (mc_links st)) + record_links (mc_data st)
     + record_links (mc_output st) + mset (mc_queueLink st)"

definition state_origs :: "'j merge_container \<Rightarrow> string multiset" where
  "state_origs st = mset (map cr_orig (mc_data st)) + mset (map cr_orig (mc_output st))
     + mset (map cl_uniqueid (filter cl_orig (mc_queueLeg st)))"

lemma record_links_simps [simp]:
  "record_links [] = {#}"
  "record_links (r # rs) = mset (cr_links r) + record_links rs"
  "record_links (rs @ qs) = record_links rs + record_links qs"
  by (simp_all add: record_links_def)

lemma attach_links_mset:
  assumes "sm_ok links" "attach_links r links = (r', links')"
  shows "mset (cr_links r') + mset (bucket_items links') = mset (cr_links r) + mset (bucket_items links)"
  using assms bucket_items_erase [OF assms(1), of "cr_orig r"]
  by (cases "map_of links (cr_orig r)") (auto simp: attach_links_cases sm_bucket_def sm_erase_fresh)

lemma attach_links_sm_ok: "sm_ok links \<Longrightarrow> attach_links r links = (r', links') \<Longrightarrow> sm_ok links'"
  by (auto simp: attach_links_cases)

lemma sweep_links:
  "sweep cfg save lt n rs st = (kept, st') \<Longrightarrow> sm_ok (mc_links st) \<Longrightarrow>
   mset (bucket_items (mc_links st')) + record_links kept + record_links (mc_output st')
     = mset (bucket_items (mc_links st)) + record_links rs + record_links (mc_output st)"
proof (induction rs arbitrary: n st kept)
  case Nil
  then show ?case by simp
next
  case (Cons r rs)
  have eq: "mset (cr_links r2) + mset (bucket_items links) = mset (cr_links r) + mset (bucket_items (mc_links st))"
    "sm_ok links"
    if "attach_links r (mc_links st) = (r1, links)" "attach_legs r1 (mc_legs st) = (r2, legs)"
    for r1 links r2 legs
    using attach_links_mset [OF Cons.prems(2) that(1)] attach_keeps(2) [OF that(2)]
      attach_links_sm_ok [OF Cons.prems(2) that(1)] by simp_all
  from Cons.prems(1) show ?case
  proof (cases rule: sweep_ConsE)
    case (retired r1 links r2 legs)
    with Cons.IH [OF retired(4)] eq [OF retired(1,2)] show ?thesis
      by (simp add: ac_simps)
  next
    case (kept r1 links r2 legs ks)
    with Cons.IH [OF kept(4)] eq [OF kept(1,2)] show ?thesis
      by (simp add: ac_simps) (metis (no_types, lifting) add.assoc add.commute)
  qed
qed

lemma fold_take_leg_keeps [simp]:
  "mc_links (fold (take_leg g a0) legs st) = mc_links st"
  "mc_queueLeg (fold (take_leg g a0) legs st) = mc_queueLeg st"
  "mc_queueLink (fold (take_leg g a0) legs st) = mc_queueLink st"
  "mc_output (fold (take_leg g a0) legs st) = mc_output st"
  "mc_maxLinkTime (fold (take_leg g a0) legs st) = mc_maxLinkTime st"
  by (induction legs arbitrary: st) simp_all

lemma fold_take_link_keeps [simp]:
  "mc_data (fold (take_link g) links st) = mc_data st"
  "mc_legs (fold (take_link g) links st) = mc_legs st"
  "mc_queueLeg (fold (take_link g) links st) = mc_queueLeg st"
  "mc_queueLink (fold (take_link g) links st) = mc_queueLink st"
  "mc_output (fold (take_link g) links st) = mc_output st"
  "mc_maxLegTime (fold (take_link g) links st) = mc_maxLegTime st"
  by (induction links arbitrary: st) simp_all

lemma fold_take_leg_data:
  "mc_data (fold (take_leg g a0) legs st) = mc_data st @
     map (\<lambda>l. new_call_record a0 l (stamp_of g (cl_start_time l))) (filter cl_orig legs)"
  by (induction legs arbitrary: st) (simp_all add: take_leg_def Let_def)

lemma fold_take_link_links:
  "mc_links (fold (take_link g) links st) =
     fold (\<lambda>l. sm_push (cll_uniqueid_orig l) l) links (mc_links st)"
  by (induction links arbitrary: st) (simp_all add: take_link_links)

lemma record_links_new: "record_links (map (\<lambda>l. new_call_record a0 l (t l)) ls) = {#}"
  by (induction ls) (simp_all add: new_call_record_def)

lemma intake_links:
  "sm_ok (mc_links st) \<Longrightarrow> state_links (merge_intake cfg g a0 st) = state_links st"
proof -
  let ?n = "ms_max_queue_size cfg"
  assume "sm_ok (mc_links st)"
  then have "mset (bucket_items (mc_links (merge_intake cfg g a0 st)))
      = mset (take ?n (mc_queueLink st)) + mset (bucket_items (mc_links st))"
    by (simp add: merge_intake_def fold_take_link_links bucket_items_push_all)
  moreover have "mset (take ?n (mc_queueLink st)) + mset (drop ?n (mc_queueLink st)) = mset (mc_queueLink st)"
    by (metis append_take_drop_id mset_append)
  moreover have "record_links (mc_data (merge_intake cfg g a0 st)) = record_links (mc_data st)"
    by (simp add: merge_intake_def fold_take_leg_data record_links_new)
  moreover have "mc_queueLink (merge_intake cfg g a0 st) = drop ?n (mc_queueLink st)"
    "mc_output (merge_intake cfg g a0 st) = mc_output st"
    by (simp_all add: merge_intake_def)
  ultimately show ?thesis by (simp add: state_links_def ac_simps)
qed

lemma mset_filter_orig_split:
  "mset (map cl_uniqueid (filter cl_orig (take n q))) + mset (map cl_uniqueid (filter cl_orig (drop n q)))
     = mset (map cl_uniqueid (filter cl_orig q))"
  by (metis append_take_drop_id filter_append map_append mset_append)

lemma intake_origs: "state_origs (merge_intake cfg g a0 st) = state_origs st"
proof -
  have "mset (map cr_orig (mc_data (merge_intake cfg g a0 st))) = mset (map cr_orig (mc_data st))
      + mset (map cl_uniqueid (filter cl_orig (take (ms_max_queue_size cfg) (mc_queueLeg st))))"
    by (simp add: merge_intake_def fold_take_leg_data new_call_record_def comp_def)
  moreover have "mc_queueLeg (merge_intake cfg g a0 st) = drop (ms_max_queue_size cfg) (mc_queueLeg st)"
    "mc_output (merge_intake cfg g a0 st) = mc_output st"
    by (simp_all add: merge_intake_def)
  ultimately show ?thesis
    using mset_filter_orig_split [of "ms_max_queue_size cfg" "mc_queueLeg st"]
    by (simp add: state_origs_def ac_simps)
qed

lemma map_snd_enumerate_split:
  "mset (map f (map snd (filter (\<lambda>p. \<not> P p) (enumerate n xs)))) + mset (map f (map snd (filter P (enumerate n xs))))
     = mset (map f xs)"
proof -
  have "mset (map snd (filter (\<lambda>p. \<not> P p) (enumerate n xs))) + mset (map snd (filter P (enumerate n xs))) = mset xs"
    by (induction xs arbitrary: n) auto
  then have "image_mset f (mset (map snd (filter (\<lambda>p. \<not> P p) (enumerate n xs)))
      + mset (map snd (filter P (enumerate n xs)))) = image_mset f (mset xs)" by (rule arg_cong)
  then show ?thesis by (simp only: image_mset_union mset_map)
qed

lemma cr_orig_ids: "map cr_orig rs = map fst (map record_id rs)"
  by (simp add: record_id_def comp_def)

lemma sweep_origs:
  assumes "sweep cfg save lt n rs st = (kept, st')"
  shows "mset (map cr_orig kept) + mset (map cr_orig (mc_output st'))
    = mset (map cr_orig rs) + mset (map cr_orig (mc_output st))"
  using sweep_ids [OF assms]
    map_snd_enumerate_split [of fst "id_retires cfg save lt" n "map record_id rs"]
  unfolding cr_orig_ids by (simp only: map_append mset_append) (simp only: ac_simps)

lemma filter_map_of_None: "map_of m k = None \<Longrightarrow> map_of (filter P m) k = None"
  by (auto simp: map_of_eq_None_iff)

section \<open>Time stamps and readers\<close>

lemma fold_take_leg_max:
  "mc_maxLegTime (fold (take_leg g a0) legs st)
     = fold max (map (\<lambda>l. stamp_of g (cl_start_time l)) legs) (mc_maxLegTime st)"
  by (induction legs arbitrary: st) (simp_all add: take_leg_def Let_def max_def)

lemma fold_take_link_max:
  "mc_maxLinkTime (fold (take_link g) links st)
     = fold max (map (\<lambda>l. stamp_of g (cll_link_start_time l)) links) (mc_maxLinkTime st)"
  by (induction links arbitrary: st) (simp_all add: take_link_def Let_def max_def)

lemma fold_paused:
  "mc_leg_paused (fold (take_leg g a0) legs st) = mc_leg_paused st"
  "mc_link_paused (fold (take_leg g a0) legs st) = mc_link_paused st"
  "mc_leg_paused (fold (take_link g) links st) = mc_leg_paused st"
  "mc_link_paused (fold (take_link g) links st) = mc_link_paused st"
  by (induction legs arbitrary: st, simp_all) (induction links arbitrary: st, simp_all)+

lemma merge_pass_work:
  assumes "\<not> merge_idle cfg st"
  obtains kept w where
    "sweep cfg (recordSaveTime cfg (merge_intake cfg g a0 st)) lt 0 (mc_data (merge_intake cfg g a0 st))
       (control_readers cfg (merge_intake cfg g a0 st)) = (kept, w)"
    "merge_pass cfg g a0 lt lk st = w\<lparr>mc_data := kept,
       mc_legs := drop_legs cfg g (recordSaveTime cfg (merge_intake cfg g a0 st)) lk (mc_legs w),
       mc_links := drop_links g (recordSaveTime cfg (merge_intake cfg g a0 st)) (mc_links w)\<rparr>"
proof -
  obtain kept w where w: "sweep cfg (recordSaveTime cfg (merge_intake cfg g a0 st)) lt 0
      (mc_data (merge_intake cfg g a0 st)) (control_readers cfg (merge_intake cfg g a0 st)) = (kept, w)"
    by (meson surj_pair)
  show thesis by (rule that [OF w]) (simp add: merge_pass_eq assms Let_def w)
qed

lemma drop_links_split:
  "mset (bucket_items (drop_links g save links))
     + mset (bucket_items (filter (\<lambda>(k, ls). stamp_of g (cll_link_start_time (hd ls)) < save) links))
   = mset (bucket_items links)"
  by (induction links) (auto simp: drop_links_def bucket_items_def)

lemma merge_init_inv: "merge_inv (merge_init start)"
  by (simp add: merge_inv_def merge_init_def legs_ok_def links_ok_def)

lemma merge_step_inv:
  assumes "merge_step cfg st st'" "merge_inv st"
  shows "merge_inv st'"
  using assms(1)
proof cases
  case (pass g a0 lt lk)
  with assms(2) show ?thesis by (simp add: merge_pass_inv)
qed (use assms(2) in \<open>auto simp: merge_inv_def dest: in_set_dropD\<close>)

text \<open>Example states: one originating leg, its link and the leg it leads to.\<close>

definition ex_leg :: "string \<Rightarrow> bool \<Rightarrow> string \<Rightarrow> call_leg" where
  "ex_leg uid orig start = call_leg_default\<lparr>cl_uniqueid := uid, cl_orig := orig, cl_start_time := start\<rparr>"

definition ex_link :: "string \<Rightarrow> string \<Rightarrow> string \<Rightarrow> unit call_leg_link" where
  "ex_link orig term start =
     \<lparr>cll_id = 1, cll_server_id = 1, cll_uniqueid_orig = orig, cll_channame_orig = [],
      cll_uniqueid_term = term, cll_channame_term = [], cll_link_start_time = start,
      cll_link_answer_time = [], cll_link_end_time = [], cll_rec_filename = [], cll_status = [],
      cll_bridged = True, cll_cf = [], cll_trf_by = [], cll_queue_callid = [], cll_object_type = [],
      cll_object_data = ()\<rparr>"

definition ex_cfg :: merge_settings where
  "ex_cfg = \<lparr>ms_max_call_time = 14400, ms_max_queue_size = 10\<rparr>"

definition ex_state :: "unit merge_container" where
  "ex_state = (merge_init 0)\<lparr>
     mc_queueLeg := [ex_leg ''a'' True ''1970-01-02 00:00:00'', ex_leg ''b'' False ''1970-01-02 00:00:01''],
     mc_queueLink := [ex_link ''a'' ''b'' ''1970-01-02 00:00:01'']\<rparr>"

lemma ex_not_idle: "\<not> merge_idle ex_cfg ex_state"
  by (simp add: merge_idle_def ex_state_def ex_cfg_def)

lemma ex_state_inv: "merge_inv ex_state"
  using merge_init_inv by (simp add: merge_inv_def ex_state_def)

text \<open>A state in which a record waits for its link and for the leg the link leads to.\<close>

definition ex_wait :: "unit merge_container" where
  "ex_wait = (merge_init 0)\<lparr>
     mc_data := [new_call_record call_leg_default (ex_leg ''a'' True ''x'') 86400],
     mc_links := [(''a'', [ex_link ''a'' ''b'' ''x''])],
     mc_legs := [(''b'', ex_leg ''b'' False ''x'')],
     mc_queueLeg := [ex_leg ''c'' False ''x'']\<rparr>"

lemma ex_wait_pass:
  "\<not> merge_idle ex_cfg ex_wait"
  "\<exists>r \<in> set (mc_data (merge_pass ex_cfg g a0 (\<lambda>n. 0) (\<lambda>k. 0) ex_wait)).
     cr_orig r = ''a'' \<and> cr_links r = [ex_link ''a'' ''b'' ''x'']"
proof -
  show n: "\<not> merge_idle ex_cfg ex_wait"
    by (simp add: merge_idle_def ex_wait_def ex_cfg_def)
  have d: "mc_data (merge_intake ex_cfg g a0 ex_wait) = mc_data ex_wait"
    "mc_links (merge_intake ex_cfg g a0 ex_wait) = mc_links ex_wait"
    by (simp_all add: merge_intake_def fold_take_leg_data fold_take_link_links ex_wait_def ex_cfg_def
        ex_leg_def merge_init_def take_leg_def Let_def)
  let ?m = "merge_intake ex_cfg g a0 ex_wait"
  obtain kept w where w: "sweep ex_cfg (recordSaveTime ex_cfg ?m) (\<lambda>n. 0) 0 (mc_data ?m) (control_readers ex_cfg ?m) = (kept, w)"
    "mc_data (merge_pass ex_cfg g a0 (\<lambda>n. 0) (\<lambda>k. 0) ex_wait) = kept"
    by (rule merge_pass_work [OF n, of g a0 "\<lambda>n. 0" "\<lambda>k. 0"]) simp
  have r: "mc_data ex_wait = [new_call_record call_leg_default (ex_leg ''a'' True ''x'') 86400]"
    "mc_links ex_wait = [(''a'', [ex_link ''a'' ''b'' ''x''])]"
    by (simp_all add: ex_wait_def)
  from w(1) [unfolded d(1) r] show "\<exists>r \<in> set (mc_data (merge_pass ex_cfg g a0 (\<lambda>n. 0) (\<lambda>k. 0) ex_wait)).
     cr_orig r = ''a'' \<and> cr_links r = [ex_link ''a'' ''b'' ''x'']"
  proof (cases rule: sweep_ConsE)
    case (retired r1 links r2 legs)
    then have "cr_startTime r2 = 86400"
      using attach_keeps(1) [OF retired(1)] attach_keeps(2) [OF retired(2)] by (simp add: new_call_record_def)
    with retired(3) show ?thesis by (simp add: retires_def ex_cfg_def)
  next
    case (kept r1 links r2 legs ks)
    then show ?thesis
      using attach_keeps(1) [OF kept(1)] attach_keeps(2) [OF kept(2)] w(2) kept(1)
      by (auto simp: new_call_record_def ex_leg_def attach_links_def d r)
  qed
qed

text \<open>What a pass does to the originating ids and to the links, wherever they wait.\<close>

lemma merge_pass_origs:
  "state_origs (merge_pass cfg g a0 lt lk st) = state_origs st"
proof (cases "merge_idle cfg st")
  case True
  then show ?thesis by (simp add: merge_pass_eq)
next
  case False
  obtain kept w where w: "sweep cfg (recordSaveTime cfg (merge_intake cfg g a0 st)) lt 0
      (mc_data (merge_intake cfg g a0 st)) (control_readers cfg (merge_intake cfg g a0 st)) = (kept, w)"
    "merge_pass cfg g a0 lt lk st = w\<lparr>mc_data := kept,
       mc_legs := drop_legs cfg g (recordSaveTime cfg (merge_intake cfg g a0 st)) lk (mc_legs w),
       mc_links := drop_links g (recordSaveTime cfg (merge_intake cfg g a0 st)) (mc_links w)\<rparr>"
    by (rule merge_pass_work [OF False])
  have "state_origs (merge_pass cfg g a0 lt lk st) = state_origs (merge_intake cfg g a0 st)"
    unfolding w(2) state_origs_def using sweep_origs [OF w(1)] sweep_keeps [OF w(1)] by simp
  then show ?thesis by (simp only: intake_origs)
qed

lemma merge_pass_links:
  assumes "merge_inv st"
  shows "\<exists>lost. state_links (merge_pass cfg g a0 lt lk st) + mset (bucket_items lost) = state_links st \<and>
    (\<forall>(k, ls) \<in> set lost.
       stamp_of g (cll_link_start_time (hd ls)) < recordSaveTime cfg (merge_intake cfg g a0 st) \<and>
       k \<notin> cr_orig ` set (mc_data (merge_pass cfg g a0 lt lk st)))"
proof (cases "merge_idle cfg st")
  case True
  then show ?thesis by (intro exI [of _ "[]"]) (simp add: merge_pass_eq bucket_items_def)
next
  case False
  let ?m = "merge_intake cfg g a0 st" and ?save = "recordSaveTime cfg (merge_intake cfg g a0 st)"
  obtain kept w where w: "sweep cfg ?save lt 0 (mc_data ?m) (control_readers cfg ?m) = (kept, w)"
    "merge_pass cfg g a0 lt lk st = w\<lparr>mc_data := kept, mc_legs := drop_legs cfg g ?save lk (mc_legs w),
       mc_links := drop_links g ?save (mc_links w)\<rparr>"
    by (rule merge_pass_work [OF False])
  let ?old = "\<lambda>(k, ls). stamp_of g (cll_link_start_time (hd ls)) < ?save"
  let ?lost = "filter ?old (mc_links w)"
  have m: "sm_ok (mc_links st)" "sm_ok (mc_links (control_readers cfg ?m))"
    using assms intake_inv [OF assms, of cfg g a0] by (simp_all add: merge_inv_def links_ok_def)
  have fresh: "k \<notin> cr_orig ` set kept" if "(k, ls) \<in> set (mc_links w)" for k ls
    using sweep_attached [OF w(1)] that by (force simp: map_of_eq_None_iff)
  have "mset (bucket_items (drop_links g ?save (mc_links w))) + mset (bucket_items ?lost)
      = mset (bucket_items (mc_links w))"
    by (rule drop_links_split)
  then have "state_links (merge_pass cfg g a0 lt lk st) + mset (bucket_items ?lost) = state_links ?m"
    unfolding w(2) state_links_def
    using sweep_links [OF w(1) m(2)] sweep_keeps [OF w(1)] by (simp add: ac_simps)
  with fresh show ?thesis
    unfolding intake_links [OF m(1)] w(2) by (intro exI [of _ ?lost]) auto
qed

section \<open>Properties\<close>

text \<open>
  C8 (invariant): in every state the merge thread can reach, with the readers and the consumer
  interleaved in any order, the maps are keyed by the unique ids of what they hold, no bucket
  of links is empty (so \<open>front()\<close> is defined), only terminating legs wait in \<open>legs_\<close>, every
  record holds its originating leg and otherwise only legs that one of its own links names,
  all its links start at it, and the two readers are never paused together.
\<close>

theorem merge_reachable_inv:
  assumes "merge_reachable cfg st"
  shows "merge_inv st"
  using assms by (induction rule: merge_reachable.induct) (auto intro: merge_init_inv merge_step_inv)

theorem merge_reachable_inv_witness:
  "merge_inv ((merge_init 5 :: unit merge_container)\<lparr>mc_queueLeg := [ex_leg ''a'' True ''x'']\<rparr>)"
proof (rule merge_reachable_inv)
  have "merge_step ex_cfg (merge_init 5 :: unit merge_container)
      ((merge_init 5)\<lparr>mc_queueLeg := mc_queueLeg (merge_init 5 :: unit merge_container) @ [ex_leg ''a'' True ''x'']\<rparr>)"
    by (rule merge_step.leg_read)
  then show "merge_reachable ex_cfg ((merge_init 5 :: unit merge_container)\<lparr>mc_queueLeg := [ex_leg ''a'' True ''x'']\<rparr>)"
    using merge_reachable.step [OF merge_reachable.start] by (simp add: merge_init_def)
qed

text \<open>
  C9 (safety): a pass neither loses nor duplicates a call. Counting the records being merged,
  the records handed to the output and the originating legs still in the queue, the
  originating ids are the same before and after.
\<close>

theorem merge_pass_conserves_calls:
  "state_origs (merge_pass cfg g a0 lt lk st) = state_origs st"
  by (rule merge_pass_origs)

text \<open>
  C11 (functional): which records a pass retires, exactly. With the originating ids and start
  times of the records at hand after the intake, in arrival order, the n-th goes to the output
  iff it started before the save time and the link reader has passed its start by more than
  the longest call; the others stay. Both keep their order.
\<close>

theorem merge_pass_retires_exactly:
  assumes "\<not> merge_idle cfg st"
  shows "let m = merge_intake cfg g a0 st;
             ids = enumerate 0 (map record_id (mc_data m));
             out = id_retires cfg (recordSaveTime cfg m) lt;
             st' = merge_pass cfg g a0 lt lk st
         in map record_id (mc_data st') = map snd (filter (\<lambda>p. \<not> out p) ids) \<and>
            map record_id (mc_output st') = map record_id (mc_output st) @ map snd (filter out ids)"
proof -
  obtain kept w where w: "sweep cfg (recordSaveTime cfg (merge_intake cfg g a0 st)) lt 0
      (mc_data (merge_intake cfg g a0 st)) (control_readers cfg (merge_intake cfg g a0 st)) = (kept, w)"
    "merge_pass cfg g a0 lt lk st = w\<lparr>mc_data := kept,
       mc_legs := drop_legs cfg g (recordSaveTime cfg (merge_intake cfg g a0 st)) lk (mc_legs w),
       mc_links := drop_links g (recordSaveTime cfg (merge_intake cfg g a0 st)) (mc_links w)\<rparr>"
    by (rule merge_pass_work [OF assms])
  have "mc_output (merge_intake cfg g a0 st) = mc_output st" by (simp add: merge_intake_def)
  then show ?thesis unfolding Let_def w(2) using sweep_ids [OF w(1)] by simp
qed

theorem merge_pass_retires_exactly_witness:
  "let m = merge_intake ex_cfg (gmtime 0) call_leg_default ex_state;
       ids = enumerate 0 (map record_id (mc_data m));
       out = id_retires ex_cfg (recordSaveTime ex_cfg m) (\<lambda>n. 900000);
       st' = merge_pass ex_cfg (gmtime 0) call_leg_default (\<lambda>n. 900000) (\<lambda>k. 0) ex_state
   in map record_id (mc_data st') = map snd (filter (\<lambda>p. \<not> out p) ids) \<and>
      map record_id (mc_output st') = map record_id (mc_output ex_state) @ map snd (filter out ids)"
  by (rule merge_pass_retires_exactly [OF ex_not_idle])

text \<open>
  The attaching is complete. After a pass that found data, no link that starts
  at a record still being merged waits in \<open>links_\<close>, and no leg that one of its links leads to
  waits in \<open>legs_\<close>.
\<close>

theorem merge_pass_attaches_all:
  assumes "\<not> merge_idle cfg st" "r \<in> set (mc_data (merge_pass cfg g a0 lt lk st))"
  shows "map_of (mc_links (merge_pass cfg g a0 lt lk st)) (cr_orig r) = None \<and>
    (\<forall>l \<in> set (cr_links r). map_of (mc_legs (merge_pass cfg g a0 lt lk st)) (cll_uniqueid_term l) = None)"
proof -
  obtain kept w where w: "sweep cfg (recordSaveTime cfg (merge_intake cfg g a0 st)) lt 0
      (mc_data (merge_intake cfg g a0 st)) (control_readers cfg (merge_intake cfg g a0 st)) = (kept, w)"
    "merge_pass cfg g a0 lt lk st = w\<lparr>mc_data := kept,
       mc_legs := drop_legs cfg g (recordSaveTime cfg (merge_intake cfg g a0 st)) lk (mc_legs w),
       mc_links := drop_links g (recordSaveTime cfg (merge_intake cfg g a0 st)) (mc_links w)\<rparr>"
    by (rule merge_pass_work [OF assms(1)])
  then show ?thesis
    using sweep_attached [OF w(1), of r] assms(2)
    by (auto simp: drop_links_def drop_legs_def intro: filter_map_of_None)
qed

theorem merge_pass_attaches_all_witness:
  "\<exists>r \<in> set (mc_data (merge_pass ex_cfg (gmtime 0) call_leg_default (\<lambda>n. 0) (\<lambda>k. 0) ex_wait)).
     cr_links r = [ex_link ''a'' ''b'' ''x''] \<and>
     map_of (mc_links (merge_pass ex_cfg (gmtime 0) call_leg_default (\<lambda>n. 0) (\<lambda>k. 0) ex_wait)) ''a'' = None \<and>
     map_of (mc_legs (merge_pass ex_cfg (gmtime 0) call_leg_default (\<lambda>n. 0) (\<lambda>k. 0) ex_wait)) ''b'' = None"
proof -
  obtain r where r: "r \<in> set (mc_data (merge_pass ex_cfg (gmtime 0) call_leg_default (\<lambda>n. 0) (\<lambda>k. 0) ex_wait))"
    "cr_orig r = ''a''" "cr_links r = [ex_link ''a'' ''b'' ''x'']"
    using ex_wait_pass(2) by blast
  from merge_pass_attaches_all [OF ex_wait_pass(1) r(1)] r show ?thesis
    by (intro bexI [OF _ r(1)]) (simp add: ex_link_def)
qed

text \<open>
  C10 (safety): no link is lost while its call waits. A pass that starts in a good state keeps
  every link, in the queue, in \<open>links_\<close>, or in a record, except whole buckets whose first link
  is older than the save time, and none of those belongs to a record still being merged.
\<close>

theorem merge_pass_conserves_links:
  assumes "merge_inv st"
  shows "\<exists>lost. state_links (merge_pass cfg g a0 lt lk st) + mset (bucket_items lost) = state_links st \<and>
    (\<forall>(k, ls) \<in> set lost.
       stamp_of g (cll_link_start_time (hd ls)) < recordSaveTime cfg (merge_intake cfg g a0 st) \<and>
       k \<notin> cr_orig ` set (mc_data (merge_pass cfg g a0 lt lk st)))"
  using assms by (rule merge_pass_links)

theorem merge_pass_conserves_links_witness:
  "\<exists>lost. state_links (merge_pass ex_cfg (gmtime 0) call_leg_default (\<lambda>n. 0) (\<lambda>k. 0) ex_state)
       + mset (bucket_items lost) = state_links ex_state \<and>
    (\<forall>(k, ls) \<in> set lost.
       stamp_of (gmtime 0) (cll_link_start_time (hd ls))
         < recordSaveTime ex_cfg (merge_intake ex_cfg (gmtime 0) call_leg_default ex_state) \<and>
       k \<notin> cr_orig ` set (mc_data (merge_pass ex_cfg (gmtime 0) call_leg_default (\<lambda>n. 0) (\<lambda>k. 0) ex_state)))"
  by (rule merge_pass_conserves_links [OF ex_state_inv])

text \<open>
  Reader control. After a pass that found data, from a good state: when the two
  newest stamps are within twice the longest call, both readers run; when the leg reader is
  further ahead than that and no reader was held, exactly it is paused, and the same for the
  link reader; and the stamps never move back.
\<close>

theorem merge_pass_reader_control:
  assumes "\<not> merge_idle cfg st" "st' = merge_pass cfg g a0 lt lk st"
  shows "mc_maxLegTime st \<le> mc_maxLegTime st' \<and> mc_maxLinkTime st \<le> mc_maxLinkTime st' \<and>
    (\<bar>mc_maxLegTime st' - mc_maxLinkTime st'\<bar> \<le> uint32 (ms_max_call_time cfg * 2) \<longrightarrow>
       \<not> mc_leg_paused st' \<and> \<not> mc_link_paused st') \<and>
    (\<bar>mc_maxLegTime st' - mc_maxLinkTime st'\<bar> > uint32 (ms_max_call_time cfg * 2) \<and>
       \<not> mc_leg_paused st \<and> \<not> mc_link_paused st \<longrightarrow>
       mc_leg_paused st' = (mc_maxLegTime st' > mc_maxLinkTime st') \<and>
       mc_link_paused st' = (\<not> mc_maxLegTime st' > mc_maxLinkTime st'))"
proof -
  let ?m = "merge_intake cfg g a0 st"
  obtain kept w where w: "sweep cfg (recordSaveTime cfg ?m) lt 0 (mc_data ?m) (control_readers cfg ?m) = (kept, w)"
    "merge_pass cfg g a0 lt lk st = w\<lparr>mc_data := kept,
       mc_legs := drop_legs cfg g (recordSaveTime cfg ?m) lk (mc_legs w),
       mc_links := drop_links g (recordSaveTime cfg ?m) (mc_links w)\<rparr>"
    by (rule merge_pass_work [OF assms(1)])
  have f: "x \<le> fold max ys x" for x :: int and ys 
  proof (induction ys arbitrary: x)
    case (Cons y ys)
    from Cons [of "max y x"] show ?case by simp
  qed simp
  have "mc_maxLegTime st \<le> mc_maxLegTime ?m" "mc_maxLinkTime st \<le> mc_maxLinkTime ?m"
    by (simp_all add: merge_intake_def fold_take_leg_max fold_take_link_max f)
  moreover have "mc_leg_paused ?m = mc_leg_paused st" "mc_link_paused ?m = mc_link_paused st"
    by (simp_all add: merge_intake_def fold_paused)
  moreover have "mc_maxLegTime st' = mc_maxLegTime ?m" "mc_maxLinkTime st' = mc_maxLinkTime ?m"
    "mc_leg_paused st' = mc_leg_paused (control_readers cfg ?m)"
    "mc_link_paused st' = mc_link_paused (control_readers cfg ?m)"
    using sweep_keeps [OF w(1)] unfolding assms(2) w(2) by simp_all
  ultimately show ?thesis by (simp add: control_readers_def)
qed

theorem merge_pass_reader_control_witness:
  "let st' = merge_pass ex_cfg (gmtime 0) call_leg_default (\<lambda>n. 0) (\<lambda>k. 0) ex_state
   in mc_maxLegTime ex_state \<le> mc_maxLegTime st'"
  using merge_pass_reader_control [OF ex_not_idle refl] by (simp add: Let_def)

text \<open>
  The save time is computed in an \<open>int\<close>. Once the newest leg is later than the
  longest call after 2038-01-19, it wraps to a negative number, and no pass retires a record
  that started after 1970 any more, however far the link reader gets.
\<close>

theorem save_time_wraps_blocks_retirement:
  assumes "2 ^ 31 \<le> mc_maxLegTime st - ms_max_call_time cfg" "mc_maxLegTime st - ms_max_call_time cfg < 2 ^ 32"
    and "0 \<le> cr_startTime r"
  shows "\<not> retires cfg (recordSaveTime cfg st) lt r"
  using int32_wraps [OF assms(1,2)] assms by (simp add: retires_def recordSaveTime_def)

theorem save_time_wraps_blocks_retirement_witness:
  "\<not> retires ex_cfg (recordSaveTime ex_cfg ((merge_init 0 :: unit merge_container)\<lparr>mc_maxLegTime := 2200000000\<rparr>))
      5000000000 (new_call_record call_leg_default (ex_leg ''a'' True ''x'') 2100000000 :: unit call_record)"
  by (rule save_time_wraps_blocks_retirement) (simp_all add: ex_cfg_def new_call_record_def)

end
