(* ===== verification/Readers.thy ===== *)
theory Readers
  imports Merge_Container Db_Result
begin

text \<open>
  The two reader threads, \<open>src/service/ReadCallLeg.cpp\<close> and \<open>ReadCallLegLink.cpp\<close>, and their
  row decoders. A reader moves a window \<open>(startTime_, stopTime_]\<close> over the table; \<open>read_window\<close>
  is the part both classes have, extended by each. The source database is a parameter: for
  the step, \<open>exists_between a b\<close> is the probe \<open>select 1 ... time > a and time <= b limit 1\<close> and
  \<open>select_between a b\<close> the rows of the window query in its order. A busy wait that does not end
  yet is a step without effect.
\<close>

record read_settings =
  rs_read_threshold_second :: int
  rs_read_waiting_second :: int
  rs_max_call_time :: int

record read_window =
  rw_startTime :: int
  rw_stopTime :: int
  rw_paused :: bool

record leg_reader = read_window +
  lr_readId :: "(int \<times> int) list"

record link_reader = read_window +
  kr_waitLinkOrig :: string
  kr_waitLinkTerm :: string

definition leg_reader_new :: leg_reader where
  "leg_reader_new = \<lparr>rw_startTime = 0, rw_stopTime = 0, rw_paused = False, lr_readId = []\<rparr>"

definition link_reader_new :: link_reader where
  "link_reader_new =
     \<lparr>rw_startTime = 0, rw_stopTime = 0, rw_paused = False, kr_waitLinkOrig = [], kr_waitLinkTerm = []\<rparr>"

definition reader_pause :: "'r read_window_scheme \<Rightarrow> 'r read_window_scheme" where
  "reader_pause w = w\<lparr>rw_paused := True\<rparr>"

definition reader_resume :: "'r read_window_scheme \<Rightarrow> 'r read_window_scheme" where
  "reader_resume w = w\<lparr>rw_paused := False\<rparr>"

definition reader_getTime :: "'r read_window_scheme \<Rightarrow> int" where
  "reader_getTime w = rw_startTime w"

definition reader_setStart :: "read_settings \<Rightarrow> int \<Rightarrow> 'r read_window_scheme \<Rightarrow> 'r read_window_scheme" where
  "reader_setStart cfg stemp w =
     w\<lparr>rw_startTime := stemp, rw_stopTime := stemp + rs_read_threshold_second cfg\<rparr>"

text \<open>\<open>MergeContainer::setStart\<close> passes the start on to both of its readers.\<close>

definition container_setStart ::
  "read_settings \<Rightarrow> int \<Rightarrow> 'j merge_container \<times> leg_reader \<times> link_reader \<Rightarrow>
   'j merge_container \<times> leg_reader \<times> link_reader" where
  "container_setStart cfg start =
     (\<lambda>(st, legReader, linkReader).
        let st = setStart start st
        in (st, reader_setStart cfg (mc_maxLegTime st) legReader,
            reader_setStart cfg (mc_maxLinkTime st) linkReader))"

definition show_paused :: "bool \<Rightarrow> string" where
  "show_paused b = (if b then ''Yes'' else ''No'')"

definition reader_rows_html :: "nat \<Rightarrow> 'r read_window_scheme \<Rightarrow> string" where
  "reader_rows_html queue_size w =
     ''<tr><th>paused</th><th>'' @ show_paused (rw_paused w) @ ''</th></tr>''
     @ ''<tr><th>startTime</th><th>'' @ string_time (rw_startTime w) @ ''</th></tr>''
     @ ''<tr><th>stopTime</th><th>'' @ string_time (rw_stopTime w) @ ''</th></tr>''
     @ ''<tr><th>queue size</th><th>'' @ show_nat queue_size @ ''</th></tr>''"

definition leg_statusHtml :: "nat \<Rightarrow> leg_reader \<Rightarrow> string" where
  "leg_statusHtml queue_size w = ''<table border=1>'' @ reader_rows_html queue_size w @ ''</table>''"

definition link_statusHtml :: "nat \<Rightarrow> link_reader \<Rightarrow> string" where
  "link_statusHtml queue_size w =
     ''<table border=1>'' @ reader_rows_html queue_size w
     @ (if kr_waitLinkOrig w \<noteq> [] then ''<tr><th>wait uniqueId orig</th><th>'' @ kr_waitLinkOrig w @ ''</th></tr>'' else [])
     @ (if kr_waitLinkTerm w \<noteq> [] then ''<tr><th>wait uniqueId term</th><th>'' @ kr_waitLinkTerm w @ ''</th></tr>'' else [])
     @ ''</table>''"

text \<open>The container passes the pages on to its readers.\<close>

definition legStatusHtml :: "'j merge_container \<Rightarrow> leg_reader \<Rightarrow> string" where
  "legStatusHtml st legReader = leg_statusHtml (getLegQueueSize st) legReader"

definition linkStatusHtml :: "'j merge_container \<Rightarrow> link_reader \<Rightarrow> string" where
  "linkStatusHtml st linkReader = link_statusHtml (getLinkQueueSize st) linkReader"

section \<open>One round of \<open>run\<close>\<close>

text \<open>The probes and the window query of the leg reader, as texts; the link reader's differ in the names.\<close>

definition probe_statement :: "string \<Rightarrow> string \<Rightarrow> int \<Rightarrow> int \<Rightarrow> string" where
  "probe_statement table column a b =
     ''select 1 from '' @ table @ '' where '' @ column @ '' > TO_TIMESTAMP('' @ show_int a @ '') and ''
     @ column @ '' <= TO_TIMESTAMP('' @ show_int b @ '') limit 1''"

definition window_statement :: "string \<Rightarrow> string \<Rightarrow> string \<Rightarrow> int \<Rightarrow> int \<Rightarrow> string" where
  "window_statement table column order start stop =
     ''select * from '' @ table @ '' where '' @ column @ '' > TO_TIMESTAMP('' @ show_int start @ '') and ''
     @ column @ '' <= TO_TIMESTAMP('' @ show_int stop @ '') order by '' @ order"

definition leg_window_statement :: "int \<Rightarrow> int \<Rightarrow> string" where
  "leg_window_statement = window_statement ''call_leg'' ''start_time'' ''call_leg_id''"

definition link_window_statement :: "int \<Rightarrow> int \<Rightarrow> string" where
  "link_window_statement = window_statement ''call_leg_link'' ''link_start_time'' ''call_leg_link_id, server_id''"

text \<open>The conditions under which a round gets to the window query; \<open>now\<close> are the clock readings.\<close>

definition read_ready :: "read_settings \<Rightarrow> (int \<Rightarrow> int \<Rightarrow> bool) \<Rightarrow> int \<Rightarrow> int \<Rightarrow> 'r read_window_scheme \<Rightarrow> bool" where
  "read_ready cfg exists_between now1 now2 w \<longleftrightarrow>
     rw_stopTime w \<noteq> 0 \<and>
     \<not> rw_stopTime w > now1 - rs_read_threshold_second cfg \<and>
     exists_between (rw_stopTime w) (now2 - rs_read_waiting_second cfg) \<and>
     \<not> rw_paused w"

definition advance_window ::
  "read_settings \<Rightarrow> (int \<Rightarrow> int \<Rightarrow> bool) \<Rightarrow> int \<Rightarrow> 'r read_window_scheme \<Rightarrow> 'r read_window_scheme" where
  "advance_window cfg exists_between now3 w =
     (let w = w\<lparr>rw_startTime := rw_stopTime w\<rparr>
      in if exists_between (rw_stopTime w + rs_max_call_time cfg) (now3 - rs_read_waiting_second cfg)
         then w\<lparr>rw_stopTime := rw_stopTime w + rs_max_call_time cfg\<rparr>
         else w\<lparr>rw_stopTime := rw_stopTime w + rs_read_threshold_second cfg\<rparr>)"

text \<open>The rows a round reads and the reader after it.\<close>

definition read_round ::
  "read_settings \<Rightarrow> (int \<Rightarrow> int \<Rightarrow> bool) \<Rightarrow> (int \<Rightarrow> int \<Rightarrow> 'row list) \<Rightarrow> int \<Rightarrow> int \<Rightarrow> int \<Rightarrow>
   'r read_window_scheme \<Rightarrow> 'row list \<times> 'r read_window_scheme" where
  "read_round cfg exists_between select_between now1 now2 now3 w =
     (if \<not> read_ready cfg exists_between now1 now2 w then ([], w)
      else (select_between (rw_startTime w) (rw_stopTime w), advance_window cfg exists_between now3 w))"

section \<open>Row decoders\<close>

text \<open>
  A row is the text of its columns, as \<open>PQgetvalue\<close> gives it (\<open>NULL\<close> is the empty text); the
  getters are those of \<open>BDbResult\<close>.
\<close>

type_synonym db_row = "string \<Rightarrow> string"

definition row_s :: "db_row \<Rightarrow> string \<Rightarrow> string" where "row_s row c = c_str (row c)"
definition row_i :: "db_row \<Rightarrow> string \<Rightarrow> int" where "row_i row c = atoi (c_str (row c))"
definition row_ll :: "db_row \<Rightarrow> string \<Rightarrow> int" where "row_ll row c = atoll (c_str (row c))"
definition row_b :: "db_row \<Rightarrow> string \<Rightarrow> bool" where
  "row_b row c = (c_str (row c) \<noteq> [] \<and> hd (c_str (row c)) = CHR ''t'')"

lemma row_getters:
  assumes "br_res br = Some res" "\<And>c. pg_getvalue res (br_index br) c = Some (row c)"
  shows "br_get_s br c = Ok (row_s row c)" "br_get_i br c = Ok (row_i row c)"
    "br_get_ll br c = Ok (row_ll row c)" "br_get_b br c = Ok (row_b row c)"
proof -
  have "c_str (c_str s) = c_str s" for s by (rule c_str_id) (auto simp: c_str_def dest: set_takeWhileD)
  then show "br_get_s br c = Ok (row_s row c)" "br_get_i br c = Ok (row_i row c)"
    "br_get_ll br c = Ok (row_ll row c)" "br_get_b br c = Ok (row_b row c)"
    using assms
    by (simp_all add: br_get_s_def br_get_i_def br_get_ll_def br_get_b_def br_field_def
        row_s_def row_i_def row_ll_def row_b_def)
qed

definition decode_leg :: "db_row \<Rightarrow> call_leg" where
  "decode_leg row =
     \<lparr>cl_id = row_ll row ''call_leg_id'', cl_server_id = row_i row ''server_id'',
      cl_uniqueid = row_s row ''uniqueid'', cl_channame = row_s row ''channame'', cl_orig = row_b row ''orig'',
      cl_account_id = row_i row ''account_id'', cl_vpbx_id = row_i row ''vpbx_id'',
      cl_start_time = row_s row ''start_time'', cl_answer_time = row_s row ''answer_time'',
      cl_stop_time = row_s row ''stop_time'', cl_final_status = row_s row ''final_status'',
      cl_q931_status = row_i row ''q931_status'', cl_hangup_cause = row_s row ''hangup_cause'',
      cl_number = row_s row ''number'', cl_name = row_s row ''name'', cl_did = row_ll row ''did'',
      cl_did_type = row_s row ''did_type'', cl_object_type = row_s row ''object_type'',
      cl_object_id = row_i row ''object_id'', cl_sip_ip = row_s row ''sip_ip'',
      cl_last_linked_id = row_s row ''last_linked_id'', cl_sip_call_hash_id = row_s row ''sip_call_hash_id'',
      cl_call_id_md5 = row_s row ''call_id_md5'', cl_extra_info_id = row_s row ''extra_info_id''\<rparr>"

text \<open>\<open>parse_json\<close> is the value the JSON reader leaves for the text, valid or not.\<close>

definition decode_link :: "(string \<Rightarrow> 'j) \<Rightarrow> db_row \<Rightarrow> 'j call_leg_link" where
  "decode_link parse_json row =
     \<lparr>cll_id = row_ll row ''call_leg_link_id'', cll_server_id = row_i row ''server_id'',
      cll_uniqueid_orig = row_s row ''uniqueid_orig'', cll_channame_orig = row_s row ''channame_orig'',
      cll_uniqueid_term = row_s row ''uniqueid_term'', cll_channame_term = row_s row ''channame_term'',
      cll_link_start_time = row_s row ''link_start_time'', cll_link_answer_time = row_s row ''link_answer_time'',
      cll_link_end_time = row_s row ''link_end_time'', cll_rec_filename = row_s row ''rec_filename'',
      cll_status = row_s row ''status'', cll_bridged = row_b row ''bridged'', cll_cf = row_s row ''cf'',
      cll_trf_by = row_s row ''trf_by'', cll_queue_callid = row_s row ''queue_callid'',
      cll_object_type = row_s row ''object_type'', cll_object_data = parse_json (row_s row ''object_data'')\<rparr>"

text \<open>\<open>getSQLData\<close> of the leg reader: the rows in order, the last id per server remembered.\<close>

definition read_leg :: "db_row \<Rightarrow> leg_reader \<times> call_leg list \<Rightarrow> leg_reader \<times> call_leg list" where
  "read_leg row s = (case s of (rd, queue) \<Rightarrow>
     let leg = decode_leg row
     in (rd\<lparr>lr_readId := sm_set (cl_server_id leg) (int32 (cl_id leg)) (lr_readId rd)\<rparr>, queue @ [leg]))"

definition leg_getSQLData :: "db_row list \<Rightarrow> leg_reader \<times> call_leg list \<Rightarrow> (leg_reader \<times> call_leg list) \<times> nat" where
  "leg_getSQLData rows s = (fold read_leg rows s, length rows)"

text \<open>
  \<open>getSQLData\<close> of the link reader. A link waits while its channel is still online: \<open>online_orig n\<close>
  and \<open>online_term n\<close> are the answers of \<open>checkUniqueIdOrig\<close> and \<open>checkUniqueIdTerm\<close> for it
  at the time of the call. \<open>None\<close> is a row that is still waiting; the waiting id is shown.
\<close>

definition read_link ::
  "(string \<Rightarrow> 'j) \<Rightarrow> (string \<Rightarrow> bool) \<Rightarrow> (string \<Rightarrow> bool) \<Rightarrow> db_row \<Rightarrow> link_reader \<Rightarrow>
   'j call_leg_link option \<times> link_reader" where
  "read_link parse_json online_orig online_term row rd =
     (let link = decode_link parse_json row
      in if online_orig (cll_uniqueid_orig link)
         then (None, rd\<lparr>kr_waitLinkOrig := cll_uniqueid_orig link\<rparr>)
         else let rd = rd\<lparr>kr_waitLinkOrig := []\<rparr>
              in if online_term (cll_uniqueid_term link)
                 then (None, rd\<lparr>kr_waitLinkTerm := cll_uniqueid_term link\<rparr>)
                 else (Some link, rd\<lparr>kr_waitLinkTerm := []\<rparr>))"

section \<open>Sequences of rounds\<close>

datatype reader_event = Round int int int | Pause | Resume

definition reader_step ::
  "read_settings \<Rightarrow> (int \<Rightarrow> int \<Rightarrow> bool) \<Rightarrow> (int \<Rightarrow> int \<Rightarrow> 'row list) \<Rightarrow> reader_event \<Rightarrow>
   'row list \<times> 'r read_window_scheme \<Rightarrow> 'row list \<times> 'r read_window_scheme" where
  "reader_step cfg ex sel e s = (case s of (out, w) \<Rightarrow> (case e of
       Round now1 now2 now3 \<Rightarrow>
         (let (rows, w) = read_round cfg ex sel now1 now2 now3 w in (out @ rows, w))
     | Pause \<Rightarrow> (out, reader_pause w)
     | Resume \<Rightarrow> (out, reader_resume w)))"

definition reader_run ::
  "read_settings \<Rightarrow> (int \<Rightarrow> int \<Rightarrow> bool) \<Rightarrow> (int \<Rightarrow> int \<Rightarrow> 'row list) \<Rightarrow> reader_event list \<Rightarrow>
   'row list \<times> 'r read_window_scheme \<Rightarrow> 'row list \<times> 'r read_window_scheme" where
  "reader_run cfg ex sel es s = fold (reader_step cfg ex sel) es s"

text \<open>The rows of a table stamped in a half-open interval.\<close>

definition stamped :: "(int \<times> 'row) list \<Rightarrow> int \<Rightarrow> int \<Rightarrow> 'row multiset" where
  "stamped tbl a b = mset (map snd (filter (\<lambda>(t, r). a < t \<and> t \<le> b) tbl))"

lemma stamped_split: "a \<le> b \<Longrightarrow> b \<le> c \<Longrightarrow> stamped tbl a b + stamped tbl b c = stamped tbl a c"
  by (induction tbl) (auto simp: stamped_def)

definition settings_ok :: "read_settings \<Rightarrow> bool" where
  "settings_ok cfg \<longleftrightarrow> 0 \<le> rs_read_threshold_second cfg \<and> 0 \<le> rs_max_call_time cfg"

lemma advance_window_fields:
  "rw_startTime (advance_window cfg ex now w) = rw_stopTime w"
  "settings_ok cfg \<Longrightarrow> rw_stopTime w \<le> rw_stopTime (advance_window cfg ex now w)"
  by (auto simp: advance_window_def Let_def settings_ok_def)

lemma reader_step_inv:
  assumes cfg: "settings_ok cfg" and sel: "\<And>a b. mset (sel a b) = stamped tbl a b"
    and inv: "a \<le> rw_startTime w" "rw_startTime w \<le> rw_stopTime w" "mset out = stamped tbl a (rw_startTime w)"
    and step: "reader_step cfg ex sel e (out, w) = (out', w')"
  shows "a \<le> rw_startTime w' \<and> rw_startTime w' \<le> rw_stopTime w' \<and> mset out' = stamped tbl a (rw_startTime w')"
proof (cases e)
  case (Round n1 n2 n3)
  show ?thesis
  proof (cases "read_ready cfg ex n1 n2 w")
    case True
    with step Round have "out' = out @ sel (rw_startTime w) (rw_stopTime w)" "w' = advance_window cfg ex n3 w"
      by (auto simp: reader_step_def read_round_def)
    with inv stamped_split [OF inv(1,2), of tbl] show ?thesis
      by (simp add: advance_window_fields cfg sel)
  next
    case False
    with step Round inv show ?thesis by (auto simp: reader_step_def read_round_def)
  qed
qed (use step inv in \<open>auto simp: reader_step_def reader_pause_def reader_resume_def\<close>)

lemma reader_run_inv:
  assumes cfg: "settings_ok cfg" and sel: "\<And>a b. mset (sel a b) = stamped tbl a b"
  shows "a \<le> rw_startTime w \<Longrightarrow> rw_startTime w \<le> rw_stopTime w \<Longrightarrow> mset out = stamped tbl a (rw_startTime w) \<Longrightarrow>
    reader_run cfg ex sel es (out, w) = (out', w') \<Longrightarrow> a \<le> rw_startTime w' \<and> mset out' = stamped tbl a (rw_startTime w')"
proof (induction es arbitrary: out w)
  case Nil
  then show ?case by (simp add: reader_run_def)
next
  case (Cons e es)
  obtain out1 w1 where s: "reader_step cfg ex sel e (out, w) = (out1, w1)" by (meson surj_pair)
  from reader_step_inv [OF cfg sel Cons.prems(1-3) s] Cons.IH [of w1 out1] Cons.prems(4) s
  show ?case by (simp add: reader_run_def)
qed

lemma fold_read_leg:
  "fold read_leg rows (rd, queue) =
     (rd\<lparr>lr_readId := fold (\<lambda>l. sm_set (cl_server_id l) (int32 (cl_id l))) (map decode_leg rows) (lr_readId rd)\<rparr>,
      queue @ map decode_leg rows)"
  by (induction rows arbitrary: rd queue) (simp_all add: read_leg_def Let_def)

section \<open>Properties\<close>

text \<open>
  The readers lose nothing and read nothing twice. Over any table, any answers of
  the probes and any interleaving of rounds, pauses and resumes after \<open>setStart(a)\<close>, the rows
  read are exactly the rows stamped after \<open>a\<close> and not after the reader's \<open>startTime_\<close>, each
  as often as the table has it.
\<close>

theorem reader_reads_window_once:
  assumes "settings_ok cfg" "\<And>a b. mset (sel a b) = stamped tbl a b"
    "reader_run cfg ex sel es ([], reader_setStart cfg a w) = (out, w')"
  shows "a \<le> reader_getTime w' \<and> mset out = stamped tbl a (reader_getTime w')"
  unfolding reader_getTime_def
  by (rule reader_run_inv [OF assms(1,2) _ _ _ assms(3)])
    (use assms(1) in \<open>simp_all add: reader_setStart_def settings_ok_def stamped_def\<close>)

theorem reader_reads_window_once_witness:
  "let cfg = \<lparr>rs_read_threshold_second = 60, rs_read_waiting_second = 5, rs_max_call_time = 3600\<rparr>;
       tbl = [(130, ''x''), (170, ''y''), (400, ''z'')];
       s = reader_run cfg (\<lambda>a b. True) (\<lambda>a b. map snd (filter (\<lambda>(t, r). a < t \<and> t \<le> b) tbl))
             [Round 1000 1000 1000, Pause, Round 1000 1000 1000] ([], reader_setStart cfg 100 leg_reader_new)
   in mset (fst s) = stamped tbl 100 (reader_getTime (snd s))"
proof -
  let ?cfg = "\<lparr>rs_read_threshold_second = 60, rs_read_waiting_second = 5, rs_max_call_time = 3600\<rparr>"
  let ?tbl = "[(130, ''x''), (170, ''y''), (400, ''z'')]"
  obtain out w' where s: "reader_run ?cfg (\<lambda>a b. True) (\<lambda>a b. map snd (filter (\<lambda>(t, r). a < t \<and> t \<le> b) ?tbl))
      [Round 1000 1000 1000, Pause, Round 1000 1000 1000] ([], reader_setStart ?cfg 100 leg_reader_new) = (out, w')"
    by (meson surj_pair)
  have "settings_ok ?cfg" by (simp add: settings_ok_def)
  from reader_reads_window_once [OF this _ s, of ?tbl] show ?thesis
    unfolding Let_def s by (simp add: stamped_def)
qed

text \<open>
  \<open>getSQLData\<close> of the leg reader enqueues every row decoded, in order, and
  remembers for each server the id of its last leg, as an \<open>int\<close>; other servers keep theirs.
\<close>

theorem leg_getSQLData_result:
  assumes "sm_ok (lr_readId rd)"
  shows "snd (fst (leg_getSQLData rows (rd, queue))) = queue @ map decode_leg rows \<and>
    map_of (lr_readId (fst (fst (leg_getSQLData rows (rd, queue))))) server =
      (case filter (\<lambda>l. cl_server_id l = server) (map decode_leg rows) of
         [] \<Rightarrow> map_of (lr_readId rd) server
       | l # ls \<Rightarrow> Some (int32 (cl_id (last (l # ls)))))"
  using smap.find_put_all [OF assms, of cl_server_id "\<lambda>l. int32 (cl_id l)" "map decode_leg rows" server]
  by (simp add: leg_getSQLData_def fold_read_leg)

theorem leg_getSQLData_result_witness:
  "snd (fst (leg_getSQLData [\<lambda>c. ''7'', \<lambda>c. ''8''] (leg_reader_new, []))) = [] @ map decode_leg [\<lambda>c. ''7'', \<lambda>c. ''8'']"
  using leg_getSQLData_result [of leg_reader_new "[\<lambda>c. ''7'', \<lambda>c. ''8'']" "[]"]
  by (simp add: leg_reader_new_def)

end
