(* ===== verification/Merge_Online.thy ===== *)
theory Merge_Online
  imports Readers
begin

text \<open>
  \<open>src/service/MergeOnline.cpp\<close>: the table of the links that are still on line, per server. A
  watcher loads it, then follows the notifications of the database. The JSON reader is not
  part of the sources: \<open>link c\<close> is what \<open>link[c].asString()\<close> gives, a text or a throw. The
  watchers of the pool are a list in the order of their ids.
\<close>

record online_watcher =
  ow_id :: int
  ow_ready :: bool
  ow_data :: "call_leg_link_online list"

definition ow_new :: "int \<Rightarrow> online_watcher" where
  "ow_new server = \<lparr>ow_id = server, ow_ready = False, ow_data = []\<rparr>"

text \<open>Members that are not assigned: empty strings, and the parameter for the \<open>bool\<close>.\<close>

definition online_row :: "bool \<Rightarrow> string \<Rightarrow> string \<Rightarrow> string \<Rightarrow> call_leg_link_online" where
  "online_row garbage orig term start =
     \<lparr>cllo_uniqueid_orig = orig, cllo_channame_orig = [], cllo_uniqueid_term = term, cllo_channame_term = [],
      cllo_link_start_time = start, cllo_link_answer_time = [], cllo_link_end_time = [], cllo_rec_filename = [],
      cllo_status = [], cllo_bridged = garbage, cllo_cf = [], cllo_trf_by = [], cllo_queue_callid = [],
      cllo_object_type = [], cllo_object_data = []\<rparr>"

text \<open>Writing \<open>out[10]\<close> of a shorter text is undefined.\<close>

definition formatDateTime :: "string \<Rightarrow> string outcome" where
  "formatDateTime date =
     (let out = substr 0 22 date in if length out \<le> 10 then Undefined else Ok (out[10 := CHR '' '']))"

definition online_load :: "bool \<Rightarrow> db_row list \<Rightarrow> online_watcher \<Rightarrow> online_watcher" where
  "online_load garbage rows w =
     w\<lparr>ow_data := fold (\<lambda>r data. data @ [online_row garbage (row_s r ''uniqueid_orig'') (row_s r ''uniqueid_term'')
          (row_s r ''link_start_time'')]) rows [], ow_ready := True\<rparr>"

definition same_link :: "call_leg_link_online \<Rightarrow> call_leg_link_online \<Rightarrow> bool" where
  "same_link it row \<longleftrightarrow> cllo_uniqueid_orig it = cllo_uniqueid_orig row \<and> cllo_uniqueid_term it = cllo_uniqueid_term row"

fun erase_first :: "('a \<Rightarrow> bool) \<Rightarrow> 'a list \<Rightarrow> 'a list" where
  "erase_first P [] = []"
| "erase_first P (x # xs) = (if P x then xs else x # erase_first P xs)"

fun update_first :: "('a \<Rightarrow> bool) \<Rightarrow> ('a \<Rightarrow> 'a) \<Rightarrow> 'a list \<Rightarrow> 'a list" where
  "update_first P f [] = []"
| "update_first P f (x # xs) = (if P x then f x # xs else x # update_first P f xs)"

text \<open>
  The members an update writes, one after the other: the element it gets to and how it ended.
\<close>

definition assign_member :: "'v outcome \<Rightarrow> ('v \<Rightarrow> 'r \<Rightarrow> 'r) \<Rightarrow> 'r \<times> unit outcome \<Rightarrow> 'r \<times> unit outcome" where
  "assign_member v upd s = (case s of
       (it, Ok _) \<Rightarrow> (case v of Ok x \<Rightarrow> (upd x it, Ok ()) | Throws m \<Rightarrow> (it, Throws m)
          | Undefined \<Rightarrow> (it, Undefined) | Diverges \<Rightarrow> (it, Diverges))
     | _ \<Rightarrow> s)"

definition update_row :: "(string \<Rightarrow> string outcome) \<Rightarrow> call_leg_link_online \<Rightarrow> call_leg_link_online \<times> unit outcome" where
  "update_row link it =
     assign_member (bind_outcome (link ''link_start_time'') formatDateTime) (\<lambda>v. cllo_link_start_time_update (\<lambda>_. v))
      (assign_member (link ''channame_term'') (\<lambda>v. cllo_channame_term_update (\<lambda>_. v))
        (assign_member (link ''channame_orig'') (\<lambda>v. cllo_channame_orig_update (\<lambda>_. v)) (it, Ok ())))"

definition event_row :: "bool \<Rightarrow> (string \<Rightarrow> string outcome) \<Rightarrow> call_leg_link_online outcome" where
  "event_row garbage link =
     bind_outcome (link ''uniqueid_orig'') (\<lambda>orig.
     bind_outcome (link ''uniqueid_term'') (\<lambda>term.
     bind_outcome (bind_outcome (link ''link_start_time'') formatDateTime) (\<lambda>start.
       Ok (online_row garbage orig term start))))"

definition insert_event ::
  "(string \<Rightarrow> string outcome) \<Rightarrow> call_leg_link_online \<Rightarrow> call_leg_link_online list \<Rightarrow> call_leg_link_online list outcome" where
  "insert_event link row data =
     bind_outcome (link ''channame_orig'') (\<lambda>co.
     bind_outcome (link ''channame_term'') (\<lambda>ct.
     bind_outcome (bind_outcome (link ''link_start_time'') formatDateTime) (\<lambda>start.
       Ok (data @ [row\<lparr>cllo_channame_orig := co, cllo_channame_term := ct, cllo_link_start_time := start\<rparr>]))))"

definition update_event ::
  "(string \<Rightarrow> string outcome) \<Rightarrow> call_leg_link_online \<Rightarrow> call_leg_link_online list \<Rightarrow>
   call_leg_link_online list \<times> unit outcome" where
  "update_event link row data =
     (update_first (\<lambda>it. same_link it row) (\<lambda>it. fst (update_row link it)) data,
      (case filter (\<lambda>it. same_link it row) data of [] \<Rightarrow> Ok () | it # _ \<Rightarrow> snd (update_row link it)))"

definition link_insert :: string where "link_insert = ''monitor.call_link_online.insert''"
definition link_update :: string where "link_update = ''monitor.call_link_online.update''"
definition link_delete :: string where "link_delete = ''monitor.call_link_online.delete''"

lemma link_events_distinct [simp]:
  "link_insert \<noteq> link_update" "link_insert \<noteq> link_delete" "link_update \<noteq> link_delete"
  "link_update \<noteq> link_insert" "link_delete \<noteq> link_insert" "link_delete \<noteq> link_update"
  by (simp_all add: link_insert_def link_update_def link_delete_def)

text \<open>A notification. What is thrown is caught and logged: the table as it is then stays.\<close>

definition online_event :: "bool \<Rightarrow> string \<Rightarrow> (string \<Rightarrow> string outcome) \<Rightarrow> online_watcher \<Rightarrow> online_watcher outcome" where
  "online_event garbage event link w =
     (case event_row garbage link of
        Throws m \<Rightarrow> Ok w
      | Undefined \<Rightarrow> Undefined
      | Diverges \<Rightarrow> Diverges
      | Ok row \<Rightarrow>
          (if event = link_insert then
             (case insert_event link row (ow_data w) of
                Ok data \<Rightarrow> Ok (w\<lparr>ow_data := data\<rparr>) | Throws m \<Rightarrow> Ok w
              | Undefined \<Rightarrow> Undefined | Diverges \<Rightarrow> Diverges)
           else if event = link_update then
             (case update_event link row (ow_data w) of
                (data, Ok _) \<Rightarrow> Ok (w\<lparr>ow_data := data\<rparr>) | (data, Throws m) \<Rightarrow> Ok (w\<lparr>ow_data := data\<rparr>)
              | (_, Undefined) \<Rightarrow> Undefined | (_, Diverges) \<Rightarrow> Diverges)
           else if event = link_delete then
             Ok (w\<lparr>ow_data := erase_first (\<lambda>it. same_link it row) (ow_data w)\<rparr>)
           else Ok w))"

section \<open>Questions of the link reader\<close>

text \<open>\<open>None\<close>: the watcher has not loaded its table, the call waits.\<close>

fun any_row :: "(call_leg_link_online \<Rightarrow> string) \<Rightarrow> string \<Rightarrow> call_leg_link_online list \<Rightarrow> bool" where
  "any_row field uniqueId [] = False"
| "any_row field uniqueId (row # rows) =
     (if field row \<noteq> [] \<and> field row = uniqueId then True else any_row field uniqueId rows)"

definition watcher_check ::
  "(call_leg_link_online \<Rightarrow> string) \<Rightarrow> string \<Rightarrow> online_watcher \<Rightarrow> bool option" where
  "watcher_check field uniqueId w =
     (if \<not> ow_ready w then None
      else Some (if uniqueId \<noteq> [] then any_row field uniqueId (ow_data w) else False))"

fun check_loop :: "(call_leg_link_online \<Rightarrow> string) \<Rightarrow> string \<Rightarrow> online_watcher list \<Rightarrow> bool option" where
  "check_loop field uniqueId [] = Some False"
| "check_loop field uniqueId (w # ws) =
     (case watcher_check field uniqueId w of
        None \<Rightarrow> None | Some True \<Rightarrow> Some True | Some False \<Rightarrow> check_loop field uniqueId ws)"

definition checkUniqueIdOrig :: "string \<Rightarrow> online_watcher list \<Rightarrow> bool option" where
  "checkUniqueIdOrig uniqueId ws = (if uniqueId = [] then Some False else check_loop cllo_uniqueid_orig uniqueId ws)"

definition checkUniqueIdTerm :: "string \<Rightarrow> online_watcher list \<Rightarrow> bool option" where
  "checkUniqueIdTerm uniqueId ws = (if uniqueId = [] then Some False else check_loop cllo_uniqueid_term uniqueId ws)"

definition online_getData :: "nat \<Rightarrow> online_watcher list \<Rightarrow> call_leg_link_online list" where
  "online_getData i ws = (if i < length ws then ow_data (ws ! i) else [])"

definition online_row_html :: "call_leg_link_online \<Rightarrow> string" where
  "online_row_html link = ''<tr>'' @ ''<th>'' @ cllo_uniqueid_orig link @ ''</th>''
     @ ''<th>'' @ cllo_uniqueid_term link @ ''</th>'' @ ''<th>'' @ cllo_link_start_time link @ ''</th>'' @ ''</tr>''"

definition online_statusHtml :: "online_watcher list \<Rightarrow> string" where
  "online_statusHtml ws =
     concat (map (\<lambda>i. let online = online_getData i ws
        in ''</br></br>'' @ ''<table border='' @ quoted ''1'' @ ''><caption>Online Link. server: '' @ show_nat i @ '' (''
           @ show_nat (length online) @ '')rows </caption><tr><th>uniqueid_orig</th><th>uniqueid_term</th><th>start_time</th></tr>''
           @ concat (map online_row_html online) @ ''</table>'') [0..<length ws])"

section \<open>The table as pairs of ids\<close>

definition link_pair :: "call_leg_link_online \<Rightarrow> string \<times> string" where
  "link_pair r = (cllo_uniqueid_orig r, cllo_uniqueid_term r)"

definition online_pairs :: "online_watcher \<Rightarrow> (string \<times> string) multiset" where
  "online_pairs w = mset (map link_pair (ow_data w))"

text \<open>A notification whose five texts can be read, the time being long enough.\<close>

definition well_formed :: "(string \<Rightarrow> string outcome) \<Rightarrow> string \<Rightarrow> string \<Rightarrow> bool" where
  "well_formed link orig term \<longleftrightarrow> link ''uniqueid_orig'' = Ok orig \<and> link ''uniqueid_term'' = Ok term \<and>
     (\<exists>s. link ''link_start_time'' = Ok s \<and> 10 < length s) \<and>
     (\<exists>s. link ''channame_orig'' = Ok s) \<and> (\<exists>s. link ''channame_term'' = Ok s)"

lemma formatDateTime_long: "10 < length s \<Longrightarrow> formatDateTime s = Ok ((take 22 s)[10 := CHR '' ''])"
  by (simp add: formatDateTime_def substr_def)

lemma same_link_pair: "same_link it row = (link_pair it = link_pair row)"
  by (auto simp: same_link_def link_pair_def)

lemma link_pair_online_row [simp]: "link_pair (online_row g a b t) = (a, b)"
  by (simp add: link_pair_def online_row_def)

lemma mset_erase_first:
  "mset (map f (erase_first (\<lambda>x. f x = y) xs)) = mset (map f xs) - {#y#}"
  by (induction xs) auto

lemma map_update_first: "(\<And>x. f (g x) = f x) \<Longrightarrow> map f (update_first P g xs) = map f xs"
  by (induction xs) auto

lemma assign_member_keeps:
  "(\<And>v it. f (upd v it) = f it) \<Longrightarrow> f (fst (assign_member v upd s)) = f (fst s)"
  by (cases s; cases "snd s"; cases v) (simp_all add: assign_member_def)

lemma link_pair_updates [simp]:
  "link_pair (cllo_link_start_time_update u r) = link_pair r"
  "link_pair (cllo_channame_term_update u r) = link_pair r"
  "link_pair (cllo_channame_orig_update u r) = link_pair r"
  by (simp_all add: link_pair_def)

lemma update_row_pair: "link_pair (fst (update_row link it)) = link_pair it"
  by (simp add: update_row_def assign_member_keeps [of link_pair])

lemma update_row_well_formed: "well_formed link a b \<Longrightarrow> snd (update_row link it) = Ok ()"
  by (auto simp: update_row_def well_formed_def formatDateTime_long assign_member_def)

lemma any_row_iff: "any_row field u rows \<longleftrightarrow> u \<noteq> [] \<and> (\<exists>r \<in> set rows. field r = u)"
  by (induction rows) auto

lemma check_loop_iff:
  "(\<forall>w \<in> set ws. ow_ready w) \<Longrightarrow> u \<noteq> [] \<Longrightarrow>
   check_loop field u ws = Some (\<exists>w \<in> set ws. \<exists>r \<in> set (ow_data w). field r = u)"
  by (induction ws) (auto simp: watcher_check_def any_row_iff split: bool.split)

lemma online_event_pairs:
  assumes "well_formed link orig term"
  shows "\<exists>w'. online_event garbage event link w = Ok w' \<and> ow_ready w' = ow_ready w \<and> online_pairs w' =
    (if event = link_insert then add_mset (orig, term) (online_pairs w)
     else if event = link_delete then online_pairs w - {#(orig, term)#}
     else online_pairs w)"
proof -
  obtain t where row: "event_row garbage link = Ok (online_row garbage orig term t)"
    using assms by (auto simp: well_formed_def event_row_def formatDateTime_long)
  have ins: "\<exists>data. insert_event link (online_row garbage orig term t) (ow_data w) = Ok data \<and>
      mset (map link_pair data) = add_mset (orig, term) (online_pairs w)"
    using assms by (auto simp: well_formed_def insert_event_def formatDateTime_long online_pairs_def
        link_pair_def online_row_def)
  have upd: "update_event link (online_row garbage orig term t) (ow_data w)
      = (update_first (\<lambda>it. same_link it (online_row garbage orig term t)) (\<lambda>it. fst (update_row link it)) (ow_data w), Ok ())"
    by (simp add: update_event_def update_row_well_formed [OF assms] split: list.split)
  have pairs: "map link_pair (update_first P (\<lambda>it. fst (update_row link it)) xs) = map link_pair xs" for P xs
    by (rule map_update_first) (rule update_row_pair)
  consider "event = link_insert" | "event = link_update" | "event = link_delete"
    | "event \<noteq> link_insert" "event \<noteq> link_update" "event \<noteq> link_delete" by blast
  then show ?thesis
  proof cases
    case 1
    with row ins show ?thesis by (auto simp: online_event_def online_pairs_def)
  next
    case 2
    then show ?thesis using row upd pairs by (simp add: online_event_def online_pairs_def del: mset_map)
  next
    case 3
    then show ?thesis using row
      by (simp add: online_event_def online_pairs_def same_link_pair mset_erase_first del: mset_map)
  next
    case 4
    then show ?thesis using row by (simp add: online_event_def)
  qed
qed

section \<open>Properties\<close>

text \<open>
  C12 (refinement): the watcher keeps the table of the on-line links. Seen as the multiset of
  (originating, terminating) ids, a well-formed insert adds the pair, a delete removes it once
  if it is there, an update and any other event leave it, and nothing is undefined.
\<close>

theorem online_event_refines:
  assumes "well_formed link orig term"
  shows "\<exists>w'. online_event garbage event link w = Ok w' \<and> online_pairs w' =
    (if event = link_insert then add_mset (orig, term) (online_pairs w)
     else if event = link_delete then online_pairs w - {#(orig, term)#}
     else online_pairs w)"
  using online_event_pairs [OF assms] by blast

theorem online_event_refines_witness:
  "\<exists>w'. online_event True link_insert (\<lambda>c. Ok ''2020-01-01T00:00:00'') (ow_new 0) = Ok w' \<and>
     online_pairs w' = {#(''2020-01-01T00:00:00'', ''2020-01-01T00:00:00'')#}"
  using online_event_refines [of "\<lambda>c. Ok ''2020-01-01T00:00:00''" "''2020-01-01T00:00:00''" "''2020-01-01T00:00:00''"
      True "link_insert" "ow_new 0"]
  by (simp add: well_formed_def online_pairs_def ow_new_def)

text \<open>
  When every watcher has loaded its table, \<open>checkUniqueIdOrig\<close> is true exactly
  for a non-empty id that some row of some server has as its originating id.
\<close>

theorem checkUniqueIdOrig_iff:
  assumes "\<forall>w \<in> set ws. ow_ready w"
  shows "checkUniqueIdOrig u ws =
    Some (u \<noteq> [] \<and> (\<exists>w \<in> set ws. \<exists>p. p \<in># online_pairs w \<and> fst p = u))"
  using check_loop_iff [OF assms, of u cllo_uniqueid_orig]
  by (auto simp: checkUniqueIdOrig_def online_pairs_def link_pair_def)

theorem checkUniqueIdOrig_iff_witness:
  "checkUniqueIdOrig ''a'' [(ow_new 0)\<lparr>ow_ready := True, ow_data := [online_row True ''a'' ''b'' []]\<rparr>] = Some True"
  using checkUniqueIdOrig_iff [of "[(ow_new 0)\<lparr>ow_ready := True, ow_data := [online_row True ''a'' ''b'' []]\<rparr>]" "''a''"]
  by (simp add: online_pairs_def ow_new_def)

end
