(* ===== verification/Merge_Service.thy ===== *)
theory Merge_Service
  imports Readers
begin

text \<open>
  \<open>src/service/MergeService.cpp\<close> and the report builders of \<open>src/service/format\<close>: the start time
  of the merge, the choice of the parties of a finished record, and the rows of the reports.
  \<open>std::sort\<close> is any function that meets its contract, the locale \<open>std_sort\<close>; both orders of
  the source are interpreted with the library's sort.
\<close>

section \<open>The start of the merge\<close>

text \<open>The last \<open>start_time\<close> of a result, read with \<open>while (res.next())\<close>.\<close>

definition last_start_time :: "db_row list \<Rightarrow> string" where
  "last_start_time rows = fold (\<lambda>row start_time. row_s row ''start_time'') rows []"

definition merge_start_stamp :: "tm \<Rightarrow> int \<Rightarrow> db_row list \<Rightarrow> db_row list \<Rightarrow> int" where
  "merge_start_stamp g now output_rows source_rows =
     (let start_time = (if output_rows \<noteq> [] then last_start_time output_rows else last_start_time source_rows);
          stemp = (if start_time \<noteq> [] then parseDateTime g (c_str start_time) else 0)
      in if stemp = 0 then now else stemp)"

section \<open>The parties of a rc\<close>

definition legCompareByStartTime :: "call_leg \<Rightarrow> call_leg \<Rightarrow> bool" where
  "legCompareByStartTime a b \<longleftrightarrow> cl_start_time a < cl_start_time b"

definition linkCompareByLinkId :: "'j call_leg_link \<Rightarrow> 'j call_leg_link \<Rightarrow> bool" where
  "linkCompareByLinkId a b \<longleftrightarrow> cll_id a < cll_id b"

text \<open>\<open>legs[key]\<close>: a missing key is inserted with a default leg.\<close>

definition leg_at :: "string \<Rightarrow> (string \<times> call_leg) list \<Rightarrow> call_leg \<times> (string \<times> call_leg) list" where
  "leg_at key legs = (case map_of legs key of
       Some leg \<Rightarrow> (leg, legs) | None \<Rightarrow> (call_leg_default, sm_set key call_leg_default legs))"

text \<open>
  The loop over \<open>record.legs\<close>, on the legs there at the start: a default leg inserted on the way
  has no last linked id and is not an originating one, so its own turn changes nothing.
\<close>

definition choose_leg :: "call_leg \<Rightarrow> 'j call_record \<Rightarrow> 'j call_record" where
  "choose_leg leg rc =
     (let rc = (if cl_orig leg then rc\<lparr>cr_a := leg\<rparr> else rc)
      in if cl_last_linked_id leg \<noteq> []
         then let (linked, legs) = leg_at (cl_last_linked_id leg) (cr_legs rc)
              in rc\<lparr>cr_legs := legs, cr_b := cr_b rc @ [linked]\<rparr>
         else rc)"

definition choose_parties :: "'j call_record \<Rightarrow> 'j call_record" where
  "choose_parties rc = fold choose_leg (map snd (cr_legs rc)) rc"

definition finish_record ::
  "(call_leg list \<Rightarrow> call_leg list) \<Rightarrow> ('j call_leg_link list \<Rightarrow> 'j call_leg_link list) \<Rightarrow>
   'j call_record \<Rightarrow> 'j call_record" where
  "finish_record sort_legs sort_links rc =
     (let rc = choose_parties rc
      in rc\<lparr>cr_b := sort_legs (cr_b rc), cr_links := sort_links (cr_links rc)\<rparr>)"

text \<open>\<open>maxCallRecordTime\<close> of a batch is an \<open>int\<close>.\<close>

definition max_record_time :: "'j call_record list \<Rightarrow> int" where
  "max_record_time records =
     fold (\<lambda>rc m. if m < cr_startTime rc then int32 (cr_startTime rc) else m) records 0"

interpretation legs_by_start: std_sort legCompareByStartTime "sort_key cl_start_time"
  unfolding legCompareByStartTime_def by (rule std_sort_sort_key)

interpretation links_by_id: std_sort linkCompareByLinkId "sort_key cll_id"
  unfolding linkCompareByLinkId_def by (rule std_sort_sort_key)

section \<open>What the choice does\<close>

definition linked_legs :: "(string \<times> call_leg) list \<Rightarrow> call_leg list" where
  "linked_legs legs =
     map (\<lambda>leg. case map_of legs (cl_last_linked_id leg) of Some l \<Rightarrow> l | None \<Rightarrow> call_leg_default)
       (filter (\<lambda>leg. cl_last_linked_id leg \<noteq> []) (map snd legs))"

definition leg_or_default :: "(string \<times> call_leg) list \<Rightarrow> string \<Rightarrow> call_leg" where
  "leg_or_default legs k = (case map_of legs k of Some l \<Rightarrow> l | None \<Rightarrow> call_leg_default)"

lemma leg_at_eq:
  "fst (leg_at k legs) = leg_or_default legs k"
  "sm_ok legs \<Longrightarrow> sm_ok (snd (leg_at k legs))"
  "sm_ok legs \<Longrightarrow> leg_or_default (snd (leg_at k legs)) = leg_or_default legs"
  by (auto simp: leg_at_def leg_or_default_def fun_eq_iff map_of_sm_set split: option.split)

lemma choose_leg_eq:
  "choose_leg leg rc =
     (let rc = (if cl_orig leg then rc\<lparr>cr_a := leg\<rparr> else rc)
      in if cl_last_linked_id leg \<noteq> []
         then rc\<lparr>cr_legs := snd (leg_at (cl_last_linked_id leg) (cr_legs rc)),
                     cr_b := cr_b rc @ [leg_or_default (cr_legs rc) (cl_last_linked_id leg)]\<rparr>
         else rc)"
  by (simp add: choose_leg_def Let_def split_def leg_at_eq)

lemma choose_fold:
  assumes "sm_ok (cr_legs rc)"
  shows "cr_b (fold choose_leg ls rc) =
      cr_b rc @ map (\<lambda>l. leg_or_default (cr_legs rc) (cl_last_linked_id l)) (filter (\<lambda>l. cl_last_linked_id l \<noteq> []) ls) \<and>
    cr_a (fold choose_leg ls rc) = (case filter cl_orig ls of [] \<Rightarrow> cr_a rc | l # os' \<Rightarrow> last (l # os')) \<and>
    cr_links (fold choose_leg ls rc) = cr_links rc"
  using assms
proof (induction ls arbitrary: rc)
  case Nil
  then show ?case by simp
next
  case (Cons l ls)
  let ?r = "choose_leg l rc"
  have r: "sm_ok (cr_legs ?r)" "leg_or_default (cr_legs ?r) = leg_or_default (cr_legs rc)"
    "cr_links ?r = cr_links rc" "cr_a ?r = (if cl_orig l then l else cr_a rc)"
    "cr_b ?r = cr_b rc @ (if cl_last_linked_id l \<noteq> []
        then [leg_or_default (cr_legs rc) (cl_last_linked_id l)] else [])"
    using Cons.prems by (simp_all add: choose_leg_eq Let_def leg_at_eq)
  from Cons.IH [OF r(1)] show ?case
    by (auto simp: r split: list.split)
qed

lemma choose_parties_result:
  assumes "sm_ok (cr_legs rc)"
  shows "cr_b (choose_parties rc) = cr_b rc @ linked_legs (cr_legs rc)"
    "cr_a (choose_parties rc) =
       (case filter cl_orig (map snd (cr_legs rc)) of [] \<Rightarrow> cr_a rc | l # os' \<Rightarrow> last (l # os'))"
    "cr_links (choose_parties rc) = cr_links rc"
  using choose_fold [OF assms, of "map snd (cr_legs rc)"]
  by (simp_all add: choose_parties_def linked_legs_def leg_or_default_def)

section \<open>\<open>DataVoipRecordReport\<close>\<close>

text \<open>
  The event loop: \<open>record->legs[...]\<close> inserts as well. The record is what the loop leaves.
\<close>

definition voip_event_step ::
  "'j call_leg_link \<Rightarrow> string \<times> 'j call_record \<Rightarrow> string \<times> 'j call_record" where
  "voip_event_step link s = (case s of (event, rc) \<Rightarrow>
     if cll_uniqueid_orig link = cl_uniqueid (cr_a rc)
     then let t = cl_object_type (cr_a rc);
              (leg, legs) = leg_at (cll_uniqueid_term link) (cr_legs rc);
              event = (if t \<noteq> ''pstn'' \<and> t \<noteq> ''webcall'' \<and> t \<noteq> ''missed_call_callback'' \<and> cl_object_type leg \<noteq> ''pstn''
                       then ''internal'' else event);
              event = (if cl_object_type leg = ''pstn'' then ''outgoing'' else event)
          in (event, rc\<lparr>cr_legs := legs\<rparr>)
     else s)"

definition voip_event :: "'j call_record \<Rightarrow> string \<times> 'j call_record" where
  "voip_event rc =
     (let start = (if cl_object_type (cr_a rc) = ''pstn'' then ''incoming'' else []);
          (event, r) = fold voip_event_step (cr_links rc) (start, rc)
      in (if event = [] then ''uncknown'' else event, r))"

definition leg_number :: "call_leg \<Rightarrow> string" where
  "leg_number leg = (if cl_number leg = [] then show_int (cl_did leg) else escape_string (cl_number leg))"

definition called_step :: "call_leg \<Rightarrow> string \<times> int \<Rightarrow> string \<times> int" where
  "called_step leg s = (case s of (b, account_id_2) \<Rightarrow>
     (if b = [] then leg_number leg else b @ '', '' @ leg_number leg,
      if cl_account_id leg \<noteq> 0 \<and> account_id_2 = 0 then cl_account_id leg else account_id_2))"

text \<open>
  The members the builder does not set are indeterminate: \<open>u_service\<close> for
  \<open>supplement_service_id\<close>, \<open>u_account\<close> for \<open>account_id_2\<close>, which is read before it is written. The
  member \<open>orig_uniqueid\<close> is assigned the \<open>bool\<close> \<open>a.orig\<close>, which makes a text of one control
  character.
\<close>

definition build_voip_record :: "tm \<Rightarrow> int \<Rightarrow> int \<Rightarrow> 'j call_record \<Rightarrow> data_voip_record \<times> 'j call_record" where
  "build_voip_record g u_service u_account rc =
     (let (event, rc) = voip_event rc;
          a = cr_a rc;
          end_time = (if cr_b rc \<noteq> [] then cl_stop_time (last (cr_b rc)) else cl_stop_time a);
          number = leg_number a;
          (called, account2) = fold called_step (cr_b rc) ([], u_account)
      in (\<lparr>dvr_telco_id = 0, dvr_begin_connection_time = cl_start_time a, dvr_end_connection_time = end_time,
           dvr_client_info = [], dvr_server_info = [], dvr_point_id = 0, dvr_voip_session_id = [],
           dvr_voip_conference_id = [],
           dvr_voip_duration = int32 (parseDateTime g (c_str end_time) - parseDateTime g (c_str (cl_start_time a))),
           dvr_voip_originator_name = escape_string (cl_name a), dvr_voip_call_type_id = 0,
           dvr_calling_original_number = number, dvr_calling_translated_number = number,
           dvr_calling_e164_number = number, dvr_called_original_number = called,
           dvr_called_translated_number = called, dvr_called_e164_number = called,
           dvr_voip_in_bytes_count = 0, dvr_voip_out_bytes_count = 0, dvr_voip_fax = False,
           dvr_voip_term_cause = (if cl_hangup_cause a = [] then cl_final_status a else cl_hangup_cause a),
           dvr_inbound_trunk = [], dvr_outbound_trunk = [], dvr_voip_gateways = [], dvr_voip_protocol = ''SIP'',
           dvr_supplement_service_id = u_service, dvr_voip_abonent_id = [], dvr_voip_nat_info = [],
           dvr_voip_location = [], dvr_voip_event = event, dvr_voip_data_content_id = [],
           dvr_vpbx_id = cl_vpbx_id a, dvr_server_id = cl_server_id a, dvr_account_id = cl_account_id a,
           dvr_account_id_2 = account2,
           dvr_orig_uniqueid = [char_of (if cl_orig a then 1 else 0 :: nat)], dvr_raw_data = []\<rparr>, rc))"

section \<open>\<open>LegsAggrRawReport\<close> and \<open>PstnRecordReport\<close>\<close>

text \<open>\<open>front()\<close> of an empty \<open>b\<close> is undefined; \<open>mk\<close> builds the JSON object of the two members.\<close>

definition build_legs_aggr_raw ::
  "((string \<times> 'j json_object) list \<Rightarrow> 'j) \<Rightarrow> 'j call_record \<Rightarrow> 'j legs_aggr_raw outcome" where
  "build_legs_aggr_raw mk rc = (case cr_b rc of
       [] \<Rightarrow> Undefined
     | f # _ \<Rightarrow>
         (let a = cr_a rc in
          Ok \<lparr>lar_start_time = (if cl_start_time a = [] then cl_start_time f else cl_start_time a),
              lar_stop_time = (if cl_stop_time f = [] then cl_stop_time a else cl_stop_time f),
              lar_uniqueid = cl_uniqueid a, lar_object_type = cl_object_type a, lar_object_type_l = cl_object_type f,
              lar_sip_ip = cl_sip_ip a, lar_sip_ip_l = cl_sip_ip f, lar_status = ''ANSWERED'',
              lar_call_id_md5 = cl_call_id_md5 a, lar_call_id_md5_l = cl_call_id_md5 f,
              lar_to_jsonb = mk [(''orig'', call_leg_json a), (''last'', call_leg_json f)]\<rparr>))"

definition pstn_header :: string where
  "pstn_header = ''insert into () values''"

definition build_pstn_record :: "'j call_record \<Rightarrow> string" where
  "build_pstn_record rc = []"

lemma fold_voip_event_step: "cr_b (snd (fold voip_event_step ls s)) = cr_b (snd s)"
proof (induction ls arbitrary: s)
  case (Cons l ls)
  have "cr_b (snd (voip_event_step l s)) = cr_b (snd s)"
    by (cases s) (simp add: voip_event_step_def Let_def split_def)
  with Cons show ?case by simp
qed simp

lemma voip_event_keeps_b: "cr_b (snd (voip_event rc)) = cr_b rc"
  unfolding voip_event_def Let_def split_def snd_conv by (simp add: fold_voip_event_step)

lemma fold_called_step:
  "\<forall>l \<in> set ls. leg_number l \<noteq> [] \<Longrightarrow>
   fst (fold called_step ls (b, acc)) =
     (if b = [] then join_strings '', '' (map leg_number ls)
      else join_strings '', '' (b # map leg_number ls))"
proof (induction ls arbitrary: b acc)
  case Nil
  then show ?case by simp
next
  case (Cons l ls)
  then show ?case by (cases ls) (auto simp: called_step_def)
qed

section \<open>Properties\<close>

text \<open>
  C15 (functional): the parties of a finished record. For any sort that meets the contract of
  \<open>std::sort\<close>, \<open>b\<close> is a permutation of the legs that the record's legs name as last linked (a
  default leg for a name the record does not have), ordered by start time; \<open>a\<close> is the last
  originating leg in key order and stays as it was when there is none; and the links are a
  permutation of the record's links ordered by id.
\<close>

theorem finish_record_parties:
  assumes "sm_ok (cr_legs rc)" "cr_b rc = []"
    "std_sort legCompareByStartTime sort_legs" "std_sort linkCompareByLinkId sort_links"
  shows "mset (cr_b (finish_record sort_legs sort_links rc)) = mset (linked_legs (cr_legs rc)) \<and>
    sorted_wrt (\<lambda>x y. \<not> legCompareByStartTime y x) (cr_b (finish_record sort_legs sort_links rc)) \<and>
    cr_a (finish_record sort_legs sort_links rc) =
      (case filter cl_orig (map snd (cr_legs rc)) of [] \<Rightarrow> cr_a rc | l # ls \<Rightarrow> last (l # ls)) \<and>
    mset (cr_links (finish_record sort_legs sort_links rc)) = mset (cr_links rc) \<and>
    sorted_wrt (\<lambda>x y. \<not> linkCompareByLinkId y x) (cr_links (finish_record sort_legs sort_links rc))"
  using choose_parties_result [OF assms(1)] assms(2)
    std_sort.srt_mset [OF assms(3)] std_sort.srt_sorted [OF assms(3)]
    std_sort.srt_mset [OF assms(4)] std_sort.srt_sorted [OF assms(4)]
  by (simp add: finish_record_def Let_def)

theorem finish_record_parties_witness:
  "cr_a (finish_record (sort_key cl_start_time) (sort_key cll_id)
      (new_call_record call_leg_default (ex_leg ''a'' True ''t'') 5 :: unit call_record)) = ex_leg ''a'' True ''t''"
  using finish_record_parties [of "new_call_record call_leg_default (ex_leg ''a'' True ''t'') 5 :: unit call_record",
      OF _ _ legs_by_start.std_sort_axioms links_by_id.std_sort_axioms]
  by (simp add: new_call_record_def sm_insert_def ex_leg_def)

text \<open>
  The report builders. The raw report is defined exactly when the record has a linked
  leg; the voip report joins the numbers of the linked legs in order, and its
  \<open>orig_uniqueid\<close> is one control character whatever the unique id is.
\<close>

theorem report_builders:
  assumes "\<forall>l \<in> set (cr_b rc). leg_number l \<noteq> []"
  shows "(build_legs_aggr_raw mk rc = Undefined \<longleftrightarrow> cr_b rc = []) \<and>
    dvr_called_original_number (fst (build_voip_record g us ua rc))
      = join_strings '', '' (map leg_number (cr_b rc)) \<and>
    dvr_orig_uniqueid (fst (build_voip_record g us ua rc)) \<in> {[char_of (0 :: nat)], [char_of (1 :: nat)]}"
proof (intro conjI)
  show "build_legs_aggr_raw mk rc = Undefined \<longleftrightarrow> cr_b rc = []"
    by (simp add: build_legs_aggr_raw_def Let_def split: list.split)
  obtain event r where v: "voip_event rc = (event, r)" by (meson surj_pair)
  obtain called acc where c: "fold called_step (cr_b r) ([], ua) = (called, acc)" by (meson surj_pair)
  show "dvr_orig_uniqueid (fst (build_voip_record g us ua rc)) \<in> {[char_of (0 :: nat)], [char_of (1 :: nat)]}"
    by (simp add: build_voip_record_def Let_def v c)
  show "dvr_called_original_number (fst (build_voip_record g us ua rc))
      = join_strings '', '' (map leg_number (cr_b rc))"
    using fold_called_step [OF assms, of "[]" ua] c v voip_event_keeps_b [of rc] by (simp add: build_voip_record_def Let_def)
qed

theorem report_builders_witness:
  "build_legs_aggr_raw (\<lambda>_. ()) (new_call_record call_leg_default (ex_leg ''a'' True ''t'') 5) = Undefined"
  using report_builders [of "new_call_record call_leg_default (ex_leg ''a'' True ''t'') 5 :: unit call_record" "\<lambda>_. ()"]
  by (simp add: new_call_record_def)

end
