(* ===== verification/Data.thy ===== *)
theory Data
  imports Readers
begin

text \<open>
  \<open>src/data\<close>: the data that is loaded as a whole. \<open>BaseDataImpl\<close> (a loading transaction around
  a list object), the version counter, \<open>CountersLoader\<close> and \<open>ObjCounter\<close>, the list objects of
  legs and links with their indices, \<open>Container\<close>, \<open>Repository\<close> and the stored parameters.

  A pointer to an element of the vector \<open>data\<close> is the index of the element. The rows of a
  result are a list, \<open>parse_item\<close> is a function of a row. Clock readings are parameters.
\<close>

section \<open>\<open>BaseDataImpl\<close>\<close>

datatype base_data_state = NOT_LOADED | LOADING | LOADED

record 'a base_data =
  bd_state :: base_data_state
  bd_version :: nat
  bd_total_time_in_ms :: int
  bd_last_loading_time :: int
  bd_loading_start :: int
  bd_data :: "'a option"

definition bd_new :: "'a base_data" where
  "bd_new = \<lparr>bd_state = NOT_LOADED, bd_version = 0, bd_total_time_in_ms = 0, bd_last_loading_time = 0,
             bd_loading_start = 0, bd_data = None\<rparr>"

text \<open>\<open>fetch_data_version\<close>: the old value of the global counter, which moves on.\<close>

definition fetch_data_version :: "nat \<Rightarrow> nat \<times> nat" where
  "fetch_data_version g = (g, g + 1)"

definition start_loading :: "int \<Rightarrow> 'a base_data \<Rightarrow> 'a base_data" where
  "start_loading now b = b\<lparr>bd_loading_start := now\<rparr>"

definition end_loading :: "int \<Rightarrow> 'a base_data \<Rightarrow> 'a base_data" where
  "end_loading now b =
     (let b = b\<lparr>bd_last_loading_time := now - bd_loading_start b\<rparr>
      in b\<lparr>bd_total_time_in_ms := bd_total_time_in_ms b + bd_last_loading_time b\<rparr>)"

definition lt_new :: "int \<Rightarrow> 'a base_data \<Rightarrow> 'a base_data outcome" where
  "lt_new now b =
     (if bd_state b = LOADING then Throws ''can't execute nested loading transaction''
      else Ok ((start_loading now b)\<lparr>bd_state := LOADING\<rparr>))"

text \<open>The destructor: \<open>new_state\<close> is \<open>LOADED\<close> after \<open>setCompleted\<close>.\<close>

definition lt_destroy :: "int \<Rightarrow> base_data_state \<Rightarrow> 'a \<Rightarrow> 'a base_data \<times> nat \<Rightarrow> 'a base_data \<times> nat" where
  "lt_destroy now new_state new_data = (\<lambda>(b, g).
     let b = (end_loading now b)\<lparr>bd_state := new_state\<rparr>
     in if new_state = LOADED
        then let (v, g) = fetch_data_version g in (b\<lparr>bd_data := Some new_data, bd_version := v\<rparr>, g)
        else (b, g))"

text \<open>
  \<open>BaseDataImpl::load\<close>. \<open>list_load\<close> is the load of the new list object: the object it leaves
  and the message of an exception it ends with. The destructor runs on both ways out.
\<close>

definition bd_load ::
  "int \<Rightarrow> int \<Rightarrow> 'a \<times> string option \<Rightarrow> 'a base_data \<times> nat \<Rightarrow> ('a base_data \<times> nat) \<times> unit outcome" where
  "bd_load t0 t1 list_load = (\<lambda>(b, g).
     case lt_new t0 b of
       Ok b \<Rightarrow> (case list_load of
           (new_data, None) \<Rightarrow> (lt_destroy t1 LOADED new_data (b, g), Ok ())
         | (new_data, Some m) \<Rightarrow> (lt_destroy t1 NOT_LOADED new_data (b, g), Throws m))
     | Throws m \<Rightarrow> ((b, g), Throws m)
     | Undefined \<Rightarrow> ((b, g), Undefined)
     | Diverges \<Rightarrow> ((b, g), Diverges))"

definition bd_ready :: "'a base_data \<Rightarrow> bool" where
  "bd_ready b \<longleftrightarrow> bd_state b = LOADED"

definition bd_get_time_in_ms :: "'a base_data \<Rightarrow> int" where
  "bd_get_time_in_ms b = bd_loading_start b + bd_last_loading_time b"

definition bd_last_time :: "int \<Rightarrow> 'a base_data \<Rightarrow> int" where
  "bd_last_time now b =
     (if bd_state b = LOADING then now - bd_loading_start b else bd_last_loading_time b)"

section \<open>\<open>ObjList\<close>\<close>

record 'a obj_list =
  ol_loadtime :: int
  ol_data :: "'a list"

text \<open>
  \<open>ObjList::load\<close>: the vector is emptied, resized to value-initialised elements \<open>item0\<close>, and
  the element at the position of each row is parsed. \<open>before\<close> and \<open>after\<close> are the hooks.
\<close>

definition ol_fill :: "'a \<Rightarrow> (db_row \<Rightarrow> 'a) \<Rightarrow> db_row list \<Rightarrow> 'a list" where
  "ol_fill item0 parse_item rows =
     fold (\<lambda>(i, row) d. d[i := parse_item row]) (enumerate 0 rows) (replicate (length rows) item0)"

definition ol_load ::
  "(('a, 'r) obj_list_scheme \<Rightarrow> ('a, 'r) obj_list_scheme) \<Rightarrow>
   (('a, 'r) obj_list_scheme \<Rightarrow> ('a, 'r) obj_list_scheme outcome) \<Rightarrow>
   'a \<Rightarrow> (db_row \<Rightarrow> 'a) \<Rightarrow> int \<Rightarrow> db_row list \<Rightarrow>
   ('a, 'r) obj_list_scheme \<Rightarrow> ('a, 'r) obj_list_scheme outcome" where
  "ol_load before after item0 parse_item now rows l =
     (let l = before (l\<lparr>ol_loadtime := now\<rparr>);
          l = l\<lparr>ol_data := ol_fill item0 parse_item rows\<rparr>
      in after l)"

definition ol_size :: "('a, 'r) obj_list_scheme \<Rightarrow> nat" where
  "ol_size l = length (ol_data l)"

definition ol_get :: "nat \<Rightarrow> ('a, 'r) obj_list_scheme \<Rightarrow> 'a outcome" where
  "ol_get i l = vector_at (ol_data l) (int i)"

lemma fill_from:
  "fold (\<lambda>(i, row) d. d[i := f row]) (enumerate (length pre) rows) (pre @ replicate (length rows) x)
     = pre @ map f rows"
proof (induction rows arbitrary: pre)
  case (Cons row rows)
  have "(pre @ replicate (length (row # rows)) x)[length pre := f row]
      = (pre @ [f row]) @ replicate (length rows) x" by (simp add: list_update_append)
  with Cons [of "pre @ [f row]"] show ?case by simp
qed simp

lemma ol_fill_map [simp]: "ol_fill item0 f rows = map f rows"
  unfolding ol_fill_def using fill_from [of f "[]" rows item0] by simp

section \<open>\<open>CallLegList\<close>\<close>

record leg_list = "call_leg obj_list" +
  ll_records :: "(string \<times> nat) list"
  ll_startTime :: string
  ll_stopTime :: string

definition leg_list_new :: "string \<Rightarrow> string \<Rightarrow> leg_list" where
  "leg_list_new start stop =
     \<lparr>ol_loadtime = 0, ol_data = [], ll_records = [], ll_startTime = start, ll_stopTime = stop\<rparr>"

definition leg_list_sql :: "leg_list \<Rightarrow> string" where
  "leg_list_sql l =
     ''select * from call_leg where '' @ ''start_time > '' @ quoted (ll_startTime l) @ '' and ''
     @ ''start_time <= '' @ quoted (ll_stopTime l)"

text \<open>\<open>parse_item\<close> writes every member of the element, the way the leg reader does.\<close>

definition parse_leg_item :: "db_row \<Rightarrow> call_leg \<Rightarrow> call_leg" where
  "parse_leg_item row item =
     item\<lparr>cl_id := row_ll row ''call_leg_id'', cl_server_id := row_i row ''server_id'',
      cl_uniqueid := row_s row ''uniqueid'', cl_channame := row_s row ''channame'', cl_orig := row_b row ''orig'',
      cl_account_id := row_i row ''account_id'', cl_vpbx_id := row_i row ''vpbx_id'',
      cl_start_time := row_s row ''start_time'', cl_answer_time := row_s row ''answer_time'',
      cl_stop_time := row_s row ''stop_time'', cl_final_status := row_s row ''final_status'',
      cl_q931_status := row_i row ''q931_status'', cl_hangup_cause := row_s row ''hangup_cause'',
      cl_number := row_s row ''number'', cl_name := row_s row ''name'', cl_did := row_ll row ''did'',
      cl_did_type := row_s row ''did_type'', cl_object_type := row_s row ''object_type'',
      cl_object_id := row_i row ''object_id'', cl_sip_ip := row_s row ''sip_ip'',
      cl_last_linked_id := row_s row ''last_linked_id'', cl_sip_call_hash_id := row_s row ''sip_call_hash_id'',
      cl_call_id_md5 := row_s row ''call_id_md5'', cl_extra_info_id := row_s row ''extra_info_id''\<rparr>"

lemma parse_leg_item_decode: "(\<lambda>row. parse_leg_item row item) = decode_leg"
  by (rule ext) (cases item, simp add: parse_leg_item_def decode_leg_def)

definition leg_list_after_load :: "leg_list \<Rightarrow> leg_list outcome" where
  "leg_list_after_load l =
     Ok (l\<lparr>ll_records := fold (\<lambda>(i, leg). sm_set (cl_uniqueid leg) i) (enumerate 0 (ol_data l)) (ll_records l)\<rparr>)"

definition leg_list_load :: "int \<Rightarrow> db_row list \<Rightarrow> leg_list \<Rightarrow> leg_list outcome" where
  "leg_list_load =
     ol_load (\<lambda>l. l) leg_list_after_load call_leg_default (\<lambda>row. parse_leg_item row call_leg_default)"

definition getByUniqueId :: "string \<Rightarrow> leg_list \<Rightarrow> nat option" where
  "getByUniqueId uid l = map_of (ll_records l) uid"

section \<open>\<open>CallLegLinkList\<close>\<close>

record 'j link_list = "'j call_leg_link obj_list" +
  kl_origRecords :: "(string \<times> nat list) list"
  kl_startTime :: string
  kl_stopTime :: string
  kl_lastTime :: string

definition link_list_new :: "string \<Rightarrow> string \<Rightarrow> 'j link_list" where
  "link_list_new start stop =
     \<lparr>ol_loadtime = 0, ol_data = [], kl_origRecords = [], kl_startTime = start, kl_stopTime = stop,
      kl_lastTime = start\<rparr>"

definition link_list_sql :: "'j link_list \<Rightarrow> string" where
  "link_list_sql l =
     ''select * from call_leg_link where '' @ ''link_start_time > '' @ quoted (kl_startTime l) @ '' and ''
     @ ''link_start_time <= '' @ quoted (kl_stopTime l)"

definition parse_link_item :: "(string \<Rightarrow> 'j) \<Rightarrow> db_row \<Rightarrow> 'j call_leg_link \<Rightarrow> 'j call_leg_link" where
  "parse_link_item json_text row item =
     item\<lparr>cll_id := row_ll row ''call_leg_link_id'', cll_server_id := row_i row ''server_id'',
      cll_uniqueid_orig := row_s row ''uniqueid_orig'', cll_channame_orig := row_s row ''channame_orig'',
      cll_uniqueid_term := row_s row ''uniqueid_term'', cll_channame_term := row_s row ''channame_term'',
      cll_link_start_time := row_s row ''link_start_time'', cll_link_answer_time := row_s row ''link_answer_time'',
      cll_link_end_time := row_s row ''link_end_time'', cll_rec_filename := row_s row ''rec_filename'',
      cll_status := row_s row ''status'', cll_bridged := row_b row ''bridged'', cll_cf := row_s row ''cf'',
      cll_trf_by := row_s row ''trf_by'', cll_queue_callid := row_s row ''queue_callid'',
      cll_object_type := row_s row ''object_type'', cll_object_data := json_text (row_s row ''object_data'')\<rparr>"

lemma parse_link_item_decode: "(\<lambda>row. parse_link_item json_text row item) = decode_link json_text"
  by (rule ext) (cases item, simp add: parse_link_item_def decode_link_def)

text \<open>One round of the loop of \<open>after_load\<close>; \<open>g\<close> is the content of the uninitialised \<open>struct tm\<close>.\<close>

definition index_link :: "tm \<Rightarrow> nat \<times> 'j call_leg_link \<Rightarrow> 'j link_list \<Rightarrow> 'j link_list" where
  "index_link g = (\<lambda>(i, cll) l.
     let l = (if stamp_of g (kl_lastTime l) < stamp_of g (cll_link_start_time cll)
              then l\<lparr>kl_lastTime := cll_link_start_time cll\<rparr> else l)
     in case map_of (kl_origRecords l) (cll_uniqueid_orig cll) of
          Some _ \<Rightarrow> l\<lparr>kl_origRecords := sm_push (cll_uniqueid_orig cll) i (kl_origRecords l)\<rparr>
        | None \<Rightarrow> l\<lparr>kl_origRecords := sm_set (cll_uniqueid_orig cll) [i] (kl_origRecords l)\<rparr>)"

text \<open>\<open>data.front()\<close> of an empty vector is undefined.\<close>

definition link_list_after_load :: "tm \<Rightarrow> 'j link_list \<Rightarrow> 'j link_list outcome" where
  "link_list_after_load g l =
     (case ol_data l of
        [] \<Rightarrow> Undefined
      | f # _ \<Rightarrow> Ok (fold (index_link g) (enumerate 0 (ol_data l)) (l\<lparr>kl_lastTime := cll_link_start_time f\<rparr>)))"

definition link_list_load ::
  "tm \<Rightarrow> 'j call_leg_link \<Rightarrow> (string \<Rightarrow> 'j) \<Rightarrow> int \<Rightarrow> db_row list \<Rightarrow> 'j link_list \<Rightarrow> 'j link_list outcome" where
  "link_list_load g item0 json_text =
     ol_load (\<lambda>l. l) (link_list_after_load g) item0 (\<lambda>row. parse_link_item json_text row item0)"

definition getByUniqueIdOrig :: "string \<Rightarrow> 'j link_list \<Rightarrow> nat list" where
  "getByUniqueIdOrig uid l = (case map_of (kl_origRecords l) uid of None \<Rightarrow> [] | Some is \<Rightarrow> is)"

definition getLastTime :: "'j link_list \<Rightarrow> string" where
  "getLastTime l = kl_lastTime l"

section \<open>\<open>CallLegOnlineList\<close> and \<open>CallLegLinkOnlineList\<close>\<close>

definition decode_leg_online :: "db_row \<Rightarrow> call_leg_online" where
  "decode_leg_online row =
     \<lparr>clo_uniqueid = row_s row ''uniqueid'', clo_channame = row_s row ''channame'', clo_orig = row_b row ''orig'',
      clo_account_id = row_i row ''account_id'', clo_vpbx_id = row_i row ''vpbx_id'',
      clo_start_time = row_s row ''start_time'', clo_answer_time = row_s row ''answer_time'',
      clo_stop_time = row_s row ''stop_time'', clo_final_status = row_s row ''final_status'',
      clo_q931_status = row_i row ''q931_status'', clo_hangup_cause = row_s row ''hangup_cause'',
      clo_number = row_s row ''number'', clo_name = row_s row ''name'', clo_did = row_ll row ''did'',
      clo_did_type = row_s row ''did_type'', clo_object_type = row_s row ''object_type'',
      clo_object_id = row_i row ''object_id'', clo_sip_ip = row_s row ''sip_ip'',
      clo_last_linked_id = row_s row ''last_linked_id'', clo_sip_call_hash_id = row_s row ''sip_call_hash_id'',
      clo_extra_info_id = row_s row ''extra_info_id''\<rparr>"

record leg_online_list = "call_leg_online obj_list" +
  lo_uniqueid :: "string set"

definition leg_online_after_load :: "leg_online_list \<Rightarrow> leg_online_list outcome" where
  "leg_online_after_load l =
     Ok (l\<lparr>lo_uniqueid := fold (\<lambda>clo. insert (clo_uniqueid clo)) (ol_data l) (lo_uniqueid l)\<rparr>)"

definition leg_online_load :: "call_leg_online \<Rightarrow> int \<Rightarrow> db_row list \<Rightarrow> leg_online_list \<Rightarrow> leg_online_list outcome" where
  "leg_online_load item0 = ol_load (\<lambda>l. l) leg_online_after_load item0 decode_leg_online"

definition leg_online_check :: "string \<Rightarrow> leg_online_list \<Rightarrow> bool" where
  "leg_online_check uid l \<longleftrightarrow> uid \<in> lo_uniqueid l"

definition decode_link_online :: "db_row \<Rightarrow> call_leg_link_online" where
  "decode_link_online row =
     \<lparr>cllo_uniqueid_orig = row_s row ''uniqueid_orig'', cllo_channame_orig = row_s row ''channame_orig'',
      cllo_uniqueid_term = row_s row ''uniqueid_term'', cllo_channame_term = row_s row ''channame_term'',
      cllo_link_start_time = row_s row ''link_start_time'', cllo_link_answer_time = row_s row ''link_answer_time'',
      cllo_link_end_time = row_s row ''link_end_time'', cllo_rec_filename = row_s row ''rec_filename'',
      cllo_status = row_s row ''status'', cllo_bridged = row_b row ''bridged'', cllo_cf = row_s row ''cf'',
      cllo_trf_by = row_s row ''trf_by'', cllo_queue_callid = row_s row ''queue_callid'',
      cllo_object_type = row_s row ''object_type'', cllo_object_data = row_s row ''object_data''\<rparr>"

record link_online_list = "call_leg_link_online obj_list" +
  ko_uniqueid :: "string set"
  ko_uniqueidOrig :: "(string \<times> call_leg_link_online) list"
  ko_uniqueidTerm :: "(string \<times> call_leg_link_online) list"

text \<open>Only the set is cleared before a load; the maps keep what they hold.\<close>

definition link_online_before_load :: "link_online_list \<Rightarrow> link_online_list" where
  "link_online_before_load l = l\<lparr>ko_uniqueid := {}\<rparr>"

definition index_link_online :: "call_leg_link_online \<Rightarrow> link_online_list \<Rightarrow> link_online_list" where
  "index_link_online cll l =
     l\<lparr>ko_uniqueid := insert (cllo_uniqueid_term cll) (insert (cllo_uniqueid_orig cll) (ko_uniqueid l)),
       ko_uniqueidOrig := sm_set (cllo_uniqueid_orig cll) cll (ko_uniqueidOrig l),
       ko_uniqueidTerm := sm_set (cllo_uniqueid_term cll) cll (ko_uniqueidTerm l)\<rparr>"

definition link_online_after_load :: "link_online_list \<Rightarrow> link_online_list outcome" where
  "link_online_after_load l = Ok (fold index_link_online (ol_data l) l)"

definition link_online_load ::
  "call_leg_link_online \<Rightarrow> int \<Rightarrow> db_row list \<Rightarrow> link_online_list \<Rightarrow> link_online_list outcome" where
  "link_online_load item0 = ol_load link_online_before_load link_online_after_load item0 decode_link_online"

definition link_online_check :: "string \<Rightarrow> link_online_list \<Rightarrow> bool" where
  "link_online_check uid l \<longleftrightarrow> uid \<in> ko_uniqueid l"

text \<open>\<open>get_orig_term\<close> has an empty body: it flows off the end of a function with a result.\<close>

definition get_orig_term :: "string \<Rightarrow> string \<Rightarrow> link_online_list \<Rightarrow> nat option outcome" where
  "get_orig_term uid_orig uid_term l = Undefined"

section \<open>\<open>ObjCounter\<close> and \<open>CountersLoader\<close>\<close>

text \<open>The \<open>unordered_map\<close> is kept as a map ordered by the key; its order is not observed.\<close>

record 'v obj_counter =
  oc_data :: "(int \<times> 'v) list"
  oc_loadtime :: int
  oc_data_version :: nat

definition oc_new :: "'v obj_counter" where
  "oc_new = \<lparr>oc_data = [], oc_loadtime = 0, oc_data_version = 0\<rparr>"

definition oc_load ::
  "'v \<Rightarrow> (db_row \<Rightarrow> 'v) \<Rightarrow> int \<Rightarrow> db_row list \<Rightarrow> 'v obj_counter \<Rightarrow> 'v list \<times> 'v obj_counter" where
  "oc_load item0 parse_item now rows c = (ol_fill item0 parse_item rows, c\<lparr>oc_loadtime := now\<rparr>)"

definition oc_get :: "int \<Rightarrow> 'v obj_counter \<Rightarrow> 'v outcome" where
  "oc_get i c = (case map_of (oc_data c) i of Some v \<Rightarrow> Ok v | None \<Rightarrow> Throws ''_Map_base::at'')"

definition haveNewRows :: "int list \<Rightarrow> 'v obj_counter option \<Rightarrow> bool" where
  "haveNewRows ids counter =
     (case counter of None \<Rightarrow> True | Some c \<Rightarrow> list_ex (\<lambda>i. map_of (oc_data c) i = None) ids)"

text \<open>
  \<open>CountersLoader::load\<close>. \<open>currentCounter\<close> is the stored object when there is one, so its load
  time is written through the pointer; a new counter is filled from its data and replaces it.
\<close>

definition counters_load ::
  "('v \<Rightarrow> int) \<Rightarrow> 'v \<Rightarrow> (db_row \<Rightarrow> 'v) \<Rightarrow> int \<Rightarrow> int list \<Rightarrow> db_row list \<Rightarrow>
   'v obj_counter option \<times> nat \<Rightarrow> 'v obj_counter option \<times> nat" where
  "counters_load item_id item0 parse_item now ids rows = (\<lambda>(counter, g).
     let cur = (case counter of Some c \<Rightarrow> c | None \<Rightarrow> oc_new);
         (updated, cur) = oc_load item0 parse_item now rows cur;
         haveDeletedRows = (length updated \<noteq> length ids)
     in if counter = None \<or> haveDeletedRows \<or> haveNewRows ids counter
        then let data = fold sm_erase ids (oc_data cur);
                 data = fold (\<lambda>v. sm_set (item_id v) v) updated data;
                 (ver, g) = fetch_data_version g
             in (Some (oc_new\<lparr>oc_data := data, oc_data_version := ver\<rparr>), g)
        else (Some (cur\<lparr>oc_data := fold (\<lambda>v. sm_set (item_id v) v) updated (oc_data cur)\<rparr>), g))"

section \<open>\<open>Container\<close> and \<open>Repository\<close>\<close>

text \<open>\<open>all_data\<close> lists nothing, so \<open>loaded\<close> only latches.\<close>

definition all_data :: "(string \<times> 'a base_data) list" where
  "all_data = []"

definition container_loaded :: "bool \<Rightarrow> bool \<times> bool" where
  "container_loaded latch =
     (if latch then (True, True)
      else if list_ex (\<lambda>(nm, b). bd_data (b :: unit base_data) = None) all_data then (False, latch)
      else (True, True))"

record repository =
  rp_data_version :: nat
  rp_repository_time :: int

definition repo_prepare :: "nat \<Rightarrow> int \<Rightarrow> repository \<Rightarrow> bool \<times> repository" where
  "repo_prepare current_data_version time r =
     (let r = r\<lparr>rp_repository_time := time\<rparr>
      in if current_data_version = rp_data_version r then (True, r)
         else (True, r\<lparr>rp_data_version := current_data_version\<rparr>))"

section \<open>Stored parameters, \<open>persistent.cpp\<close>\<close>

definition insert_parameter_sql :: "string \<Rightarrow> string \<Rightarrow> string" where
  "insert_parameter_sql name val =
     ''INSERT INTO public.setting(name, value) VALUES('' @ [CHR 39] @ name @ [CHR 39] @ '' ,''
     @ [CHR 39] @ val @ [CHR 39] @ '')''"

definition update_parameter_sql :: "string \<Rightarrow> string \<Rightarrow> string" where
  "update_parameter_sql name val =
     ''UPDATE public.setting SET value = '' @ quoted val @ '' WHERE name = '' @ quoted name"

definition store_parameter ::
  "(string \<Rightarrow> 'w \<Rightarrow> 'e option \<times> 'w) \<Rightarrow> string \<Rightarrow> string \<Rightarrow> 'w \<Rightarrow> 'e option \<times> 'w" where
  "store_parameter ex name val w =
     (case ex (insert_parameter_sql name val) w of
        (None, w) \<Rightarrow> (None, w)
      | (Some _, w) \<Rightarrow> ex (update_parameter_sql name val) w)"

definition store_parameter_int ::
  "(string \<Rightarrow> 'w \<Rightarrow> 'e option \<times> 'w) \<Rightarrow> string \<Rightarrow> int \<Rightarrow> 'w \<Rightarrow> 'e option \<times> 'w" where
  "store_parameter_int ex name val = store_parameter ex name (show_int val)"

definition load_parameter_sql :: "string \<Rightarrow> string" where
  "load_parameter_sql name = ''SELECT value FROM public.setting WHERE name = '' @ quoted name"

text \<open>\<open>query\<close> answers the first column of the rows, or throws (\<open>None\<close>).\<close>

definition load_parameter_int :: "(string \<Rightarrow> string list option) \<Rightarrow> string \<Rightarrow> int" where
  "load_parameter_int query name =
     (case query (load_parameter_sql name) of
        Some (v # _) \<Rightarrow> fst (strtol (c_str v))
      | Some [] \<Rightarrow> 0
      | None \<Rightarrow> 0)"

section \<open>Sequences of loads\<close>

text \<open>
  Several data objects share the version counter. An event is one load: the object, the clock
  before and after, and what its list load does.
\<close>

record 'a load_event =
  le_object :: nat
  le_start :: int
  le_end :: int
  le_result :: "'a \<times> string option"

definition load_step :: "'a load_event \<Rightarrow> (nat \<Rightarrow> 'a base_data) \<times> nat \<Rightarrow> (nat \<Rightarrow> 'a base_data) \<times> nat" where
  "load_step e = (\<lambda>(objs, g).
     let ((b, g), _) = bd_load (le_start e) (le_end e) (le_result e) (objs (le_object e), g)
     in (objs(le_object e := b), g))"

definition load_run :: "'a load_event list \<Rightarrow> (nat \<Rightarrow> 'a base_data) \<times> nat" where
  "load_run es = fold load_step es (\<lambda>_. bd_new, 1)"

definition completed_loads :: "nat \<Rightarrow> 'a load_event list \<Rightarrow> 'a list" where
  "completed_loads i es = map (fst \<circ> le_result) (filter (\<lambda>e. le_object e = i \<and> snd (le_result e) = None) es)"

lemmas load_defs = bd_load_def lt_new_def lt_destroy_def start_loading_def end_loading_def fetch_data_version_def

text \<open>One load of an object that is not loading, by how the list load ends.\<close>

lemma bd_load_ok:
  assumes "bd_state b \<noteq> LOADING"
  shows "bd_load t0 t1 (d, None) (b, g) =
    ((b\<lparr>bd_state := LOADED, bd_version := g, bd_loading_start := t0, bd_last_loading_time := t1 - t0,
        bd_total_time_in_ms := bd_total_time_in_ms b + (t1 - t0), bd_data := Some d\<rparr>, g + 1), Ok ())"
  using assms by (simp add: load_defs Let_def)

lemma bd_load_failed:
  assumes "bd_state b \<noteq> LOADING"
  shows "bd_load t0 t1 (d, Some m) (b, g) =
    ((b\<lparr>bd_state := NOT_LOADED, bd_loading_start := t0, bd_last_loading_time := t1 - t0,
        bd_total_time_in_ms := bd_total_time_in_ms b + (t1 - t0)\<rparr>, g), Throws m)"
  using assms by (simp add: load_defs Let_def)

lemma bd_load_nested:
  "bd_state b = LOADING \<Longrightarrow>
   bd_load t0 t1 r (b, g) = ((b, g), Throws ''can't execute nested loading transaction'')"
  by (simp add: load_defs)

text \<open>What holds of an object after a history of loads \<open>es\<close> with the counter at \<open>g\<close>.\<close>

definition object_ok :: "'a load_event list \<Rightarrow> nat \<Rightarrow> nat \<Rightarrow> 'a base_data \<Rightarrow> bool" where
  "object_ok es g i b \<longleftrightarrow> bd_state b \<noteq> LOADING \<and> bd_version b < g \<and> (bd_version b = 0 \<longleftrightarrow> bd_data b = None) \<and>
     bd_data b = (if completed_loads i es = [] then None else Some (last (completed_loads i es))) \<and>
     (bd_ready b \<longleftrightarrow> (filter (\<lambda>e. le_object e = i) es \<noteq> [] \<and>
        snd (le_result (last (filter (\<lambda>e. le_object e = i) es))) = None)) \<and>
     bd_total_time_in_ms b = sum_list (map (\<lambda>e. le_end e - le_start e) (filter (\<lambda>e. le_object e = i) es))"

lemma object_ok_other:
  "object_ok es g i b \<Longrightarrow> le_object e \<noteq> i \<Longrightarrow> g \<le> g' \<Longrightarrow> object_ok (es @ [e]) g' i b"
  by (auto simp: object_ok_def completed_loads_def)

lemma object_ok_load:
  assumes "object_ok es g i b" "le_object e = i" "0 < g"
  shows "\<exists>b' g'. fst (bd_load (le_start e) (le_end e) (le_result e) (b, g)) = (b', g') \<and>
    object_ok (es @ [e]) g' i b' \<and> g \<le> g' \<and> (bd_version b' = bd_version b \<or> bd_version b' = g)"
proof -
  obtain d r where e: "le_result e = (d, r)" by (meson surj_pair)
  have n: "bd_state b \<noteq> LOADING" using assms(1) by (simp add: object_ok_def)
  show ?thesis
    using assms unfolding e
    by (cases r) (auto simp: bd_load_ok [OF n] bd_load_failed [OF n] object_ok_def completed_loads_def
        bd_ready_def e)
qed

lemma load_run_snoc: "load_run (es @ [e]) = load_step e (load_run es)"
  by (simp add: load_run_def)

lemma load_run_ok:
  "0 < snd (load_run es) \<and> (\<forall>i. object_ok es (snd (load_run es)) i (fst (load_run es) i)) \<and>
   (\<forall>i j. i \<noteq> j \<longrightarrow> bd_version (fst (load_run es) i) \<noteq> 0 \<longrightarrow>
      bd_version (fst (load_run es) i) \<noteq> bd_version (fst (load_run es) j))"
proof (induction es rule: rev_induct)
  case Nil
  show ?case by (simp add: load_run_def object_ok_def completed_loads_def bd_new_def bd_ready_def)
next
  case (snoc e es)
  obtain objs g where r: "load_run es = (objs, g)" by (meson surj_pair)
  from snoc r have ih: "0 < g" "\<And>i. object_ok es g i (objs i)"
    "\<And>i j. i \<noteq> j \<Longrightarrow> bd_version (objs i) \<noteq> 0 \<Longrightarrow> bd_version (objs i) \<noteq> bd_version (objs j)" by auto
  obtain b' g' where s: "fst (bd_load (le_start e) (le_end e) (le_result e) (objs (le_object e), g)) = (b', g')"
    "object_ok (es @ [e]) g' (le_object e) b'" "g \<le> g'"
    "bd_version b' = bd_version (objs (le_object e)) \<or> bd_version b' = g"
    using object_ok_load [OF ih(2) refl ih(1), of e] by blast
  have run: "load_run (es @ [e]) = (objs(le_object e := b'), g')"
    using s(1) by (simp add: load_run_snoc r load_step_def split_def Let_def)
  have other: "bd_version (objs i) < g" for i using ih(2) [of i] by (simp add: object_ok_def)
  have new: "bd_version b' \<noteq> bd_version (objs i)"
    if "i \<noteq> le_object e" "bd_version b' \<noteq> 0 \<or> bd_version (objs i) \<noteq> 0" for i
    using s(4)
  proof
    assume "bd_version b' = bd_version (objs (le_object e))"
    then show ?thesis using ih(3) [of "le_object e" i] ih(3) [of i "le_object e"] that by metis
  next
    assume "bd_version b' = g"
    then show ?thesis using other [of i] by simp
  qed
  have vers: "bd_version ((objs(le_object e := b')) i) \<noteq> bd_version ((objs(le_object e := b')) j)"
    if ij: "i \<noteq> j" "bd_version ((objs(le_object e := b')) i) \<noteq> 0" for i j
  proof (cases "i = le_object e")
    case True
    with new [of j] ij show ?thesis by simp
  next
    case False
    with new [of i] ih(3) [of i j] ij show ?thesis by (cases "j = le_object e") simp_all
  qed
  have "object_ok (es @ [e]) g' i ((objs(le_object e := b')) i)" for i
    using s(2) object_ok_other [OF ih(2) _ s(3)] by (cases "i = le_object e") auto
  moreover have "0 < g'" using ih(1) s(3) by simp
  ultimately show ?case unfolding run fst_conv snd_conv using vers by blast
qed

section \<open>The indices of the lists\<close>

lemma index_link_keeps [simp]:
  "ol_data (fold (index_link g) xs l) = ol_data l"
  by (induction xs arbitrary: l) (auto simp: index_link_def Let_def split: option.split)

lemma index_link_origRecords:
  "kl_origRecords (fold (index_link g) xs l)
     = fold (\<lambda>(i, cll). sm_push (cll_uniqueid_orig cll) i) xs (kl_origRecords l)"
proof (induction xs arbitrary: l)
  case (Cons x xs)
  have "kl_origRecords (index_link g x l) = (case x of (i, cll) \<Rightarrow> sm_push (cll_uniqueid_orig cll) i) (kl_origRecords l)"
    by (cases x) (auto simp: index_link_def Let_def sm_push_def split: option.split)
  with Cons show ?case by simp
qed simp

lemma index_link_lastTime:
  "stamp_of g (kl_lastTime (fold (index_link g) xs l))
     = fold max (map (\<lambda>(i, cll). stamp_of g (cll_link_start_time cll)) xs) (stamp_of g (kl_lastTime l)) \<and>
   kl_lastTime (fold (index_link g) xs l) \<in> insert (kl_lastTime l) (cll_link_start_time ` snd ` set xs)"
proof (induction xs arbitrary: l)
  case (Cons x xs)
  obtain i cll where x: "x = (i, cll)" by (cases x)
  have "kl_lastTime (index_link g x l) = (if stamp_of g (kl_lastTime l) < stamp_of g (cll_link_start_time cll)
      then cll_link_start_time cll else kl_lastTime l)"
    by (auto simp: index_link_def x Let_def split: option.split)
  with Cons [of "index_link g x l"] show ?case by (auto simp: x max_def)
qed simp

lemma fold_max_insert: "fold max ys (x :: int) = Max (insert x (set ys))"
  using Max.set_eq_fold [of x ys] by simp

lemma bucket_push_index:
  "sm_ok m \<Longrightarrow> sbucket.bucket (fold (\<lambda>(i, x). sm_push (key x) i) (enumerate n xs) m) k
     = sbucket.bucket m k @ filter (\<lambda>i. key (xs ! (i - n)) = k) [n..<n + length xs]"
proof (induction xs rule: rev_induct)
  case (snoc x xs)
  have ok: "sm_ok (fold (\<lambda>(i, x). sm_push (key x) i) (enumerate n xs) m)"
    using snoc.prems by (induction xs rule: rev_induct) (auto simp: enumerate_append_eq)
  have "filter (\<lambda>i. key ((xs @ [x]) ! (i - n)) = k) [n..<n + length xs]
      = filter (\<lambda>i. key (xs ! (i - n)) = k) [n..<n + length xs]"
    by (rule filter_cong) (auto simp: nth_append)
  with snoc ok show ?case
    by (simp add: enumerate_append_eq sbucket.bucket_push)
qed simp

lemma getByUniqueIdOrig_bucket: "getByUniqueIdOrig uid l = sbucket.bucket (kl_origRecords l) uid"
  by (simp add: getByUniqueIdOrig_def sm_bucket_def)

section \<open>Properties\<close>



text \<open>
  The list of links. Loading no row is undefined; otherwise the elements are
  the decoded rows in order, \<open>getByUniqueIdOrig\<close> gives exactly the elements with that originating
  id, in order, and \<open>getLastTime\<close> is the start time of one of them with the greatest stamp.
\<close>

theorem link_list_load_indexes:
  "case link_list_load g item0 json_text now rows (link_list_new start stop) of
     Ok l \<Rightarrow> ol_data l = map (decode_link json_text) rows \<and>
       getByUniqueIdOrig uid l
         = filter (\<lambda>i. cll_uniqueid_orig (decode_link json_text (rows ! i)) = uid) [0..<length rows] \<and>
       getLastTime l \<in> set (map (\<lambda>row. cll_link_start_time (decode_link json_text row)) rows) \<and>
       stamp_of g (getLastTime l)
         = Max (set (map (\<lambda>row. stamp_of g (cll_link_start_time (decode_link json_text row))) rows))
   | Undefined \<Rightarrow> rows = []
   | _ \<Rightarrow> False"
proof (cases rows)
  case Nil
  then show ?thesis by (simp add: link_list_load_def ol_load_def link_list_after_load_def Let_def parse_link_item_decode)
next
  case (Cons r rs)
  define xs where "xs = map (decode_link json_text) rows"
  define l0 where "l0 = (link_list_new start stop)\<lparr>ol_loadtime := now, ol_data := xs,
    kl_lastTime := cll_link_start_time (decode_link json_text r)\<rparr>"
  define l where "l = fold (index_link g) (enumerate 0 xs) l0"
  have load: "link_list_load g item0 json_text now rows (link_list_new start stop) = Ok l"
    by (simp add: link_list_load_def ol_load_def link_list_after_load_def Let_def Cons xs_def l0_def l_def
        parse_link_item_decode)
  have data: "ol_data l = xs" by (simp add: l_def l0_def)
  have "kl_origRecords l0 = []" by (simp add: l0_def link_list_new_def)
  then have "getByUniqueIdOrig uid l = filter (\<lambda>i. cll_uniqueid_orig (xs ! i) = uid) [0..<length xs]"
    using bucket_push_index [of "[] :: (string \<times> nat list) list" cll_uniqueid_orig 0 xs uid]
    by (simp add: getByUniqueIdOrig_bucket l_def index_link_origRecords sm_bucket_def)
  moreover have "filter (\<lambda>i. cll_uniqueid_orig (xs ! i) = uid) [0..<length xs]
      = filter (\<lambda>i. cll_uniqueid_orig (decode_link json_text (rows ! i)) = uid) [0..<length rows]"
    unfolding xs_def by (rule filter_cong) auto
  ultimately have uids: "getByUniqueIdOrig uid l
      = filter (\<lambda>i. cll_uniqueid_orig (decode_link json_text (rows ! i)) = uid) [0..<length rows]" by simp
  have stamps: "map (\<lambda>(i, cll). f cll) (enumerate 0 xs) = map f xs" for f :: "'a call_leg_link \<Rightarrow> int"
    using map_map [of f snd "enumerate 0 xs"] by (simp add: split_def comp_def)
  have items: "snd ` set (enumerate 0 xs) = set xs" by (metis list.set_map map_snd_enumerate)
  have l0: "kl_lastTime l0 = cll_link_start_time (hd xs)" "hd xs \<in> set xs"
    by (simp_all add: l0_def xs_def Cons)
  have "insert (stamp_of g (cll_link_start_time (hd xs))) (set (map (\<lambda>cll. stamp_of g (cll_link_start_time cll)) xs))
      = set (map (\<lambda>cll. stamp_of g (cll_link_start_time cll)) xs)"
    using l0(2) by auto
  with index_link_lastTime [of g "enumerate 0 xs" l0, folded l_def] l0(2)
  have last: "kl_lastTime l \<in> cll_link_start_time ` set xs"
    "stamp_of g (kl_lastTime l) = Max (set (map (\<lambda>cll. stamp_of g (cll_link_start_time cll)) xs))"
    unfolding stamps items l0(1) fold_max_insert by auto
  show ?thesis
    using last by (simp add: load data getLastTime_def uids) (simp add: xs_def image_image)
qed

text \<open>
  Loading counters. When the database answers at most one row per asked id, the
  loader ends, whether it replaces the counter or writes into it, with the same map: an asked id
  has the row read for it or is gone, every other id keeps its value. Only a replacement takes a
  new version, so with the version the key set stays; and a replaced counter has load time 0.
\<close>

theorem counters_load_effect:
  fixes item_id :: "'v \<Rightarrow> int"
  assumes "sm_ok (oc_data cur)" "cur = (case counter of None \<Rightarrow> oc_new | Some c \<Rightarrow> c)"
    "distinct ids" "distinct (map item_id (map parse_item rows))"
    "set (map item_id (map parse_item rows)) \<subseteq> set ids"
  shows "\<exists>c' g'. counters_load item_id blank parse_item now ids rows (counter, g) = (Some c', g') \<and>
    (\<forall>k. map_of (oc_data c') k =
       (case filter (\<lambda>v. item_id v = k) (map parse_item rows) of
          v # vs \<Rightarrow> Some (last (v # vs))
        | [] \<Rightarrow> if k \<in> set ids then None else map_of (oc_data cur) k)) \<and>
    (g' = g \<longrightarrow> dom (map_of (oc_data c')) = dom (map_of (oc_data cur)) \<and> oc_loadtime c' = now) \<and>
    (g' \<noteq> g \<longrightarrow> g' = g + 1 \<and> oc_data_version c' = g \<and> oc_loadtime c' = 0)"
proof -
  let ?up = "map parse_item rows"
  define d0 where "d0 = fold sm_erase ids (oc_data cur)"
  define d1 where "d1 = fold (\<lambda>v. sm_set (item_id v) v) ?up d0"
  define d2 where "d2 = fold (\<lambda>v. sm_set (item_id v) v) ?up (oc_data cur)"
  define fresh where "fresh \<longleftrightarrow> counter = None \<or> length rows \<noteq> length ids \<or> haveNewRows ids counter"
  have ok: "sm_ok d0" unfolding d0_def using assms(1) by (rule smap.del_all_ok)
  have m0: "map_of d0 k = (if k \<in> set ids then None else map_of (oc_data cur) k)" for k
    unfolding d0_def using assms(1) by (rule smap.find_del_all)
  have m1: "map_of d1 k = (case filter (\<lambda>v. item_id v = k) ?up of [] \<Rightarrow> map_of d0 k | v # vs \<Rightarrow> Some (last (v # vs)))"
    for k unfolding d1_def by (rule smap.find_put_all [OF ok])
  have m2: "map_of d2 k = (case filter (\<lambda>v. item_id v = k) ?up of [] \<Rightarrow> map_of (oc_data cur) k | v # vs \<Rightarrow> Some (last (v # vs)))"
    for k unfolding d2_def by (rule smap.find_put_all [OF assms(1)])
  have run: "counters_load item_id blank parse_item now ids rows (counter, g) =
      (if fresh then (Some (oc_new\<lparr>oc_data := d1, oc_data_version := g\<rparr>), g + 1)
       else (Some (cur\<lparr>oc_loadtime := now, oc_data := d2\<rparr>), g))"
    by (simp add: counters_load_def oc_load_def fetch_data_version_def Let_def assms(2) fresh_def
        d0_def d1_def d2_def cong: option.case_cong split: option.split)
  show ?thesis
  proof (cases fresh)
    case True
    then show ?thesis by (simp add: run m0 m1 oc_new_def split: list.split)
  next
    case False
    then have "length ?up = length ids" "\<forall>k \<in> set ids. map_of (oc_data cur) k \<noteq> None"
      by (auto simp: fresh_def haveNewRows_def list_ex_iff assms(2))
    moreover from this(1) have all: "set (map item_id ?up) = set ids"
      using assms(3-5) by (intro card_subset_eq) (simp_all add: distinct_card del: set_map map_map)
    ultimately have "filter (\<lambda>v. item_id v = k) ?up \<noteq> []" if "k \<in> set ids" for k
      using that unfolding all [symmetric] by (auto simp: filter_empty_conv)
    moreover have "dom (map_of d2) = dom (map_of (oc_data cur))"
    proof (rule set_eqI)
      fix k
      show "k \<in> dom (map_of d2) \<longleftrightarrow> k \<in> dom (map_of (oc_data cur))"
      proof (cases "k \<in> set ids")
        case True
        with \<open>\<forall>k \<in> set ids. map_of (oc_data cur) k \<noteq> None\<close> show ?thesis
          by (auto simp: dom_def m2 split: list.split)
      next
        case out: False
        with all have "filter (\<lambda>v. item_id v = k) ?up = []" by (auto simp: filter_empty_conv)
        then show ?thesis by (simp add: dom_def m2)
      qed
    qed
    ultimately show ?thesis using False by (auto simp add: run m2 split: list.split)
  qed
qed

theorem counters_load_effect_witness:
  "\<exists>c' g'. counters_load (\<lambda>v. v) 0 (\<lambda>row. 7) 100 [7, 8] [\<lambda>c. []]
       (Some \<lparr>oc_data = [(5, 5), (7, 7), (8, 8)], oc_loadtime = 1, oc_data_version = 3\<rparr>, 4) = (Some c', g') \<and>
     map_of (oc_data c') 5 = Some (5 :: int) \<and> map_of (oc_data c') 8 = None"
proof -
  let ?c = "\<lparr>oc_data = [(5, 5), (7, 7), (8, 8)], oc_loadtime = 1, oc_data_version = 3\<rparr> :: int obj_counter"
  obtain c' g' where "counters_load (\<lambda>v. v) 0 (\<lambda>row. 7) 100 [7, 8] [\<lambda>c. []] (Some ?c, 4) = (Some c', g')"
    "\<forall>k. map_of (oc_data c') k =
       (case filter (\<lambda>v. v = k) (map (\<lambda>row. 7) [\<lambda>c. [] :: string]) of
          v # vs \<Rightarrow> Some (last (v # vs))
        | [] \<Rightarrow> if k \<in> set [7, 8] then None else map_of (oc_data ?c) k)"
    using counters_load_effect [where cur = ?c and counter = "Some ?c" and ids = "[7, 8]" and
        item_id = "\<lambda>v. v" and parse_item = "\<lambda>row. 7" and rows = "[\<lambda>c. []]" and blank = 0 and now = 100 and g = 4]
    by auto
  then show ?thesis by simp
qed

end
