(* ===== verification/Log.thy ===== *)
theory Log
  imports Utilities
begin

text \<open>
  \<open>src/log\<close>: levels, building a message from its arguments, the queue of the log thread with
  the delaying of repeated messages, the ring of the last messages and the file writers.

  A file is the text written to it, a file system a function from paths. The JSON value of a
  message is a value of the type parameter \<open>'j\<close>. The graylog writer talks to a socket and is
  not modelled; the handlers are the file writers.
\<close>

section \<open>Levels\<close>

datatype log_message_level = CRITICAL | WARNING | ERROR | NOTICE | INFO | VERBOSE | DEBUG
datatype log_message_destination = ANY | SMS | VOICE | DATA

text \<open>Enumerators compare by their position.\<close>

fun level_no :: "log_message_level \<Rightarrow> nat" where
  "level_no CRITICAL = 0"
| "level_no WARNING = 1"
| "level_no ERROR = 2"
| "level_no NOTICE = 3"
| "level_no INFO = 4"
| "level_no VERBOSE = 5"
| "level_no DEBUG = 6"

lemma level_no_eq [simp]: "level_no a = level_no b \<longleftrightarrow> a = b"
  by (cases a; cases b) simp_all

instantiation log_message_level :: linorder
begin

definition less_eq_log_message_level :: "log_message_level \<Rightarrow> log_message_level \<Rightarrow> bool" where
  "less_eq_log_message_level a b \<longleftrightarrow> level_no a \<le> level_no b"

definition less_log_message_level :: "log_message_level \<Rightarrow> log_message_level \<Rightarrow> bool" where
  "less_log_message_level a b \<longleftrightarrow> level_no a < level_no b"

instance
proof
  fix a b c :: log_message_level
  show "a < b \<longleftrightarrow> a \<le> b \<and> \<not> b \<le> a"
    by (auto simp: less_eq_log_message_level_def less_log_message_level_def)
  show "a \<le> a" by (simp add: less_eq_log_message_level_def)
  show "a \<le> b \<Longrightarrow> b \<le> c \<Longrightarrow> a \<le> c" by (simp add: less_eq_log_message_level_def)
  show "a \<le> b \<Longrightarrow> b \<le> a \<Longrightarrow> a = b" by (simp add: less_eq_log_message_level_def flip: level_no_eq)
  show "a \<le> b \<or> b \<le> a" by (auto simp: less_eq_log_message_level_def)
qed

end

fun show_level :: "log_message_level \<Rightarrow> string" where
  "show_level DEBUG = ''DEBUG''"
| "show_level VERBOSE = ''VERBOSE''"
| "show_level INFO = ''INFO''"
| "show_level NOTICE = ''NOTICE''"
| "show_level WARNING = ''WARNING''"
| "show_level ERROR = ''ERROR''"
| "show_level CRITICAL = ''CRITICAL''"

definition parse_log_level :: "string \<Rightarrow> log_message_level" where
  "parse_log_level level =
     (if level = ''DEBUG'' then DEBUG
      else if level = ''VERBOSE'' then VERBOSE
      else if level = ''INFO'' then INFO
      else if level = ''WARNING'' then WARNING
      else if level = ''NOTICE'' then NOTICE
      else if level = ''ERROR'' then ERROR
      else if level = ''CRITICAL'' then CRITICAL
      else INFO)"

section \<open>Messages\<close>

record 'j log_message =
  lm_message :: string
  lm_timestamp :: int
  lm_level :: log_message_level
  lm_thread_name :: string
  lm_delay_in_seconds :: int
  lm_json :: 'j
  lm_destination :: log_message_destination

text \<open>\<open>log_message()\<close>: the level is not initialised.\<close>

definition new_log_message :: "log_message_level \<Rightarrow> 'j \<Rightarrow> 'j log_message" where
  "new_log_message garbage null_json =
     \<lparr>lm_message = [], lm_timestamp = 0, lm_level = garbage, lm_thread_name = [], lm_delay_in_seconds = 0,
      lm_json = null_json, lm_destination = ANY\<rparr>"

text \<open>
  An argument of a log call: a text to be printed, the parameters (what \<open>dump\<close> does to the JSON
  value), a delay, a destination, or the manipulator \<open>allow\<close>, after which the stream fails when
  its level is not logged.
\<close>

datatype 'j log_argument =
    Print string | Parameters "'j \<Rightarrow> 'j" | Delay int | Destination log_message_destination
  | Allow log_message_level

fun place_argument ::
  "log_message_level \<Rightarrow> 'j log_argument \<Rightarrow> bool \<times> 'j log_message \<Rightarrow> bool \<times> 'j log_message" where
  "place_argument global (Parameters dump) (failed, mes) = (failed, mes\<lparr>lm_json := dump (lm_json mes)\<rparr>)"
| "place_argument global (Delay d) (failed, mes) = (failed, mes\<lparr>lm_delay_in_seconds := d\<rparr>)"
| "place_argument global (Destination d) (failed, mes) = (failed, mes\<lparr>lm_destination := d\<rparr>)"
| "place_argument global (Allow level) (failed, mes) = (failed \<or> level > global, mes)"
| "place_argument global (Print s) (failed, mes) =
     (failed, if failed then mes else mes\<lparr>lm_message := lm_message mes @ s\<rparr>)"

text \<open>\<open>Log::log_impl\<close> up to the call of \<open>send\<close>: the message to send, if any.\<close>

definition log_impl ::
  "log_message_level \<Rightarrow> int \<Rightarrow> 'j \<Rightarrow> log_message_level \<Rightarrow> 'j log_argument list \<Rightarrow> 'j log_message option" where
  "log_impl global now null_json level args =
     (if level > global then None
      else let mes = (new_log_message level null_json)\<lparr>lm_timestamp := now, lm_level := level\<rparr>
           in Some (snd (fold (place_argument global) args (False, mes))))"

section \<open>The log thread\<close>

record delay_value =
  dv_last_timestamp :: int
  dv_count :: nat
  dv_level :: log_message_level

record file_log_writer =
  fw_path2file :: string
  fw_destination :: log_message_destination

text \<open>A null pointer in the queue asks for a flush.\<close>

record 'j log_instance =
  li_handlers :: "file_log_writer list"
  li_messages :: "'j log_message list"
  li_last_messages :: "'j log_message ring"
  li_delay_storage :: "(string \<times> delay_value) list"
  li_queue :: "'j log_message option list"
  li_files :: "string \<Rightarrow> string"

definition log_start ::
  "'j log_message list \<Rightarrow> string \<Rightarrow> string \<Rightarrow> string \<Rightarrow> (string \<Rightarrow> string) \<Rightarrow> 'j log_instance" where
  "log_start buf path dir stm files =
     \<lparr>li_handlers =
        [\<lparr>fw_path2file = path, fw_destination = ANY\<rparr>,
         \<lparr>fw_path2file = dir @ ''/'' @ stm @ ''_sms.log'', fw_destination = SMS\<rparr>,
         \<lparr>fw_path2file = dir @ ''/'' @ stm @ ''_voice.log'', fw_destination = VOICE\<rparr>,
         \<lparr>fw_path2file = dir @ ''/'' @ stm @ ''_data.log'', fw_destination = DATA\<rparr>],
      li_messages = [], li_last_messages = rb_new buf, li_delay_storage = [], li_queue = [], li_files = files\<rparr>"

definition register_log_handler :: "file_log_writer \<Rightarrow> 'j log_instance \<Rightarrow> 'j log_instance" where
  "register_log_handler handl li = li\<lparr>li_handlers := li_handlers li @ [handl]\<rparr>"

definition send_log_message :: "'j log_message \<Rightarrow> 'j log_instance \<Rightarrow> 'j log_instance" where
  "send_log_message mes li = li\<lparr>li_queue := li_queue li @ [Some mes]\<rparr>"

definition log_send :: "string \<Rightarrow> 'j log_message \<Rightarrow> 'j log_instance \<Rightarrow> 'j log_instance" where
  "log_send thread mes = send_log_message (mes\<lparr>lm_thread_name := thread\<rparr>)"

definition flush_logs :: "'j log_instance \<Rightarrow> 'j log_instance" where
  "flush_logs li = li\<lparr>li_queue := li_queue li @ [None]\<rparr>"

definition time_max :: int where "time_max = 2 ^ 63 - 1"

definition clear_logs :: "log_message_level \<Rightarrow> 'j \<Rightarrow> 'j log_instance \<Rightarrow> 'j log_instance" where
  "clear_logs garbage null_json li =
     li\<lparr>li_queue := li_queue li @ [Some ((new_log_message garbage null_json)\<lparr>lm_delay_in_seconds := time_max\<rparr>)]\<rparr>"

section \<open>Delayed messages\<close>

definition counted :: "nat \<Rightarrow> string \<Rightarrow> string" where
  "counted n text = (if n = 1 then text else ''[x'' @ show_nat n @ ''] '' @ text)"

definition summary_message :: "string \<Rightarrow> 'j \<Rightarrow> string \<Rightarrow> delay_value \<Rightarrow> 'j log_message" where
  "summary_message thread null_json text d =
     \<lparr>lm_message = counted (dv_count d) text, lm_timestamp = dv_last_timestamp d, lm_level = dv_level d,
      lm_thread_name = thread, lm_delay_in_seconds = 0, lm_json = null_json, lm_destination = ANY\<rparr>"

text \<open>The loop of \<open>clear_delay_messages\<close>: the storage left over and the instance it has sent to.\<close>

fun clear_loop ::
  "int \<Rightarrow> string \<Rightarrow> 'j \<Rightarrow> (string \<times> delay_value) list \<Rightarrow> 'j log_instance \<Rightarrow>
   (string \<times> delay_value) list \<times> 'j log_instance" where
  "clear_loop now thread null_json [] li = ([], li)"
| "clear_loop now thread null_json ((text, d) # es) li =
     (if now - dv_last_timestamp d > 3600
      then clear_loop now thread null_json es
             (if dv_count d > 0 then send_log_message (summary_message thread null_json text d) li else li)
      else let (kept, li) = clear_loop now thread null_json es li in ((text, d) # kept, li))"

definition clear_delay_messages :: "int \<Rightarrow> string \<Rightarrow> 'j \<Rightarrow> 'j log_instance \<Rightarrow> 'j log_instance" where
  "clear_delay_messages now thread null_json li =
     (let (kept, li) = clear_loop now thread null_json (li_delay_storage li) li
      in li\<lparr>li_delay_storage := kept\<rparr>)"

text \<open>A new \<open>delay_value\<close>; its level is written before it is read.\<close>

definition delay_value_new :: "log_message_level \<Rightarrow> delay_value" where
  "delay_value_new level = \<lparr>dv_last_timestamp = 0, dv_count = 0, dv_level = level\<rparr>"

definition delay_slot :: "'j log_message \<Rightarrow> (string \<times> delay_value) list \<Rightarrow> delay_value" where
  "delay_slot m storage =
     (case map_of storage (lm_message m) of Some d \<Rightarrow> d | None \<Rightarrow> delay_value_new (lm_level m))"

text \<open>\<open>True\<close> holds the message back. The text of a message that is let through is rewritten in place.\<close>

definition delay_message ::
  "int \<Rightarrow> string \<Rightarrow> 'j \<Rightarrow> 'j log_message option \<Rightarrow> 'j log_instance \<Rightarrow>
   (bool \<times> 'j log_message option) \<times> 'j log_instance" where
  "delay_message now thread null_json ptr li =
     (case ptr of
        None \<Rightarrow> ((False, None), li)
      | Some m \<Rightarrow>
          if lm_delay_in_seconds m = 0 then ((False, Some m), li)
          else if lm_delay_in_seconds m = time_max
          then ((True, Some m), clear_delay_messages now thread null_json li)
          else
            let d = delay_slot m (li_delay_storage li);
                d = d\<lparr>dv_count := dv_count d + 1, dv_level := lm_level m\<rparr>
            in if lm_timestamp m - dv_last_timestamp d > lm_delay_in_seconds m
               then ((False, Some (m\<lparr>lm_message := counted (dv_count d) (lm_message m)\<rparr>)),
                     li\<lparr>li_delay_storage := sm_set (lm_message m)
                          (d\<lparr>dv_count := 0, dv_last_timestamp := lm_timestamp m\<rparr>) (li_delay_storage li)\<rparr>)
               else ((True, Some m), li\<lparr>li_delay_storage := sm_set (lm_message m) d (li_delay_storage li)\<rparr>))"

section \<open>The file writers and the loop\<close>

definition write_single_message :: "'j log_message \<Rightarrow> string" where
  "write_single_message mes =
     ''['' @ string_time (lm_timestamp mes) @ ''] ['' @ lm_thread_name mes @ ''] ['' @ show_level (lm_level mes)
     @ '']    '' @ lm_message mes @ newline"

definition on_log :: "'j log_message list \<Rightarrow> file_log_writer \<Rightarrow> (string \<Rightarrow> string) \<Rightarrow> string \<Rightarrow> string" where
  "on_log messages w files =
     (if messages = [] then files
      else if fw_path2file w = [] then files
      else files(fw_path2file w := fold (\<lambda>m out. if lm_destination m \<noteq> fw_destination w then out
                                                else out @ write_single_message m)
                                    messages (files (fw_path2file w))))"

text \<open>One round of the loop; an empty queue waits.\<close>

definition log_round :: "int \<Rightarrow> string \<Rightarrow> 'j \<Rightarrow> 'j log_instance \<Rightarrow> 'j log_instance" where
  "log_round now thread null_json li =
     (case li_queue li of
        [] \<Rightarrow> li
      | mes # rest \<Rightarrow>
          (case delay_message now thread null_json mes (li\<lparr>li_queue := rest\<rparr>) of
             ((True, _), li) \<Rightarrow> li
           | ((False, Some mes), li) \<Rightarrow>
               li\<lparr>li_last_messages := rb_push mes (li_last_messages li), li_messages := li_messages li @ [mes]\<rparr>
           | ((False, None), li) \<Rightarrow>
               li\<lparr>li_files := fold (on_log (li_messages li)) (li_handlers li) (li_files li), li_messages := []\<rparr>))"

definition last_messages :: "'j log_instance \<Rightarrow> 'j log_message list" where
  "last_messages li = rev (rb_copy_to (li_last_messages li))"

section \<open>Expressions in log messages\<close>

record simple_expression =
  se_lhs :: string
  se_rhs :: string
  se_expression :: string
  se_operation :: string
  se_result :: bool
  se_filtered :: bool
  se_not_filtered :: bool

definition make_simple_expression :: "string \<Rightarrow> string \<Rightarrow> bool \<Rightarrow> string \<Rightarrow> string \<Rightarrow> simple_expression" where
  "make_simple_expression lhs rhs r expr op =
     \<lparr>se_lhs = lhs, se_rhs = rhs, se_expression = expr, se_operation = op, se_result = r,
      se_filtered = False, se_not_filtered = False\<rparr>"

definition se_mark_filtered :: "simple_expression \<Rightarrow> simple_expression" where
  "se_mark_filtered e = e\<lparr>se_filtered := True\<rparr>"

definition se_mark_not_filtered :: "simple_expression \<Rightarrow> simple_expression" where
  "se_mark_not_filtered e = e\<lparr>se_not_filtered := True\<rparr>"

definition show_expression :: "simple_expression \<Rightarrow> string" where
  "show_expression e =
     (if se_filtered e then ''FILTERED BY '' else if se_not_filtered e then ''NOT FILTERED BY '' else [])
     @ ''('' @ se_expression e @ '') ''
     @ (if se_result e then [] else ''!'') @ ''('' @ se_lhs e @ '' '' @ se_operation e @ '' '' @ se_rhs e @ '')''"

text \<open>\<open>VAL(v)\<close>: a pointer prints what it points to, \<open>None\<close> is the null pointer.\<close>

definition show_named_value :: "string \<Rightarrow> string option \<Rightarrow> string" where
  "show_named_value name v = name @ '' = '' @ (case v of None \<Rightarrow> ''nullptr'' | Some s \<Rightarrow> s)"

section \<open>Lemmas on the log thread\<close>

text \<open>The messages \<open>delay_message\<close> lets through, in order.\<close>

fun delay_pass ::
  "int \<Rightarrow> string \<Rightarrow> 'j \<Rightarrow> 'j log_message list \<Rightarrow> 'j log_instance \<Rightarrow> 'j log_message list \<times> 'j log_instance" where
  "delay_pass now thread null_json [] li = ([], li)"
| "delay_pass now thread null_json (m # ms) li =
     (let ((held, p), li) = delay_message now thread null_json (Some m) li;
          (ps, li) = delay_pass now thread null_json ms li
      in (if held then ps else the p # ps, li))"

definition pending :: "string \<Rightarrow> 'j log_instance \<Rightarrow> nat" where
  "pending text li = (case map_of (li_delay_storage li) text of Some d \<Rightarrow> dv_count d | None \<Rightarrow> 0)"

definition last_sent :: "string \<Rightarrow> 'j log_instance \<Rightarrow> int" where
  "last_sent text li = (case map_of (li_delay_storage li) text of Some d \<Rightarrow> dv_last_timestamp d | None \<Rightarrow> 0)"

fun spaced :: "int \<Rightarrow> 'j log_message list \<Rightarrow> bool" where
  "spaced t [] = True"
| "spaced t (m # ms) \<longleftrightarrow> lm_timestamp m - t > lm_delay_in_seconds m \<and> spaced (lm_timestamp m) ms"

text \<open>What one delayed message does to the slot of its text.\<close>

lemma delay_message_slot:
  assumes "sm_ok (li_delay_storage li)" "lm_message m = text"
    "lm_delay_in_seconds m \<noteq> 0" "lm_delay_in_seconds m \<noteq> time_max"
  obtains (held) li' where
      "delay_message now thread null_json (Some m) li = ((True, Some m), li')"
      "sm_ok (li_delay_storage li')" "pending text li' = pending text li + 1" "last_sent text li' = last_sent text li"
    | (passed) li' where
      "delay_message now thread null_json (Some m) li
         = ((False, Some (m\<lparr>lm_message := counted (pending text li + 1) text\<rparr>)), li')"
      "sm_ok (li_delay_storage li')" "pending text li' = 0" "last_sent text li' = lm_timestamp m"
      "lm_timestamp m - last_sent text li > lm_delay_in_seconds m"
proof -
  define d where "d = delay_slot m (li_delay_storage li)"
  have d: "dv_count d = pending text li" "dv_last_timestamp d = last_sent text li"
    using assms(2) by (simp_all add: d_def delay_slot_def pending_def last_sent_def delay_value_new_def
        split: option.split)
  show thesis
  proof (cases "lm_timestamp m - last_sent text li > lm_delay_in_seconds m")
    case True
    show ?thesis
      by (rule passed [where li' = "li\<lparr>li_delay_storage := sm_set text
            (d\<lparr>dv_count := dv_count d + 1, dv_level := lm_level m, dv_count := 0, dv_last_timestamp := lm_timestamp m\<rparr>) (li_delay_storage li)\<rparr>"])
        (use assms True d in \<open>simp_all add: delay_message_def Let_def d_def [symmetric] pending_def [where li = "_\<lparr>li_delay_storage := _\<rparr>"]
           last_sent_def [where li = "_\<lparr>li_delay_storage := _\<rparr>"] map_of_sm_set\<close>)
  next
    case False
    show ?thesis
      by (rule held [where li' = "li\<lparr>li_delay_storage := sm_set text
            (d\<lparr>dv_count := dv_count d + 1, dv_level := lm_level m\<rparr>) (li_delay_storage li)\<rparr>"])
        (use assms False d in \<open>simp_all add: delay_message_def Let_def d_def [symmetric] pending_def [where li = "_\<lparr>li_delay_storage := _\<rparr>"]
           last_sent_def [where li = "_\<lparr>li_delay_storage := _\<rparr>"] map_of_sm_set\<close>)
  qed
qed

lemma log_round_message:
  assumes "li_queue li = Some m # q" "lm_delay_in_seconds m = 0"
  shows "log_round now thread null_json li =
    li\<lparr>li_queue := q, li_last_messages := rb_push m (li_last_messages li), li_messages := li_messages li @ [m]\<rparr>"
  using assms by (simp add: log_round_def delay_message_def)

lemma log_rounds_messages:
  "li_queue li = map Some ms @ q \<Longrightarrow> \<forall>m \<in> set ms. lm_delay_in_seconds m = 0 \<Longrightarrow>
   (log_round now thread null_json ^^ length ms) li =
     li\<lparr>li_queue := q, li_last_messages := fold rb_push ms (li_last_messages li), li_messages := li_messages li @ ms\<rparr>"
proof (induction ms arbitrary: li)
  case (Cons m ms)
  have step: "log_round now thread null_json li =
      li\<lparr>li_queue := map Some ms @ q, li_last_messages := rb_push m (li_last_messages li),
        li_messages := li_messages li @ [m]\<rparr>"
    using Cons.prems by (intro log_round_message) simp_all
  show ?case
    using Cons.IH [of "log_round now thread null_json li"] Cons.prems(2)
    by (simp add: funpow_Suc_right step del: funpow.simps)
qed simp

lemma log_round_flush:
  "li_queue li = None # q \<Longrightarrow> log_round now thread null_json li =
     li\<lparr>li_queue := q, li_files := fold (on_log (li_messages li)) (li_handlers li) (li_files li), li_messages := []\<rparr>"
  by (simp add: log_round_def delay_message_def)

lemma fold_written:
  "fold (\<lambda>m out. if lm_destination m \<noteq> d then out else out @ write_single_message m) ms out
     = out @ concat (map write_single_message (filter (\<lambda>m. lm_destination m = d) ms))"
  by (induction ms arbitrary: out) simp_all

lemma on_log_file:
  "on_log ms w files path =
     (if fw_path2file w \<noteq> [] \<and> path = fw_path2file w
      then files path @ concat (map write_single_message (filter (\<lambda>m. lm_destination m = fw_destination w) ms))
      else files path)"
  by (cases "ms = []") (simp_all add: on_log_def fold_written)

lemma fold_on_log_other:
  "path \<notin> fw_path2file ` set ws \<Longrightarrow> fold (on_log ms) ws files path = files path"
proof (induction ws arbitrary: files)
  case (Cons v ws)
  then show ?case using on_log_file [of ms v files path] by simp
qed simp

lemma fold_on_log_file:
  "distinct (map fw_path2file ws) \<Longrightarrow> w \<in> set ws \<Longrightarrow> fw_path2file w \<noteq> [] \<Longrightarrow>
   fold (on_log ms) ws files (fw_path2file w) = files (fw_path2file w)
     @ concat (map write_single_message (filter (\<lambda>m. lm_destination m = fw_destination w) ms))"
proof (induction ws arbitrary: files)
  case (Cons v ws)
  show ?case
  proof (cases "w = v")
    case True
    with Cons.prems fold_on_log_other [of "fw_path2file v" ws ms "on_log ms v files"]
      on_log_file [of ms v files "fw_path2file v"]
    show ?thesis by simp
  next
    case False
    with Cons.prems have "w \<in> set ws" by simp
    then have "fw_path2file w \<in> fw_path2file ` set ws" by (rule imageI)
    with Cons.prems have "fw_path2file w \<noteq> fw_path2file v" by auto
    with \<open>w \<in> set ws\<close> Cons.IH [of "on_log ms v files"] Cons.prems on_log_file [of ms v files "fw_path2file w"]
    show ?thesis by simp
  qed
qed simp

section \<open>Properties\<close>

text \<open>
  Level names. Parsing the printed name of a level gives it back, any other
  name is INFO; and as WARNING stands before ERROR in the enumeration, a log configured at
  WARNING drops every error.
\<close>

theorem parse_show_level:
  "parse_log_level (show_level level) = level \<and>
   (parse_log_level name = INFO \<or> show_level (parse_log_level name) = name) \<and>
   log_impl (parse_log_level ''WARNING'') now null_json ERROR args = None"
proof (intro conjI)
  show "parse_log_level (show_level level) = level" by (cases level) (simp_all add: parse_log_level_def)
  show "parse_log_level name = INFO \<or> show_level (parse_log_level name) = name"
    by (simp add: parse_log_level_def)
  show "log_impl (parse_log_level ''WARNING'') now null_json ERROR args = None"
    by (simp add: log_impl_def parse_log_level_def less_log_message_level_def)
qed

text \<open>
  C29 (safety): delayed messages. Of any messages with the same text and a delay, none is lost and
  none is counted twice: each one let through announces a number of them, these numbers and the
  number still pending add up to all; and what is let through is further apart than its delay.
\<close>

theorem delay_conserves_messages:
  assumes "sm_ok (li_delay_storage li)"
    "\<forall>m \<in> set ms. lm_message m = text \<and> lm_delay_in_seconds m \<noteq> 0 \<and> lm_delay_in_seconds m \<noteq> time_max"
  shows "\<exists>ps li' counts. delay_pass now thread null_json ms li = (ps, li') \<and>
    map lm_message ps = map (\<lambda>n. counted n text) counts \<and>
    sum_list counts + pending text li' = pending text li + length ms \<and> spaced (last_sent text li) ps"
  using assms
proof (induction ms arbitrary: li)
  case Nil
  show ?case by (intro exI [of _ "[]"]) simp
next
  case (Cons m ms)
  have m: "lm_message m = text" "lm_delay_in_seconds m \<noteq> 0" "lm_delay_in_seconds m \<noteq> time_max"
    using Cons.prems(2) by simp_all
  show ?case
  proof (rule delay_message_slot [OF Cons.prems(1) m, of now thread null_json])
    fix li'
    assume a: "delay_message now thread null_json (Some m) li = ((True, Some m), li')"
      "sm_ok (li_delay_storage li')" "pending text li' = pending text li + 1" "last_sent text li' = last_sent text li"
    from Cons.IH [OF a(2)] Cons.prems(2) obtain ps w counts where
      "delay_pass now thread null_json ms li' = (ps, w)" "map lm_message ps = map (\<lambda>n. counted n text) counts"
      "sum_list counts + pending text w = pending text li' + length ms" "spaced (last_sent text li') ps" by auto
    with a show ?thesis by (intro exI [of _ ps] exI [of _ w] exI [of _ counts]) simp
  next
    fix li'
    assume a: "delay_message now thread null_json (Some m) li
        = ((False, Some (m\<lparr>lm_message := counted (pending text li + 1) text\<rparr>)), li')"
      "sm_ok (li_delay_storage li')" "pending text li' = 0" "last_sent text li' = lm_timestamp m"
      "lm_timestamp m - last_sent text li > lm_delay_in_seconds m"
    from Cons.IH [OF a(2)] Cons.prems(2) obtain ps w counts where
      "delay_pass now thread null_json ms li' = (ps, w)" "map lm_message ps = map (\<lambda>n. counted n text) counts"
      "sum_list counts + pending text w = pending text li' + length ms" "spaced (last_sent text li') ps" by auto
    with a show ?thesis
      by (intro exI [of _ "m\<lparr>lm_message := counted (pending text li + 1) text\<rparr> # ps"] exI [of _ w]
          exI [of _ "(pending text li + 1) # counts"]) simp
  qed
qed

text \<open>
  What is logged arrives. Undelayed messages followed by a flush end, after one
  round each, in the files: every writer with a path of its own appends exactly the messages of
  its destination, in order; nothing is left to write, and the last messages are the newest
  200, newest first.
\<close>

theorem log_flush_delivers:
  assumes "li_queue li = map Some ms @ [None]" "\<forall>m \<in> set ms. lm_delay_in_seconds m = 0"
    "li_messages li = []" "rb_ok 200 (li_last_messages li)"
    "distinct (map fw_path2file (li_handlers li))" "w \<in> set (li_handlers li)" "fw_path2file w \<noteq> []"
  shows "let li' = (log_round now thread null_json ^^ Suc (length ms)) li;
             recent = rb_copy_to (li_last_messages li) @ ms
    in li_files li' (fw_path2file w) = li_files li (fw_path2file w)
         @ concat (map write_single_message (filter (\<lambda>m. lm_destination m = fw_destination w) ms)) \<and>
       li_queue li' = [] \<and> li_messages li' = [] \<and>
       last_messages li' = rev (drop (length recent - 200) recent)"
  unfolding Let_def
  by (simp add: log_rounds_messages [OF assms(1,2)] log_round_flush assms(3) last_messages_def
      fold_on_log_file [OF assms(5-7)] ring.contents_fold_push [OF assms(4)])

definition ex_log_message :: "string \<Rightarrow> int \<Rightarrow> int \<Rightarrow> unit log_message" where
  "ex_log_message text stamp delay =
     (new_log_message INFO ())\<lparr>lm_message := text, lm_timestamp := stamp, lm_delay_in_seconds := delay\<rparr>"

definition ex_log :: "unit log_message option list \<Rightarrow> unit log_instance" where
  "ex_log queue = (log_start (replicate 200 (ex_log_message [] 0 0)) ''a.log'' ''d'' ''s'' (\<lambda>path. []))\<lparr>li_queue := queue\<rparr>"

theorem delay_conserves_messages_witness:
  "\<exists>ps li' counts. delay_pass 0 ''log'' () [ex_log_message ''x'' 100 60, ex_log_message ''x'' 110 60,
        ex_log_message ''x'' 120 60, ex_log_message ''x'' 170 60, ex_log_message ''x'' 180 60] (ex_log []) = (ps, li') \<and>
     map lm_message ps = map (\<lambda>n. counted n ''x'') counts \<and> sum_list counts + pending ''x'' li' = 5"
proof -
  have *: "pending ''x'' (ex_log []) = 0" "sm_ok (li_delay_storage (ex_log []))"
    by (simp_all add: pending_def ex_log_def log_start_def)
  have "\<forall>m \<in> set [ex_log_message ''x'' 100 60, ex_log_message ''x'' 110 60,
        ex_log_message ''x'' 120 60, ex_log_message ''x'' 170 60, ex_log_message ''x'' 180 60].
      lm_message m = ''x'' \<and> lm_delay_in_seconds m \<noteq> 0 \<and> lm_delay_in_seconds m \<noteq> time_max"
    by (simp add: ex_log_message_def time_max_def)
  from delay_conserves_messages [OF *(2) this, of 0 "''log''" "()"] obtain ps li' counts where
    "delay_pass 0 ''log'' () [ex_log_message ''x'' 100 60, ex_log_message ''x'' 110 60,
        ex_log_message ''x'' 120 60, ex_log_message ''x'' 170 60, ex_log_message ''x'' 180 60] (ex_log []) = (ps, li')"
    "map lm_message ps = map (\<lambda>n. counted n ''x'') counts" "sum_list counts + pending ''x'' li' = 5"
    by (auto simp: *(1) eval_nat_numeral simp del: delay_pass.simps)
  then show ?thesis by blast
qed

theorem log_flush_delivers_witness:
  "let li' = (log_round 0 ''log'' () ^^ 3) (ex_log [Some (ex_log_message ''x'' 1 0), Some (ex_log_message ''y'' 2 0), None])
   in li_files li' ''a.log'' = write_single_message (ex_log_message ''x'' 1 0) @ write_single_message (ex_log_message ''y'' 2 0) \<and>
      last_messages li' = [ex_log_message ''y'' 2 0, ex_log_message ''x'' 1 0]"
proof -
  let ?ms = "[ex_log_message ''x'' 1 0, ex_log_message ''y'' 2 0]"
  let ?w = "\<lparr>fw_path2file = ''a.log'', fw_destination = ANY\<rparr>"
  have "rb_ok 200 (li_last_messages (ex_log q))" for q
    by (simp add: ex_log_def log_start_def rb_ok_def rb_new_def rb_clear_def rb_S_def)
  moreover have "rb_copy_to (li_last_messages (ex_log q)) = []" for q
    by (simp add: ex_log_def log_start_def rb_copy_to_def rb_new_def rb_clear_def)
  ultimately show ?thesis
    using log_flush_delivers [of "ex_log (map Some ?ms @ [None])" ?ms ?w 0 "''log''" "()"]
    by (simp add: ex_log_def log_start_def ex_log_message_def new_log_message_def Let_def numeral_3_eq_3)
qed

end
