(* ===== verification/Json_Value.thy ===== *)
theory Json_Value
  imports Std_Map Std_Lib
begin

text \<open>
  The shape of a \<open>Json::Value\<close> as far as the sources look into it: what kind it is, its members
  and its elements. The members of an object are a map ordered by the key. The conversions
  \<open>asUInt\<close>, \<open>asString\<close>, ... belong to the JSON library and are parameters where they are used.
\<close>

datatype json_value = Json_Null | Json_Bool bool | Json_Int int | Json_Str string
  | Json_Array "json_value list" | Json_Object "(string \<times> json_value) list"

definition json_is_null :: "json_value \<Rightarrow> bool" where
  "json_is_null v \<longleftrightarrow> v = Json_Null"

fun json_is_string :: "json_value \<Rightarrow> bool" where
  "json_is_string (Json_Str s) = True"
| "json_is_string _ = False"

text \<open>
  \<open>v[key]\<close>: a null value counts as an empty object, a missing member reads as null, and any other
  kind of value throws.
\<close>

fun json_member :: "string \<Rightarrow> json_value \<Rightarrow> json_value outcome" where
  "json_member key (Json_Object ms) = Ok (case map_of ms key of Some v \<Rightarrow> v | None \<Rightarrow> Json_Null)"
| "json_member key Json_Null = Ok Json_Null"
| "json_member key _ = Throws ''requires objectValue''"

text \<open>Assigning to the member at the end of a chain \<open>v[k1][k2]... = x\<close>.\<close>

fun json_assign :: "string list \<Rightarrow> json_value \<Rightarrow> json_value \<Rightarrow> json_value outcome" where
  "json_assign [] x v = Ok x"
| "json_assign (k # ks) x (Json_Object ms) =
     bind_outcome (json_assign ks x (case map_of ms k of Some v \<Rightarrow> v | None \<Rightarrow> Json_Null))
       (\<lambda>v. Ok (Json_Object (sm_set k v ms)))"
| "json_assign (k # ks) x Json_Null =
     bind_outcome (json_assign ks x Json_Null) (\<lambda>v. Ok (Json_Object (sm_set k v [])))"
| "json_assign (k # ks) x _ = Throws ''requires objectValue''"

text \<open>Reading along a path; \<open>None\<close> where the path leaves the objects.\<close>

fun json_at :: "string list \<Rightarrow> json_value \<Rightarrow> json_value option" where
  "json_at [] v = Some v"
| "json_at (k # ks) (Json_Object ms) =
     (case map_of ms k of Some v \<Rightarrow> json_at ks v | None \<Rightarrow> Some Json_Null)"
| "json_at (k # ks) Json_Null = Some Json_Null"
| "json_at (k # ks) _ = None"

definition prefix_free :: "string list \<Rightarrow> string list \<Rightarrow> bool" where
  "prefix_free p q \<longleftrightarrow> take (length q) p \<noteq> q \<and> take (length p) q \<noteq> p"

fun json_ok :: "json_value \<Rightarrow> bool" where
  "json_ok (Json_Object ms) \<longleftrightarrow> sm_ok ms \<and> (\<forall>m \<in> set ms. json_ok (snd m))"
| "json_ok _ = True"

lemma json_ok_member: "json_ok (Json_Object ms) \<Longrightarrow> map_of ms k = Some v \<Longrightarrow> json_ok v"
  by (force dest: map_of_SomeD)

lemma json_ok_set: "json_ok (Json_Object ms) \<Longrightarrow> json_ok v \<Longrightarrow> json_ok (Json_Object (sm_set k v ms))"
  using set_sm_set_subset [of k v ms] by auto

text \<open>An assignment succeeds where the path runs through objects; then it reads back, and what is on other paths stays.\<close>

lemma json_assign_at:
  "json_at p v \<noteq> None \<Longrightarrow> json_ok v \<Longrightarrow> json_ok x \<Longrightarrow>
   \<exists>w. json_assign p x v = Ok w \<and> json_ok w \<and> json_at p w = Some x \<and>
     (\<forall>q. prefix_free p q \<longrightarrow> json_at q w = json_at q v)"
proof (induction p x v rule: json_assign.induct)
  case (1 x v)
  then show ?case by (simp add: prefix_free_def)
next
  case (2 k ks x ms)
  define u where "u = (case map_of ms k of Some v \<Rightarrow> v | None \<Rightarrow> Json_Null)"
  have "json_at ks u \<noteq> None" "json_ok u"
    using 2 by (auto simp: u_def json_ok_member split: option.splits intro: json_ok_member)
      (cases ks; simp)+
  with 2 obtain w where w: "json_assign ks x u = Ok w" "json_ok w" "json_at ks w = Some x"
    "\<forall>q. prefix_free ks q \<longrightarrow> json_at q w = json_at q u" by (auto simp: u_def)
  have ok: "sm_ok ms" using 2 by simp
  have "json_at q (Json_Object (sm_set k w ms)) = json_at q (Json_Object ms)" if q: "prefix_free (k # ks) q" for q
  proof (cases q)
    case Nil
    with q show ?thesis by (simp add: prefix_free_def)
  next
    case (Cons k' q')
    show ?thesis
    proof (cases "k' = k")
      case True
      with q Cons have "prefix_free ks q'" by (simp add: prefix_free_def)
      with w have "json_at q' w = json_at q' u" by simp
      moreover have "json_at q' Json_Null = Some Json_Null" by (cases q') simp_all
      ultimately show ?thesis using True Cons
        by (simp add: map_of_sm_set [OF ok] u_def split: option.split)
    next
      case False
      with Cons show ?thesis by (simp add: map_of_sm_set [OF ok])
    qed
  qed
  with w 2 ok show ?case
    by (intro exI [of _ "Json_Object (sm_set k w ms)"])
      (simp add: u_def [symmetric] map_of_sm_set json_ok_set del: json_ok.simps)
next
  case (3 k ks x)
  have "json_at ks Json_Null \<noteq> None" by (cases ks) simp_all
  with 3 obtain w where w: "json_assign ks x Json_Null = Ok w" "json_ok w" "json_at ks w = Some x"
    "\<forall>q. prefix_free ks q \<longrightarrow> json_at q w = json_at q Json_Null" by auto
  have "json_at q (Json_Object [(k, w)]) = json_at q Json_Null" if q: "prefix_free (k # ks) q" for q
    using q w(4) by (cases q; cases "tl q") (auto simp: prefix_free_def)
  with w show ?case by simp
qed (simp_all)

end
