(* ===== verification/Trace.thy ===== *)
theory Trace
  imports Log Split Json_Value
begin

text \<open>
  \<open>src/log/trace*\<close>: the tree of nested scopes a thread records. A pointer to a node is the path
  of child indices from the root. The vector of pointers \<open>stack_\<close> is the list of the paths of
  the open scopes, the innermost last.
\<close>

section \<open>Colours\<close>

datatype concrete_color = no_color | red | green | blue

definition color_name :: "concrete_color \<Rightarrow> string" where
  "color_name col =
     (if col = red then ''red'' else if col = green then ''green'' else if col = blue then ''blue'' else [])"

text \<open>
  \<open>extract_color\<close>: the array is initialised with one comma expression over the arguments, so
  it has one element, the colour of the last argument (with no argument it does not compile).
\<close>

definition extract_color :: "concrete_color list \<Rightarrow> concrete_color" where
  "extract_color args =
     (let cols = [last args] in
      case filter (\<lambda>col. col \<noteq> no_color) cols of col # _ \<Rightarrow> col | [] \<Rightarrow> no_color)"

section \<open>\<open>trace_node\<close>\<close>

datatype leaf_type = INFO_DATA | INPUT_DATA | RESULT_DATA | ERROR_DATA | DEBUG_DATA

datatype trace_node =
    Node string "string option" string int string "trace_node list"
  | Leaf string string leaf_type

definition new_node :: "string \<Rightarrow> string option \<Rightarrow> string \<Rightarrow> int \<Rightarrow> trace_node" where
  "new_node name function_name fl line = Node name function_name fl line [] []"

definition node_children :: "trace_node \<Rightarrow> trace_node list" where
  "node_children t = (case t of Node n fn fl line col cs \<Rightarrow> cs | Leaf m col ty \<Rightarrow> [])"

text \<open>Pushing children to the node at a path.\<close>

fun tree_push :: "nat list \<Rightarrow> trace_node list \<Rightarrow> trace_node \<Rightarrow> trace_node" where
  "tree_push [] new (Node n fn fl line col cs) = Node n fn fl line col (cs @ new)"
| "tree_push (i # p) new (Node n fn fl line col cs) = Node n fn fl line col (cs[i := tree_push p new (cs ! i)])"
| "tree_push p new (Leaf m col ty) = Leaf m col ty"

fun node_at :: "nat list \<Rightarrow> trace_node \<Rightarrow> trace_node" where
  "node_at [] t = t"
| "node_at (i # p) t = node_at p (node_children t ! i)"

definition leaves_of :: "leaf_type \<Rightarrow> string \<Rightarrow> string \<Rightarrow> trace_node list" where
  "leaves_of ty multimessage col = map (\<lambda>m. Leaf m col ty) (split_any multimessage newline allow_blank)"

fun leaf_type_name :: "leaf_type \<Rightarrow> string" where
  "leaf_type_name INFO_DATA = ''INFO''"
| "leaf_type_name INPUT_DATA = ''INPUT''"
| "leaf_type_name RESULT_DATA = ''RESULT''"
| "leaf_type_name ERROR_DATA = ''ERROR''"
| "leaf_type_name DEBUG_DATA = ''DEBUG''"

text \<open>The members in the order they are assigned; \<open>nodes\<close> is there only when there are children.\<close>

fun convertToJson :: "trace_node \<Rightarrow> json_value" where
  "convertToJson (Node n fn fl line col cs) = Json_Object
     ([(''file'', Json_Str fl), (''line'', Json_Int line), (''name'', Json_Str n), (''color'', Json_Str col)]
      @ (case fn of Some f \<Rightarrow> [(''function'', Json_Str f)] | None \<Rightarrow> [])
      @ (if cs = [] then [] else [(''nodes'', Json_Array (map convertToJson cs))]))"
| "convertToJson (Leaf m col ty) = Json_Object
     [(''message'', Json_Str m), (''color'', Json_Str col), (''type'', Json_Str (leaf_type_name ty))]"

section \<open>The state of a thread\<close>

record trace_instance =
  ti_root :: "trace_node option"
  ti_stack :: "nat list list"

definition trace_idle :: trace_instance where
  "trace_idle = \<lparr>ti_root = None, ti_stack = []\<rparr>"

definition trace_start ::
  "string \<Rightarrow> string option \<Rightarrow> string \<Rightarrow> int \<Rightarrow> trace_instance \<Rightarrow> trace_instance outcome" where
  "trace_start message function_name fl line t =
     (if ti_root t \<noteq> None then Throws ''[trace] Root allready set''
      else Ok \<lparr>ti_root = Some (new_node message function_name fl line), ti_stack = [[]]\<rparr>)"

definition trace_stop :: "trace_instance \<Rightarrow> trace_instance" where
  "trace_stop t = \<lparr>ti_root = None, ti_stack = []\<rparr>"

definition current_trace_node :: "trace_instance \<Rightarrow> nat list option" where
  "current_trace_node t = (if ti_root t \<noteq> None then Some (last (ti_stack t)) else None)"

definition trace_add_node ::
  "string \<Rightarrow> string option \<Rightarrow> string \<Rightarrow> int \<Rightarrow> trace_instance \<Rightarrow> trace_instance" where
  "trace_add_node message function_name fl line t =
     (case ti_root t of
        None \<Rightarrow> t
      | Some root \<Rightarrow>
          let p = last (ti_stack t); k = length (node_children (node_at p root))
          in t\<lparr>ti_root := Some (tree_push p [new_node message function_name fl line] root),
               ti_stack := ti_stack t @ [p @ [k]]\<rparr>)"

text \<open>\<open>pop_back\<close> of an empty vector is undefined; so is what follows a failed \<open>assert\<close> when it is compiled out.\<close>

definition rem_node :: "trace_instance \<Rightarrow> trace_instance outcome" where
  "rem_node t =
     (if ti_stack t = [] then Undefined
      else let t = t\<lparr>ti_stack := butlast (ti_stack t)\<rparr>
           in if ti_stack t = [] then Throws ''Assertion !cur.stack_.empty() failed'' else Ok t)"

definition serialize :: "leaf_type \<Rightarrow> (string \<times> concrete_color) list \<Rightarrow> trace_instance \<Rightarrow> trace_instance" where
  "serialize ty args t =
     (case current_trace_node t of
        None \<Rightarrow> t
      | Some p \<Rightarrow> t\<lparr>ti_root := map_option (tree_push p
          (leaves_of ty (concat_args (map fst args)) (color_name (extract_color (map snd args))))) (ti_root t)\<rparr>)"

definition trace_info :: "(string \<times> concrete_color) list \<Rightarrow> trace_instance \<Rightarrow> trace_instance" where
  "trace_info = serialize INFO_DATA"

definition trace_input :: "(string \<times> concrete_color) list \<Rightarrow> trace_instance \<Rightarrow> trace_instance" where
  "trace_input = serialize INPUT_DATA"

definition trace_result :: "(string \<times> concrete_color) list \<Rightarrow> trace_instance \<Rightarrow> trace_instance" where
  "trace_result = serialize RESULT_DATA"

definition trace_debug :: "(string \<times> concrete_color) list \<Rightarrow> trace_instance \<Rightarrow> trace_instance" where
  "trace_debug = serialize DEBUG_DATA"

definition trace_error :: "(string \<times> concrete_color) list \<Rightarrow> trace_instance \<Rightarrow> trace_instance" where
  "trace_error args = serialize ERROR_DATA (args @ [([], red)])"

section \<open>Nested scopes\<close>

text \<open>
  A program as the macros make it: \<open>Scope\<close> is \<open>ADD_TRACE_NODE\<close> with the rest of its block, whose
  guard calls \<open>rem_node\<close> at the end; \<open>Say\<close> is a call of \<open>serialize\<close>.
\<close>

datatype trace_prog =
    Scope string "string option" string int "trace_prog list"
  | Say leaf_type "(string \<times> concrete_color) list"

fun run_scopes :: "trace_prog list \<Rightarrow> trace_instance \<Rightarrow> trace_instance outcome" where
  "run_scopes [] t = Ok t"
| "run_scopes (Say ty args # ps) t = run_scopes ps (serialize ty args t)"
| "run_scopes (Scope name fn fl line body # ps) t =
     bind_outcome (run_scopes body (trace_add_node name fn fl line t))
       (\<lambda>t. bind_outcome (rem_node t) (run_scopes ps))"

text \<open>The tree such a program describes.\<close>

fun described :: "trace_prog list \<Rightarrow> trace_node list" where
  "described [] = []"
| "described (Say ty args # ps) =
     leaves_of ty (concat_args (map fst args)) (color_name (extract_color (map snd args))) @ described ps"
| "described (Scope name fn fl line body # ps) = Node name fn fl line [] (described body) # described ps"

fun valid_path :: "nat list \<Rightarrow> trace_node \<Rightarrow> bool" where
  "valid_path [] (Node n fn fl line col cs) = True"
| "valid_path (i # p) (Node n fn fl line col cs) \<longleftrightarrow> i < length cs \<and> valid_path p (cs ! i)"
| "valid_path p (Leaf m col ty) = False"

lemma tree_push_valid: "valid_path p t \<Longrightarrow> valid_path p (tree_push p new t)"
  by (induction p new t rule: tree_push.induct) auto

lemma tree_push_Nil: "tree_push p [] t = t"
proof (induction p "[] :: trace_node list" t rule: tree_push.induct)
  case (2 i p n fn fl line col cs)
  then show ?case by (simp add: list_update_id)
qed simp_all

lemma tree_push_push: "valid_path p t \<Longrightarrow> tree_push p ys (tree_push p xs t) = tree_push p (xs @ ys) t"
  by (induction p xs t rule: tree_push.induct) auto

text \<open>Filling a node that was just opened is pushing the filled node.\<close>

lemma tree_push_open:
  "valid_path p t \<Longrightarrow> k = length (node_children (node_at p t)) \<Longrightarrow>
   valid_path (p @ [k]) (tree_push p [Node n fn fl line [] []] t) \<and>
   tree_push (p @ [k]) cs (tree_push p [Node n fn fl line [] []] t) = tree_push p [Node n fn fl line [] cs] t"
  by (induction p "[Node n fn fl line [] []]" t rule: tree_push.induct)
    (auto simp: node_children_def list_update_append nth_append)

lemma run_scopes_described:
  "ti_root t = Some root \<Longrightarrow> ti_stack t \<noteq> [] \<Longrightarrow> last (ti_stack t) = p \<Longrightarrow> valid_path p root \<Longrightarrow>
   run_scopes ps t = Ok (t\<lparr>ti_root := Some (tree_push p (described ps) root)\<rparr>)"
proof (induction ps t arbitrary: root p rule: run_scopes.induct)
  case (1 t)
  then show ?case by (simp add: tree_push_Nil)
next
  case (2 ty args ps t)
  let ?ls = "leaves_of ty (concat_args (map fst args)) (color_name (extract_color (map snd args)))"
  have "serialize ty args t = t\<lparr>ti_root := Some (tree_push p ?ls root)\<rparr>"
    using "2.prems" by (simp add: serialize_def current_trace_node_def)
  with "2.IH" [of "tree_push p ?ls root" p] "2.prems" show ?case
    by (simp add: tree_push_valid tree_push_push)
next
  case (3 name fn fl line body ps t)
  let ?k = "length (node_children (node_at p root))"
  let ?root1 = "tree_push p [Node name fn fl line [] []] root"
  let ?t1 = "t\<lparr>ti_root := Some ?root1, ti_stack := ti_stack t @ [p @ [?k]]\<rparr>"
  have open_node: "trace_add_node name fn fl line t = ?t1"
    using "3.prems" by (simp add: trace_add_node_def new_node_def Let_def)
  have filled: "valid_path (p @ [?k]) ?root1"
    "tree_push (p @ [?k]) (described body) ?root1 = tree_push p [Node name fn fl line [] (described body)] root"
    using tree_push_open [OF "3.prems"(4) refl] by blast+
  let ?t2 = "t\<lparr>ti_root := Some (tree_push p [Node name fn fl line [] (described body)] root)\<rparr>"
  have body: "run_scopes body ?t1 = Ok (?t2\<lparr>ti_stack := ti_stack t @ [p @ [?k]]\<rparr>)"
    using "3.IH"(1) [of ?root1 "p @ [?k]"] filled by (simp add: open_node)
  have close: "rem_node (?t2\<lparr>ti_stack := ti_stack t @ [p @ [?k]]\<rparr>) = Ok ?t2"
    using "3.prems"(2) by (simp add: rem_node_def)
  have "run_scopes ps ?t2 = Ok (?t2\<lparr>ti_root := Some (tree_push p (described ps)
      (tree_push p [Node name fn fl line [] (described body)] root))\<rparr>)"
    by (rule "3.IH"(2)) (use "3.prems" in \<open>simp_all add: tree_push_valid\<close>)
  with "3.prems"(4) show ?case by (simp add: open_node body close tree_push_push)
qed

section \<open>Properties\<close>

text \<open>
  C33 (equivalence): a traced program. Started on an idle thread, any program of nested scopes ends
  with the open scopes it began with and a tree that is the program itself, every text in the
  scope that said it, and stopping gives the idle state back. Without a start, the first scope
  that ends pops an empty stack.
\<close>

theorem trace_builds_program_tree:
  "bind_outcome (trace_start message fn fl line trace_idle) (run_scopes ps)
     = Ok \<lparr>ti_root = Some (Node message fn fl line [] (described ps)), ti_stack = [[]]\<rparr> \<and>
   run_scopes (Scope name fn fl line [] # ps) trace_idle = Undefined \<and>
   trace_stop t = trace_idle"
proof -
  let ?t = "\<lparr>ti_root = Some (new_node message fn fl line), ti_stack = [[]]\<rparr>"
  have "run_scopes ps ?t = Ok (?t\<lparr>ti_root := Some (tree_push [] (described ps) (new_node message fn fl line))\<rparr>)"
    by (rule run_scopes_described) (simp_all add: new_node_def)
  then show ?thesis
    by (simp add: trace_start_def trace_idle_def trace_stop_def new_node_def trace_add_node_def rem_node_def)
qed

end
