(* ===== verification/Thread.thy ===== *)
theory Thread
  imports Prelude
begin

text \<open>
  \<open>src/daemon/thread.cpp\<close>: the status of a thread, written by the thread itself
  (\<open>threadFun\<close>) and by the one that stops it (\<open>stop\<close>, \<open>join\<close>). Every read and every write of the
  status is a step, so the two interleave in every order. The loops of the readers, the watchers
  and the merger leave \<open>run\<close> when \<open>app::running()\<close> is false or the status is not \<open>RUNNING\<close>.
\<close>

datatype thread_status = CREATED | WAITING | RUNNING | STOPPING | STOPPED

fun StatusName :: "thread_status \<Rightarrow> string" where
  "StatusName CREATED = ''CREATED''"
| "StatusName WAITING = ''WAITING''"
| "StatusName RUNNING = ''RUNNING''"
| "StatusName STOPPED = ''STOPPED''"
| "StatusName STOPPING = ''STOPPING''"

fun status_value :: "thread_status \<Rightarrow> nat" where
  "status_value CREATED = 0"
| "status_value WAITING = 1"
| "status_value RUNNING = 2"
| "status_value STOPPING = 3"
| "status_value STOPPED = 4"

text \<open>\<open>status_ == (RUNNING|STOPPING)\<close> compares with the bitwise or of the two numbers.\<close>

definition join_waits :: "thread_status \<Rightarrow> bool" where
  "join_waits s \<longleftrightarrow> status_value s = or (status_value RUNNING) (status_value STOPPING)"

text \<open>Where the thread is in \<open>threadFun\<close>, and where its stopper is in \<open>stop\<close>.\<close>

datatype thread_pc = Spawned | In_onStart | In_run | Leaving_run | In_onStop | Finished
datatype stopper_pc = Idle | Saw_running | Wrote_stopping | Joining | Returned | Joined

record thread_state =
  th_status :: thread_status
  th_pc :: thread_pc
  th_stopper :: stopper_pc
  th_app_running :: bool

definition thread_started :: thread_state where
  "thread_started = \<lparr>th_status = CREATED, th_pc = Spawned, th_stopper = Idle, th_app_running = True\<rparr>"

inductive thread_step :: "thread_state \<Rightarrow> thread_state \<Rightarrow> bool" where
  set_waiting: "th_pc t = Spawned \<Longrightarrow> thread_step t (t\<lparr>th_pc := In_onStart, th_status := WAITING\<rparr>)"
| set_running: "th_pc t = In_onStart \<Longrightarrow> thread_step t (t\<lparr>th_pc := In_run, th_status := RUNNING\<rparr>)"
| leave_run: "th_pc t = In_run \<Longrightarrow> \<not> th_app_running t \<or> th_status t \<noteq> RUNNING \<Longrightarrow>
    thread_step t (t\<lparr>th_pc := Leaving_run\<rparr>)"
| set_stopping: "th_pc t = Leaving_run \<Longrightarrow> thread_step t (t\<lparr>th_pc := In_onStop, th_status := STOPPING\<rparr>)"
| set_stopped: "th_pc t = In_onStop \<Longrightarrow> thread_step t (t\<lparr>th_pc := Finished, th_status := STOPPED\<rparr>)"
| stop_skips: "th_stopper t = Idle \<Longrightarrow> th_status t \<noteq> RUNNING \<Longrightarrow> thread_step t (t\<lparr>th_stopper := Returned\<rparr>)"
| stop_sees: "th_stopper t = Idle \<Longrightarrow> th_status t = RUNNING \<Longrightarrow> thread_step t (t\<lparr>th_stopper := Saw_running\<rparr>)"
| stop_writes: "th_stopper t = Saw_running \<Longrightarrow>
    thread_step t (t\<lparr>th_stopper := Wrote_stopping, th_status := STOPPING\<rparr>)"
| join_starts: "th_stopper t = Wrote_stopping \<Longrightarrow> join_waits (th_status t) \<Longrightarrow>
    thread_step t (t\<lparr>th_stopper := Joining\<rparr>)"
| join_skips: "th_stopper t = Wrote_stopping \<Longrightarrow> \<not> join_waits (th_status t) \<Longrightarrow>
    thread_step t (t\<lparr>th_stopper := Returned\<rparr>)"
| join_ends: "th_stopper t = Joining \<Longrightarrow> th_pc t = Finished \<Longrightarrow> thread_step t (t\<lparr>th_stopper := Joined\<rparr>)"
| app_stops: "thread_step t (t\<lparr>th_app_running := False\<rparr>)"

inductive thread_reachable :: "thread_state \<Rightarrow> bool" where
  start: "thread_reachable thread_started"
| step: "thread_reachable t \<Longrightarrow> thread_step t t' \<Longrightarrow> thread_reachable t'"

inductive_cases thread_stepE: "thread_step t t'"
inductive_simps thread_step_iff: "thread_step t t'"

lemma join_waits_iff [simp]: "join_waits s \<longleftrightarrow> s = STOPPING"
  by (cases s) (simp_all add: join_waits_def)

text \<open>What the status says about where the thread and its stopper are.\<close>

definition thread_inv :: "thread_state \<Rightarrow> bool" where
  "thread_inv t \<longleftrightarrow>
     (th_status t = CREATED \<longleftrightarrow> th_pc t = Spawned) \<and>
     (th_status t = WAITING \<longleftrightarrow> th_pc t = In_onStart) \<and>
     (th_status t = RUNNING \<longrightarrow> th_pc t = In_run \<or> th_pc t = Leaving_run) \<and>
     (th_status t = STOPPED \<longrightarrow> th_pc t = Finished) \<and>
     (th_stopper t \<in> {Saw_running, Wrote_stopping, Joining, Joined} \<longrightarrow> th_pc t \<notin> {Spawned, In_onStart}) \<and>
     (th_stopper t \<in> {Wrote_stopping, Joining, Joined} \<longrightarrow> th_status t \<in> {STOPPING, STOPPED}) \<and>
     (th_stopper t = Joined \<longrightarrow> th_pc t = Finished)"

lemma thread_step_inv: "thread_step t t' \<Longrightarrow> thread_inv t \<Longrightarrow> thread_inv t'"
proof (induction rule: thread_step.induct)
  case (set_waiting t)
  then show ?case by (cases "th_stopper t") (simp_all add: thread_inv_def)
next
  case (set_running t)
  then show ?case by (cases "th_stopper t") (simp_all add: thread_inv_def)
next
  case (leave_run t)
  then show ?case by (cases "th_status t"; cases "th_stopper t") (simp_all add: thread_inv_def)
next
  case (set_stopping t)
  then show ?case by (cases "th_stopper t") (simp_all add: thread_inv_def)
next
  case (set_stopped t)
  then show ?case by (cases "th_stopper t") (simp_all add: thread_inv_def)
next
  case (stop_skips t)
  then show ?case by (cases "th_status t") (simp_all add: thread_inv_def)
next
  case (stop_sees t)
  then show ?case by (cases "th_pc t") (simp_all add: thread_inv_def)
next
  case (stop_writes t)
  then show ?case by (cases "th_pc t"; cases "th_status t") (simp_all add: thread_inv_def)
next
  case (join_starts t)
  then show ?case by (cases "th_pc t") (simp_all add: thread_inv_def)
next
  case (join_skips t)
  then show ?case by (cases "th_status t") (simp_all add: thread_inv_def)
next
  case (join_ends t)
  then show ?case by (cases "th_status t") (simp_all add: thread_inv_def)
next
  case (app_stops t)
  then show ?case by (simp add: thread_inv_def)
qed

lemma thread_reachable_inv: "thread_reachable t \<Longrightarrow> thread_inv t"
proof (induction rule: thread_reachable.induct)
  case start
  show ?case by (simp add: thread_inv_def thread_started_def)
next
  case (step t t')
  then show ?case by (simp add: thread_step_inv)
qed

lemma reach_running: "thread_reachable (thread_started\<lparr>th_pc := In_run, th_status := RUNNING\<rparr>)"
  using thread_reachable.step [OF thread_reachable.step [OF thread_reachable.start
      thread_step.set_waiting] thread_step.set_running]
  by (simp add: thread_started_def)

text \<open>A stop that comes while the thread is in \<open>onStart\<close> returns, and the thread runs on.\<close>

lemma stop_lost: "thread_reachable (thread_started\<lparr>th_pc := In_run, th_status := RUNNING, th_stopper := Returned\<rparr>)"
proof -
  have "thread_reachable (thread_started\<lparr>th_pc := In_onStart, th_status := WAITING\<rparr>)"
    using thread_reachable.step [OF thread_reachable.start thread_step.set_waiting] by (simp add: thread_started_def)
  then have "thread_reachable (thread_started\<lparr>th_pc := In_onStart, th_status := WAITING, th_stopper := Returned\<rparr>)"
    using thread_reachable.step [OF _ thread_step.stop_skips] by (fastforce simp: thread_started_def)
  then show ?thesis
    using thread_reachable.step [OF _ thread_step.set_running] by (fastforce simp: thread_started_def)
qed

text \<open>A thread that ends between the write of the stopper and its check is never joined.\<close>

lemma never_joined: "thread_reachable (thread_started\<lparr>th_pc := Finished, th_status := STOPPED, th_stopper := Returned\<rparr>)"
proof -
  let ?run = "thread_started\<lparr>th_pc := In_run, th_status := RUNNING\<rparr>"
  have "thread_reachable (?run\<lparr>th_stopper := Saw_running\<rparr>)"
    using thread_reachable.step [OF reach_running thread_step.stop_sees] by (simp add: thread_started_def)
  then have "thread_reachable (?run\<lparr>th_stopper := Wrote_stopping, th_status := STOPPING\<rparr>)"
    using thread_reachable.step [OF _ thread_step.stop_writes] by (fastforce simp: thread_started_def)
  then have "thread_reachable (?run\<lparr>th_stopper := Wrote_stopping, th_status := STOPPING, th_pc := Leaving_run\<rparr>)"
    using thread_reachable.step [OF _ thread_step.leave_run] by (fastforce simp: thread_started_def)
  then have "thread_reachable (?run\<lparr>th_stopper := Wrote_stopping, th_status := STOPPING, th_pc := In_onStop\<rparr>)"
    using thread_reachable.step [OF _ thread_step.set_stopping] by (fastforce simp: thread_started_def)
  then have "thread_reachable (?run\<lparr>th_stopper := Wrote_stopping, th_status := STOPPED, th_pc := Finished\<rparr>)"
    using thread_reachable.step [OF _ thread_step.set_stopped] by (fastforce simp: thread_started_def)
  then show ?thesis
    using thread_reachable.step [OF _ thread_step.join_skips] by (fastforce simp: thread_started_def)
qed

lemma stopping_thread_goes_on:
  assumes "thread_inv t" "th_stopper t \<in> {Wrote_stopping, Joining} \<and> th_pc t \<noteq> Finished"
  shows "\<exists>t'. thread_step t t' \<and> th_pc t' \<noteq> th_pc t"
proof (cases "th_pc t")
  case In_run
  then have "thread_step t (t\<lparr>th_pc := Leaving_run\<rparr>)"
    using assms by (intro thread_step.leave_run) (auto simp: thread_inv_def)
  with In_run show ?thesis by (intro exI [of _ "t\<lparr>th_pc := Leaving_run\<rparr>"]) simp
next
  case Leaving_run
  from thread_step.set_stopping [OF this] this show ?thesis
    by (intro exI [of _ "t\<lparr>th_pc := In_onStop, th_status := STOPPING\<rparr>"]) simp
next
  case In_onStop
  from thread_step.set_stopped [OF this] this show ?thesis
    by (intro exI [of _ "t\<lparr>th_pc := Finished, th_status := STOPPED\<rparr>"]) simp
qed (use assms in \<open>auto simp: thread_inv_def\<close>)

section \<open>Properties\<close>



end
