(* ===== verification/Settings.thy ===== *)
theory Settings
  imports Split Json_Value Log
begin

text \<open>
  \<open>src/daemon/settings.cpp\<close>: the settings, the table that ties each one to a path of the JSON
  configuration, reading, re-reading and dumping. The JSON text parser and the conversions of
  \<open>Json::Value\<close> are parameters; \<open>pf\<close> is the prefix of the messages of \<open>numeric_cast\<close>.
\<close>

record settings =
  st_settings_path :: string
  st_web_port :: int
  st_max_call_time :: int
  st_table_reload_time :: int
  st_max_queue_size :: int
  st_sql_insert_buffer_size :: int
  st_read_threshold_second :: int
  st_read_waiting_second :: int
  st_threads_count :: int
  st_source_connection_string :: string
  st_output_connection_string :: string
  st_online_connection_string :: "string list"
  st_path_to_log_file :: string
  st_graylog_host :: string
  st_graylog_port :: int
  st_graylog_source :: string
  st_instance_id :: int
  st_instance_name :: string
  st_sync_thread_period :: int
  st_db_bandwidth :: int
  st_loader_thread_count :: int
  st_type :: string
  st_log_level :: string
  st_use_core_dump :: bool

definition default_settings :: settings where
  "default_settings =
     \<lparr>st_settings_path = [], st_web_port = 8080, st_max_call_time = 10800, st_table_reload_time = 300,
      st_max_queue_size = 10000, st_sql_insert_buffer_size = 1024 * 1024 * 10, st_read_threshold_second = 10000,
      st_read_waiting_second = 900, st_threads_count = 5, st_source_connection_string = [],
      st_output_connection_string = [], st_online_connection_string = [], st_path_to_log_file = [],
      st_graylog_host = [], st_graylog_port = 12201, st_graylog_source = ''dev'', st_instance_id = 9000,
      st_instance_name = ''Unknown'', st_sync_thread_period = 1000, st_db_bandwidth = 2 ^ 64 - 1,
      st_loader_thread_count = 4, st_type = ''master'', st_log_level = ''DEBUG'', st_use_core_dump = True\<rparr>"

section \<open>The table of members\<close>

text \<open>A member is a pointer to a field: how it is read from and written to the object.\<close>

datatype 's setting_member =
    Num_member num_type "'s \<Rightarrow> int" "int \<Rightarrow> 's \<Rightarrow> 's"
  | Str_member "'s \<Rightarrow> string" "string \<Rightarrow> 's \<Rightarrow> 's"
  | Bool_member "'s \<Rightarrow> bool" "bool \<Rightarrow> 's \<Rightarrow> 's"
  | Strs_member "'s \<Rightarrow> string list" "string list \<Rightarrow> 's \<Rightarrow> 's"

definition settings_sequence :: "(string \<times> settings setting_member) list" where
  "settings_sequence =
     [(''threads_count'', Num_member TUnsigned st_threads_count (\<lambda>v. st_threads_count_update (\<lambda>_. v))),
      (''web_port'', Num_member TUShort st_web_port (\<lambda>v. st_web_port_update (\<lambda>_. v))),
      (''max_call_time'', Num_member TUnsigned st_max_call_time (\<lambda>v. st_max_call_time_update (\<lambda>_. v))),
      (''table_reload_time'', Num_member TUnsigned st_table_reload_time (\<lambda>v. st_table_reload_time_update (\<lambda>_. v))),
      (''max_queue_size'', Num_member TUnsigned st_max_queue_size (\<lambda>v. st_max_queue_size_update (\<lambda>_. v))),
      (''use_core_dump'', Bool_member st_use_core_dump (\<lambda>v. st_use_core_dump_update (\<lambda>_. v))),
      (''db/source_connection_string'', Str_member st_source_connection_string (\<lambda>v. st_source_connection_string_update (\<lambda>_. v))),
      (''db/output_connection_string'', Str_member st_output_connection_string (\<lambda>v. st_output_connection_string_update (\<lambda>_. v))),
      (''db/online_connection_string'', Strs_member st_online_connection_string (\<lambda>v. st_online_connection_string_update (\<lambda>_. v))),
      (''db/sql_insert_buffer_size'', Num_member TUnsigned st_sql_insert_buffer_size (\<lambda>v. st_sql_insert_buffer_size_update (\<lambda>_. v))),
      (''db/read_threshold_second'', Num_member TUnsigned st_read_threshold_second (\<lambda>v. st_read_threshold_second_update (\<lambda>_. v))),
      (''db/read_waiting_second'', Num_member TUnsigned st_read_waiting_second (\<lambda>v. st_read_waiting_second_update (\<lambda>_. v))),
      (''log/file'', Str_member st_path_to_log_file (\<lambda>v. st_path_to_log_file_update (\<lambda>_. v))),
      (''log/graylog_source'', Str_member st_graylog_source (\<lambda>v. st_graylog_source_update (\<lambda>_. v))),
      (''log/graylog_host'', Str_member st_graylog_host (\<lambda>v. st_graylog_host_update (\<lambda>_. v))),
      (''log/graylog_port'', Num_member TUShort st_graylog_port (\<lambda>v. st_graylog_port_update (\<lambda>_. v))),
      (''instanceId'', Num_member TUnsigned st_instance_id (\<lambda>v. st_instance_id_update (\<lambda>_. v))),
      (''instanceName'', Str_member st_instance_name (\<lambda>v. st_instance_name_update (\<lambda>_. v))),
      (''db/bandwidth'', Num_member TULong st_db_bandwidth (\<lambda>v. st_db_bandwidth_update (\<lambda>_. v))),
      (''thread/sync_period'', Num_member TULong st_sync_thread_period (\<lambda>v. st_sync_thread_period_update (\<lambda>_. v))),
      (''thread/max_loader_threads_count'', Num_member TUnsigned st_loader_thread_count (\<lambda>v. st_loader_thread_count_update (\<lambda>_. v))),
      (''log/level'', Str_member st_log_level (\<lambda>v. st_log_level_update (\<lambda>_. v))),
      (''type'', Str_member st_type (\<lambda>v. st_type_update (\<lambda>_. v)))]"

record setting_mask =
  sk_path :: string
  sk_regexp :: string
  sk_replace :: string

definition settings_masks :: "setting_mask list" where
  "settings_masks =
     [\<lparr>sk_path = ''db/source_connection_string'', sk_regexp = ''password=(.*)|user=(.*)'', sk_replace = []\<rparr>,
      \<lparr>sk_path = ''db/output_connection_string'', sk_regexp = ''password=(.*)|user=(.*)'', sk_replace = []\<rparr>,
      \<lparr>sk_path = ''db/online_connection_string'', sk_regexp = ''password=(.*)|user=(.*)'', sk_replace = []\<rparr>]"

section \<open>Reading\<close>

text \<open>The conversions of the JSON library the readers use.\<close>

record json_api =
  ja_asUInt :: "json_value \<Rightarrow> int outcome"
  ja_asUInt64 :: "json_value \<Rightarrow> int outcome"
  ja_asString :: "json_value \<Rightarrow> string outcome"
  ja_asBool :: "json_value \<Rightarrow> bool outcome"

definition read_json_num :: "json_api \<Rightarrow> num_type \<Rightarrow> json_value \<Rightarrow> int outcome" where
  "read_json_num api k json = (if k = TULong then ja_asUInt64 api json else ja_asUInt api json)"

fun read_strings_loop :: "json_api \<Rightarrow> json_value list \<Rightarrow> string list \<Rightarrow> string list outcome" where
  "read_strings_loop api [] result = Ok result"
| "read_strings_loop api (v # vs) result =
     (if json_is_string v
      then bind_outcome (ja_asString api v) (\<lambda>s. read_strings_loop api vs (result @ [s]))
      else read_strings_loop api vs result)"

definition read_json_strings :: "json_api \<Rightarrow> json_value \<Rightarrow> string list outcome" where
  "read_json_strings api json =
     (case json of Json_Array vs \<Rightarrow> read_strings_loop api vs [] | _ \<Rightarrow> Ok [])"

fun find_loop :: "string list \<Rightarrow> json_value \<Rightarrow> json_value outcome" where
  "find_loop [] current = Ok current"
| "find_loop (sp # subpaths) current =
     bind_outcome (json_member sp current)
       (\<lambda>current. if json_is_null current then Ok Json_Null else find_loop subpaths current)"

definition find_json :: "string \<Rightarrow> json_value \<Rightarrow> json_value outcome" where
  "find_json path n = find_loop (split_any path ''/'' allow_blank) n"

text \<open>
  One member. The value is converted first, also when it is a text: the branch that parses a
  number out of a text comes after the conversion that a text does not survive.
\<close>

definition parse_member ::
  "json_api \<Rightarrow> (string \<Rightarrow> string) \<Rightarrow> json_value \<Rightarrow> string \<times> 's setting_member \<Rightarrow> 's \<Rightarrow> 's outcome" where
  "parse_member api pf n pm s = (case pm of (path, v) \<Rightarrow>
     bind_outcome (find_json path n) (\<lambda>json.
       if json_is_null json then Ok s
       else case v of
           Num_member k get_field set_field \<Rightarrow> bind_outcome (read_json_num api k json) (\<lambda>tmp.
             case json of
               Json_Str str \<Rightarrow> bind_outcome (to pf k str) (\<lambda>x. Ok (set_field x s))
             | _ \<Rightarrow> bind_outcome (numeric_cast pf k tmp) (\<lambda>x. Ok (set_field x s)))
         | Str_member get_field set_field \<Rightarrow> bind_outcome (ja_asString api json) (\<lambda>x. Ok (set_field x s))
         | Bool_member get_field set_field \<Rightarrow> bind_outcome (ja_asBool api json) (\<lambda>x. Ok (set_field x s))
         | Strs_member get_field set_field \<Rightarrow> bind_outcome (read_json_strings api json) (\<lambda>x. Ok (set_field x s))))"

fun parse_object ::
  "json_api \<Rightarrow> (string \<Rightarrow> string) \<Rightarrow> json_value \<Rightarrow> (string \<times> 's setting_member) list \<Rightarrow> 's \<Rightarrow> 's outcome" where
  "parse_object api pf n [] s = Ok s"
| "parse_object api pf n (pm # seq) s = bind_outcome (parse_member api pf n pm s) (parse_object api pf n seq)"

text \<open>
  \<open>settings::parse\<close>: \<open>old\<close> are the settings in force, \<open>content\<close> the content of the file when it
  can be read, \<open>json_text\<close> the parser of the JSON library.
\<close>

definition settings_parse ::
  "json_api \<Rightarrow> (string \<Rightarrow> string) \<Rightarrow> (string \<Rightarrow> json_value option) \<Rightarrow> settings option \<Rightarrow>
   string \<Rightarrow> string option \<Rightarrow> settings outcome" where
  "settings_parse api pf json_text old path_to_file content =
     (let result = default_settings\<lparr>st_settings_path := path_to_file\<rparr>;
          backup_config = (case old of Some s \<Rightarrow> s | None \<Rightarrow> result)
      in if path_to_file = [] then Ok result
         else case content of
                None \<Rightarrow> Ok backup_config
              | Some source \<Rightarrow>
                  (case json_text source of
                     None \<Rightarrow> Ok backup_config
                   | Some root \<Rightarrow> parse_object api pf root settings_sequence result))"

definition reread_path :: "string \<Rightarrow> settings option \<Rightarrow> string" where
  "reread_path path_to_file old =
     (if path_to_file = [] then (case old of Some s \<Rightarrow> st_settings_path s | None \<Rightarrow> []) else path_to_file)"

text \<open>\<open>read_settings\<close>: the settings and the log level it puts in force.\<close>

definition read_settings_file ::
  "json_api \<Rightarrow> (string \<Rightarrow> string) \<Rightarrow> (string \<Rightarrow> json_value option) \<Rightarrow> (string \<Rightarrow> string option) \<Rightarrow> string \<Rightarrow>
   settings option \<Rightarrow> (settings \<times> log_message_level) outcome" where
  "read_settings_file api pf json_text files path_to_file old =
     (let path = reread_path path_to_file old
      in bind_outcome (settings_parse api pf json_text old path (files path))
           (\<lambda>s. Ok (s, parse_log_level (st_log_level s))))"

definition is_slave :: "settings \<Rightarrow> bool" where
  "is_slave s \<longleftrightarrow> st_type s = ''slave''"

section \<open>Dumping\<close>

definition dump_value :: "'s setting_member \<Rightarrow> 's \<Rightarrow> json_value" where
  "dump_value v s =
     (case v of
        Num_member k get_field set_field \<Rightarrow> Json_Int (get_field s)
      | Str_member get_field set_field \<Rightarrow> Json_Str (get_field s)
      | Bool_member get_field set_field \<Rightarrow> Json_Bool (get_field s)
      | Strs_member get_field set_field \<Rightarrow> Json_Array (map Json_Str (get_field s)))"

fun dump_object :: "(string \<times> 's setting_member) list \<Rightarrow> 's \<Rightarrow> json_value \<Rightarrow> json_value outcome" where
  "dump_object [] s result = Ok result"
| "dump_object ((path, v) # seq) s result =
     bind_outcome (json_assign (split_any path ''/'' allow_blank) (dump_value v s) result) (dump_object seq s)"

definition settings_dump :: "settings \<Rightarrow> json_value outcome" where
  "settings_dump s = dump_object settings_sequence s Json_Null"

section \<open>Lemmas\<close>

text \<open>What the JSON library documents of the conversions.\<close>

definition json_api_laws :: "json_api \<Rightarrow> bool" where
  "json_api_laws api \<longleftrightarrow>
     (\<forall>n. 0 \<le> n \<and> n < 2 ^ 32 \<longrightarrow> ja_asUInt api (Json_Int n) = Ok n) \<and>
     (\<forall>n. 0 \<le> n \<and> n < 2 ^ 64 \<longrightarrow> ja_asUInt64 api (Json_Int n) = Ok n) \<and>
     (\<forall>s. ja_asString api (Json_Str s) = Ok s) \<and> (\<forall>b. ja_asBool api (Json_Bool b) = Ok b) \<and>
     (\<forall>s. ja_asUInt api (Json_Str s) = Throws ''Value is not convertible to UInt.'')"

fun member_in_range :: "'s \<Rightarrow> 's setting_member \<Rightarrow> bool" where
  "member_in_range s (Num_member k get_field set_field) \<longleftrightarrow>
     type_range k (get_field s) \<and> k \<in> {TUnsigned, TUShort, TULong}"
| "member_in_range s _ = True"

definition copy_member :: "'s \<Rightarrow> string \<times> 's setting_member \<Rightarrow> 's \<Rightarrow> 's" where
  "copy_member s pm s0 = (case snd pm of
       Num_member k get_field set_field \<Rightarrow> set_field (get_field s) s0
     | Str_member get_field set_field \<Rightarrow> set_field (get_field s) s0
     | Bool_member get_field set_field \<Rightarrow> set_field (get_field s) s0
     | Strs_member get_field set_field \<Rightarrow> set_field (get_field s) s0)"

abbreviation member_path :: "string \<times> 's setting_member \<Rightarrow> string list" where
  "member_path pm \<equiv> split_any (fst pm) ''/'' allow_blank"

lemma find_loop_at: "json_at p v = Some x \<Longrightarrow> find_loop p v = Ok x"
proof (induction p v rule: json_at.induct)
  case (2 k ks ms)
  have "json_at ks Json_Null = Some x \<Longrightarrow> x = Json_Null" by (cases ks) auto
  with 2 show ?case by (auto simp: json_is_null_def split: option.splits)
next
  case (3 k ks)
  then show ?case by (simp add: json_is_null_def)
qed simp_all

lemma dump_object_at:
  "json_ok result \<Longrightarrow> \<forall>pm \<in> set seq. json_at (member_path pm) result \<noteq> None \<Longrightarrow>
   sorted_wrt prefix_free (map member_path seq) \<Longrightarrow>
   \<exists>v. dump_object seq s result = Ok v \<and> (\<forall>pm \<in> set seq. json_at (member_path pm) v = Some (dump_value (snd pm) s)) \<and>
     (\<forall>q. (\<forall>pm \<in> set seq. prefix_free (member_path pm) q) \<longrightarrow> json_at q v = json_at q result)"
proof (induction seq arbitrary: result)
  case (Cons pm seq)
  have ok: "json_ok (dump_value (snd pm) s)" by (cases "snd pm") (simp_all add: dump_value_def)
  obtain w where w: "json_assign (member_path pm) (dump_value (snd pm) s) result = Ok w" "json_ok w"
    "json_at (member_path pm) w = Some (dump_value (snd pm) s)"
    "\<forall>q. prefix_free (member_path pm) q \<longrightarrow> json_at q w = json_at q result"
    using json_assign_at [of "member_path pm" result "dump_value (snd pm) s"] Cons.prems ok by auto
  have free: "\<forall>qm \<in> set seq. prefix_free (member_path pm) (member_path qm)" using Cons.prems(3) by simp
  with w(4) Cons.prems(2) have at: "\<forall>qm \<in> set seq. json_at (member_path qm) w \<noteq> None" by simp
  obtain v where v: "dump_object seq s w = Ok v"
    "\<forall>qm \<in> set seq. json_at (member_path qm) v = Some (dump_value (snd qm) s)"
    "\<forall>q. (\<forall>qm \<in> set seq. prefix_free (member_path qm) q) \<longrightarrow> json_at q v = json_at q w"
    using Cons.IH [OF w(2) at] Cons.prems(3) by auto
  have "json_at (member_path pm) v = Some (dump_value (snd pm) s)"
    using v(3) w(3) free by (simp add: prefix_free_def conj_commute)
  with v w show ?case by (cases pm) (auto simp: prefix_free_def)
qed simp

lemma read_strings_loop_strs:
  "json_api_laws api \<Longrightarrow> read_strings_loop api (map Json_Str ss) acc = Ok (acc @ ss)"
  by (induction ss arbitrary: acc) (auto simp: json_api_laws_def)

lemma parse_member_dumped:
  assumes "json_at (member_path pm) n = Some (dump_value (snd pm) s)" "member_in_range s (snd pm)" "json_api_laws api"
  shows "parse_member api pf n pm s0 = Ok (copy_member s pm s0)"
proof -
  obtain path v where pm: "pm = (path, v)" by (cases pm)
  have fj: "find_json path n = Ok (dump_value v s)"
    using assms(1) by (simp add: find_json_def pm find_loop_at)
  show ?thesis
  proof (cases v)
    case (Num_member k g f)
    then have k: "type_range k (g s)" "k \<in> {TUnsigned, TUShort, TULong}" using assms(2) pm by simp_all
    then have "read_json_num api k (Json_Int (g s)) = Ok (g s)"
      using assms(3) by (auto simp: read_json_num_def json_api_laws_def type_range_def)
    moreover have "numeric_cast pf k (g s) = Ok (g s)"
      using k(1) by (simp add: numeric_cast_def narrow_id_iff)
    ultimately show ?thesis
      by (simp add: parse_member_def pm fj [unfolded Num_member] dump_value_def Num_member json_is_null_def
          copy_member_def)
  qed (use assms(3) in \<open>simp_all add: parse_member_def pm fj dump_value_def json_is_null_def copy_member_def
      read_json_strings_def read_strings_loop_strs\<close>, simp_all add: json_api_laws_def)
qed

lemma parse_object_dumped:
  "\<forall>pm \<in> set seq. json_at (member_path pm) n = Some (dump_value (snd pm) s) \<and> member_in_range s (snd pm) \<Longrightarrow>
   json_api_laws api \<Longrightarrow> parse_object api pf n seq s0 = Ok (fold (copy_member s) seq s0)"
  by (induction seq arbitrary: s0) (simp_all add: parse_member_dumped)

lemma sequence_paths: "sorted_wrt prefix_free (map member_path settings_sequence)"
  by code_simp

lemma json_at_null: "json_at p Json_Null \<noteq> None"
  by (cases p) simp_all

lemma copy_all_settings:
  "fold (copy_member s) settings_sequence s0 = s\<lparr>st_settings_path := st_settings_path s0\<rparr>"
  by (cases s; cases s0) (simp add: settings_sequence_def copy_member_def)

lemma parse_object_bad:
  "pm \<in> set seq \<Longrightarrow> \<forall>s. parse_member api pf n pm s = Throws m \<Longrightarrow> parse_object api pf n seq s0 \<noteq> Ok x"
  by (induction seq arbitrary: s0) auto

definition ex_json_api :: json_api where
  "ex_json_api =
     \<lparr>ja_asUInt = (\<lambda>v. case v of Json_Int n \<Rightarrow> Ok n | _ \<Rightarrow> Throws ''Value is not convertible to UInt.''),
      ja_asUInt64 = (\<lambda>v. case v of Json_Int n \<Rightarrow> Ok n | _ \<Rightarrow> Throws ''Value is not convertible to UInt64.''),
      ja_asString = (\<lambda>v. case v of Json_Str s \<Rightarrow> Ok s | _ \<Rightarrow> Throws ''Type is not convertible to string''),
      ja_asBool = (\<lambda>v. case v of Json_Bool b \<Rightarrow> Ok b | _ \<Rightarrow> Throws ''Value is not convertible to bool.'')\<rparr>"

lemma ex_json_api_laws: "json_api_laws ex_json_api"
  by (simp add: json_api_laws_def ex_json_api_def)

section \<open>Properties\<close>

text \<open>
  C30 (round trip): dumping the settings and reading the dump back as a configuration file gives
  the same settings, with the path of that file, for all settings whose numbers fit their types
  and whatever was in force before.
\<close>

theorem settings_round_trip:
  assumes "json_api_laws api" "\<forall>pm \<in> set settings_sequence. member_in_range s (snd pm)" "path \<noteq> []"
  shows "\<exists>v. settings_dump s = Ok v \<and>
    settings_parse api pf (\<lambda>_. Some v) old path (Some content) = Ok (s\<lparr>st_settings_path := path\<rparr>)"
proof -
  obtain v where v: "settings_dump s = Ok v"
    "\<forall>pm \<in> set settings_sequence. json_at (member_path pm) v = Some (dump_value (snd pm) s)"
    using dump_object_at [OF _ _ sequence_paths, of Json_Null s] json_at_null by (auto simp: settings_dump_def)
  then have "parse_object api pf v settings_sequence s0 = Ok (s\<lparr>st_settings_path := st_settings_path s0\<rparr>)" for s0
    using parse_object_dumped [of settings_sequence v s api pf s0] assms(1,2) by (simp add: copy_all_settings)
  with v(1) assms(3) show ?thesis by (simp add: settings_parse_def)
qed

theorem settings_round_trip_witness:
  "\<exists>v. settings_dump default_settings = Ok v \<and>
    settings_parse ex_json_api (\<lambda>f. f) (\<lambda>_. Some v) None ''a.json'' (Some [])
      = Ok (default_settings\<lparr>st_settings_path := ''a.json''\<rparr>)"
  by (rule settings_round_trip [OF ex_json_api_laws])
    (simp_all add: settings_sequence_def default_settings_def type_range_def)

text \<open>
  Bad configurations. A file that cannot be read or is not JSON leaves the settings in
  force; and a 32 or 16 bit number written as a text makes reading throw, although the code has
  a branch that would parse it.
\<close>

theorem settings_parse_failures:
  assumes "json_api_laws api" "(member_name, Num_member k get_field set_field) \<in> set settings_sequence"
    "k \<noteq> TULong" "json_text source = Some root" "find_json member_name root = Ok (Json_Str t)" "path \<noteq> []"
  shows "settings_parse api pf json_text (Some cur) path None = Ok cur \<and>
    (json_text bad = None \<longrightarrow> settings_parse api pf json_text (Some cur) path (Some bad) = Ok cur) \<and>
    (\<forall>s. settings_parse api pf json_text old path (Some source) \<noteq> Ok s)"
proof -
  have "parse_member api pf root (member_name, Num_member k get_field set_field) s
      = Throws ''Value is not convertible to UInt.''" for s
    using assms(1,3,5) by (simp add: parse_member_def json_is_null_def read_json_num_def json_api_laws_def)
  then have "\<forall>x. parse_object api pf root settings_sequence s0 \<noteq> Ok x" for s0
    using parse_object_bad [OF assms(2)] by blast
  with assms(4,6) show ?thesis by (simp add: settings_parse_def)
qed

theorem settings_parse_failures_witness:
  "\<forall>s. settings_parse ex_json_api (\<lambda>f. f) (\<lambda>_. Some (Json_Object [(''web_port'', Json_Str ''8080'')])) None
         ''a.json'' (Some []) \<noteq> Ok s"
proof -
  have "(''web_port'', Num_member TUShort st_web_port (\<lambda>v. st_web_port_update (\<lambda>_. v))) \<in> set settings_sequence"
    by (simp add: settings_sequence_def)
  moreover have "find_json ''web_port'' (Json_Object [(''web_port'', Json_Str ''8080'')]) = Ok (Json_Str ''8080'')"
    by code_simp
  ultimately show ?thesis
    using settings_parse_failures [OF ex_json_api_laws, where json_text = "\<lambda>_. Some (Json_Object [(''web_port'', Json_Str ''8080'')])"
        and path = "''a.json''" and source = "[]" and pf = "\<lambda>f. f" and old = None and t = "''8080''"]
    by blast
qed

end
