(* ===== verification/Daemon.thy ===== *)
theory Daemon
  imports Db_Result Containers Settings
begin

text \<open>
  \<open>src/daemon\<close>: the health register, the life span events, the cyclic tasks and the registry of
  tasks and connection pools of \<open>application\<close>. Clock readings are parameters; the timers of
  asio are the flag \<open>ct_armed\<close>. The registry is an \<open>unordered_map\<close>; it is kept in the order of
  the names, which no property uses.
\<close>

section \<open>\<open>health_register\<close>\<close>

datatype health_status = STATUS_WARNING | STATUS_ERROR | STATUS_CRITICAL

fun health_value :: "health_status \<Rightarrow> nat" where
  "health_value STATUS_WARNING = 1"
| "health_value STATUS_ERROR = 2"
| "health_value STATUS_CRITICAL = 3"

instantiation health_status :: linorder
begin

definition less_eq_health_status :: "health_status \<Rightarrow> health_status \<Rightarrow> bool" where
  "less_eq_health_status a b \<longleftrightarrow> health_value a \<le> health_value b"

definition less_health_status :: "health_status \<Rightarrow> health_status \<Rightarrow> bool" where
  "less_health_status a b \<longleftrightarrow> health_value a < health_value b"

instance
proof
  fix a b c :: health_status
  show "a < b \<longleftrightarrow> a \<le> b \<and> \<not> b \<le> a" by (auto simp: less_eq_health_status_def less_health_status_def)
  show "a \<le> a" by (simp add: less_eq_health_status_def)
  show "a \<le> b \<Longrightarrow> b \<le> c \<Longrightarrow> a \<le> c" by (simp add: less_eq_health_status_def)
  show "a \<le> b \<Longrightarrow> b \<le> a \<Longrightarrow> a = b" by (cases a; cases b) (simp_all add: less_eq_health_status_def)
  show "a \<le> b \<or> b \<le> a" by (auto simp: less_eq_health_status_def)
qed

end

definition status_text :: "health_status \<Rightarrow> string" where
  "status_text s =
     (case s of STATUS_WARNING \<Rightarrow> ''STATUS_WARNING'' | STATUS_ERROR \<Rightarrow> ''STATUS_ERROR''
      | STATUS_CRITICAL \<Rightarrow> ''STATUS_CRITICAL'')"

record health_state =
  hs_item :: string
  hs_status :: string
  hs_status_message :: string
  hs_status_type :: health_status
  hs_last_time :: int

type_synonym health_values = "(string \<times> health_state) list"

definition erase_old_messages :: "int \<Rightarrow> health_values \<Rightarrow> health_values" where
  "erase_old_messages now vs = filter (\<lambda>(k, hs). \<not> hs_last_time hs < now - 1800) vs"

definition register_message ::
  "int \<Rightarrow> health_status \<Rightarrow> string \<Rightarrow> string \<Rightarrow> health_values \<Rightarrow> health_values" where
  "register_message now status_type item message vs =
     (let vs = erase_old_messages now vs;
          state = \<lparr>hs_item = item, hs_status = status_text status_type, hs_status_message = message,
                   hs_status_type = status_type, hs_last_time = now\<rparr>
      in case map_of vs item of
           Some old \<Rightarrow> if hs_status_type old < status_type then vs else sm_set item state vs
         | None \<Rightarrow> sm_set item state vs)"

definition health_warning :: "int \<Rightarrow> string \<Rightarrow> string \<Rightarrow> health_values \<Rightarrow> health_values" where
  "health_warning now = register_message now STATUS_WARNING"

definition health_error :: "int \<Rightarrow> string \<Rightarrow> string \<Rightarrow> health_values \<Rightarrow> health_values" where
  "health_error now = register_message now STATUS_ERROR"

definition health_critical :: "int \<Rightarrow> string \<Rightarrow> string \<Rightarrow> health_values \<Rightarrow> health_values" where
  "health_critical now = register_message now STATUS_CRITICAL"

definition health_states :: "int \<Rightarrow> health_values \<Rightarrow> health_state list \<times> health_values" where
  "health_states now vs =
     (let vs = erase_old_messages now vs in (fold (\<lambda>(name, hs) result. result @ [hs]) vs [], vs))"

section \<open>Life span events\<close>

datatype life_span_event = START | INIT_APP | INIT_DB | STOP

fun show_life_span_event :: "life_span_event \<Rightarrow> string" where
  "show_life_span_event START = ''START''"
| "show_life_span_event INIT_APP = ''INIT_APP''"
| "show_life_span_event INIT_DB = ''INIT_DB''"
| "show_life_span_event STOP = ''STOP''"

text \<open>
  A routine works on the state \<open>'w\<close> of the program and may end with an exception: \<open>Some m\<close> is a
  \<open>std::exception\<close> with its \<open>what\<close>, \<open>None\<close> in it any other one.
\<close>

record 'w lf_routine =
  lf_name :: string
  lf_run :: "'w \<Rightarrow> string option option \<times> 'w"

type_synonym 'w life_span_storage = "life_span_event \<Rightarrow> (int \<times> 'w lf_routine) list"

text \<open>\<open>multimap::insert\<close>: behind the elements with an equal key.\<close>

fun mm_insert :: "int \<Rightarrow> 'v \<Rightarrow> (int \<times> 'v) list \<Rightarrow> (int \<times> 'v) list" where
  "mm_insert k v [] = [(k, v)]"
| "mm_insert k v ((k', v') # m) = (if k < k' then (k, v) # (k', v') # m else (k', v') # mm_insert k v m)"

definition add_event ::
  "life_span_event \<Rightarrow> int \<Rightarrow> 'w lf_routine \<Rightarrow> 'w life_span_storage \<Rightarrow> 'w life_span_storage" where
  "add_event event priority routine stor = stor(event := mm_insert priority routine (stor event))"

definition life_span_pair ::
  "int \<Rightarrow> 'w lf_routine \<Rightarrow> 'w lf_routine \<Rightarrow> 'w life_span_storage \<Rightarrow> 'w life_span_storage" where
  "life_span_pair priority start_routine stop_routine stor =
     add_event STOP (- priority) stop_routine (add_event INIT_APP priority start_routine stor)"

text \<open>The errors registered, name and message, in order.\<close>

fun apply_routines ::
  "life_span_event \<Rightarrow> (int \<times> 'w lf_routine) list \<Rightarrow> 'w \<times> (string \<times> string) list \<Rightarrow> 'w \<times> (string \<times> string) list" where
  "apply_routines event [] s = s"
| "apply_routines event ((p, r) # rs) (w, errs) =
     (case lf_run r w of
        (None, w) \<Rightarrow> apply_routines event rs (w, errs)
      | (Some (Some m), w) \<Rightarrow> apply_routines event rs
          (w, errs @ [(lf_name r, ''life_span_event::'' @ show_life_span_event event @ ''. Error: '' @ m)])
      | (Some None, w) \<Rightarrow> apply_routines event rs
          (w, errs @ [(lf_name r, ''life_span_event::'' @ show_life_span_event event @ ''. Unknown exception'')]))"

definition apply_event :: "life_span_event \<Rightarrow> 'w life_span_storage \<Rightarrow> 'w \<Rightarrow> 'w \<times> (string \<times> string) list" where
  "apply_event event stor w = apply_routines event (stor event) (w, [])"

section \<open>Cyclic tasks\<close>

record error_info =
  ei_timestamp :: int
  ei_message :: string
  ei_count :: nat

record cyclic_task =
  ct_name :: string
  ct_timeout_in_ms :: int
  ct_armed :: bool
  ct_start_timestamp :: int
  ct_errors :: "error_info ring"
  ct_errors_count :: nat
  ct_total_runs :: nat
  ct_last_execution_time :: int
  ct_total_execution_time :: int
  ct_execution_time :: "int ring"

definition cyclic_task_new :: "error_info list \<Rightarrow> int list \<Rightarrow> string \<Rightarrow> int \<Rightarrow> cyclic_task" where
  "cyclic_task_new errors_buf times_buf name timeout =
     \<lparr>ct_name = name, ct_timeout_in_ms = timeout, ct_armed = False, ct_start_timestamp = 0,
      ct_errors = rb_new errors_buf, ct_errors_count = 0, ct_total_runs = 0, ct_last_execution_time = 0,
      ct_total_execution_time = 0, ct_execution_time = rb_new times_buf\<rparr>"

definition ct_arm :: "cyclic_task \<Rightarrow> cyclic_task" where
  "ct_arm t = t\<lparr>ct_armed := True\<rparr>"

definition ct_stop :: "cyclic_task \<Rightarrow> cyclic_task" where
  "ct_stop t = t\<lparr>ct_armed := False\<rparr>"

definition rb_update_back :: "('a \<Rightarrow> 'a) \<Rightarrow> 'a ring \<Rightarrow> 'a ring" where
  "rb_update_back f r = r\<lparr>rb_buffer := (rb_buffer r)[rb_back r := f (rb_back_elem r)]\<rparr>"

text \<open>\<open>save_error\<close> without the health register: a repeated text counts up the last entry.\<close>

definition save_error :: "int \<Rightarrow> string \<Rightarrow> cyclic_task \<Rightarrow> cyclic_task" where
  "save_error now text t =
     (if rb_size (ct_errors t) > 0 \<and> ei_message (rb_back_elem (ct_errors t)) = text
      then t\<lparr>ct_errors := rb_update_back (\<lambda>e. e\<lparr>ei_count := ei_count e + 1, ei_timestamp := now\<rparr>) (ct_errors t)\<rparr>
      else t\<lparr>ct_errors_count := ct_errors_count t + 1,
             ct_errors := rb_push \<lparr>ei_timestamp = now, ei_message = text, ei_count = 1\<rparr> (ct_errors t)\<rparr>)"

text \<open>The guard \<open>cyclic_task_time\<close>: seconds at the start, microseconds of the run at the end.\<close>

definition time_start :: "int \<Rightarrow> cyclic_task \<Rightarrow> cyclic_task" where
  "time_start us t = t\<lparr>ct_start_timestamp := us div 1000000\<rparr>"

definition time_stop :: "int \<Rightarrow> int \<Rightarrow> cyclic_task \<Rightarrow> cyclic_task" where
  "time_stop us0 us1 t =
     (let d = us1 - us0
      in t\<lparr>ct_last_execution_time := d, ct_execution_time := rb_push d (ct_execution_time t),
           ct_start_timestamp := 0, ct_total_execution_time := ct_total_execution_time t + d\<rparr>)"

text \<open>
  \<open>handler\<close>: started at \<open>us0\<close> and over at \<open>us1\<close> on the clock; \<open>failed\<close> is how the routine ends
  as for a life span routine. The health register gets the error of a failed run. Both ways
  out arm the timer again; an aborted wait only drops it.
\<close>

definition ct_handler ::
  "bool \<Rightarrow> int \<Rightarrow> int \<Rightarrow> string option option \<Rightarrow> cyclic_task \<times> health_values \<Rightarrow> cyclic_task \<times> health_values" where
  "ct_handler aborted us0 us1 failed = (\<lambda>(t, vs).
     if aborted then (t\<lparr>ct_armed := False\<rparr>, vs)
     else
       let t = time_start us0 t;
           t = t\<lparr>ct_total_runs := ct_total_runs t + 1\<rparr>
       in case failed of
            None \<Rightarrow> (time_stop us0 us1 (ct_arm t), vs)
          | Some msg \<Rightarrow>
              let text = (case msg of Some m \<Rightarrow> m | None \<Rightarrow> ''Unknown'');
                  t = time_stop us0 us1 t;
                  vs = health_error (us1 div 1000000) (ct_name t) text vs
              in (ct_arm (save_error (us1 div 1000000) text t), vs))"

definition current_errors :: "cyclic_task \<Rightarrow> error_info list" where
  "current_errors t = rev (rb_copy_to (ct_errors t))"

record cyclic_task_info =
  ci_name :: string
  ci_period :: int
  ci_last_execution_time :: int
  ci_total_execution_time :: int
  ci_start_timestamp :: int
  ci_exec_count :: nat
  ci_errors_count :: nat

definition ct_info :: "cyclic_task \<Rightarrow> cyclic_task_info" where
  "ct_info t =
     \<lparr>ci_name = ct_name t, ci_period = ct_timeout_in_ms t, ci_last_execution_time = ct_last_execution_time t,
      ci_total_execution_time = ct_total_execution_time t, ci_start_timestamp = ct_start_timestamp t,
      ci_exec_count = ct_total_runs t, ci_errors_count = ct_errors_count t\<rparr>"

text \<open>\<open>dump_html\<close>; \<open>show_double\<close> prints a floating point number.\<close>

definition html_row :: "string \<Rightarrow> string \<Rightarrow> string" where
  "html_row caption text =
     ''<tr>'' @ ''<td style='' @ quoted ''text-align: right'' @ '' nowrap>'' @ caption @ ''</td>''
     @ ''<td style='' @ quoted ''text-align: left'' @ '' nowrap>'' @ text @ ''</td>'' @ ''</tr>''"

definition html_errors :: "error_info list \<Rightarrow> string" where
  "html_errors errors =
     newline @ ''<table border=\"1\">'' @ newline @ '' <caption>Error'' @ [CHR 39] @ ''s log</caption>'' @ newline
     @ '' <tr>'' @ newline @ ''    <th>time</th>'' @ newline @ ''    <th>text</th>'' @ newline @ '' <tr>'' @ newline
     @ concat (map (\<lambda>e. ''<tr>'' @ ''<td>'' @ string_time (ei_timestamp e) @ ''</td>''
         @ ''<td>'' @ (if ei_count e = 1 then ei_message e else ''[x'' @ show_nat (ei_count e) @ ''] '' @ ei_message e)
         @ ''</td>'' @ ''</tr>'') errors)
     @ ''</table>''"

definition ct_dump_html :: "(rat \<Rightarrow> string) \<Rightarrow> string \<Rightarrow> cyclic_task \<Rightarrow> string" where
  "ct_dump_html show_double html_dump t =
     (let times = map (\<lambda>d. of_int d / 1000) (rb_copy_to (ct_execution_time t)); errors = current_errors t
      in ''<table border=0>'' @ newline
         @ html_row ''launched:'' (show_nat (ct_total_runs t))
         @ html_row ''errors:'' (show_nat (ct_errors_count t))
         @ (if times = [] then []
            else html_row ''exec time history (ms):'' (join_strings '', '' (map show_double times))
              @ html_row ''avg exec time (ms):'' (show_double (sum_list times / of_nat (length times)))
              @ html_row ''last exec time (ms):'' (show_double (of_int (ct_last_execution_time t) / 1000)))
         @ html_dump
         @ (if errors = [] then [] else html_errors errors))"

section \<open>The application: registry and pools\<close>

record 'c application =
  ap_cyclic_tasks :: "(string \<times> cyclic_task) list"
  ap_source_db_pool :: "'c db_pool"
  ap_output_db_pool :: "'c db_pool"
  ap_online_db_pool_list :: "(int \<times> 'c db_pool) list"

definition application_new :: "settings \<Rightarrow> 'c application" where
  "application_new s =
     \<lparr>ap_cyclic_tasks = [],
      ap_source_db_pool = pool_new (st_source_connection_string s),
      ap_output_db_pool = pool_new (st_output_connection_string s),
      ap_online_db_pool_list =
        fold (\<lambda>connstr m. sm_insert (int (length m)) (pool_new connstr) m) (st_online_connection_string s) []\<rparr>"

definition register_cyclic_task ::
  "error_info list \<Rightarrow> int list \<Rightarrow> string \<Rightarrow> int \<Rightarrow> 'c application \<Rightarrow> 'c application" where
  "register_cyclic_task errors_buf times_buf name timeout ap =
     ap\<lparr>ap_cyclic_tasks := sm_set name (ct_arm (cyclic_task_new errors_buf times_buf name timeout)) (ap_cyclic_tasks ap)\<rparr>"

text \<open>The task that is stopped is no longer in the registry.\<close>

definition delete_cyclic_task :: "string \<Rightarrow> 'c application \<Rightarrow> 'c application" where
  "delete_cyclic_task name ap =
     (case map_of (ap_cyclic_tasks ap) name of
        Some t \<Rightarrow> ap\<lparr>ap_cyclic_tasks := sm_erase name (ap_cyclic_tasks ap)\<rparr>
      | None \<Rightarrow> ap)"

definition app_register_cyclic_task ::
  "error_info list \<Rightarrow> int list \<Rightarrow> string \<Rightarrow> int \<Rightarrow> 'c application \<Rightarrow> 'c application" where
  "app_register_cyclic_task errors_buf times_buf name timeout ap =
     register_cyclic_task errors_buf times_buf name timeout (delete_cyclic_task name ap)"

text \<open>\<open>stop_all_cyclic_tasks\<close>: the names of the tasks whose routine runs a last time.\<close>

definition stop_all_cyclic_tasks :: "'c application \<Rightarrow> string list \<times> 'c application" where
  "stop_all_cyclic_tasks ap = (map fst (ap_cyclic_tasks ap), ap\<lparr>ap_cyclic_tasks := []\<rparr>)"

definition cyclic_tasks :: "'c application \<Rightarrow> cyclic_task_info list" where
  "cyclic_tasks ap = map (\<lambda>(name, t). ct_info t) (ap_cyclic_tasks ap)"

definition get_cyclic_task :: "string \<Rightarrow> 'c application \<Rightarrow> cyclic_task option" where
  "get_cyclic_task name ap = map_of (ap_cyclic_tasks ap) name"

definition source_connection :: "(string \<Rightarrow> 'c) \<Rightarrow> 'c application \<Rightarrow> 'c \<times> 'c application" where
  "source_connection mk ap =
     (let (c, p) = pool_get mk (ap_source_db_pool ap) in (c, ap\<lparr>ap_source_db_pool := p\<rparr>))"

definition back_source_connection :: "int \<Rightarrow> 'c \<Rightarrow> 'c application \<Rightarrow> 'c application" where
  "back_source_connection now c ap = ap\<lparr>ap_source_db_pool := pool_back now c (ap_source_db_pool ap)\<rparr>"

definition output_connection :: "(string \<Rightarrow> 'c) \<Rightarrow> 'c application \<Rightarrow> 'c \<times> 'c application" where
  "output_connection mk ap =
     (let (c, p) = pool_get mk (ap_output_db_pool ap) in (c, ap\<lparr>ap_output_db_pool := p\<rparr>))"

definition back_output_connection :: "int \<Rightarrow> 'c \<Rightarrow> 'c application \<Rightarrow> 'c application" where
  "back_output_connection now c ap = ap\<lparr>ap_output_db_pool := pool_back now c (ap_output_db_pool ap)\<rparr>"

text \<open>The iterator \<open>find\<close> returns is used unchecked: an unknown pool is undefined.\<close>

definition online_connection :: "(string \<Rightarrow> 'c) \<Rightarrow> int \<Rightarrow> 'c application \<Rightarrow> ('c \<times> 'c application) outcome" where
  "online_connection mk pool_id ap =
     (case map_of (ap_online_db_pool_list ap) pool_id of
        None \<Rightarrow> Undefined
      | Some p \<Rightarrow> let (c, p) = pool_get mk p
                  in Ok (c, ap\<lparr>ap_online_db_pool_list := sm_set pool_id p (ap_online_db_pool_list ap)\<rparr>))"

definition back_online_connection :: "int \<Rightarrow> int \<Rightarrow> 'c \<Rightarrow> 'c application \<Rightarrow> 'c application outcome" where
  "back_online_connection now pool_id c ap =
     (case map_of (ap_online_db_pool_list ap) pool_id of
        None \<Rightarrow> Undefined
      | Some p \<Rightarrow> Ok (ap\<lparr>ap_online_db_pool_list := sm_set pool_id (pool_back now c p) (ap_online_db_pool_list ap)\<rparr>))"

definition online_connection_pool_count :: "'c application \<Rightarrow> int" where
  "online_connection_pool_count ap = int32 (int (length (ap_online_db_pool_list ap)))"

section \<open>Lemmas\<close>

text \<open>The last element of a ring, and writing to it.\<close>

lemma rb_back_nth:
  assumes "rb_ok S r" "0 < rb_size r"
  shows "rb_back r = (rb_front r + (rb_size r - 1)) mod S"
proof -
  have S: "0 < S" "rb_back r < S" using assms(1) by (simp_all add: rb_ok_def)
  have "(rb_back r + 1) mod S = (rb_front r + (rb_size r - 1) + 1) mod S"
    using assms by (simp add: rb_ok_def)
  then have "(1 + rb_back r) mod S = (1 + (rb_front r + (rb_size r - 1)) mod S) mod S"
    by (simp add: mod_simps add.commute)
  from ring_pos_inj [OF S(2) _ this] S(1) show ?thesis by simp
qed

lemma rb_back_last: "rb_ok S r \<Longrightarrow> 0 < rb_size r \<Longrightarrow> rb_back_elem r = last (rb_copy_to r)"
proof -
  assume r: "rb_ok S r" "0 < rb_size r"
  then have "rb_S r = S" by (simp add: rb_ok_def)
  with rb_back_nth [OF r] r(2) show ?thesis
    by (simp add: rb_back_elem_def rb_copy_to_nth last_map last_upt)
qed

lemma rb_update_back_ok [simp]: "rb_ok S (rb_update_back f r) = rb_ok S r"
  by (simp add: rb_ok_def rb_update_back_def rb_S_def)

lemma rb_update_back_contents:
  assumes "rb_ok S r" "0 < rb_size r"
  shows "rb_copy_to (rb_update_back f r) = butlast (rb_copy_to r) @ [f (last (rb_copy_to r))]"
proof (rule nth_equalityI)
  have S: "rb_S r = S" "length (rb_buffer r) = S" "rb_size r \<le> S" "rb_back r < S"
    using assms by (simp_all add: rb_ok_def rb_S_def)
  show "length (rb_copy_to (rb_update_back f r)) = length (butlast (rb_copy_to r) @ [f (last (rb_copy_to r))])"
    using assms(2) by (simp add: rb_update_back_def)
  fix i assume i: "i < length (rb_copy_to (rb_update_back f r))"
  then have i': "i < rb_size r" by (simp add: rb_update_back_def)
  have new: "rb_copy_to (rb_update_back f r) ! i
      = (rb_buffer r)[rb_back r := f (rb_back_elem r)] ! ((rb_front r + i) mod S)"
    using i' S by (simp add: rb_copy_to_nth rb_update_back_def rb_S_def)
  show "rb_copy_to (rb_update_back f r) ! i = (butlast (rb_copy_to r) @ [f (last (rb_copy_to r))]) ! i"
  proof (cases "i = rb_size r - 1")
    case True
    with new rb_back_nth [OF assms] S rb_back_last [OF assms] show ?thesis by (simp add: nth_append)
  next
    case False
    with i' have lt: "i < rb_size r - 1" by simp
    have "(rb_front r + i) mod S \<noteq> rb_back r"
    proof
      assume "(rb_front r + i) mod S = rb_back r"
      then have "(rb_front r + i) mod S = (rb_front r + (rb_size r - 1)) mod S" using rb_back_nth [OF assms] by simp
      moreover have "i < S" "rb_size r - 1 < S" using i' S(3) by linarith+
      ultimately show False using ring_pos_inj [of i S "rb_size r - 1" "rb_front r"] False by simp
    qed
    moreover have "rb_copy_to r ! i = rb_buffer r ! ((rb_front r + i) mod S)"
      using i' S by (simp add: rb_copy_to_nth)
    ultimately show ?thesis using new lt by (simp add: nth_append nth_butlast)
  qed
qed

text \<open>The log of errors without a bound: a text that repeats the last one counts it up.\<close>

definition log_error :: "int \<times> string \<Rightarrow> error_info list \<Rightarrow> error_info list" where
  "log_error = (\<lambda>(now, text) es.
     if es \<noteq> [] \<and> ei_message (last es) = text
     then butlast es @ [(last es)\<lparr>ei_count := ei_count (last es) + 1, ei_timestamp := now\<rparr>]
     else es @ [\<lparr>ei_timestamp = now, ei_message = text, ei_count = 1\<rparr>])"

definition last_n :: "nat \<Rightarrow> 'a list \<Rightarrow> 'a list" where
  "last_n n xs = drop (length xs - n) xs"

lemma last_n_last: "0 < n \<Longrightarrow> xs \<noteq> [] \<Longrightarrow> last_n n xs \<noteq> [] \<and> last (last_n n xs) = last xs"
  by (cases xs rule: rev_cases) (simp_all add: last_n_def)

lemma last_n_replace: "0 < n \<Longrightarrow> xs \<noteq> [] \<Longrightarrow> last_n n (butlast xs @ [y]) = butlast (last_n n xs) @ [y]"
  by (cases xs rule: rev_cases) (simp_all add: last_n_def)

lemma last_n_snoc: "0 < n \<Longrightarrow> last_n n (xs @ [y]) = (if length (last_n n xs) = n then tl (last_n n xs) else last_n n xs) @ [y]"
proof -
  assume n: "0 < n"
  show ?thesis
  proof (cases "length xs < n")
    case True
    then show ?thesis by (simp add: last_n_def)
  next
    case False
    then have "length (last_n n xs) = n" "Suc (length xs) - n = Suc (length xs - n)" by (simp_all add: last_n_def)
    with n False show ?thesis by (simp add: last_n_def drop_Suc tl_drop)
  qed
qed

definition errors_match :: "error_info list \<Rightarrow> cyclic_task \<Rightarrow> bool" where
  "errors_match es t \<longleftrightarrow> rb_ok 10 (ct_errors t) \<and> rb_copy_to (ct_errors t) = last_n 10 es \<and> ct_errors_count t = length es"

lemma save_error_match:
  assumes "errors_match es t"
  shows "errors_match (log_error (now, text) es) (save_error now text t)"
proof -
  have r: "rb_ok 10 (ct_errors t)" "rb_copy_to (ct_errors t) = last_n 10 es" "ct_errors_count t = length es"
    using assms by (simp_all add: errors_match_def)
  have size_iff: "0 < rb_size (ct_errors t) \<longleftrightarrow> es \<noteq> []"
    using last_n_last [of 10 es] r(2) length_rb_copy_to [of "ct_errors t"] by (cases es) (auto simp: last_n_def)
  show ?thesis
  proof (cases "es \<noteq> [] \<and> ei_message (last es) = text")
    case True
    with r size_iff rb_back_last [OF r(1)] last_n_last [of 10 es] have
      "0 < rb_size (ct_errors t)" "ei_message (rb_back_elem (ct_errors t)) = text" by simp_all
    with True r show ?thesis
      using last_n_last [of 10 es] rb_update_back_contents [OF r(1)]
      by (simp add: errors_match_def save_error_def log_error_def last_n_replace)
  next
    case False
    with r size_iff rb_back_last [OF r(1)] last_n_last [of 10 es] have
      "\<not> (0 < rb_size (ct_errors t) \<and> ei_message (rb_back_elem (ct_errors t)) = text)" by auto
    with False r show ?thesis
      by (auto simp: errors_match_def save_error_def log_error_def last_n_snoc rb_push_ok rb_push_contents)
  qed
qed

lemma fold_errors_match:
  "errors_match acc t \<Longrightarrow>
   errors_match (fold log_error es acc) (fold (\<lambda>(now, text). save_error now text) es t)"
proof (induction es arbitrary: acc t)
  case (Cons e es)
  then show ?case using save_error_match [of acc t "fst e" "snd e"] by (simp add: split_def)
qed simp

lemma mm_insert_sorted_snoc:
  "sorted (map fst m) \<Longrightarrow> sort_key fst (m @ [(k, v)]) = mm_insert k v m \<and> sorted (map fst (mm_insert k v m))"
proof -
  assume m: "sorted (map fst m)"
  have elems: "set (mm_insert k v m) = insert (k, v) (set m)" for m :: "(int \<times> 'a) list"
    by (induction m) (auto split: if_splits)
  have ins: "sorted (map fst m) \<Longrightarrow> sorted (map fst (mm_insert k v m))"
    by (induction m) (auto simp: elems, force)
  have stab: "filter (\<lambda>p. j = fst p) (mm_insert k v m) = filter (\<lambda>p. j = fst p) (m @ [(k, v)])" for j
    using m
  proof (induction m)
    case (Cons p m)
    obtain k' v' where p: "p = (k', v')" by (cases p)
    show ?case
    proof (cases "k < k'")
      case True
      with Cons.prems p have "filter (\<lambda>p. k = fst p) (p # m) = []" by (force simp: filter_empty_conv)
      with True p show ?thesis by auto
    next
      case False
      with Cons p show ?thesis by auto
    qed
  qed simp
  have mset: "mset (mm_insert k v m) = mset (m @ [(k, v)])" by (induction m) auto
  have "sort_key fst (m @ [(k, v)]) = mm_insert k v m"
    by (rule properties_for_sort_key) (use mset stab ins [OF m] in simp_all)
  with ins [OF m] show ?thesis by simp
qed

lemma sort_key_snoc: "sort_key f (sort_key f xs @ [x]) = sort_key f (xs @ [x])"
proof (rule properties_for_sort_key)
  have stable: "filter (\<lambda>y. f a = f y) (sort_key f zs) = filter (\<lambda>y. f a = f y) zs" for a zs
    using sort_key_stable [of f "f a" zs] by (simp add: eq_commute)
  show "filter (\<lambda>y. f k = f y) (sort_key f (xs @ [x])) = filter (\<lambda>y. f k = f y) (sort_key f xs @ [x])" for k
    by (simp add: stable del: sort_key_simps)
qed simp_all

lemma add_events_sorted:
  "fold (\<lambda>(e, p, r). add_event e p r) regs (\<lambda>_. []) event
     = sort_key fst (map snd (filter (\<lambda>reg. fst reg = event) regs))"
proof (induction regs rule: rev_induct)
  case (snoc reg regs)
  obtain e p r where reg: "reg = (e, p, r)" by (metis surj_pair)
  let ?m = "sort_key fst (map snd (filter (\<lambda>reg. fst reg = event) regs))"
  from snoc mm_insert_sorted_snoc [of ?m p r] show ?case
    by (auto simp: reg add_event_def sort_key_snoc)
qed simp

text \<open>What one routine does: the state it leaves, an exception or not, and the error it registers.\<close>

definition routine_errors :: "life_span_event \<Rightarrow> 'w lf_routine \<Rightarrow> 'w \<Rightarrow> (string \<times> string) list" where
  "routine_errors event r w = (case fst (lf_run r w) of
       None \<Rightarrow> []
     | Some msg \<Rightarrow> [(lf_name r, ''life_span_event::'' @ show_life_span_event event
          @ (case msg of Some m \<Rightarrow> ''. Error: '' @ m | None \<Rightarrow> ''. Unknown exception''))])"

lemma apply_routines_fold:
  "apply_routines event rs s
     = fold (\<lambda>(p, r) (w, errs). (snd (lf_run r w), errs @ routine_errors event r w)) rs s"
proof (induction rs arbitrary: s)
  case (Cons pr rs)
  obtain p r w errs where eq: "pr = (p, r)" "s = (w, errs)" by (metis surj_pair)
  obtain res w' where "lf_run r w = (res, w')" by (cases "lf_run r w")
  with Cons show ?case
    by (cases res) (auto simp: eq routine_errors_def split: option.split)
qed simp

text \<open>A registered state that has not expired is replaced only by one that is no more severe.\<close>

lemma register_message_kept:
  assumes "sm_ok vs" "map_of vs item = Some hs" "now - 1800 \<le> hs_last_time hs"
  shows "\<exists>hs'. map_of (register_message now type item' message vs) item = Some hs' \<and>
    (hs' = hs \<or> hs_status_type hs' \<le> hs_status_type hs \<and> hs_last_time hs' = now) \<and>
    sm_ok (register_message now type item' message vs)"
proof -
  let ?vs = "erase_old_messages now vs"
  have ok: "sm_ok ?vs" using assms(1) by (simp add: erase_old_messages_def)
  have "(item, hs) \<in> set ?vs" using assms(2,3) by (auto simp: erase_old_messages_def dest: map_of_SomeD)
  then have "map_of ?vs item = Some hs" by (rule sm_in_find [OF ok])
  with ok show ?thesis
    by (cases "map_of ?vs item'")
      (auto simp: register_message_def Let_def map_of_sm_set not_less)
qed

section \<open>Properties\<close>

text \<open>
  The health register. While messages about an item keep coming within half an hour,
  its severity never rises: once a warning stands, no error and no critical state of the item
  is shown, whereas a warning does replace a critical state.
\<close>

theorem health_severity_never_rises:
  assumes "sm_ok vs" "map_of vs item = Some hs"
    "\<forall>(now, type, item', message) \<in> set es. now - 1800 \<le> hs_last_time hs \<and> hs_last_time hs \<le> now"
  shows "\<exists>hs'. map_of (fold (\<lambda>(now, type, item', message). register_message now type item' message) es vs) item = Some hs' \<and>
    hs_status_type hs' \<le> hs_status_type hs"
proof -
  have "\<exists>hs'. map_of (fold (\<lambda>(now, type, item', message). register_message now type item' message) es vs) item = Some hs' \<and>
      hs_status_type hs' \<le> hs_status_type hs"
    if "sm_ok vs" "map_of vs item = Some cur" "hs_status_type cur \<le> hs_status_type hs"
      "hs_last_time hs \<le> hs_last_time cur"
      "\<forall>(now, type, item', message) \<in> set es. now - 1800 \<le> hs_last_time hs \<and> hs_last_time hs \<le> now" for cur
    using that
  proof (induction es arbitrary: vs cur)
    case (Cons e es)
    obtain now type item' message where e: "e = (now, type, item', message)" by (metis surj_pair)
    with Cons.prems have t: "now - 1800 \<le> hs_last_time cur" "hs_last_time hs \<le> now" by auto
    obtain hs' where hs': "map_of (register_message now type item' message vs) item = Some hs'"
      "hs' = cur \<or> hs_status_type hs' \<le> hs_status_type cur \<and> hs_last_time hs' = now"
      "sm_ok (register_message now type item' message vs)"
      using register_message_kept [OF Cons.prems(1,2) t(1)] by blast
    then have "hs_status_type hs' \<le> hs_status_type hs" "hs_last_time hs \<le> hs_last_time hs'"
      using Cons.prems(3,4) t(2) by (auto intro: order_trans)
    with Cons.IH [OF hs'(3,1)] Cons.prems(5) show ?case by (simp add: e)
  qed auto
  with assms show ?thesis by blast
qed

theorem health_severity_never_rises_witness:
  "\<exists>hs'. map_of (fold (\<lambda>(now, type, item', message). register_message now type item' message)
        [(1100, STATUS_CRITICAL, ''db'', ''down''), (1200, STATUS_ERROR, ''db'', ''slow'')]
        [(''db'', \<lparr>hs_item = ''db'', hs_status = ''STATUS_WARNING'', hs_status_message = ''late'',
                   hs_status_type = STATUS_WARNING, hs_last_time = 1000\<rparr>)]) ''db'' = Some hs' \<and>
     hs_status_type hs' \<le> STATUS_WARNING"
  using health_severity_never_rises [where item = "''db''" and
      hs = "\<lparr>hs_item = ''db'', hs_status = ''STATUS_WARNING'', hs_status_message = ''late'',
             hs_status_type = STATUS_WARNING, hs_last_time = 1000\<rparr>" and
      vs = "[(''db'', \<lparr>hs_item = ''db'', hs_status = ''STATUS_WARNING'', hs_status_message = ''late'',
             hs_status_type = STATUS_WARNING, hs_last_time = 1000\<rparr>)]" and
      es = "[(1100, STATUS_CRITICAL, ''db'', ''down''), (1200, STATUS_ERROR, ''db'', ''slow'')]"]
  by simp


text \<open>
  The errors of a cyclic task. Over any sequence of failures from a new task, the
  task shows, newest first, the last ten entries of the log in which a repeated text counts up
  the entry before it, and it has counted all entries.
\<close>

theorem cyclic_task_errors:
  assumes "length errors_buf = 10"
  shows "let t = fold (\<lambda>(now, text). save_error now text) es (cyclic_task_new errors_buf times_buf name timeout);
             all_errors = fold log_error es []
         in current_errors t = rev (last_n 10 all_errors) \<and> ct_errors_count t = length all_errors"
proof -
  let ?t0 = "cyclic_task_new errors_buf times_buf name timeout"
  have "rb_ok 10 (rb_new errors_buf) \<and> rb_copy_to (rb_new errors_buf) = []"
    using rb_new_ok [of errors_buf] assms by fastforce
  then have "errors_match [] ?t0"
    by (simp add: errors_match_def cyclic_task_new_def last_n_def)
  then have "errors_match (fold log_error es []) (fold (\<lambda>(now, text). save_error now text) es ?t0)"
    by (rule fold_errors_match)
  then show ?thesis by (simp add: errors_match_def current_errors_def Let_def)
qed

theorem cyclic_task_errors_witness:
  "let t = fold (\<lambda>(now, text). save_error now text) [(1, ''a''), (2, ''b''), (3, ''b'')]
       (cyclic_task_new (replicate 10 \<lparr>ei_timestamp = 0, ei_message = [], ei_count = 0\<rparr>) (replicate 10 0) ''task'' 100)
   in current_errors t = [\<lparr>ei_timestamp = 3, ei_message = ''b'', ei_count = 2\<rparr>,
                          \<lparr>ei_timestamp = 1, ei_message = ''a'', ei_count = 1\<rparr>]"
  using cyclic_task_errors [of "replicate 10 \<lparr>ei_timestamp = 0, ei_message = [], ei_count = 0\<rparr>"
      "[(1, ''a''), (2, ''b''), (3, ''b'')]" "replicate 10 0" "''task''" 100]
  by (simp add: Let_def log_error_def last_n_def)

end
