(* ===== verification/Sync.thy ===== *)
theory Sync
  imports Db Daemon
begin

text \<open>
  \<open>BDb::copy\<close> of \<open>src/db/BDb.cpp\<close> and the table synchronisation of \<open>src/data/sync\<close>: a \<open>Puller\<close>
  that replaces rows of a table of the slave by those of the master, the \<open>PullWorker\<close> threads
  that run pullers one after the other, and the \<open>PullManager\<close> that owns both. Also the active
  parts of \<open>src/data/Loader.cpp\<close>. \<open>PullManager::init\<close> and \<open>pull\<close>, and most of the loader,
  are commented out in the source.
\<close>

section \<open>\<open>BDb::copy\<close>\<close>

text \<open>
  What copying asks of \<open>libpq\<close> beside executing: the buffers \<open>PQgetCopyData\<close> returns up to its
  negative end code, \<open>PQputCopyData\<close>, \<open>PQputCopyEnd\<close> with its error message and the status and message of
  \<open>PQgetResult\<close>.
\<close>

record 'w copy_api =
  cp_base :: "'w pq_api"
  cp_getCopyData :: "'w \<Rightarrow> string list"
  cp_putCopyData :: "string \<Rightarrow> 'w \<Rightarrow> bool \<times> 'w"
  cp_putCopyEnd :: "'w \<Rightarrow> string option \<times> 'w"
  cp_getResult :: "'w \<Rightarrow> (exec_status \<times> string) \<times> 'w"

text \<open>A \<open>DbException\<close>, another \<open>Exception\<close>, or a standard exception, which is not an \<open>Exception\<close>.\<close>

datatype copy_exn = DbException exception | PlainException exception | StdException string

definition copy_exn_of :: "db_exn \<Rightarrow> copy_exn" where
  "copy_exn_of e = (case e of DbExn x \<Rightarrow> DbException x | OtherExn m \<Rightarrow> PlainException (new_exception [m]))"

definition and_then :: "('e + 'a) \<times> 's \<Rightarrow> ('a \<Rightarrow> 's \<Rightarrow> ('e + 'b) \<times> 's) \<Rightarrow> ('e + 'b) \<times> 's" where
  "and_then m f = (case m of (Inl e, s) \<Rightarrow> (Inl e, s) | (Inr x, s) \<Rightarrow> f x s)"

text \<open>The connections and the world during a copy; \<open>'c\<close> is what the callback changes.\<close>

record ('w, 'c) copy_state =
  cs_src :: bdb
  cs_dst :: bdb
  cs_world :: 'w
  cs_callback :: 'c

text \<open>\<open>BDConnectScope\<close>: \<open>True\<close> when the connection was there already and stays.\<close>

definition connect_scope_enter :: "'w pq_api \<Rightarrow> bdb \<Rightarrow> 'w \<Rightarrow> (bool, 'w) db_result" where
  "connect_scope_enter api db w =
     (if db_connected db then (Inr True, db, w)
      else case bdb_connect api db w of
        (Inl e, db, w) \<Rightarrow> (Inl e, db, w)
      | (Inr _, db, w) \<Rightarrow> (Inr False, db, w))"

definition connect_scope_leave :: "bool \<Rightarrow> bdb \<Rightarrow> bdb" where
  "connect_scope_leave wasConnected db = (if wasConnected then db else bdb_disconnect db)"

definition enter_src :: "'w copy_api \<Rightarrow> ('w, 'c) copy_state \<Rightarrow> (copy_exn + bool) \<times> ('w, 'c) copy_state" where
  "enter_src api s =
     (case connect_scope_enter (cp_base api) (cs_src s) (cs_world s) of (r, db, w) \<Rightarrow>
        (map_sum copy_exn_of (\<lambda>was. was) r, s\<lparr>cs_src := db, cs_world := w\<rparr>))"

definition enter_dst :: "'w copy_api \<Rightarrow> ('w, 'c) copy_state \<Rightarrow> (copy_exn + bool) \<times> ('w, 'c) copy_state" where
  "enter_dst api s =
     (case connect_scope_enter (cp_base api) (cs_dst s) (cs_world s) of (r, db, w) \<Rightarrow>
        (map_sum copy_exn_of (\<lambda>was. was) r, s\<lparr>cs_dst := db, cs_world := w\<rparr>))"

text \<open>A statement that must answer with a given status.\<close>

definition expect_status ::
  "'w copy_api \<Rightarrow> string \<Rightarrow> exec_status \<Rightarrow> string \<Rightarrow> ('w, 'c) copy_state \<Rightarrow> (copy_exn + unit) \<times> ('w, 'c) copy_state" where
  "expect_status api squery wanted trace s =
     (case api_execute (cp_base api) (c_str squery) (cs_world s) of ((status, msg, res), w) \<Rightarrow>
        (if status \<noteq> wanted then Inl (DbException (conn_exception_at msg trace)) else Inr (),
         s\<lparr>cs_world := w\<rparr>))"

definition expect_result ::
  "'w copy_api \<Rightarrow> string \<Rightarrow> ('w, 'c) copy_state \<Rightarrow> (copy_exn + unit) \<times> ('w, 'c) copy_state" where
  "expect_result api trace s =
     (case cp_getResult api (cs_world s) of ((status, msg), w) \<Rightarrow>
        (if status \<noteq> PGRES_COMMAND_OK then Inl (DbException (conn_exception_at msg trace)) else Inr (),
         s\<lparr>cs_world := w\<rparr>))"

text \<open>The transfer loop; the callback may throw a standard exception.\<close>

fun copy_loop ::
  "'w copy_api \<Rightarrow> (int \<Rightarrow> ('w, 'c) copy_state \<Rightarrow> (copy_exn + unit) \<times> ('w, 'c) copy_state) \<Rightarrow> string list \<Rightarrow> int \<Rightarrow>
   ('w, 'c) copy_state \<Rightarrow> (copy_exn + int) \<times> ('w, 'c) copy_state" where
  "copy_loop dst callback [] total_bytes_read s = (Inr total_bytes_read, s)"
| "copy_loop dst callback (buffer # rest) total_bytes_read s =
     (case (if buffer \<noteq> [] then cp_putCopyData dst buffer (cs_world s) else (True, cs_world s)) of
        (False, w) \<Rightarrow> (Inl (copy_exn_of (errors_exception ''error'' ''BDb::copy::transfer'')), s\<lparr>cs_world := w\<rparr>)
      | (True, w) \<Rightarrow>
          and_then (callback (int (length buffer)) (s\<lparr>cs_world := w\<rparr>)) (\<lambda>_ s.
            copy_loop dst callback rest (uint64 (total_bytes_read + int (length buffer))) s))"

definition put_copy_end ::
  "'w copy_api \<Rightarrow> ('w, 'c) copy_state \<Rightarrow> (copy_exn + unit) \<times> ('w, 'c) copy_state" where
  "put_copy_end dst s =
     (case cp_putCopyEnd dst (cs_world s) of
        (None, w) \<Rightarrow> (Inr (), s\<lparr>cs_world := w\<rparr>)
      | (Some msg, w) \<Rightarrow> (Inl (DbException (conn_exception_at msg ''BDb::copy::to::end'')), s\<lparr>cs_world := w\<rparr>))"

definition copy_transfer ::
  "'w copy_api \<Rightarrow> 'w copy_api \<Rightarrow> string \<Rightarrow> string \<Rightarrow>
   (int \<Rightarrow> ('w, 'c) copy_state \<Rightarrow> (copy_exn + unit) \<times> ('w, 'c) copy_state) \<Rightarrow>
   ('w, 'c) copy_state \<Rightarrow> (copy_exn + int) \<times> ('w, 'c) copy_state" where
  "copy_transfer src dst query_read query_write callback s =
     and_then (expect_status src query_read PGRES_COPY_OUT ''BDb::copy::from'' s) (\<lambda>_ s.
     and_then (expect_status dst query_write PGRES_COPY_IN ''BDb::copy::to'' s) (\<lambda>_ s.
     and_then (callback 0 s) (\<lambda>_ s.
     and_then (copy_loop dst callback (cp_getCopyData src (cs_world s)) 0 s) (\<lambda>total_bytes_read s.
     and_then (expect_result src ''BDb::copy::from::result'' s) (\<lambda>_ s.
     and_then (put_copy_end dst s) (\<lambda>_ s.
     and_then (expect_result dst ''BDb::copy::to::result'' s) (\<lambda>_ s.
       (Inr total_bytes_read, s))))))))"

definition copy_ex ::
  "'w copy_api \<Rightarrow> 'w copy_api \<Rightarrow> string \<Rightarrow> string \<Rightarrow> string \<Rightarrow> string \<Rightarrow> string \<Rightarrow>
   (int \<Rightarrow> ('w, 'c) copy_state \<Rightarrow> (copy_exn + unit) \<times> ('w, 'c) copy_state) \<Rightarrow>
   ('w, 'c) copy_state \<Rightarrow> (copy_exn + int) \<times> ('w, 'c) copy_state" where
  "copy_ex src dst src_table dst_table src_columns dst_columns condition callback s =
     (if src_columns = [] \<or> dst_columns = []
      then (Inl (StdException (''empty columns string is not supported. Use '' @ [CHR 34] @ ''*'' @ [CHR 34] @ '' instead'')), s)
      else and_then (enter_src src s) (\<lambda>src_was s.
        case and_then (enter_dst dst s) (\<lambda>dst_was s.
               case copy_transfer src dst (copy_read_statement src_columns src_table condition)
                      (copy_write_statement dst_table dst_columns) callback s of
                 (r, s) \<Rightarrow> (r, s\<lparr>cs_dst := connect_scope_leave dst_was (cs_dst s)\<rparr>)) of
          (r, s) \<Rightarrow> (r, s\<lparr>cs_src := connect_scope_leave src_was (cs_src s)\<rparr>)))"

definition bdb_copy ::
  "'w copy_api \<Rightarrow> 'w copy_api \<Rightarrow> string \<Rightarrow> string \<Rightarrow> string \<Rightarrow> string \<Rightarrow>
   (int \<Rightarrow> ('w, 'c) copy_state \<Rightarrow> (copy_exn + unit) \<times> ('w, 'c) copy_state) \<Rightarrow>
   ('w, 'c) copy_state \<Rightarrow> (copy_exn + int) \<times> ('w, 'c) copy_state" where
  "bdb_copy src dst src_table dst_table columns = copy_ex src dst src_table dst_table columns columns"

section \<open>\<open>Puller\<close>\<close>

datatype puller_priority = Critical | High | Low

fun priority_value :: "puller_priority \<Rightarrow> nat" where
  "priority_value Critical = 0"
| "priority_value High = 1"
| "priority_value Low = 2"

instantiation puller_priority :: linorder
begin

definition less_eq_puller_priority :: "puller_priority \<Rightarrow> puller_priority \<Rightarrow> bool" where
  "less_eq_puller_priority a b = (priority_value a \<le> priority_value b)"

definition less_puller_priority :: "puller_priority \<Rightarrow> puller_priority \<Rightarrow> bool" where
  "less_puller_priority a b = (priority_value a < priority_value b)"

instance
proof
  fix x y z :: puller_priority
  show "x < y \<longleftrightarrow> x \<le> y \<and> \<not> y \<le> x"
    by (auto simp: less_eq_puller_priority_def less_puller_priority_def)
  show "x \<le> x" by (simp add: less_eq_puller_priority_def)
  show "x \<le> y \<Longrightarrow> y \<le> z \<Longrightarrow> x \<le> z" by (simp add: less_eq_puller_priority_def)
  show "x \<le> y \<Longrightarrow> y \<le> x \<Longrightarrow> x = y" by (cases x; cases y) (simp_all add: less_eq_puller_priority_def)
  show "x \<le> y \<or> y \<le> x" by (auto simp: less_eq_puller_priority_def)
qed

end

fun show_priority :: "puller_priority \<Rightarrow> string" where
  "show_priority Critical = ''Critical''"
| "show_priority High = ''High''"
| "show_priority Low = ''Low''"

record puller_info =
  pi_timer :: timer
  pi_pull_count_full :: int
  pi_pull_count_partial :: int
  pi_pull_count_errors :: int
  pi_last_copied_bytes :: int
  pi_total_copied_bytes :: int

record puller =
  pl_event :: string
  pl_src_table :: string
  pl_dst_table :: string
  pl_key :: string
  pl_src_sql_where :: string
  pl_fields :: "string list"
  pl_priority :: puller_priority
  pl_only_full_pull_is_supported :: bool
  pl_copied_bytes :: int
  pl_info :: puller_info
  pl_versions_to_clean :: "int list"

text \<open>
  The constructor; \<open>_full_pull_required\<close> and \<open>_ids_to_pull\<close>, which nothing reads, are left out.
  \<open>copied_bytes_\<close> is left uninitialised by the source, so its value is an argument.
\<close>

definition puller_new ::
  "int \<Rightarrow> string \<Rightarrow> string \<Rightarrow> string \<Rightarrow> string \<Rightarrow> string \<Rightarrow> string list \<Rightarrow> puller_priority \<Rightarrow> puller" where
  "puller_new garbage event src_table dst_table key src_sql_where flds priority =
     \<lparr>pl_event = event, pl_src_table = src_table, pl_dst_table = dst_table, pl_key = key,
      pl_src_sql_where = src_sql_where, pl_fields = flds, pl_priority = priority,
      pl_only_full_pull_is_supported = (key = []), pl_copied_bytes = garbage,
      pl_info = \<lparr>pi_timer = timer_new, pi_pull_count_full = 0, pi_pull_count_partial = 0, pi_pull_count_errors = 0,
                 pi_last_copied_bytes = 0, pi_total_copied_bytes = 0\<rparr>,
      pl_versions_to_clean = []\<rparr>"

definition intersect_conditions :: "string \<Rightarrow> string \<Rightarrow> string" where
  "intersect_conditions first_condition second_condition =
     (if first_condition = [] then second_condition
      else if second_condition = [] then first_condition
      else concat_args [''('', first_condition, '') and ('', second_condition, '')''])"

definition getQueryFields :: "puller \<Rightarrow> string" where
  "getQueryFields p = [CHR 34] @ join_through (pl_fields p) [CHR 34, CHR '','', CHR 34] @ [CHR 34]"

definition is_full_pull_required :: "puller \<Rightarrow> int list \<Rightarrow> bool" where
  "is_full_pull_required p ids = (pl_only_full_pull_is_supported p \<or> list_ex (\<lambda>i. i = 0) ids)"

text \<open>The condition of the copy and the statement that clears.\<close>

definition createUpdateQueries :: "puller \<Rightarrow> int list \<Rightarrow> string \<times> string" where
  "createUpdateQueries p ids =
     (if \<not> is_full_pull_required p ids
      then
        let ids_sql = join_through (map show_int ids) '','';
            key_selection = concat_args [[CHR 34], pl_key p, [CHR 34] @ '' in ('', ids_sql, '')'']
        in (intersect_conditions (pl_src_sql_where p) key_selection,
            concat_args [''delete from '', pl_dst_table p] @ concat_args ['' where '', key_selection])
      else (pl_src_sql_where p, concat_args [''truncate '', pl_dst_table p]))"

definition puller_clear :: "puller \<Rightarrow> puller" where
  "puller_clear p = (if pl_versions_to_clean p = [] then p else p\<lparr>pl_versions_to_clean := []\<rparr>)"

section \<open>\<open>Puller::pull\<close>\<close>

text \<open>What a pull uses: both connections' interfaces, the limiter, \<open>app::running\<close>, the thread and its clocks.\<close>

record 'w pull_env =
  pe_main :: "'w copy_api"
  pe_slave :: "'w copy_api"
  pe_delayer :: "int \<Rightarrow> 'w \<Rightarrow> 'w"
  pe_running :: "'w \<Rightarrow> bool"
  pe_thread :: nat
  pe_clocks :: "'w \<Rightarrow> int \<times> int"

type_synonym 'w pull_state = "('w, puller) copy_state"

definition delayer_proxy :: "'w pull_env \<Rightarrow> int \<Rightarrow> 'w pull_state \<Rightarrow> (copy_exn + unit) \<times> 'w pull_state" where
  "delayer_proxy env bytes_read s =
     (let p = cs_callback s;
          s = s\<lparr>cs_callback := p\<lparr>pl_copied_bytes := uint64 (pl_copied_bytes p + bytes_read)\<rparr>,
                cs_world := pe_delayer env bytes_read (cs_world s)\<rparr>
      in (if \<not> pe_running env (cs_world s) then Inl (StdException ''Application stopped'') else Inr (), s))"

text \<open>\<open>slave_db->exec\<close>: what it throws.\<close>

definition slave_exec :: "'w pull_env \<Rightarrow> string \<Rightarrow> 'w pull_state \<Rightarrow> copy_exn option \<times> 'w pull_state" where
  "slave_exec env squery s =
     (case bdb_exec (cp_base (pe_slave env)) squery (cs_dst s) (cs_world s) of
        (Inl e, db, w) \<Rightarrow> (Some (copy_exn_of e), s\<lparr>cs_dst := db, cs_world := w\<rparr>)
      | (Inr _, db, w) \<Rightarrow> (None, s\<lparr>cs_dst := db, cs_world := w\<rparr>))"

text \<open>The transaction of a pull; the guard's destructor runs on every way out once it was constructed.\<close>

definition pull_transaction ::
  "(string \<Rightarrow> 's \<Rightarrow> 'e option \<times> 's) \<Rightarrow> string \<Rightarrow> ('s \<Rightarrow> ('e + int) \<times> 's) \<Rightarrow> 's \<Rightarrow> ('e + int) \<times> 's" where
  "pull_transaction ex clear_query copy s =
     (case tx_new ex True s of
        (Some e, t, s) \<Rightarrow> (Inl e, s)
      | (None, t, s) \<Rightarrow>
          (case ex clear_query s of
             (Some e, s) \<Rightarrow> (Inl e, tx_destroy ex (t, s))
           | (None, s) \<Rightarrow>
               (case copy s of
                  (Inl e, s) \<Rightarrow> (Inl e, tx_destroy ex (t, s))
                | (Inr copied_bytes, s) \<Rightarrow>
                    (case tx_commit ex (t, s) of
                       (Some e, t, s) \<Rightarrow> (Inl e, tx_destroy ex (t, s))
                     | (None, t, s) \<Rightarrow> (Inr copied_bytes, tx_destroy ex (t, s))))))"

definition set_timer :: "timer \<Rightarrow> 'w pull_state \<Rightarrow> 'w pull_state" where
  "set_timer t s = s\<lparr>cs_callback := (cs_callback s)\<lparr>pl_info := (pl_info (cs_callback s))\<lparr>pi_timer := t\<rparr>\<rparr>\<rparr>"

definition count_error :: "puller \<Rightarrow> puller" where
  "count_error p = p\<lparr>pl_info := (pl_info p)\<lparr>pi_pull_count_errors := int32 (pi_pull_count_errors (pl_info p) + 1)\<rparr>\<rparr>"

definition count_pull :: "int list \<Rightarrow> int \<Rightarrow> puller \<Rightarrow> puller" where
  "count_pull ids copied_bytes p =
     (let i = pl_info p;
          i = (if is_full_pull_required p ids then i\<lparr>pi_pull_count_full := int32 (pi_pull_count_full i + 1)\<rparr>
               else i\<lparr>pi_pull_count_partial := int32 (pi_pull_count_partial i + int (length ids))\<rparr>)
      in p\<lparr>pl_info := i\<lparr>pi_last_copied_bytes := copied_bytes,
                         pi_total_copied_bytes := uint64 (pi_total_copied_bytes i + copied_bytes)\<rparr>\<rparr>)"

text \<open>Only an \<open>Exception\<close> is caught, counted and rethrown with a trace.\<close>

definition pull_handler :: "copy_exn \<Rightarrow> puller \<Rightarrow> copy_exn \<times> puller" where
  "pull_handler e p =
     (case e of
        DbException x \<Rightarrow> (DbException (addTrace (''Puller::pull: '' @ pl_event p) x), count_error p)
      | PlainException x \<Rightarrow> (PlainException (addTrace (''Puller::pull: '' @ pl_event p) x), count_error p)
      | StdException m \<Rightarrow> (StdException m, p))"

definition puller_pull :: "'w pull_env \<Rightarrow> int list \<Rightarrow> int list \<Rightarrow> 'w pull_state \<Rightarrow> copy_exn option \<times> 'w pull_state" where
  "puller_pull env ids versions s =
     (let p = cs_callback s;
          (condition, clear_query) = createUpdateQueries p ids;
          s = s\<lparr>cs_callback := p\<lparr>pl_copied_bytes := 0\<rparr>\<rparr>;
          (cpu, clk) = pe_clocks env (cs_world s)
      in case timer_start (pe_thread env) cpu clk (pi_timer (pl_info p)) of
        (t, Some m) \<Rightarrow> (Some (StdException m), set_timer t s)
      | (t, None) \<Rightarrow>
          let (r, s) = pull_transaction (slave_exec env) clear_query
                 (bdb_copy (pe_main env) (pe_slave env) (pl_src_table p) (pl_dst_table p) (getQueryFields p)
                    condition (delayer_proxy env)) (set_timer t s);
              (cpu, clk) = pe_clocks env (cs_world s);
              s = set_timer (fst (timer_stop (pe_thread env) cpu clk (pi_timer (pl_info (cs_callback s))))) s
          in case r of
            Inl e \<Rightarrow> let (e, p) = pull_handler e (cs_callback s) in (Some e, s\<lparr>cs_callback := p\<rparr>)
          | Inr copied_bytes \<Rightarrow>
              let p = cs_callback s;
                  p = p\<lparr>pl_versions_to_clean := pl_versions_to_clean p @ versions\<rparr>
              in (None, s\<lparr>cs_callback := count_pull ids copied_bytes p\<rparr>))"

section \<open>\<open>PullWorker\<close>\<close>

text \<open>
  A task is the lambda with its captured values, or the destructor's empty lambda, and the holder
  of the thread that enqueued it, by number. \<open>'p\<close> is a pointer to a puller. The queue is that of
  the concurrent queue library, first in first out for one producer.
\<close>

datatype pull_routine = Run_pull string "int list" "int list" | No_routine

type_synonym pull_task = "pull_routine \<times> nat"

record 'p pull_worker =
  pw_tasks_count :: int
  pw_extractors :: "(string \<times> 'p) list"
  pw_queue :: "pull_task list"

definition worker_new :: "'p pull_worker" where
  "worker_new = \<lparr>pw_tasks_count = 0, pw_extractors = [], pw_queue = []\<rparr>"

definition worker_add :: "string \<Rightarrow> 'p \<Rightarrow> 'p pull_worker \<Rightarrow> 'p pull_worker" where
  "worker_add event val pw = pw\<lparr>pw_extractors := sm_set event val (pw_extractors pw)\<rparr>"

definition events_count :: "'p pull_worker \<Rightarrow> int" where
  "events_count pw = int32 (pw_tasks_count pw)"

definition worker_working :: "'p pull_worker \<Rightarrow> bool" where
  "worker_working pw = (events_count pw \<noteq> 0)"

definition copy_names_to :: "'p pull_worker \<Rightarrow> string list \<Rightarrow> string list" where
  "copy_names_to pw res = fold (\<lambda>q res. res @ [fst q]) (pw_extractors pw) res"

definition worker_enqueue :: "string \<Rightarrow> int list \<Rightarrow> int list \<Rightarrow> nat \<Rightarrow> 'p pull_worker \<Rightarrow> 'p pull_worker" where
  "worker_enqueue event ids versions holder pw =
     (let pw = pw\<lparr>pw_queue := pw_queue pw @ [(Run_pull event ids versions, holder)]\<rparr>
      in pw\<lparr>pw_tasks_count := uint64 (pw_tasks_count pw + 1)\<rparr>)"

text \<open>The destructor wakes the loop with a task it does not count.\<close>

definition worker_destroy :: "nat \<Rightarrow> 'p pull_worker \<Rightarrow> 'p pull_worker" where
  "worker_destroy holder pw = pw\<lparr>pw_queue := pw_queue pw @ [(No_routine, holder)]\<rparr>"

text \<open>\<open>pull p ids versions\<close> is \<open>puller->pull\<close>; \<open>extractors_.at\<close> throws for an unknown event.\<close>

definition task_routine ::
  "('p \<Rightarrow> int list \<Rightarrow> int list \<Rightarrow> 'w \<Rightarrow> copy_exn option \<times> 'w) \<Rightarrow> (string \<times> 'p) list \<Rightarrow> pull_routine \<Rightarrow> 'w \<Rightarrow> copy_exn option \<times> 'w" where
  "task_routine pull extractors r w =
     (case r of
        No_routine \<Rightarrow> (None, w)
      | Run_pull event ids versions \<Rightarrow>
          (case map_of extractors event of
             None \<Rightarrow> (Some (StdException ''_Map_base::at''), w)
           | Some p \<Rightarrow> pull p ids versions w))"

text \<open>One round of \<open>working_loop\<close>; an empty queue waits. The holders map a thread to its exception.\<close>

definition worker_round ::
  "('p \<Rightarrow> int list \<Rightarrow> int list \<Rightarrow> 'w \<Rightarrow> copy_exn option \<times> 'w) \<Rightarrow>
   'p pull_worker \<times> (nat \<Rightarrow> copy_exn option) \<times> 'w \<Rightarrow> 'p pull_worker \<times> (nat \<Rightarrow> copy_exn option) \<times> 'w" where
  "worker_round pull = (\<lambda>(pw, holders, w).
     case pw_queue pw of
       [] \<Rightarrow> (pw, holders, w)
     | (r, holder) # rest \<Rightarrow>
         let pw = pw\<lparr>pw_queue := rest\<rparr>;
             pw = pw\<lparr>pw_tasks_count := uint64 (pw_tasks_count pw - 1)\<rparr>
         in case task_routine pull (pw_extractors pw) r w of
              (None, w) \<Rightarrow> (pw, holders, w)
            | (Some e, w) \<Rightarrow> (pw, holders(holder := save_exception (Some e) (holders holder)), w))"

section \<open>\<open>PullManager\<close>\<close>

text \<open>
  The maps are in key order; that of \<open>pullers\<close> is an unordered one, whose order the source does
  not fix. A pointer to a puller is its event name.
\<close>

record pull_manager =
  pm_pullers :: "(string \<times> puller) list"
  pm_workers :: "(puller_priority \<times> string pull_worker) list"
  pm_errors_count :: int

definition pm_add ::
  "int \<Rightarrow> string \<Rightarrow> string \<Rightarrow> string \<Rightarrow> string \<Rightarrow> string \<Rightarrow> string list \<Rightarrow> puller_priority \<Rightarrow> pull_manager \<Rightarrow> pull_manager" where
  "pm_add garbage event src_table dst_table key src_sql_where flds priority pm =
     pm\<lparr>pm_pullers := sm_set event (puller_new garbage event src_table dst_table key src_sql_where flds priority)
          (pm_pullers pm)\<rparr>"

text \<open>\<open>init\<close> adds what it is written to add; all of that is commented out.\<close>

definition pull_manager_new :: "(pull_manager \<Rightarrow> pull_manager) \<Rightarrow> pull_manager outcome" where
  "pull_manager_new init =
     (let pm = init \<lparr>pm_pullers = [], pm_workers = [], pm_errors_count = 0\<rparr>;
          pm = pm\<lparr>pm_workers := fold (\<lambda>p ws. sm_insert p worker_new ws) [Low, Critical, High] (pm_workers pm)\<rparr>
      in fold (\<lambda>(name, p) r. bind_outcome r (\<lambda>pm.
           case map_of (pm_workers pm) (pl_priority p) of
             None \<Rightarrow> Throws ''map::at''
           | Some pw \<Rightarrow> Ok (pm\<lparr>pm_workers := sm_set (pl_priority p) (worker_add name name pw) (pm_workers pm)\<rparr>)))
         (pm_pullers pm) (Ok pm))"

definition get_event_count :: "pull_manager \<Rightarrow> int" where
  "get_event_count pm = fold (\<lambda>(p, pw) res. int32 (res + events_count pw)) (pm_workers pm) 0"

definition get_pulls :: "pull_manager \<Rightarrow> puller list" where
  "get_pulls pm = map snd (pm_pullers pm)"

definition excludeEventsSql :: "pull_manager \<Rightarrow> string" where
  "excludeEventsSql pm =
     (let skipped_events = fold (\<lambda>(p, pw) res. if worker_working pw then copy_names_to pw res else res) (pm_workers pm) []
      in concat_args ['' and event not in ('' @ [CHR 39], join_through skipped_events [CHR 39, CHR '','', CHR 39],
                      [CHR 39] @ '')''])"

definition clear_event_table :: "pull_manager \<Rightarrow> pull_manager" where
  "clear_event_table pm = pm\<lparr>pm_pullers := map (\<lambda>(name, p). (name, puller_clear p)) (pm_pullers pm)\<rparr>"

definition start_puller_task :: "error_info list \<Rightarrow> int list \<Rightarrow> settings \<Rightarrow> 'c application \<Rightarrow> 'c application" where
  "start_puller_task errors_buf times_buf setts ap =
     (if is_slave setts then ap else app_register_cyclic_task errors_buf times_buf ''sync'' 10000 ap)"

section \<open>\<open>Loader.cpp\<close>\<close>

record loading_info =
  ld_event_name :: string
  ld_ids :: "int list"
  ld_versions :: "int list"

definition loading_shrink :: "loading_info \<Rightarrow> loading_info" where
  "loading_shrink li = (let shrinkable = list_ex (\<lambda>i. i = 0) (ld_ids li)
                        in if shrinkable then li\<lparr>ld_ids := [0]\<rparr> else li)"

text \<open>The events being loaded, \<open>loading_events_\<close>, are a set.\<close>

definition loading_events :: "string set \<Rightarrow> string list" where
  "loading_events evs = sorted_list_of_set evs"

definition add_load_event :: "string \<Rightarrow> string set \<Rightarrow> string set" where
  "add_load_event name evs = insert name evs"

definition rem_load_event :: "string \<Rightarrow> string set \<Rightarrow> string set" where
  "rem_load_event name evs = evs - {name}"

text \<open>What is left of \<open>load\<close>: the count it would start, \<open>None\<close> when it returns at once.\<close>

definition loader_load :: "settings \<Rightarrow> string set \<Rightarrow> nat option" where
  "loader_load s evs =
     (let cur_loading_tables = loading_events evs
      in if nat (st_loader_thread_count s) \<le> length cur_loading_tables then None
         else Some (nat (st_loader_thread_count s) - length cur_loading_tables))"

text \<open>\<open>start_load_event\<close> flows off its end without the value it promises.\<close>

definition start_load_event :: "loading_info \<Rightarrow> bool outcome" where
  "start_load_event li = (let li = loading_shrink li in Undefined)"

definition loading_task_by_name :: "(string \<times> 't) list \<Rightarrow> string \<Rightarrow> 't option" where
  "loading_task_by_name event_tasks tab_name =
     (if map_of event_tasks tab_name \<noteq> None then map_of event_tasks tab_name else None)"

definition loading_counter_task_by_name :: "(string \<times> 't) list \<Rightarrow> string \<Rightarrow> 't option" where
  "loading_counter_task_by_name counter_tasks tab_name =
     (case map_of counter_tasks tab_name of Some t \<Rightarrow> Some t | None \<Rightarrow> None)"

definition table_loading_event :: "string \<Rightarrow> string" where
  "table_loading_event name = concat_args [''Table Loading Event '', name]"

definition counters_loading_event :: "string \<Rightarrow> string" where
  "counters_loading_event name = concat_args [''Counters Loading Event '', name]"

text \<open>The health register after the error is logged.\<close>

definition table_loading_error :: "int \<Rightarrow> string \<Rightarrow> string \<Rightarrow> health_values \<Rightarrow> health_values" where
  "table_loading_error now name message = health_critical now (table_loading_event name) message"

definition counter_loading_error :: "int \<Rightarrow> string \<Rightarrow> string \<Rightarrow> health_values \<Rightarrow> health_values" where
  "counter_loading_error now name message = health_critical now (counters_loading_event name) message"

definition start_data_loader :: "error_info list \<Rightarrow> int list \<Rightarrow> 'c application \<Rightarrow> 'c application" where
  "start_data_loader errors_buf times_buf = app_register_cyclic_task errors_buf times_buf ''loader_task'' 1000"

section \<open>What reaches the slave\<close>

text \<open>A world that also keeps what it was sent: connections, statements and copied data.\<close>

datatype sent = Connected | Statement string | Copy_data string

definition observe_base :: "bool \<Rightarrow> 'w pq_api \<Rightarrow> ('w \<times> sent list) pq_api" where
  "observe_base on api =
     \<lparr>api_connectdb = (\<lambda>c (w, l). case api_connectdb api c w of (r, w) \<Rightarrow>
          (r, (w, if on \<and> r = None then l @ [Connected] else l))),
      api_execute = (\<lambda>q (w, l). case api_execute api q w of (r, w) \<Rightarrow> (r, (w, if on then l @ [Statement q] else l))),
      api_execParams = (\<lambda>q p (w, l). case api_execParams api q p w of (r, w) \<Rightarrow> (r, (w, l)))\<rparr>"

definition observe :: "bool \<Rightarrow> 'w copy_api \<Rightarrow> ('w \<times> sent list) copy_api" where
  "observe on api =
     \<lparr>cp_base = observe_base on (cp_base api),
      cp_getCopyData = (\<lambda>(w, l). cp_getCopyData api w),
      cp_putCopyData = (\<lambda>b (w, l). case cp_putCopyData api b w of (r, w) \<Rightarrow> (r, (w, if on then l @ [Copy_data b] else l))),
      cp_putCopyEnd = (\<lambda>(w, l). case cp_putCopyEnd api w of (r, w) \<Rightarrow> (r, (w, l))),
      cp_getResult = (\<lambda>(w, l). case cp_getResult api w of (r, w) \<Rightarrow> (r, (w, l)))\<rparr>"

definition data_of :: "sent list \<Rightarrow> string list" where
  "data_of l = concat (map (\<lambda>x. case x of Copy_data b \<Rightarrow> [b] | _ \<Rightarrow> []) l)"

lemma data_of_simps [simp]:
  "data_of [] = []" "data_of (l @ l') = data_of l @ data_of l'"
  "data_of (Connected # l) = data_of l" "data_of (Statement q # l) = data_of l" "data_of (Copy_data b # l) = b # data_of l"
  by (simp_all add: data_of_def)

text \<open>The data sent so far in a copy state, and the steps that leave it alone.\<close>

abbreviation sent_data :: "('w \<times> sent list, 'c) copy_state \<Rightarrow> string list" where
  "sent_data s \<equiv> data_of (snd (cs_world s))"

definition no_data :: "(('w \<times> sent list, 'c) copy_state \<Rightarrow> 'r \<times> ('w \<times> sent list, 'c) copy_state) \<Rightarrow> bool" where
  "no_data f \<longleftrightarrow> (\<forall>s. sent_data (snd (f s)) = sent_data s)"

lemma no_data_connect: "data_of (snd (snd (snd (bdb_connect (observe_base on api) db wl)))) = data_of (snd wl)"
  by (cases wl) (auto simp: bdb_connect_def connect_lock_def connect_timezone_def observe_base_def
      split: prod.splits option.splits if_splits)

lemma no_data_expect_status: "no_data (expect_status (observe on api) q wanted trace)"
  by (auto simp: no_data_def expect_status_def observe_def observe_base_def split: prod.splits)

lemma no_data_expect_result: "no_data (expect_result (observe on api) trace)"
  by (auto simp: no_data_def expect_result_def observe_def split: prod.splits)

lemma no_data_put_copy_end: "no_data (put_copy_end (observe on api))"
  by (auto simp: no_data_def put_copy_end_def observe_def split: prod.splits option.splits)

lemma no_data_connect_enter:
  "data_of (snd (snd (snd (connect_scope_enter (observe_base on api) db wl)))) = data_of (snd wl)"
  using no_data_connect [of on api db wl]
  by (auto simp: connect_scope_enter_def split: prod.splits sum.splits)

lemma cp_base_observe [simp]: "cp_base (observe on api) = observe_base on (cp_base api)"
  by (simp add: observe_def)

lemma no_data_enter_src: "no_data (enter_src (observe on api))"
  by (simp add: no_data_def enter_src_def no_data_connect_enter split_beta)

lemma no_data_enter_dst: "no_data (enter_dst (observe on api))"
  by (simp add: no_data_def enter_dst_def no_data_connect_enter split_beta)

lemmas no_data_steps = no_data_expect_status no_data_expect_result no_data_put_copy_end no_data_enter_src no_data_enter_dst

lemma copy_loop_sends:
  fixes callback :: "int \<Rightarrow> ('w \<times> sent list, 'c) copy_state \<Rightarrow> (copy_exn + unit) \<times> ('w \<times> sent list, 'c) copy_state"
  assumes "\<forall>n. no_data (callback n)"
  shows "copy_loop (observe True dst) callback bs total_bytes s = (r, s') \<Longrightarrow>
    \<exists>k. sent_data s' = sent_data s @ filter (\<lambda>b. b \<noteq> []) (take k bs) \<and>
        (\<forall>n. r = Inr n \<longrightarrow> k = length bs \<and> n = fold (\<lambda>b n. uint64 (n + int (length b))) bs total_bytes)"
proof (induction bs arbitrary: total_bytes s)
  case Nil
  then show ?case by auto
next
  case (Cons b bs)
  obtain ok w where p: "(if b \<noteq> [] then cp_putCopyData (observe True dst) b (cs_world s) else (True, cs_world s)) = (ok, w)"
    by (meson surj_pair)
  have w: "data_of (snd w) = sent_data s @ filter (\<lambda>b. b \<noteq> []) [b]"
  proof (cases "b = []")
    case False
    obtain w0 l0 where "cs_world s = (w0, l0)" by (meson surj_pair)
    then show ?thesis using p False by (auto simp: observe_def split: prod.splits)
  qed (use p in auto)
  show ?case
  proof (cases ok)
    case False
    then show ?thesis using Cons.prems p w by (intro exI [of _ 1]) auto
  next
    case True
    obtain c s1 where c: "callback (int (length b)) (s\<lparr>cs_world := w\<rparr>) = (c, s1)" by (meson surj_pair)
    have s1: "sent_data s1 = sent_data s @ filter (\<lambda>b. b \<noteq> []) [b]"
      using assms c w unfolding no_data_def
      by (metis copy_state.select_convs(3) copy_state.simps(7) snd_conv copy_state.surjective copy_state.update_convs(3))
    show ?thesis
    proof (cases c)
      case (Inl e)
      then show ?thesis using Cons.prems p c True s1 by (intro exI [of _ 1]) (auto simp: and_then_def)
    next
      case (Inr u)
      then have "copy_loop (observe True dst) callback bs (uint64 (total_bytes + int (length b))) s1 = (r, s')"
        using Cons.prems p c True by (simp add: and_then_def)
      from Cons.IH [OF this] obtain k where
        "sent_data s' = sent_data s1 @ filter (\<lambda>b. b \<noteq> []) (take k bs)"
        "\<forall>n. r = Inr n \<longrightarrow> k = length bs \<and> n = fold (\<lambda>b n. uint64 (n + int (length b))) bs (uint64 (total_bytes + int (length b)))"
        by blast
      then show ?thesis using s1 by (intro exI [of _ "Suc k"]) auto
    qed
  qed
qed


lemma and_then_Inl: "and_then m f = (Inl e, s') \<longleftrightarrow> m = (Inl e, s') \<or> (\<exists>x s. m = (Inr x, s) \<and> f x s = (Inl e, s'))"
  by (auto simp: and_then_def split: prod.splits sum.splits)

lemma and_then_Inr: "and_then m f = (Inr y, s') \<longleftrightarrow> (\<exists>x s. m = (Inr x, s) \<and> f x s = (Inr y, s'))"
  by (auto simp: and_then_def split: prod.splits sum.splits)

text \<open>A step that sends no data, before one that sends a prefix of the buffers.\<close>

definition sends_prefix ::
  "string list \<Rightarrow> (('w \<times> sent list, 'c) copy_state \<Rightarrow> (copy_exn + int) \<times> ('w \<times> sent list, 'c) copy_state) \<Rightarrow> bool" where
  "sends_prefix bs f \<longleftrightarrow> (\<forall>s. \<exists>k. sent_data (snd (f s)) = sent_data s @ filter (\<lambda>b. b \<noteq> []) (take k bs) \<and>
     (\<forall>n. fst (f s) = Inr n \<longrightarrow> k = length bs \<and> n = fold (\<lambda>b n. uint64 (n + int (length b))) bs 0))"

lemma sends_prefix_step:
  assumes "no_data g" "\<And>x. sends_prefix bs (f x)"
  shows "sends_prefix bs (\<lambda>s. and_then (g s) f)"
  unfolding sends_prefix_def
proof
  fix s
  obtain r s1 where g: "g s = (r, s1)" by (meson surj_pair)
  then have s1: "sent_data s1 = sent_data s" using assms(1) by (metis no_data_def snd_conv)
  show "\<exists>k. sent_data (snd (and_then (g s) f)) = sent_data s @ filter (\<lambda>b. b \<noteq> []) (take k bs) \<and>
    (\<forall>n. fst (and_then (g s) f) = Inr n \<longrightarrow> k = length bs \<and> n = fold (\<lambda>b n. uint64 (n + int (length b))) bs 0)"
  proof (cases r)
    case (Inl e)
    then show ?thesis using g s1 by (intro exI [of _ 0]) (simp add: and_then_def)
  next
    case (Inr x)
    then show ?thesis
      using g s1 assms(2) [of x, unfolded sends_prefix_def, rule_format, of s1] by (simp add: and_then_def)
  qed
qed

lemma sends_prefix_after:
  assumes "sends_prefix bs f" "\<And>x. no_data (g x)" "\<And>x s. (\<exists>e. fst (g x s) = Inl e) \<or> fst (g x s) = Inr x"
  shows "sends_prefix bs (\<lambda>s. and_then (f s) g)"
  unfolding sends_prefix_def
proof
  fix s
  obtain r s1 where f: "f s = (r, s1)" by (meson surj_pair)
  then obtain k where k: "sent_data s1 = sent_data s @ filter (\<lambda>b. b \<noteq> []) (take k bs)"
    "\<forall>n. r = Inr n \<longrightarrow> k = length bs \<and> n = fold (\<lambda>b n. uint64 (n + int (length b))) bs 0"
    using assms(1) unfolding sends_prefix_def by (metis fst_conv snd_conv)
  show "\<exists>k. sent_data (snd (and_then (f s) g)) = sent_data s @ filter (\<lambda>b. b \<noteq> []) (take k bs) \<and>
    (\<forall>n. fst (and_then (f s) g) = Inr n \<longrightarrow> k = length bs \<and> n = fold (\<lambda>b n. uint64 (n + int (length b))) bs 0)"
  proof (cases r)
    case (Inl e)
    then show ?thesis using f k by (intro exI [of _ k]) (simp add: and_then_def)
  next
    case (Inr x)
    then show ?thesis
      using f k assms(2) [of x] assms(3) [of x s1]
      by (intro exI [of _ k]) (auto simp: and_then_def no_data_def)
  qed
qed

lemma no_data_and_then:
  assumes "no_data g" "\<And>x. no_data (f x)"
  shows "no_data (\<lambda>s. and_then (g s) f)"
  unfolding no_data_def
proof
  fix s
  obtain r s1 where g: "g s = (r, s1)" by (meson surj_pair)
  then have "sent_data s1 = sent_data s" using assms(1) by (metis no_data_def snd_conv)
  then show "sent_data (snd (and_then (g s) f)) = sent_data s"
    using g assms(2) unfolding no_data_def and_then_def by (cases r) auto
qed

lemma copy_transfer_sends:
  assumes "\<And>n. no_data (callback n)" "cp_getCopyData src = (\<lambda>_. bs)"
  shows "sends_prefix bs (copy_transfer (observe False src) (observe True dst) query_read query_write callback)"
proof -
  have loop: "sends_prefix bs (copy_loop (observe True dst) callback bs 0)"
    using copy_loop_sends [of callback dst bs 0] assms(1) unfolding sends_prefix_def by (metis prod.collapse)
  have tail: "sends_prefix bs (\<lambda>s. and_then (copy_loop (observe True dst) callback bs 0 s) (\<lambda>total_bytes_read s.
     and_then (expect_result (observe False src) ''BDb::copy::from::result'' s) (\<lambda>_ s.
     and_then (put_copy_end (observe True dst) s) (\<lambda>_ s.
     and_then (expect_result (observe True dst) ''BDb::copy::to::result'' s) (\<lambda>_ s.
       (Inr total_bytes_read, s))))))"
  proof (rule sends_prefix_after [OF loop])
    fix x and s :: "('a \<times> sent list, 'b) copy_state"
    show "no_data (\<lambda>s. and_then (expect_result (observe False src) ''BDb::copy::from::result'' s) (\<lambda>_ s.
     and_then (put_copy_end (observe True dst) s) (\<lambda>_ s.
     and_then (expect_result (observe True dst) ''BDb::copy::to::result'' s) (\<lambda>_ s. (Inr x, s)))))"
      by (intro no_data_and_then no_data_steps) (simp add: no_data_def)
    show "(\<exists>e. fst (and_then (expect_result (observe False src) ''BDb::copy::from::result'' s) (\<lambda>_ s.
     and_then (put_copy_end (observe True dst) s) (\<lambda>_ s.
     and_then (expect_result (observe True dst) ''BDb::copy::to::result'' s) (\<lambda>_ s. (Inr x, s))))) = Inl e) \<or>
     fst (and_then (expect_result (observe False src) ''BDb::copy::from::result'' s) (\<lambda>_ s.
     and_then (put_copy_end (observe True dst) s) (\<lambda>_ s.
     and_then (expect_result (observe True dst) ''BDb::copy::to::result'' s) (\<lambda>_ s. (Inr x, s))))) = Inr x"
      by (auto simp: and_then_def split: prod.splits sum.splits)
  qed
  have data: "cp_getCopyData (observe False src) w = bs" for w
    using assms(2) by (simp add: observe_def split: prod.splits)
  show ?thesis
    unfolding copy_transfer_def data by (intro sends_prefix_step no_data_steps assms(1) tail)
qed


lemma copy_ex_sends:
  assumes "\<And>n. no_data (callback n)" "cp_getCopyData src = (\<lambda>_. bs)"
  shows "sends_prefix bs (copy_ex (observe False src) (observe True dst) src_table dst_table src_columns dst_columns condition callback)"
proof -
  have leave: "sends_prefix bs f \<Longrightarrow> (\<And>s. sent_data (g s) = sent_data s) \<Longrightarrow> sends_prefix bs (\<lambda>s. case f s of (r, s) \<Rightarrow> (r, g s))"
    for f :: "('a \<times> sent list, 'b) copy_state \<Rightarrow> (copy_exn + int) \<times> ('a \<times> sent list, 'b) copy_state" and g
    by (simp add: sends_prefix_def split_beta)
  have body: "sends_prefix bs (\<lambda>s. and_then (enter_src (observe False src) s) (\<lambda>src_was s.
        case and_then (enter_dst (observe True dst) s) (\<lambda>dst_was s.
               case copy_transfer (observe False src) (observe True dst) (copy_read_statement src_columns src_table condition)
                      (copy_write_statement dst_table dst_columns) callback s of
                 (r, s) \<Rightarrow> (r, s\<lparr>cs_dst := connect_scope_leave dst_was (cs_dst s)\<rparr>)) of
          (r, s) \<Rightarrow> (r, s\<lparr>cs_src := connect_scope_leave src_was (cs_src s)\<rparr>)))"
    by (intro sends_prefix_step no_data_steps leave copy_transfer_sends assms) simp_all
  show ?thesis
  proof (cases "src_columns = [] \<or> dst_columns = []")
    case True
    then show ?thesis unfolding copy_ex_def sends_prefix_def by (intro allI exI [of _ 0]) simp
  next
    case False
    then show ?thesis using body by (simp add: copy_ex_def [abs_def])
  qed
qed

text \<open>
  C19 (safety): copying between databases. Whatever the servers and the callback do, what reaches the
  slave is a prefix of the buffers the master gave, in order and each at most once; and when
  copying returns, it is all of them and the result is their number of bytes.
\<close>

theorem copy_ex_sends_prefix:
  assumes "\<And>n s. data_of (snd (cs_world (snd (callback n s)))) = data_of (snd (cs_world s))"
    "cp_getCopyData src = (\<lambda>_. buffers)" "sum_list (map length buffers) < 2 ^ 64"
  shows "case copy_ex (observe False src) (observe True dst) src_table dst_table src_columns dst_columns condition callback s of
    (r, s') \<Rightarrow> \<exists>k. data_of (snd (cs_world s')) = data_of (snd (cs_world s)) @ filter (\<lambda>b. b \<noteq> []) (take k buffers) \<and>
      (\<forall>n. r = Inr n \<longrightarrow> k = length buffers \<and> n = int (sum_list (map length buffers)))"
proof -
  have "fold (\<lambda>b n. uint64 (n + int (length b))) bs (int m) = int (m + sum_list (map length bs))"
    if "m + sum_list (map length bs) < 2 ^ 64" for bs :: "string list" and m
    using that
  proof (induction bs arbitrary: m)
    case (Cons b bs)
    have "uint64 (int m + int (length b)) = int (m + length b)" using Cons.prems by (simp add: uint64_def)
    then show ?case using Cons.IH [of "m + length b"] Cons.prems by (simp add: ac_simps)
  qed simp
  from this [of 0 buffers] have sum: "fold (\<lambda>b n. uint64 (n + int (length b))) buffers 0 = int (sum_list (map length buffers))"
    using assms(3) by simp
  have "\<And>n. no_data (callback n)" using assms(1) by (simp add: no_data_def)
  note sends = copy_ex_sends [OF this assms(2), unfolded sends_prefix_def sum]
  show ?thesis by (simp add: split_beta sends)
qed

definition ex_copy_api :: "string list \<Rightarrow> unit copy_api" where
  "ex_copy_api buffers =
     \<lparr>cp_base = \<lparr>api_connectdb = (\<lambda>c w. (None, w)),
                 api_execute = (\<lambda>q w. ((if hd q = CHR ''s'' then PGRES_COMMAND_OK
                    else if last q \<noteq> CHR ''t'' then PGRES_COPY_OUT else PGRES_COPY_IN, [], ex_result), w)),
                 api_execParams = (\<lambda>q ps w. ((PGRES_COMMAND_OK, [], ex_result), w))\<rparr>,
      cp_getCopyData = (\<lambda>_. buffers), cp_putCopyData = (\<lambda>b w. (True, w)),
      cp_putCopyEnd = (\<lambda>w. (None, w)), cp_getResult = (\<lambda>w. ((PGRES_COMMAND_OK, []), w))\<rparr>"

theorem copy_ex_sends_prefix_witness:
  "case copy_ex (observe False (ex_copy_api [''ab'', ''c''])) (observe True (ex_copy_api [])) ''t'' ''u'' ''*'' ''*'' []
       (\<lambda>n s. (Inr (), s\<lparr>cs_callback := cs_callback s + n\<rparr>))
       \<lparr>cs_src = bdb_new [], cs_dst = bdb_new [], cs_world = ((), []), cs_callback = 0\<rparr> of
    (r, s') \<Rightarrow> \<exists>k. data_of (snd (cs_world s')) = data_of (snd (cs_world \<lparr>cs_src = bdb_new [], cs_dst = bdb_new [], cs_world = ((), []), cs_callback = (0 :: int)\<rparr>)) @ filter (\<lambda>b. b \<noteq> []) (take k [''ab'', ''c'']) \<and>
      (\<forall>n. r = Inr n \<longrightarrow> k = length [''ab'', ''c''] \<and> n = int (sum_list (map length [''ab'', ''c''])))"
  by (rule copy_ex_sends_prefix) (simp_all add: ex_copy_api_def)

section \<open>A pull\<close>

text \<open>What a copy and the statements leave of the puller: everything but the progress.\<close>

definition same_puller :: "puller \<Rightarrow> 'w pull_state \<Rightarrow> bool" where
  "same_puller p s \<longleftrightarrow> (\<exists>c. cs_callback s = p\<lparr>pl_copied_bytes := c\<rparr>)"

definition keeps :: "('s \<Rightarrow> bool) \<Rightarrow> ('s \<Rightarrow> 'r \<times> 's) \<Rightarrow> bool" where
  "keeps P f \<longleftrightarrow> (\<forall>s. P s \<longrightarrow> P (snd (f s)))"

lemma keeps_and_then: "keeps P g \<Longrightarrow> (\<And>x. keeps P (f x)) \<Longrightarrow> keeps P (\<lambda>s. and_then (g s) f)"
  unfolding keeps_def and_then_def by (auto split: prod.splits sum.splits)

lemma same_puller_fields [simp]:
  "same_puller p (s\<lparr>cs_world := w\<rparr>) = same_puller p s" "same_puller p (s\<lparr>cs_src := a\<rparr>) = same_puller p s"
  "same_puller p (s\<lparr>cs_dst := a\<rparr>) = same_puller p s"
  by (simp_all add: same_puller_def)

lemma keeps_exec: "keeps (same_puller p) (slave_exec env q)"
  by (auto simp: keeps_def slave_exec_def split: prod.splits sum.splits)

lemma keeps_copy_steps:
  "keeps (same_puller p) (expect_status api q wanted trace)" "keeps (same_puller p) (expect_result api trace)"
  "keeps (same_puller p) (put_copy_end api)" "keeps (same_puller p) (enter_src api)" "keeps (same_puller p) (enter_dst api)"
  by (auto simp: keeps_def expect_status_def expect_result_def put_copy_end_def enter_src_def enter_dst_def
      split: prod.splits option.splits)

lemma keeps_proxy: "keeps (same_puller p) (delayer_proxy env n)"
  by (auto simp: keeps_def delayer_proxy_def Let_def same_puller_def)

lemma keeps_copy_loop:
  assumes "\<And>n. keeps (same_puller p) (callback n)"
  shows "keeps (same_puller p) (copy_loop dst callback bs n)"
proof (induction bs arbitrary: n)
  case Nil
  then show ?case by (simp add: keeps_def)
next
  case (Cons b bs)
  have "keeps (same_puller p) (\<lambda>s. and_then (callback (int (length b)) s)
      (\<lambda>_ s. copy_loop dst callback bs (uint64 (n + int (length b))) s))"
    by (intro keeps_and_then assms) (simp add: Cons.IH)
  then show ?case by (auto simp: keeps_def split: prod.splits bool.splits)
qed

lemma keeps_copy:
  assumes "\<And>n. keeps (same_puller p) (callback n)"
  shows "keeps (same_puller p) (bdb_copy src dst src_table dst_table columns condition callback)"
proof -
  have loop: "keeps (same_puller p) (\<lambda>s. copy_loop dst callback (cp_getCopyData src (cs_world s)) 0 s)"
    using keeps_copy_loop [OF assms] by (simp add: keeps_def)
  have transfer: "keeps (same_puller p) (copy_transfer src dst qr qw callback)" for qr qw
    unfolding copy_transfer_def by (intro keeps_and_then keeps_copy_steps assms loop) (simp add: keeps_def)
  have leave: "keeps (same_puller p) f \<Longrightarrow> (\<And>s. same_puller p (g s) = same_puller p s) \<Longrightarrow>
      keeps (same_puller p) (\<lambda>s. case f s of (r, s) \<Rightarrow> (r, g s))"
    for f :: "'a pull_state \<Rightarrow> (copy_exn + int) \<times> 'a pull_state" and g
    by (simp add: keeps_def split_beta)
  have "keeps (same_puller p) (\<lambda>s. and_then (enter_src src s) (\<lambda>src_was s.
        case and_then (enter_dst dst s) (\<lambda>dst_was s.
               case copy_transfer src dst (copy_read_statement columns src_table condition)
                      (copy_write_statement dst_table columns) callback s of
                 (r, s) \<Rightarrow> (r, s\<lparr>cs_dst := connect_scope_leave dst_was (cs_dst s)\<rparr>)) of
          (r, s) \<Rightarrow> (r, s\<lparr>cs_src := connect_scope_leave src_was (cs_src s)\<rparr>)))"
    by (intro keeps_and_then keeps_copy_steps leave transfer) simp_all
  then show ?thesis
    by (auto simp: bdb_copy_def copy_ex_def keeps_def)
qed

lemma keeps_transaction:
  assumes "\<And>q. keeps P (ex q)" "keeps P copy"
  shows "keeps P (pull_transaction ex clear_query copy)"
  using assms unfolding keeps_def
  by (auto simp: pull_transaction_def tx_new_def tx_begin_def tx_destroy_def tx_commit_def tx_rollback_def
      split: prod.splits option.splits sum.splits) (metis snd_conv)+


lemma pull_body_keeps:
  assumes "pull_transaction (slave_exec env) clear_query
     (bdb_copy (pe_main env) (pe_slave env) src_table dst_table columns condition (delayer_proxy env)) s = (r, s')"
  shows "\<exists>c. cs_callback s' = (cs_callback s)\<lparr>pl_copied_bytes := c\<rparr>"
proof -
  have "keeps (same_puller (cs_callback s)) (pull_transaction (slave_exec env) clear_query
     (bdb_copy (pe_main env) (pe_slave env) src_table dst_table columns condition (delayer_proxy env)))"
    by (intro keeps_transaction keeps_exec keeps_copy keeps_proxy)
  moreover have "same_puller (cs_callback s) s"
    unfolding same_puller_def by (intro exI [of _ "pl_copied_bytes (cs_callback s)"]) simp
  ultimately show ?thesis
    unfolding keeps_def same_puller_def by (metis assms snd_conv)
qed

lemma timer_start_idle:
  assumes "tr_state t = STOPPED"
  shows "\<exists>t'. timer_start tid cpu clk t = (t', None) \<and> tr_state t' = STARTED \<and> tr_startedFrom t' = Some tid \<and>
    tr_nDoneMeasurements t' = tr_nDoneMeasurements t"
  using assms by (simp add: timer_start_def base_start_def)

lemma timer_stop_running:
  assumes "tr_state t = STARTED" "tr_startedFrom t = Some tid"
  shows "tr_state (fst (timer_stop tid cpu clk t)) = STOPPED \<and>
    tr_nDoneMeasurements (fst (timer_stop tid cpu clk t)) = tr_nDoneMeasurements t + 1"
  using assms by (simp add: timer_stop_def base_stop_def Let_def)

text \<open>What a pull changes in the puller, by what it ends with.\<close>

definition pull_books :: "int list \<Rightarrow> int list \<Rightarrow> copy_exn option \<Rightarrow> puller \<Rightarrow> puller \<Rightarrow> bool" where
  "pull_books ids versions r p p' =
     (let i = pl_info p; i' = pl_info p'; full = (pl_only_full_pull_is_supported p \<or> 0 \<in> set ids) in
      pl_versions_to_clean p' = pl_versions_to_clean p @ (if r = None then versions else []) \<and>
      pi_pull_count_full i' = (if r = None \<and> full then int32 (pi_pull_count_full i + 1) else pi_pull_count_full i) \<and>
      pi_pull_count_partial i' = (if r = None \<and> \<not> full then int32 (pi_pull_count_partial i + int (length ids))
                                  else pi_pull_count_partial i) \<and>
      pi_pull_count_errors i' = (case r of
          None \<Rightarrow> pi_pull_count_errors i
        | Some (StdException m) \<Rightarrow> pi_pull_count_errors i
        | Some (DbException e) \<Rightarrow> int32 (pi_pull_count_errors i + 1)
        | Some (PlainException e) \<Rightarrow> int32 (pi_pull_count_errors i + 1)) \<and>
      pi_total_copied_bytes i' = (if r = None then uint64 (pi_total_copied_bytes i + pi_last_copied_bytes i')
                                  else pi_total_copied_bytes i) \<and>
      (r \<noteq> None \<longrightarrow> pi_last_copied_bytes i' = pi_last_copied_bytes i))"

text \<open>
  C18 (functional): the books of a puller. Whatever the databases do, a pull of an idle puller changes
  nothing of its configuration, leaves its timer idle with one more measurement, and counts
  itself once: as full or by its ids when it returns, with the versions kept for cleaning; as
  an error when it ends with an \<open>Exception\<close>; and not at all when the application stops it.
\<close>

theorem puller_pull_books:
  assumes "tr_state (pi_timer (pl_info (cs_callback s))) = STOPPED"
  shows "case puller_pull env ids versions s of (r, s') \<Rightarrow>
    pull_books ids versions r (cs_callback s) (cs_callback s') \<and>
    tr_state (pi_timer (pl_info (cs_callback s'))) = STOPPED \<and>
    tr_nDoneMeasurements (pi_timer (pl_info (cs_callback s')))
      = tr_nDoneMeasurements (pi_timer (pl_info (cs_callback s))) + 1 \<and>
    cs_callback s = (cs_callback s')\<lparr>pl_copied_bytes := pl_copied_bytes (cs_callback s), pl_info := pl_info (cs_callback s),
        pl_versions_to_clean := pl_versions_to_clean (cs_callback s)\<rparr>"
proof -
  define p where "p = cs_callback s"
  obtain condition clear_query where q: "createUpdateQueries p ids = (condition, clear_query)" by (meson surj_pair)
  obtain cpu clk where c: "pe_clocks env (cs_world s) = (cpu, clk)" by (meson surj_pair)
  obtain t where t: "timer_start (pe_thread env) cpu clk (pi_timer (pl_info p)) = (t, None)"
    "tr_state t = STARTED" "tr_startedFrom t = Some (pe_thread env)"
    "tr_nDoneMeasurements t = tr_nDoneMeasurements (pi_timer (pl_info p))"
    using timer_start_idle assms unfolding p_def by blast
  define s0 where "s0 = set_timer t (s\<lparr>cs_callback := p\<lparr>pl_copied_bytes := 0\<rparr>\<rparr>)"
  obtain r s1 where run: "pull_transaction (slave_exec env) clear_query
     (bdb_copy (pe_main env) (pe_slave env) (pl_src_table p) (pl_dst_table p) (getQueryFields p) condition (delayer_proxy env)) s0 = (r, s1)"
    by (meson surj_pair)
  obtain b where "cs_callback s1 = (cs_callback s0)\<lparr>pl_copied_bytes := b\<rparr>" using pull_body_keeps [OF run] by blast
  then have s1: "cs_callback s1 = p\<lparr>pl_copied_bytes := b, pl_info := (pl_info p)\<lparr>pi_timer := t\<rparr>\<rparr>"
    by (simp add: s0_def set_timer_def)
  obtain cpu' clk' where c': "pe_clocks env (cs_world s1) = (cpu', clk')" by (meson surj_pair)
  note stop = timer_stop_running [OF t(2,3), of cpu' clk']
  define t' where "t' = fst (timer_stop (pe_thread env) cpu' clk' t)"
  have pull: "puller_pull env ids versions s =
    (case r of
       Inl e \<Rightarrow> let (e, p') = pull_handler e (p\<lparr>pl_copied_bytes := b, pl_info := (pl_info p)\<lparr>pi_timer := t'\<rparr>\<rparr>)
                in (Some e, s1\<lparr>cs_callback := p'\<rparr>)
     | Inr n \<Rightarrow> (None, s1\<lparr>cs_callback := count_pull ids n (p\<lparr>pl_copied_bytes := b, pl_info := (pl_info p)\<lparr>pi_timer := t'\<rparr>,
           pl_versions_to_clean := pl_versions_to_clean p @ versions\<rparr>)\<rparr>))"
    using run q c t(1) c' unfolding s0_def p_def
    by (simp add: puller_pull_def Let_def s1 [unfolded p_def] set_timer_def t'_def split: sum.split)
  show ?thesis
  proof (cases r)
    case (Inl e)
    then show ?thesis
      using stop t(4) unfolding pull t'_def [symmetric] p_def [symmetric]
      by (cases e) (simp_all add: pull_handler_def count_error_def pull_books_def Let_def)
  next
    case (Inr n)
    then show ?thesis
      using stop t(4) unfolding pull t'_def [symmetric] p_def [symmetric]
      by (simp add: count_pull_def pull_books_def is_full_pull_required_def list_ex_iff Let_def)
  qed
qed


text \<open>An idle puller for the examples, on the example connection.\<close>

definition ex_api_copy :: "nat copy_api" where
  "ex_api_copy =
     \<lparr>cp_base = ex_api, cp_getCopyData = (\<lambda>_. []), cp_putCopyData = (\<lambda>b w. (True, w)),
      cp_putCopyEnd = (\<lambda>w. (None, w)), cp_getResult = (\<lambda>w. ((PGRES_COMMAND_OK, []), w))\<rparr>"

definition ex_pull_env :: "nat pull_env" where
  "ex_pull_env = \<lparr>pe_main = ex_api_copy, pe_slave = ex_api_copy, pe_delayer = (\<lambda>n w. w), pe_running = (\<lambda>w. True),
     pe_thread = 1, pe_clocks = (\<lambda>w. (0, 0))\<rparr>"

definition ex_pull_state :: "nat pull_state" where
  "ex_pull_state = \<lparr>cs_src = bdb_new [], cs_dst = bdb_new [], cs_world = 0,
     cs_callback = puller_new 0 ''e'' ''a'' ''b'' ''i'' [] [''i''] Low\<rparr>"

theorem puller_pull_books_witness:
  "case puller_pull ex_pull_env [3] [7] ex_pull_state of (r, s') \<Rightarrow>
    pull_books [3] [7] r (cs_callback ex_pull_state) (cs_callback s') \<and>
    tr_state (pi_timer (pl_info (cs_callback s'))) = STOPPED \<and>
    tr_nDoneMeasurements (pi_timer (pl_info (cs_callback s')))
      = tr_nDoneMeasurements (pi_timer (pl_info (cs_callback ex_pull_state))) + 1 \<and>
    cs_callback ex_pull_state = (cs_callback s')\<lparr>pl_copied_bytes := pl_copied_bytes (cs_callback ex_pull_state),
        pl_info := pl_info (cs_callback ex_pull_state),
        pl_versions_to_clean := pl_versions_to_clean (cs_callback ex_pull_state)\<rparr>"
  by (rule puller_pull_books) (simp add: ex_pull_state_def puller_new_def timer_new_def)



lemma observe_base_simps:
  "api_execute (observe_base True api) q (w, l) = (case api_execute api q w of (r, w) \<Rightarrow> (r, (w, l @ [Statement q])))"
  "api_connectdb (observe_base True api) c (w, l) =
     (case api_connectdb api c w of (r, w) \<Rightarrow> (r, (w, if r = None then l @ [Connected] else l)))"
  by (simp_all add: observe_base_def)

text \<open>
  C28 (error): the retry of \<open>exec\<close> leaves the transaction. If the connection breaks while a statement
  runs and the server can be reached again, the ping that checks the connection opens a new
  session, and the statement is sent again in that one, outside the transaction that \<open>BEGIN\<close>
  opened in the old one, and \<open>exec\<close> returns as if nothing had happened.
\<close>

theorem exec_retry_leaves_transaction:
  assumes "db_connected db" "db_need_advisory_lock db = 0" "c_str q = q"
    "api_execute api q w0 = ((PGRES_FATAL_ERROR, m0, r0), w1)"
    "api_execute api ping_statement w1 = ((PGRES_FATAL_ERROR, m1, r1), w2)"
    "api_connectdb api (db_connstr db) w2 = (None, w3)"
    "api_execute api timezone_statement w3 = ((PGRES_COMMAND_OK, m3, r3), w4)"
    "api_execute api ping_statement w4 = ((PGRES_TUPLES_OK, m4, r4), w5)"
    "pg_ntuples r4 = 1" "pg_getvalue r4 0 ''result'' = Some ''9''"
    "api_execute api q w5 = ((PGRES_COMMAND_OK, m5, r5), w6)"
  shows "\<exists>db'. bdb_exec (observe_base True api) q db (w0, l) = (Inr (), db', (w6, l @
    [Statement q, Statement ping_statement, Connected, Statement timezone_statement, Statement ping_statement, Statement q]))
    \<and> db_connected db'"
proof -
  have nine: "c_str ''9'' = ''9''" "atoi ''9'' = 9" by code_simp+
  let ?api = "observe_base True api"
  have connect: "bdb_connect ?api (bdb_disconnect (db\<lparr>db_noticies := []\<rparr>)) (w2, k)
      = (Inr (), db\<lparr>db_noticies := []\<rparr>, (w4, k @ [Connected, Statement timezone_statement]))" for k
    using assms(1,2,6,7)
    by (simp add: bdb_connect_def bdb_disconnect_def connect_lock_def connect_timezone_def observe_base_simps)
  have ping: "bdb_ping ?api (db\<lparr>db_noticies := []\<rparr>) (w1, k) = (True, db\<lparr>db_noticies := []\<rparr>, (w5, k @
      [Statement ping_statement, Connected, Statement timezone_statement, Statement ping_statement]))" for k
    using assms(1,5,8,9,10) connect [of "k @ [Statement ping_statement]"]
    by (simp add: bdb_ping_def bdb_query_def Let_def c_str_ping numeral_2_eq_2 connect_connected observe_base_simps
        br_new_def br_field_def br_size_def nine uint64_def)
  show ?thesis
    using assms(1,3,4,11) ping
    by (simp add: bdb_exec_def Let_def numeral_2_eq_2 connect_connected observe_base_simps check_alive_def)
qed


text \<open>A server whose connection breaks once: the world is the number of answers given.\<close>

definition ex_breaking_api :: "nat pq_api" where
  "ex_breaking_api =
     \<lparr>api_connectdb = (\<lambda>c n. (None, n)),
      api_execute = (\<lambda>q n. ((if n < 2 then PGRES_FATAL_ERROR else if n = 3 then PGRES_TUPLES_OK
                            else PGRES_COMMAND_OK, [], ex_result), n + 1)),
      api_execParams = (\<lambda>q ps n. ((PGRES_COMMAND_OK, [], ex_result), n))\<rparr>"

theorem exec_retry_leaves_transaction_witness:
  "\<exists>db'. bdb_exec (observe_base True ex_breaking_api) ''truncate t'' ((bdb_new ''c'')\<lparr>db_connected := True\<rparr>) (0, []) =
    (Inr (), db', (5, [] @ [Statement ''truncate t'', Statement ping_statement, Connected, Statement timezone_statement,
       Statement ping_statement, Statement ''truncate t''])) \<and> db_connected db'"
  by (rule exec_retry_leaves_transaction [where ?r4.0 = ex_result and ?w1.0 = 1 and ?w2.0 = 2 and ?w3.0 = 2 and ?w4.0 = 3 and ?w5.0 = 4])
    (simp_all add: ex_breaking_api_def ex_result_def bdb_new_def c_str_def char_of_def)

section \<open>The worker\<close>

datatype worker_event = Enqueue string "int list" "int list" nat | Round

definition worker_step ::
  "('p \<Rightarrow> int list \<Rightarrow> int list \<Rightarrow> 'w \<Rightarrow> copy_exn option \<times> 'w) \<Rightarrow> worker_event \<Rightarrow>
   'p pull_worker \<times> (nat \<Rightarrow> copy_exn option) \<times> 'w \<Rightarrow> 'p pull_worker \<times> (nat \<Rightarrow> copy_exn option) \<times> 'w" where
  "worker_step pull e = (case e of
     Enqueue event ids versions holder \<Rightarrow> (\<lambda>(pw, hs, w). (worker_enqueue event ids versions holder pw, hs, w))
   | Round \<Rightarrow> worker_round pull)"

lemma worker_step_simps:
  "worker_step pull (Enqueue event ids versions h) (pw, hs, w) = (worker_enqueue event ids versions h pw, hs, w)"
  "worker_step pull Round s = worker_round pull s"
  by (simp_all add: worker_step_def)

text \<open>Running tasks one after the other; a failure is left in the holder of who asked.\<close>

definition run_task ::
  "('p \<Rightarrow> int list \<Rightarrow> int list \<Rightarrow> 'w \<Rightarrow> copy_exn option \<times> 'w) \<Rightarrow> (string \<times> 'p) list \<Rightarrow> pull_task \<Rightarrow>
   (nat \<Rightarrow> copy_exn option) \<times> 'w \<Rightarrow> (nat \<Rightarrow> copy_exn option) \<times> 'w" where
  "run_task pull extractors = (\<lambda>(r, h) (hs, w). case task_routine pull extractors r w of
     (None, w) \<Rightarrow> (hs, w) | (Some e, w) \<Rightarrow> (hs(h := Some e), w))"

definition asked :: "worker_event list \<Rightarrow> pull_task list" where
  "asked es = concat (map (\<lambda>e. case e of Enqueue event ids versions h \<Rightarrow> [(Run_pull event ids versions, h)] | Round \<Rightarrow> []) es)"

lemma asked_snoc:
  "asked (es @ [Enqueue event ids versions h]) = asked es @ [(Run_pull event ids versions, h)]"
  "asked (es @ [Round]) = asked es"
  by (simp_all add: asked_def)

definition worker_inv ::
  "('p \<Rightarrow> int list \<Rightarrow> int list \<Rightarrow> 'w \<Rightarrow> copy_exn option \<times> 'w) \<Rightarrow> (string \<times> 'p) list \<Rightarrow> 'w \<Rightarrow> pull_task list \<Rightarrow>
   'p pull_worker \<times> (nat \<Rightarrow> copy_exn option) \<times> 'w \<Rightarrow> bool" where
  "worker_inv pull extractors w0 ts = (\<lambda>(pw, hs, w).
     pw_extractors pw = extractors \<and> pw_tasks_count pw = uint64 (int (length (pw_queue pw))) \<and>
     (\<exists>done. ts = done @ pw_queue pw \<and> (hs, w) = fold (run_task pull extractors) done (\<lambda>_. None, w0)))"

lemma uint64_step: "uint64 (uint64 x + k) = uint64 (x + k)" "uint64 (uint64 x - k) = uint64 (x - k)" "uint64 (k + uint64 x) = uint64 (k + x)"
  by (simp_all add: uint64_def mod_simps)

lemma worker_inv_enqueue:
  assumes "worker_inv pull extractors w0 ts (pw, hs, w)"
  shows "worker_inv pull extractors w0 (ts @ [(Run_pull event ids versions, h)]) (worker_enqueue event ids versions h pw, hs, w)"
  using assms by (auto simp: worker_inv_def worker_enqueue_def Let_def uint64_step ac_simps)

lemma worker_inv_round:
  assumes "worker_inv pull extractors w0 ts (pw, hs, w)"
  shows "worker_inv pull extractors w0 ts (worker_round pull (pw, hs, w))"
proof (cases "pw_queue pw")
  case Nil
  then show ?thesis using assms by (simp add: worker_round_def)
next
  case (Cons t q)
  obtain r h where t: "t = (r, h)" by (meson surj_pair)
  obtain finished where d: "ts = finished @ pw_queue pw" "(hs, w) = fold (run_task pull extractors) finished (\<lambda>_. None, w0)"
    using assms by (auto simp: worker_inv_def)
  obtain e w1 where e: "task_routine pull extractors r w = (e, w1)" by (meson surj_pair)
  have run: "fold (run_task pull extractors) (finished @ [t]) (\<lambda>_. None, w0)
      = (case e of None \<Rightarrow> hs | Some x \<Rightarrow> hs(h := Some x), w1)"
    using d(2) [symmetric] e t by (simp add: run_task_def split: option.split)
  have "pw_extractors pw = extractors" "pw_tasks_count pw = uint64 (int (length q) + 1)"
    using assms Cons by (simp_all add: worker_inv_def ac_simps)
  then have "worker_round pull (pw, hs, w) = (pw\<lparr>pw_queue := q, pw_tasks_count := uint64 (int (length q))\<rparr>,
      (case e of None \<Rightarrow> hs | Some x \<Rightarrow> hs(h := Some x)), w1)"
    using Cons t e by (cases e) (simp_all add: worker_round_def Let_def uint64_step save_exception_def)
  moreover have "ts = (finished @ [t]) @ q" using d(1) Cons by simp
  ultimately show ?thesis
    using assms run [symmetric] by (auto simp: worker_inv_def simp del: fold_append)
qed

lemma worker_inv_run:
  "worker_inv pull extractors w0 (asked es)
     (fold (worker_step pull) es (worker_new\<lparr>pw_extractors := extractors\<rparr>, \<lambda>_. None, w0))"
proof (induction es rule: rev_induct)
  case Nil
  then show ?case by (simp add: worker_inv_def worker_new_def asked_def uint64_def)
next
  case (snoc e es)
  obtain pw hs w where s: "fold (worker_step pull) es (worker_new\<lparr>pw_extractors := extractors\<rparr>, \<lambda>_. None, w0) = (pw, hs, w)"
    by (metis prod_cases3)
  show ?case
    using snoc by (cases e) (simp_all add: worker_step_simps asked_snoc s worker_inv_enqueue worker_inv_round)
qed



end
