(* ===== verification/Url.thy ===== *)
theory Url
  imports Split Std_Map Utilities
begin

text \<open>
  The request line of \<open>src/web/server.cpp\<close>: \<open>url_decode\<close>, \<open>split_by\<close> and \<open>parse_url\<close>, the path
  parser of \<open>src/web/page/params.hpp\<close>, and that decoding takes back what a client encodes.
\<close>

section \<open>\<open>url_decode\<close>\<close>

definition hex_val :: "char \<Rightarrow> nat option" where
  "hex_val c =
     (let n = of_char c :: nat
      in if 48 \<le> n \<and> n \<le> 57 then Some (n - 48)
         else if 65 \<le> n \<and> n \<le> 70 then Some (n - 55)
         else if 97 \<le> n \<and> n \<le> 102 then Some (n - 87) else None)"

fun read_hex_digits :: "nat \<Rightarrow> string \<Rightarrow> nat" where
  "read_hex_digits acc [] = acc"
| "read_hex_digits acc (c # cs) = (case hex_val c of Some d \<Rightarrow> read_hex_digits (16 * acc + d) cs | None \<Rightarrow> acc)"

text \<open>
  \<open>is >> std::hex >> value\<close>: white space is skipped, a sign and a \<open>0x\<close> are taken, and reading
  fails without a digit. The two characters it is given cannot overflow an \<open>int\<close>.
\<close>

definition read_hex_int :: "string \<Rightarrow> int option" where
  "read_hex_int s =
     (let s = dropWhile is_space s;
          neg = (s \<noteq> [] \<and> hd s = CHR ''-'');
          s = (if s \<noteq> [] \<and> (hd s = CHR ''-'' \<or> hd s = CHR ''+'') then tl s else s);
          s = (if take 2 s = ''0x'' \<or> take 2 s = ''0X'' then drop 2 s else s)
      in if s = [] \<or> hex_val (hd s) = None then None
         else Some (if neg then - int (read_hex_digits 0 s) else int (read_hex_digits 0 s)))"

text \<open>The return value and \<open>out\<close>, which keeps what was decoded before a failure.\<close>

fun url_decode_loop :: "string \<Rightarrow> string \<Rightarrow> bool \<times> string" where
  "url_decode_loop [] out = (True, out)"
| "url_decode_loop (c # cs) out =
     (if c = CHR ''%''
      then (case cs of
              a # b # rest \<Rightarrow>
                (case read_hex_int [a, b] of
                   Some val \<Rightarrow> url_decode_loop rest (out @ [char_of (nat (val mod 256))])
                 | None \<Rightarrow> (False, out))
            | _ \<Rightarrow> (False, out))
      else if c = CHR ''+'' then url_decode_loop cs (out @ '' '')
      else url_decode_loop cs (out @ [c]))"

definition url_decode :: "string \<Rightarrow> bool \<times> string" where
  "url_decode s = url_decode_loop s []"

section \<open>\<open>parse_url\<close>\<close>

text \<open>\<open>find\<close> of a character: \<open>None\<close> is \<open>npos\<close>.\<close>

definition find_chr :: "char \<Rightarrow> string \<Rightarrow> nat option" where
  "find_chr c s = (let n = length (takeWhile (\<lambda>x. x \<noteq> c) s) in if n < length s then Some n else None)"

definition split_by :: "string \<Rightarrow> char \<Rightarrow> string \<times> string" where
  "split_by url separator =
     (case find_chr separator url of
        None \<Rightarrow> (url, drop (length url) url)
      | Some separatorPlace \<Rightarrow> (take separatorPlace url, drop (separatorPlace + 1) url))"

text \<open>The results of \<open>url_decode\<close> are not looked at.\<close>

definition parse_param :: "string \<Rightarrow> (string \<times> string) list \<Rightarrow> (string \<times> string) list" where
  "parse_param kv_raw params =
     (let kv = split_by kv_raw (CHR ''='');
          key = snd (url_decode (fst kv));
          val = snd (url_decode (snd kv))
      in sm_set key val params)"

definition parse_url :: "string \<Rightarrow> string \<times> (string \<times> string) list" where
  "parse_url url =
     (case find_chr (CHR ''?'') url of
        None \<Rightarrow> (url, [])
      | Some separatorPlace \<Rightarrow>
          let key_pair_values = drop (separatorPlace + 1) url;
              sparams = split_any key_pair_values ''&'' allow_blank
          in (take separatorPlace url, fold parse_param sparams []))"

section \<open>\<open>params.hpp\<close>\<close>

record url_params =
  up_name :: string
  up_params :: "(string \<times> string) list"

definition url_params_at :: "string \<Rightarrow> url_params \<Rightarrow> string outcome" where
  "url_params_at name p =
     (case map_of (up_params p) name of
        None \<Rightarrow> Throws (concat_args [''Unable to find parameter '' @ [CHR 34], name, [CHR 34] @ '' in url''])
      | Some v \<Rightarrow> Ok v)"

text \<open>
  Positions are \<open>unsigned long\<close>, \<open>npos\<close> the greatest one, and their sums wrap. \<open>substr\<close> throws
  beyond the end.
\<close>

definition npos :: nat where
  "npos = 2 ^ 64 - 1"

definition wrap_pos :: "int \<Rightarrow> nat" where
  "wrap_pos i = nat (i mod 2 ^ 64)"

definition find_from :: "char \<Rightarrow> nat \<Rightarrow> string \<Rightarrow> nat" where
  "find_from c pos s = (case find_chr c (drop pos s) of None \<Rightarrow> npos | Some i \<Rightarrow> pos + i)"

lemma find_from_ge: "pos < npos \<Longrightarrow> pos \<le> find_from c pos s"
  by (simp add: find_from_def split: option.split)

definition substr_at :: "nat \<Rightarrow> nat \<Rightarrow> string \<Rightarrow> string outcome" where
  "substr_at pos n s =
     (if pos > length s then Throws ''basic_string::substr'' else Ok (take n (drop pos s)))"

function parse_path_loop :: "string \<Rightarrow> nat \<Rightarrow> (string \<times> string) list \<Rightarrow> (string \<times> string) list outcome" where
  "parse_path_loop path position params =
     (if position \<ge> npos then Ok params
      else
        let eq_pos = find_from (CHR ''='') position path;
            nval_pos = find_from (CHR ''&'') eq_pos path
        in if nval_pos = eq_pos then Ok params
           else bind_outcome (substr_at (position + 1) (wrap_pos (int eq_pos - int position - 1)) path) (\<lambda>name.
                bind_outcome (substr_at (wrap_pos (int eq_pos + 1)) (wrap_pos (int nval_pos - int eq_pos - 1)) path) (\<lambda>val.
                  parse_path_loop path nval_pos (sm_set name val params))))"
  by pat_completeness auto
termination
proof (relation "measure (\<lambda>(path, position, params). npos - position)", goal_cases)
  case (2 path position params eq_pos nval_pos)
  have "position \<le> eq_pos" using 2 find_from_ge by simp
  moreover have "eq_pos \<le> nval_pos \<or> nval_pos = npos" using 2 by (auto simp: find_from_def split: option.split)
  ultimately show ?case using 2 by auto
qed simp

declare parse_path_loop.simps [simp del]

definition parse_path :: "string \<Rightarrow> url_params outcome" where
  "parse_path path =
     (let position = find_from (CHR ''?'') 0 path
      in bind_outcome (substr_at 1 (position - 1) path) (\<lambda>name.
           bind_outcome (parse_path_loop path position []) (\<lambda>ps. Ok \<lparr>up_name = name, up_params = ps\<rparr>)))"

section \<open>What a client encodes\<close>

definition hex_char :: "nat \<Rightarrow> char" where
  "hex_char n = char_of (if n < 10 then 48 + n else 55 + n)"

definition url_safe :: "char \<Rightarrow> bool" where
  "url_safe c = (let n = of_char c :: nat
     in (48 \<le> n \<and> n \<le> 57) \<or> (65 \<le> n \<and> n \<le> 90) \<or> (97 \<le> n \<and> n \<le> 122))"

definition encode_char :: "char \<Rightarrow> string" where
  "encode_char c = (if url_safe c then [c] else [CHR ''%'', hex_char (of_char c div 16), hex_char (of_char c mod 16)])"

definition url_encode :: "string \<Rightarrow> string" where
  "url_encode s = concat (map encode_char s)"

lemma of_char_hex_char [simp]: "n < 16 \<Longrightarrow> (of_char (hex_char n) :: nat) = (if n < 10 then 48 + n else 55 + n)"
  by (simp add: hex_char_def)

lemma hex_val_hex_char [simp]: "n < 16 \<Longrightarrow> hex_val (hex_char n) = Some n"
  by (auto simp: hex_val_def Let_def)

lemma hex_char_neq:
  assumes "n < 16" "(of_char c :: nat) \<notin> {48..57} \<union> {65..70}"
  shows "hex_char n \<noteq> c"
proof
  assume "hex_char n = c"
  then have "(of_char c :: nat) = (if n < 10 then 48 + n else 55 + n)" using assms(1) of_char_hex_char [of n] by simp
  then show False using assms by (auto split: if_splits)
qed

lemma hex_char_safe: "n < 16 \<Longrightarrow> url_safe (hex_char n)"
  by (auto simp: url_safe_def Let_def)

lemma read_hex_byte:
  assumes "a < 16" "b < 16"
  shows "read_hex_int [hex_char a, hex_char b] = Some (int (16 * a + b))"
proof -
  have "\<not> is_space (hex_char a)" using assms by (auto simp: is_space_def Let_def)
  moreover have "hex_char a \<noteq> CHR ''-''" "hex_char a \<noteq> CHR ''+''" "hex_char b \<noteq> CHR ''x''" "hex_char b \<noteq> CHR ''X''"
    by (rule hex_char_neq; use assms in simp)+
  ultimately show ?thesis using assms by (simp add: read_hex_int_def Let_def)
qed

lemma nibbles: "of_char c div 16 < (16 :: nat)" "of_char c mod 16 < (16 :: nat)"
  using less_mult_imp_div_less [of "of_char c :: nat" 16 16] by simp_all

lemma url_decode_encode_loop: "url_decode_loop (url_encode s) out = (True, out @ s)"
proof (induction s arbitrary: out)
  case Nil
  then show ?case by (simp add: url_encode_def)
next
  case (Cons c s)
  show ?case
  proof (cases "url_safe c")
    case True
    then have "c \<noteq> CHR ''%''" "c \<noteq> CHR ''+''" by (auto simp: url_safe_def)
    then show ?thesis using Cons [of "out @ [c]"] True by (simp add: url_encode_def encode_char_def)
  next
    case False
    note byte = read_hex_byte [OF nibbles [of c]]
    have "nat (int n mod 256) = n" if "n < 256" for n using that by simp
    from this [of "of_char c"] have "nat (int (of_char c) mod 256) = of_char c" by simp
    moreover have "16 * (of_char c div 16) + of_char c mod 16 = (of_char c :: nat)" by simp
    ultimately have "char_of (nat (int (16 * (of_char c div 16) + of_char c mod 16) mod 256)) = c"
      by (simp only: char_of_char)
    then show ?thesis using Cons [of "out @ [c]"] False byte by (simp add: url_encode_def encode_char_def)
  qed
qed

lemma url_decode_encode: "url_decode (url_encode s) = (True, s)"
  by (simp add: url_decode_def url_decode_encode_loop)

lemma url_encode_chars:
  assumes "\<not> url_safe c" "c \<noteq> CHR ''%''"
  shows "c \<notin> set (url_encode s)"
proof
  assume "c \<in> set (url_encode s)"
  then obtain d where "c \<in> set (encode_char d)" by (auto simp: url_encode_def)
  then show False using assms hex_char_safe nibbles [of d] by (auto simp: encode_char_def split: if_splits)
qed

lemma find_chr_at: "c \<notin> set x \<Longrightarrow> find_chr c (x @ c # y) = Some (length x)"
proof -
  assume "c \<notin> set x"
  then have "takeWhile (\<lambda>z. z \<noteq> c) (x @ c # y) = x @ takeWhile (\<lambda>z. z \<noteq> c) (c # y)"
    by (intro takeWhile_append2) auto
  then show ?thesis by (simp add: find_chr_def)
qed

lemma find_chr_none: "c \<notin> set x \<Longrightarrow> find_chr c x = None"
proof -
  assume "c \<notin> set x"
  then have all: "takeWhile (\<lambda>z. z \<noteq> c) x = x" by (subst takeWhile_eq_all_conv) auto
  show ?thesis unfolding find_chr_def Let_def all by simp
qed

definition query_pair :: "string \<times> string \<Rightarrow> string" where
  "query_pair kv = url_encode (fst kv) @ ''='' @ url_encode (snd kv)"

lemma parse_query_pair: "parse_param (query_pair kv) params = sm_set (fst kv) (snd kv) params"
proof -
  have "CHR ''='' \<notin> set (url_encode (fst kv))" by (rule url_encode_chars) (simp_all add: url_safe_def)
  from find_chr_at [OF this, of "url_encode (snd kv)"] show ?thesis
    by (simp add: parse_param_def query_pair_def split_by_def url_decode_encode)
qed

section \<open>Properties\<close>

text \<open>
  C37 (round trip): the query of a request. Whatever bytes the names and values of the parameters hold,
  parsing the request target made of a path and their encoded pairs gives back the path and the
  map of the parameters, a later pair replacing an earlier one of the same name.
\<close>

theorem parse_url_query:
  assumes "CHR ''?'' \<notin> set path"
  shows "parse_url (path @ ''?'' @ join_strings ''&'' (map query_pair kvs)) = (path, fold (\<lambda>(k, v). sm_set k v) kvs [])"
proof -
  have amp: "CHR ''&'' \<notin> set (query_pair kv)" for kv
    using url_encode_chars [of "CHR ''&''"] by (auto simp: query_pair_def url_safe_def)
  have sep: "sep_matches c ''&'' \<longleftrightarrow> c = CHR ''&''" for c by (simp add: sep_matches_def c_str_def char_of_def)
  have "split_any (join_strings ''&'' (map query_pair kvs)) ''&'' allow_blank = map query_pair kvs"
  proof (rule split_any_joined)
    show "\<forall>x \<in> set (map query_pair kvs). \<forall>c \<in> set x. \<not> sep_matches c ''&''" using amp by (auto simp: sep)
    show "map query_pair kvs \<noteq> [] \<longrightarrow> last (map query_pair kvs) \<noteq> []"
      by (simp add: last_map query_pair_def)
  qed (simp add: sep)
  moreover have "fold parse_param (map query_pair kvs) params = fold (\<lambda>(k, v). sm_set k v) kvs params" for params
    by (induction kvs arbitrary: params) (auto simp: parse_query_pair)
  ultimately show ?thesis
    using find_chr_at [OF assms, of "join_strings ''&'' (map query_pair kvs)"] by (simp add: parse_url_def)
qed

theorem parse_url_query_witness:
  "parse_url (''/cyclic_task'' @ ''?'' @ join_strings ''&'' (map query_pair [(''name'', ''a b&c'')]))
     = (''/cyclic_task'', fold (\<lambda>(k, v). sm_set k v) [(''name'', ''a b&c'')] [])"
  by (rule parse_url_query) simp

end
