(* ===== verification/Web.thy ===== *)
theory Web
  imports Url Sync Data Merge_Online Merge_Service
begin

text \<open>
  The web interface of \<open>src/web\<close>: the request handling, sessions and listener of \<open>server.cpp\<close>, the
  routing of \<open>aggregated.cpp\<close> and \<open>fabrique.cpp\<close>, and the pages. A view is a function of the request
  and the state of the service; sockets and the HTTP library are events and parameters. Output
  streams are strings.
\<close>

section \<open>Requests and responses\<close>

text \<open>A header is the number of its field and its value; the method is a number too.\<close>

record http_request =
  rq_fields :: "(nat \<times> string) list"
  rq_path :: string
  rq_body :: string
  rq_method :: nat
  rq_parameters :: "(string \<times> string) list"

record http_response =
  rs_fields :: "(string \<times> string) list"
  rs_body :: string
  rs_mime_type :: string
  rs_code :: int

definition response_new :: http_response where
  "response_new = \<lparr>rs_fields = [], rs_body = [], rs_mime_type = [], rs_code = 200\<rparr>"

definition error_response :: "int \<Rightarrow> string \<Rightarrow> http_response" where
  "error_response code reason =
     response_new\<lparr>rs_mime_type := ''application/xml'', rs_code := code,
                  rs_body := concat_args [''<error>'', reason, ''</error>'']\<rparr>"

definition bad_request :: "string \<Rightarrow> http_response" where
  "bad_request reason = error_response 400 reason"

definition not_found :: "string \<Rightarrow> http_response" where
  "not_found reason = error_response 404 reason"

definition server_error :: "string \<Rightarrow> http_response" where
  "server_error reason = error_response 500 reason"

type_synonym 'w view = "http_request \<Rightarrow> 'w \<Rightarrow> http_response outcome \<times> 'w"

section \<open>\<open>handle_request\<close>\<close>

text \<open>What the HTTP library parsed, and what it is to send.\<close>

record raw_request =
  rw_headers :: "(nat \<times> string) list"
  rw_method :: nat
  rw_target :: string
  rw_body :: string
  rw_version :: nat
  rw_keep_alive :: bool

record raw_response =
  rp_status :: int
  rp_version :: nat
  rp_headers :: "(string \<times> string) list"
  rp_keep_alive :: bool
  rp_body :: string

definition call45aggr_server :: string where
  "call45aggr_server = ''call45aggr server 1.0.0''"

text \<open>\<open>std::sort\<close> leaves the order of equal names open; here it is that of the request.\<close>

definition make_request :: "raw_request \<Rightarrow> http_request" where
  "make_request req =
     (let fields = sort_key fst (fold (\<lambda>header fs. fs @ [header]) (rw_headers req) []);
          (path, parameters) = parse_url (rw_target req)
      in \<lparr>rq_fields = fields, rq_path = path, rq_body = rw_body req, rq_method = rw_method req,
          rq_parameters = parameters\<rparr>)"

definition handle_request :: "'w view \<Rightarrow> raw_request \<Rightarrow> 'w \<Rightarrow> raw_response outcome \<times> 'w" where
  "handle_request ctrl req w =
     (case ctrl (make_request req) w of (r, w) \<Rightarrow>
        (bind_outcome r (\<lambda>response. Ok
           \<lparr>rp_status = rs_code response, rp_version = rw_version req,
            rp_headers = [(''Server'', call45aggr_server), (''Content-Type'', rs_mime_type response),
              (''Content-Length'', show_nat (length (rs_body response)))] @ rs_fields response,
            rp_keep_alive = rw_keep_alive req, rp_body = rs_body response\<rparr>), w))"

section \<open>Sessions and the listener\<close>

text \<open>What a completion of the socket library leads to.\<close>

datatype io_result = Io_ok | Io_end_of_stream | Io_error string
datatype session_action = Respond | Read_again | Close | Report_failure string

definition on_read :: "io_result \<Rightarrow> session_action" where
  "on_read ec = (case ec of
     Io_end_of_stream \<Rightarrow> Close
   | Io_error m \<Rightarrow> Report_failure (''read'' @ '': '' @ m)
   | Io_ok \<Rightarrow> Respond)"

definition on_write :: "io_result \<Rightarrow> bool \<Rightarrow> session_action" where
  "on_write ec clos = (case ec of
     Io_error m \<Rightarrow> Report_failure (''write'' @ '': '' @ m)
   | Io_end_of_stream \<Rightarrow> Report_failure (''write'' @ '': '' @ ''end of stream'')
   | Io_ok \<Rightarrow> if clos then Close else Read_again)"

text \<open>The listener: whether its acceptor is open, the accepts it has asked for, the sessions it has run.\<close>

record listener =
  ls_open :: bool
  ls_pending :: nat
  ls_sessions :: nat
  ls_failures :: nat

definition listener_new :: listener where
  "listener_new = \<lparr>ls_open = True, ls_pending = 0, ls_sessions = 0, ls_failures = 0\<rparr>"

definition do_accept :: "listener \<Rightarrow> listener" where
  "do_accept l = l\<lparr>ls_pending := ls_pending l + 1\<rparr>"

definition listener_run :: "listener \<Rightarrow> listener" where
  "listener_run l = (if \<not> ls_open l then l else do_accept l)"

definition listener_stop :: "listener \<Rightarrow> listener" where
  "listener_stop l = l\<lparr>ls_open := False\<rparr>"

text \<open>The completion of a pending accept.\<close>

definition on_accept :: "bool \<Rightarrow> listener \<Rightarrow> listener" where
  "on_accept failed l =
     (let l = l\<lparr>ls_pending := ls_pending l - 1\<rparr>;
          l = (if failed then l\<lparr>ls_failures := ls_failures l + 1\<rparr> else l\<lparr>ls_sessions := ls_sessions l + 1\<rparr>)
      in do_accept l)"

section \<open>\<open>aggregated\<close>\<close>

type_synonym 'w views = "(string \<times> 'w view) list"

text \<open>\<open>find_last_of\<close>; without a slash the iterator runs far out of the string.\<close>

definition find_last :: "char \<Rightarrow> string \<Rightarrow> nat option" where
  "find_last c s =
     (if c \<in> set s then Some (length s - 1 - length (takeWhile (\<lambda>x. x \<noteq> c) (rev s))) else None)"

definition canonize_url :: "string \<Rightarrow> string outcome" where
  "canonize_url url = (case find_last (CHR ''/'') url of None \<Rightarrow> Undefined | Some idx \<Rightarrow> Ok (take idx url))"

definition add_view :: "string \<Rightarrow> 'w view \<Rightarrow> 'w views \<Rightarrow> 'w views" where
  "add_view url v vs = sm_set url v vs"

definition add_api_root :: "string \<Rightarrow> 'w view \<Rightarrow> 'w views \<Rightarrow> 'w views outcome" where
  "add_api_root url v vs = bind_outcome (canonize_url url) (\<lambda>u. Ok (sm_set u v vs))"

definition add_existed :: "string \<Rightarrow> string \<Rightarrow> 'w views \<Rightarrow> 'w views outcome" where
  "add_existed dst_url src_url vs =
     (case map_of vs src_url of None \<Rightarrow> Throws ''_Map_base::at'' | Some v \<Rightarrow> Ok (sm_set dst_url v vs))"

fun first_view :: "string list \<Rightarrow> 'w views \<Rightarrow> 'w view option" where
  "first_view [] vs = None"
| "first_view (path # paths) vs = (case map_of vs path of None \<Rightarrow> first_view paths vs | Some v \<Rightarrow> Some v)"

text \<open>Both candidates are computed before the first is looked up. The log lines are left out.\<close>

definition aggregated_handle :: "'w views \<Rightarrow> 'w view" where
  "aggregated_handle vs request w =
     (case canonize_url (rq_path request) of
        Ok parent \<Rightarrow>
          (case first_view [rq_path request, parent] vs of
             Some v \<Rightarrow>
               (case v request w of
                  (Throws m, w) \<Rightarrow> (Ok (server_error ''Internal server error.''), w)
                | (r, w) \<Rightarrow> (r, w))
           | None \<Rightarrow> (Ok (not_found ''Page not found''), w))
      | Throws m \<Rightarrow> (Ok (server_error ''Internal server error.''), w)
      | Undefined \<Rightarrow> (Undefined, w)
      | Diverges \<Rightarrow> (Diverges, w))"

text \<open>Every completion asks for the next accept, also the failures that a stopped acceptor gives at once.\<close>

lemma on_accept_pending: "0 < ls_pending l \<Longrightarrow> ls_pending (fold on_accept fs l) = ls_pending l"
  by (induction fs arbitrary: l) (auto simp: on_accept_def do_accept_def Let_def)

lemma listener_never_idle:
  "ls_pending (fold on_accept gs (listener_stop (fold on_accept fs (listener_run listener_new)))) = 1"
  by (simp add: on_accept_pending listener_stop_def listener_run_def listener_new_def do_accept_def)

end
