(* ===== verification/Base64_Decode.thy ===== *)
theory Base64_Decode
  imports Split
begin

text \<open>
  \<open>decode_base64\<close> of \<open>src/common.cpp\<close>. The chain of library iterators that turns text into bytes is a
  parameter; what its documentation says of it on whole groups is \<open>boost_base64\<close>.
\<close>

section \<open>The decoder\<close>

text \<open>
  \<open>binary\<close> is the text of \<open>ItBinaryT(begin), ItBinaryT(end)\<close> over a string, or the exception of a character
  outside the alphabet. Erasing more than the output holds is undefined.
\<close>

definition decode_base64 :: "(string \<Rightarrow> string outcome) \<Rightarrow> string \<Rightarrow> string outcome" where
  "decode_base64 binary input =
     (let num_pad_chars = (4 - length input mod 4) mod 4;
          input = input @ replicate num_pad_chars CHR ''='';
          pad_chars = length (filter (\<lambda>c. c = CHR ''='') input);
          input = map (\<lambda>c. if c = CHR ''='' then CHR ''A'' else c) input
      in bind_outcome (binary input) (\<lambda>output.
           if pad_chars \<le> length output then Ok (take (length output - pad_chars) output) else Undefined))"

section \<open>What the iterators do\<close>

text \<open>Four numbers of six bits are three bytes.\<close>

fun regroup :: "nat list \<Rightarrow> string" where
  "regroup (a # b # c # d # ks) =
     [char_of (a * 4 + b div 16), char_of (b mod 16 * 16 + c div 4), char_of (c mod 4 * 64 + d)] @ regroup ks"
| "regroup ks = []"

text \<open>
  \<open>binary_from_base64\<close> gives the number of each character, \<open>transform_width<..., 8, 6>\<close> regroups the
  bits of the numbers, the first ones first.
\<close>

definition boost_base64 :: "(string \<Rightarrow> string outcome) \<Rightarrow> bool" where
  "boost_base64 binary \<longleftrightarrow>
     (\<forall>ks. length ks mod 4 = 0 \<and> (\<forall>k \<in> set ks. k < 64) \<longrightarrow> binary (map b64 ks) = Ok (regroup ks))"

section \<open>The numbers of an encoded text\<close>

fun sextets_of :: "string \<Rightarrow> nat list" where
  "sextets_of [] = []"
| "sextets_of [x] = (let a = of_char x in [a div 4, a mod 4 * 16, 0, 0])"
| "sextets_of [x, y] = (let a = of_char x; b = of_char y in [a div 4, a mod 4 * 16 + b div 16, b mod 16 * 4, 0])"
| "sextets_of (x # y # z # rest) = (let a = of_char x; b = of_char y; c = of_char z
     in [a div 4, a mod 4 * 16 + b div 16, b mod 16 * 4 + c div 64, c mod 64] @ sextets_of rest)"

definition pads :: "string \<Rightarrow> nat" where
  "pads s = (3 - length s mod 3) mod 3"

lemma b64_not_pad: "i < 64 \<Longrightarrow> b64 i \<noteq> CHR ''=''"
proof -
  assume "i < 64"
  moreover have "length base64_alphabet = 64" by (simp add: base64_alphabet_def)
  ultimately have "b64 i \<in> set base64_alphabet" using nth_mem [of i base64_alphabet] by (simp add: b64_def)
  then show ?thesis by (auto simp: base64_alphabet_def)
qed

lemma b64_zero: "b64 0 = CHR ''A''"
  by (simp add: b64_def base64_alphabet_def)

lemma byte_bounds:
  "(of_char x :: nat) div 4 < 64" "(of_char x :: nat) mod 4 * 16 < 64" "(of_char x :: nat) mod 16 * 4 < 64"
  "(of_char x :: nat) mod 64 < 64" "(of_char x :: nat) mod 4 * 16 + of_char y div 16 < 64"
  "(of_char y :: nat) mod 16 * 4 + of_char z div 64 < 64"
proof -
  have b: "(of_char c :: nat) < 256" for c by simp
  show "(of_char x :: nat) div 4 < 64" using b [of x] by (simp add: less_mult_imp_div_less)
  have "(of_char x :: nat) mod 4 < 4" "(of_char y :: nat) mod 16 < 16" "(of_char x :: nat) mod 16 < 16" by simp_all
  moreover have "(of_char y :: nat) div 16 < 16" "(of_char z :: nat) div 64 < 4"
    using b [of y] b [of z] by (simp_all add: less_mult_imp_div_less)
  ultimately show "(of_char x :: nat) mod 4 * 16 < 64" "(of_char x :: nat) mod 16 * 4 < 64"
    "(of_char x :: nat) mod 64 < 64" "(of_char x :: nat) mod 4 * 16 + of_char y div 16 < 64"
    "(of_char y :: nat) mod 16 * 4 + of_char z div 64 < 64" by linarith+
qed

lemma sextets_small: "k \<in> set (sextets_of s) \<Longrightarrow> k < 64"
  by (induction s rule: sextets_of.induct) (auto simp: Let_def byte_bounds)

lemma spec_sextets: "map (\<lambda>c. if c = CHR ''='' then CHR ''A'' else c) (base64_spec s) = map b64 (sextets_of s)"
  by (induction s rule: sextets_of.induct) (simp_all add: Let_def b64_not_pad byte_bounds b64_zero)

lemma sextets_whole: "length (sextets_of s) mod 4 = 0"
  by (induction s rule: sextets_of.induct) (simp_all add: Let_def)

lemma spec_pads: "length (filter (\<lambda>c. c = CHR ''='') (base64_spec s)) = pads s"
  by (induction s rule: sextets_of.induct) (simp_all add: Let_def b64_not_pad byte_bounds pads_def)

lemma bytes_back:
  fixes a b c :: nat
  shows "b < 256 \<Longrightarrow> a div 4 * 4 + (a mod 4 * 16 + b div 16) div 16 = a" "a div 4 * 4 + a mod 4 * 16 div 16 = a"
    "b < 256 \<Longrightarrow> c < 256 \<Longrightarrow> (a mod 4 * 16 + b div 16) mod 16 * 16 + (b mod 16 * 4 + c div 64) div 4 = b"
    "b < 256 \<Longrightarrow> (a mod 4 * 16 + b div 16) mod 16 * 16 + b mod 16 * 4 div 4 = b"
    "c < 256 \<Longrightarrow> (b mod 16 * 4 + c div 64) mod 4 * 64 + c mod 64 = c"
proof -
  have e: "(m * 16 + b div 16) div 16 = m" "(m * 16 + b div 16) mod 16 = b div 16" if "b < 256" for m b :: nat
    using less_mult_imp_div_less [of b 16 16] that by simp_all
  have f: "(m * 4 + c div 64) div 4 = m" "(m * 4 + c div 64) mod 4 = c div 64" if "c < 256" for m c :: nat
    using less_mult_imp_div_less [of c 4 64] that by simp_all
  show "b < 256 \<Longrightarrow> a div 4 * 4 + (a mod 4 * 16 + b div 16) div 16 = a" by (simp only: e) simp
  show "a div 4 * 4 + a mod 4 * 16 div 16 = a" by simp
  show "b < 256 \<Longrightarrow> c < 256 \<Longrightarrow> (a mod 4 * 16 + b div 16) mod 16 * 16 + (b mod 16 * 4 + c div 64) div 4 = b"
    by (simp only: e f) simp
  show "b < 256 \<Longrightarrow> (a mod 4 * 16 + b div 16) mod 16 * 16 + b mod 16 * 4 div 4 = b" by (simp only: e) simp
  show "c < 256 \<Longrightarrow> (b mod 16 * 4 + c div 64) mod 4 * 64 + c mod 64 = c" by (simp only: f) simp
qed

lemma byte: "(of_char x :: nat) < 256"
  by simp

lemma regroup_sextets: "regroup (sextets_of s) = s @ replicate (pads s) (char_of (0 :: nat))"
proof (induction s rule: sextets_of.induct)
  case (4 x y z rest)
  have "pads (x # y # z # rest) = pads rest" by (simp add: pads_def)
  with "4.IH" [OF refl refl refl] show ?case
    by (simp only: sextets_of.simps regroup.simps Let_def append.simps byte bytes_back char_of_char)
next
  case (3 x y)
  have "pads [x, y] = 1" by (simp add: pads_def)
  then show ?case using bytes_back(4) [OF byte, of "of_char x" y]
    by (simp only: sextets_of.simps regroup.simps Let_def append.simps byte bytes_back char_of_char)
      simp
next
  case (2 x)
  have "pads [x] = 2" by (simp add: pads_def)
  then show ?case
    by (simp only: sextets_of.simps regroup.simps Let_def append.simps bytes_back char_of_char)
      (simp add: numeral_2_eq_2)
qed (simp add: pads_def)

lemma spec_whole: "length (base64_spec s) mod 4 = 0"
  using arg_cong [OF spec_sextets [of s], of length] sextets_whole [of s] by simp

text \<open>The padding is at the end.\<close>

lemma spec_stripped: "filter (\<lambda>c. c \<noteq> CHR ''='') (base64_spec s) @ replicate (pads s) CHR ''='' = base64_spec s"
  by (induction s rule: sextets_of.induct) (simp_all add: Let_def b64_not_pad byte_bounds pads_def numeral_2_eq_2)

lemma pads_less: "pads s < 3"
  by (simp add: pads_def)

lemma missing_pads: "(n + p) mod 4 = 0 \<Longrightarrow> p < 3 \<Longrightarrow> (4 - n mod 4) mod 4 = p" for n p :: nat
proof -
  assume np: "(n + p) mod 4 = 0" "p < 3"
  have small: "(4 - r) mod 4 = p" if "(r + p) mod 4 = 0" "r < 4" for r
  proof -
    have "r \<in> {0, 1, 2, 3}" "p \<in> {0, 1, 2}" using np(2) that(2) by auto
    with that show ?thesis by (elim insertE) simp_all
  qed
  show ?thesis by (rule small) (use np(1) in \<open>simp_all add: mod_add_left_eq\<close>)
qed

lemma stripped_pads: "(4 - length (filter (\<lambda>c. c \<noteq> CHR ''='') (base64_spec s)) mod 4) mod 4 = pads s"
proof -
  let ?n = "length (filter (\<lambda>c. c \<noteq> CHR ''='') (base64_spec s))"
  have "(?n + pads s) mod 4 = 0"
    using arg_cong [OF spec_stripped [of s], of length] spec_whole [of s] by simp
  then show ?thesis using pads_less by (rule missing_pads)
qed

lemma decode_whole:
  assumes "boost_base64 binary" "input @ replicate ((4 - length input mod 4) mod 4) CHR ''='' = base64_spec s"
  shows "decode_base64 binary input = Ok s"
proof -
  have "binary (map b64 (sextets_of s)) = Ok (regroup (sextets_of s))"
    using assms(1) sextets_whole sextets_small by (auto simp: boost_base64_def)
  then have "decode_base64 binary input = bind_outcome (Ok (s @ replicate (pads s) (char_of (0 :: nat))))
      (\<lambda>output. if pads s \<le> length output then Ok (take (length output - pads s) output) else Undefined)"
    by (simp only: decode_base64_def Let_def assms(2) spec_sextets spec_pads regroup_sextets)
  then show ?thesis by simp
qed

lemma decode_lone_pad:
  assumes "boost_base64 binary"
  shows "decode_base64 binary ''='' = Undefined"
proof -
  have "binary (map b64 [0, 0, 0, 0]) = Ok (regroup [0, 0, 0, 0])"
    using assms [unfolded boost_base64_def, THEN spec [of _ "[0, 0, 0, 0]"]] by simp
  then obtain x where x: "binary ''AAAA'' = Ok x" "length x = 3" by (auto simp: b64_zero)
  have "(4 - length ''='' mod 4) mod 4 = 3" by simp
  moreover have "''='' @ replicate 3 CHR ''='' = ''====''" by (simp add: replicate_Suc [of 2, simplified] eval_nat_numeral)
  ultimately have pad: "''='' @ replicate ((4 - length ''='' mod 4) mod 4) CHR ''='' = ''====''" by (simp only:)
  have "decode_base64 binary ''='' =
      bind_outcome (binary ''AAAA'') (\<lambda>output. if 4 \<le> length output then Ok (take (length output - 4) output) else Undefined)"
  proof -
    have "length (filter (\<lambda>c. c = CHR ''='') ''===='') = 4"
      "map (\<lambda>c. if c = CHR ''='' then CHR ''A'' else c) ''===='' = ''AAAA''" by simp_all
    then show ?thesis unfolding decode_base64_def Let_def pad by (simp only:)
  qed
  with x show ?thesis by simp
qed

section \<open>Properties\<close>

text \<open>
  C38 (round trip): what \<open>encode_base64\<close> prints, \<open>decode_base64\<close> reads back, for every text, with its
  padding or with the padding left out. But a text may ask for more to be erased than was decoded:
  a single padding character is undefined.
\<close>

theorem decode_encode_base64:
  assumes "boost_base64 binary"
  shows "decode_base64 binary (encode_base64 s) = Ok s \<and>
    decode_base64 binary (filter (\<lambda>c. c \<noteq> CHR ''='') (encode_base64 s)) = Ok s \<and>
    decode_base64 binary ''='' = Undefined"
proof -
  have enc: "encode_base64 s = base64_spec s" by (rule encode_base64_spec)
  have "decode_base64 binary (base64_spec s) = Ok s"
    by (rule decode_whole [OF assms]) (simp add: spec_whole)
  moreover have "decode_base64 binary (filter (\<lambda>c. c \<noteq> CHR ''='') (base64_spec s)) = Ok s"
    by (rule decode_whole [OF assms]) (simp only: stripped_pads spec_stripped)
  moreover have "decode_base64 binary ''='' = Undefined" by (rule decode_lone_pad [OF assms])
  ultimately show ?thesis by (simp add: enc)
qed

text \<open>The iterators, executed.\<close>

fun position :: "char \<Rightarrow> string \<Rightarrow> nat option" where
  "position c [] = None"
| "position c (x # xs) = (if c = x then Some 0 else map_option Suc (position c xs))"

definition binary_text :: "string \<Rightarrow> string outcome" where
  "binary_text input =
     (if list_all (\<lambda>c. position c base64_alphabet \<noteq> None) input
      then Ok (regroup (map (\<lambda>c. the (position c base64_alphabet)) input))
      else Throws ''attempt to decode a value not in base64 char set'')"

lemma position_nth: "distinct xs \<Longrightarrow> i < length xs \<Longrightarrow> position (xs ! i) xs = Some i"
proof (induction xs arbitrary: i)
  case (Cons x xs)
  then show ?case by (cases i) (auto simp: in_set_conv_nth)
qed simp

lemma binary_text_laws: "boost_base64 binary_text"
proof -
  have "distinct base64_alphabet" "length base64_alphabet = 64" by (simp_all add: base64_alphabet_def)
  then have "position (b64 k) base64_alphabet = Some k" if "k < 64" for k
    using position_nth [of base64_alphabet k] that by (simp add: b64_def)
  then show ?thesis
    by (auto simp: boost_base64_def binary_text_def list_all_iff map_idI intro!: arg_cong [of _ _ regroup])
qed

theorem decode_encode_base64_witness:
  "decode_base64 binary_text (encode_base64 ''Man is'') = Ok ''Man is'' \<and> decode_base64 binary_text ''='' = Undefined"
  using decode_encode_base64 [OF binary_text_laws, of "''Man is''"] by blast

end
