(* ===== verification/Pages.thy ===== *)
theory Pages
  imports Web Base64_Decode
begin

text \<open>
  The pages of \<open>src/web/page\<close>, the health check of \<open>src/web/api\<close>, the printed times of
  \<open>src/systems/Timer.cpp\<close>, and the route table of \<open>src/web/fabrique.cpp\<close>. \<open>double\<close> values are
  exact rationals; how a stream or \<open>snprintf\<close> prints one, the JSON writer, the regular
  expressions and the library iterators of the base64 decoder are parameters.
\<close>

section \<open>Times as texts\<close>

text \<open>\<open>%.3f\<close> of a number of thousandths.\<close>

definition pad_zeros :: "nat \<Rightarrow> string \<Rightarrow> string" where
  "pad_zeros n s = replicate (n - length s) (CHR ''0'') @ s"

definition show_thousandths :: "int \<Rightarrow> string" where
  "show_thousandths m =
     (if m < 0 then ''-'' else []) @ show_int (\<bar>m\<bar> div 1000) @ ''.'' @ pad_zeros 3 (show_int (\<bar>m\<bar> mod 1000))"

definition truncate_rat :: "rat \<Rightarrow> int" where
  "truncate_rat r = (if r < 0 then - \<lfloor>- r\<rfloor> else \<lfloor>r\<rfloor>)"

definition human_seconds :: "rat \<Rightarrow> string" where
  "human_seconds seconds =
     (let prefix = extract_derived_units_time_str (truncate_rat seconds);
          rest_thousandths = \<lceil>(seconds - of_int (snd prefix)) * 1000\<rceil>
      in fst prefix @ show_thousandths rest_thousandths @ '' s'')"

definition of_nanos :: "int \<Rightarrow> rat" where
  "of_nanos n = of_int n / 1000000000"

definition currentMeasuringInterval :: "int \<Rightarrow> timer \<Rightarrow> int outcome" where
  "currentMeasuringInterval now t =
     (if tr_state t \<noteq> STARTED then Throws ''Timer::currentMeasuredInterval: timer is not started''
      else Ok (now - ck_startPoint (tr_mono t)))"

definition currentStatus :: "int \<Rightarrow> timer \<Rightarrow> string outcome" where
  "currentStatus now t =
     (if tr_state t \<noteq> STARTED then Ok ''idle''
      else bind_outcome (currentMeasuringInterval now t) (\<lambda>i. Ok (''started '' @ human_seconds (of_nanos i) @ '' ago'')))"

definition lastMeasuredIntervalStr :: "timer \<Rightarrow> string" where
  "lastMeasuredIntervalStr t =
     (if tr_nDoneMeasurements t = 0 then ''?'' else human_seconds (of_nanos (ck_lastMeasuredInterval (tr_mono t))))"

definition totalMeasuredIntervalsStr :: "timer \<Rightarrow> string" where
  "totalMeasuredIntervalsStr t = human_seconds (of_nanos (ck_totalMeasuredIntervals (tr_mono t)))"

definition totalConsumedCPUTimeStr :: "timer \<Rightarrow> string" where
  "totalConsumedCPUTimeStr t = human_seconds (of_nanos (ck_totalMeasuredIntervals (tr_cpu t)))"

text \<open>A division by zero is an infinity or not a number.\<close>

definition relativeCpuUsageStr :: "rat \<Rightarrow> rat \<Rightarrow> string" where
  "relativeCpuUsageStr cpuTime totalTime =
     (if totalTime = 0 then ''?''
      else let usage = cpuTime / totalTime; p = usage * 100;
               usageInPercents = int32 (if p < 0 then - \<lfloor>- p + 1 / 2\<rfloor> else \<lfloor>p + 1 / 2\<rfloor>)
           in show_int usageInPercents @ ''%'')"

definition averageCPULoadStr :: "timer \<Rightarrow> string" where
  "averageCPULoadStr t =
     relativeCpuUsageStr (of_nanos (ck_totalMeasuredIntervals (tr_cpu t))) (of_nanos (ck_totalMeasuredIntervals (tr_mono t)))"

section \<open>The state of the service and what the pages use\<close>

record ('j, 'c) web_world =
  ww_settings :: settings
  ww_health :: health_values
  ww_log :: "'j log_instance"
  ww_app :: "'c application"
  ww_merge :: "'j merge_container"
  ww_legReader :: leg_reader
  ww_linkReader :: link_reader
  ww_online :: "online_watcher list"
  ww_pulls :: pull_manager

text \<open>Clocks, number printing, the JSON library, the iterators from base64 to bytes, the build's version texts and the query.\<close>

record web_env =
  we_now :: int
  we_clock :: int
  we_uptime :: int
  we_show_fixed2 :: "rat \<Rightarrow> string"
  we_show_fixed3 :: "rat \<Rightarrow> string"
  we_show_general :: "rat \<Rightarrow> string"
  we_show_non_finite :: "int \<Rightarrow> string"
  we_asString :: "json_value \<Rightarrow> string outcome"
  we_regex_replace :: "string \<Rightarrow> string \<Rightarrow> string \<Rightarrow> string outcome"
  we_write_json :: "json_value \<Rightarrow> string"
  we_show_json :: "json_value \<Rightarrow> string"
  we_binary_text :: "string \<Rightarrow> string outcome"
  we_version :: "string \<Rightarrow> string"
  we_query :: "string \<Rightarrow> bdb_result outcome"
  we_html_dump :: "string \<Rightarrow> string"

type_synonym ('j, 'c) page_view = "('j, 'c) web_world view"

section \<open>\<open>rendering.cpp\<close>\<close>

definition header :: "(string \<times> string) list" where
  "header =
     [(''Data'', ''data''), (''Online'', ''online''), (''Time'', ''time''), (''Merge'', ''merge''), (''leg'', ''leg''),
      (''link'', ''link''), (''Sync'', ''sync''), (''State'', ''state''), (''Records'', ''records''), (''Config'', ''config''),
      (''Health'', ''health''), (''Log'', ''log'')]"

definition header_link :: "string \<Rightarrow> string \<times> string \<Rightarrow> string" where
  "header_link active h =
     '' <a href='' @ quoted (''/'' @ snd h) @ ''>''
     @ (if fst h = active then ''<mark>'' @ fst h @ ''</mark>'' else fst h)
     @ ''</a> | ''"

definition render_header :: "web_env \<Rightarrow> string \<Rightarrow> string" where
  "render_header env active =
     (let uptm = we_uptime env; hours = uptm div 3600; uptm = uptm mod 3600; minutes = uptm div 60; seconds = uptm mod 60
      in ''<head><meta charset='' @ dquoted ''utf-8'' @ ''></head>''
         @ ''<style>'' @ newline
         @ ''* {font-family:monospace !important;}'' @ newline
         @ ''td { text-align: center }'' @ newline
         @ ''mark { '' @ newline @ ''    background-color: grey;'' @ newline @ ''    color: black;'' @ newline @ ''}'' @ newline
         @ ''</style>'' @ newline
         @ concat (map (header_link active) header)
         @ string_time (we_now env) @ '' ''
         @ ''<b>UPTIME: '' @ pad_zeros 2 (show_int hours) @ '':'' @ pad_zeros 2 (show_int minutes) @ '':''
         @ pad_zeros 2 (show_int seconds) @ ''</b>''
         @ newline @ ''<hr/><br/>'' @ newline)"

text \<open>A page of a type; the code stays 200.\<close>

definition page_response :: "string \<Rightarrow> string \<Rightarrow> http_response" where
  "page_response mime_type body = response_new\<lparr>rs_mime_type := mime_type, rs_body := body\<rparr>"

definition html_view :: "(http_request \<Rightarrow> ('j, 'c) web_world \<Rightarrow> string outcome) \<Rightarrow> ('j, 'c) page_view" where
  "html_view body request w = (bind_outcome (body request w) (\<lambda>html. Ok (page_response ''text/html'' html)), w)"

section \<open>The pages\<close>

definition root_view :: "('j, 'c) page_view" where
  "root_view request w =
     (Ok (response_new\<lparr>rs_code := 301, rs_fields := [(''Location'', ''/state'')], rs_mime_type := ''text/html''\<rparr>), w)"

definition health_view :: "web_env \<Rightarrow> ('j, 'c) page_view" where
  "health_view env = html_view (\<lambda>request w. Ok (render_header env ''Health'' @ ''<pre>Not implemented</pre>''))"

definition leg_view :: "web_env \<Rightarrow> ('j, 'c) page_view" where
  "leg_view env = html_view (\<lambda>request w. Ok (render_header env ''Leg''
     @ legStatusHtml (ww_merge w) (ww_legReader w)))"

definition link_view :: "web_env \<Rightarrow> ('j, 'c) page_view" where
  "link_view env = html_view (\<lambda>request w. Ok (render_header env ''Link''
     @ linkStatusHtml (ww_merge w) (ww_linkReader w)))"

definition online_view :: "web_env \<Rightarrow> ('j, 'c) page_view" where
  "online_view env = html_view (\<lambda>request w. Ok (render_header env ''Online'' @ online_statusHtml (ww_online w)))"

definition two_cells :: "string \<Rightarrow> string \<Rightarrow> string" where
  "two_cells name text = ''<tr><th>'' @ name @ ''</th><th>'' @ text @ ''</th></tr>''"

definition merge_view :: "web_env \<Rightarrow> ('j, 'c) page_view" where
  "merge_view env = html_view (\<lambda>request w. Ok (render_header env ''Merge''
     @ ''<table border=1>''
     @ two_cells ''OutQueue'' (show_nat (getOutputQueueSize (ww_merge w)))
     @ two_cells ''unowned clt'' (show_nat (getLegSize (ww_merge w)))
     @ (let s = getLinkSize (ww_merge w) in two_cells ''unowned cll'' (show_nat (fst s) @ '' / '' @ show_nat (snd s)))
     @ two_cells ''clo'' (show_nat (getDataSize (ww_merge w)))
     @ ''</table>''))"

definition time_view :: "web_env \<Rightarrow> ('j, 'c) page_view" where
  "time_view env = html_view (\<lambda>request w. Ok (render_header env ''time''
     @ ''<table border=1>'' @ two_cells ''start'' (string_time (getStart (ww_merge w)))
     @ two_cells ''leg time'' (string_time (getMaxLegTime (ww_merge w)))
     @ two_cells ''link time'' (string_time (getMaxLinkTime (ww_merge w)))
     @ two_cells ''processed second'' (show_int (getMaxLegTime (ww_merge w) - getStart (ww_merge w)))
     @ ''</table>''))"

definition cyclic_task_view :: "web_env \<Rightarrow> ('j, 'c) page_view" where
  "cyclic_task_view env = html_view (\<lambda>request w.
     case map_of (rq_parameters request) ''name'' of
       None \<Rightarrow> Throws ''map::at''
     | Some name \<Rightarrow>
         (case get_cyclic_task name (ww_app w) of
            None \<Rightarrow> Ok (render_header env [] @ ''Task not found'')
          | Some t \<Rightarrow> Ok (render_header env [] @ ct_dump_html (we_show_general env) (we_html_dump env name) t)))"

text \<open>\<open>boost::replace_all\<close> of one character.\<close>

definition replace_chr :: "char \<Rightarrow> string \<Rightarrow> string \<Rightarrow> string" where
  "replace_chr c new_text s = concat (map (\<lambda>x. if x = c then new_text else [x]) s)"

definition log_view :: "web_env \<Rightarrow> ('j, 'c) page_view" where
  "log_view env = html_view (\<lambda>request w.
     let text = concat (map write_single_message (last_messages (ww_log w)));
         text = replace_chr (CHR ''<'') ''&lt'' text;
         text = replace_chr (CHR ''>'') ''&gt'' text
     in Ok (render_header env ''Log'' @ ''<pre>'' @ newline @ text @ ''</pre>''))"

fun join_outcomes :: "string outcome list \<Rightarrow> string outcome" where
  "join_outcomes [] = Ok []"
| "join_outcomes (r # rs) = bind_outcome r (\<lambda>a. bind_outcome (join_outcomes rs) (\<lambda>b. Ok (a @ b)))"

definition records_columns :: "string list" where
  "records_columns =
     [''start_time'', ''stop_time'', ''uniqueid'', ''object_type'', ''object_type_l'', ''sip_ip'', ''sip_ip_l'',
      ''status'', ''call_id_md5'', ''call_id_md5_l'', ''to_jsonb'']"

definition records_statement :: string where
  "records_statement =
     ''select * from legs_aggr_raw where start_time > (select max(start_time) from legs_aggr_raw) - interval ''
     @ quoted ''30 sec'' @ '' order by start_time''"

definition records_view :: "web_env \<Rightarrow> ('j, 'c) page_view" where
  "records_view env = html_view (\<lambda>request w.
     bind_outcome (we_query env records_statement) (\<lambda>res.
     bind_outcome (join_outcomes (br_rows (\<lambda>row. bind_outcome
         (join_outcomes (map (\<lambda>c. bind_outcome (br_get_s row c) (\<lambda>v. Ok (''<th>'' @ v @ ''</th>''))) records_columns))
         (\<lambda>cells. Ok (''<tr>'' @ cells @ ''</tr>''))) res)) (\<lambda>rows.
       Ok (render_header env ''Link'' @ ''<table border=1>''
         @ ''<tr>'' @ concat (map (\<lambda>c. ''<th>'' @ c @ ''</th>'') records_columns) @ ''</tr>''
         @ rows @ ''</table>''))))"

definition trunc_div :: "int \<Rightarrow> int \<Rightarrow> int" where
  "trunc_div a b = (if a < 0 then - (- a div b) else a div b)"

definition ms_to_str :: "int \<Rightarrow> string" where
  "ms_to_str t = human_seconds (of_int t / 1000)"

text \<open>\<open>data_size\<close> and \<open>rows\<close> are those of the loaded list; a loaded object without one is undefined.\<close>

definition writeTableRow :: "int \<Rightarrow> ('a \<Rightarrow> int) \<Rightarrow> ('a \<Rightarrow> int) \<Rightarrow> string \<Rightarrow> 'a base_data \<Rightarrow> string outcome" where
  "writeTableRow now data_size rows caption b =
     bind_outcome
       (case bd_state b of
          NOT_LOADED \<Rightarrow> Ok (''<td colspan=3>'' @ (if bd_data b \<noteq> None then ''Unable to load new data'' else ''Not loaded'') @ ''</td>'')
        | LOADING \<Rightarrow> Ok (''<td colspan=3>Loading started '' @ ms_to_str (bd_last_time now b) @ '' ago</td>'')
        | LOADED \<Rightarrow>
            (case bd_data b of
               None \<Rightarrow> Undefined
             | Some d \<Rightarrow> Ok (''<td>'' @ string_time (trunc_div (bd_get_time_in_ms b) 1000) @ ''</td>''
                 @ ''<td>'' @ show_int (data_size d div 1024) @ '' Kb</td>'' @ ''<td>'' @ show_int (rows d) @ ''</td>'')))
       (\<lambda>cells. Ok (''<tr>'' @ ''<th>'' @ caption @ ''</th>'' @ cells
          @ ''<td>'' @ ms_to_str (bd_last_time now b) @ ''</td>''
          @ ''<td>'' @ ms_to_str (bd_total_time_in_ms b) @ ''</td>'' @ ''</tr>'' @ newline))"

definition data_view :: "web_env \<Rightarrow> ('j, 'c) page_view" where
  "data_view env = html_view (\<lambda>request w.
     bind_outcome (join_outcomes (map (\<lambda>(name, b :: unit base_data).
         writeTableRow (we_now env * 1000) (\<lambda>_. 0) (\<lambda>_. 0) name b) all_data)) (\<lambda>rows.
       Ok (render_header env ''Data'' @ ''<table border=1 width=100%>''
         @ ''<tr><th></th><th>Updated at</th><th>Size</th><th>Rows</th><th>Last time</th><th>Total time</th></tr>''
         @ rows)))"

definition state_head :: string where
  "state_head =
     newline @ ''<table border='' @ dquoted ''1'' @ ''>'' @ newline @ '' <caption>Periodic tasks</caption>'' @ newline
     @ '' <tr>'' @ newline @ ''    <th>Name</th>'' @ newline @ ''    <th>Timeout (sec)</th>'' @ newline
     @ ''    <th>Last duration(ms)</th>'' @ newline @ ''    <th>Total duration(s)</th>'' @ newline
     @ ''    <th>Count</th>'' @ newline @ ''    <th>Error</th>'' @ newline @ '' <tr>'' @ newline"

text \<open>The time a task has been running is not negative.\<close>

definition running_for :: "int \<Rightarrow> string" where
  "running_for runtime =
     (let hours = runtime div 3600; runtime = runtime mod 3600; minutes = runtime div 60; seconds = runtime mod 60
      in ''<td>running ''
         @ (if hours \<noteq> 0 then pad_zeros 2 (show_int hours) @ '':'' else [])
         @ (if minutes \<noteq> 0 then pad_zeros 2 (show_int minutes) @ '':'' else [])
         @ pad_zeros 2 (show_int seconds) @ ''s'' @ ''</td>'')"

definition state_row :: "web_env \<Rightarrow> cyclic_task_info \<Rightarrow> string" where
  "state_row env t =
     ''<tr>'' @ ''<td>'' @ '' <a href='' @ quoted (''/cyclic_task?name='' @ ci_name t) @ ''>'' @ ci_name t @ ''</a>'' @ ''</td>''
     @ (if ci_period t mod 1000 = 0 then ''<td>'' @ show_int (ci_period t div 1000) @ ''</td>''
        else ''<td>'' @ we_show_fixed2 env (of_int (ci_period t) / 1000) @ ''</td>'')
     @ (if ci_start_timestamp t \<noteq> 0 then running_for (we_now env - ci_start_timestamp t)
        else ''<td>'' @ we_show_fixed2 env (of_int (ci_last_execution_time t) / 1000) @ ''</td>'')
     @ ''<td>'' @ we_show_fixed2 env (of_int (ci_total_execution_time t) / 1000000) @ ''</td>''
     @ ''<td>'' @ show_nat (ci_exec_count t) @ ''</td>''
     @ ''<td>'' @ show_nat (ci_errors_count t) @ ''</td>'' @ ''</tr>''"

definition health_clear :: "health_values \<Rightarrow> health_values" where
  "health_clear vs = []"

definition state_view :: "web_env \<Rightarrow> ('j, 'c) page_view" where
  "state_view env request w =
     (let w = fold (\<lambda>s w. if s = ''action=do_reset'' then w\<lparr>ww_health := health_clear (ww_health w)\<rparr> else w)
                (split_any (rq_body request) ''&'' allow_blank) w
      in (Ok (page_response ''text/html'' (render_header env ''State'' @ ''</br></br>'' @ state_head
            @ concat (map (state_row env) (cyclic_tasks (ww_app w)))
            @ ''</table><br/>''
            @ ''<form action='' @ dquoted [] @ '' method='' @ dquoted ''POST'' @ ''> <button name='' @ dquoted ''action''
            @ '' value='' @ dquoted ''do_reset'' @ ''>Reset errors</button></form>'')), w))"

definition get_speed_mbps :: "web_env \<Rightarrow> timer \<Rightarrow> int \<Rightarrow> int \<Rightarrow> string" where
  "get_speed_mbps env t n_bytes nanos =
     (if tr_nDoneMeasurements t = 0 then ''?''
      else if nanos = 0 then take 127 (we_show_non_finite env n_bytes)
      else take 127 (we_show_fixed3 env (of_int n_bytes / of_nanos nanos / (1024 * 1024 / 8))))"

definition kb_printer :: "int \<Rightarrow> string" where
  "kb_printer val = show_int (val div 1024) @ ''k''"

definition copied_cell :: "timer \<Rightarrow> int \<Rightarrow> int \<Rightarrow> string" where
  "copied_cell t last_copied last_copied_bytes =
     (if tr_nDoneMeasurements t = 0
      then (if last_copied = 0 then ''<td>?</td>'' else ''<td>'' @ kb_printer last_copied @ ''</td>'')
      else if last_copied \<noteq> last_copied_bytes
      then ''<td>'' @ kb_printer last_copied @ ''/'' @ kb_printer last_copied_bytes @ ''</td>''
      else ''<td>'' @ kb_printer last_copied_bytes @ ''</td>'')"

definition sync_row :: "web_env \<Rightarrow> puller \<Rightarrow> string outcome" where
  "sync_row env pull =
     (let info = pl_info pull; t = pi_timer info; last_copied = pl_copied_bytes pull
      in bind_outcome (currentStatus (we_clock env) t) (\<lambda>status. Ok
        (''<tr>'' @ ''<th>'' @ pl_event pull @ ''</th>''
         @ ''<td>'' @ show_int (pi_pull_count_full info) @ ''</td>''
         @ ''<td>'' @ show_int (pi_pull_count_partial info) @ ''</td>''
         @ ''<td>'' @ show_int (pi_pull_count_errors info) @ ''</td>''
         @ ''<td>'' @ status @ ''</td>''
         @ ''<td>'' @ lastMeasuredIntervalStr t @ ''</td>''
         @ copied_cell t last_copied (pi_last_copied_bytes info)
         @ ''<td>'' @ get_speed_mbps env t (pi_last_copied_bytes info) (ck_lastMeasuredInterval (tr_mono t)) @ ''</td>''
         @ ''<td>'' @ show_priority (pl_priority pull) @ ''</td>''
         @ ''<td>'' @ totalMeasuredIntervalsStr t @ ''</td>''
         @ ''<td>'' @ kb_printer (pi_total_copied_bytes info) @ ''</td>''
         @ ''<td>'' @ get_speed_mbps env t (pi_total_copied_bytes info) (ck_totalMeasuredIntervals (tr_mono t)) @ ''</td>''
         @ ''</tr>'' @ newline)))"

definition sync_view :: "web_env \<Rightarrow> ('j, 'c) page_view" where
  "sync_view env = html_view (\<lambda>request w.
     bind_outcome (join_outcomes (map (sync_row env) (get_pulls (ww_pulls w)))) (\<lambda>rows.
       Ok (render_header env ''Sync''
         @ ''Errors count: <b>'' @ show_int (pm_errors_count (ww_pulls w)) @ ''</b>'' @ newline @ ''<br/><br/>'' @ newline
         @ ''<table width=100% border=1>'' @ newline @ ''<tr>''
         @ concat (map (\<lambda>c. ''<th>'' @ c @ ''</th>'')
             [''&nbsp;'', ''Full'', ''Partial'', ''Errors'', ''Current status'', ''Last time'', ''Last bytes'',
              ''Last speed, Mbps'', ''Thread'', ''Total time'', ''Total bytes'', ''Average speed, Mbps''])
         @ ''<tr>'' @ newline @ rows @ ''</table><br/>'' @ newline)))"

section \<open>The configuration page\<close>

text \<open>\<open>current[path[idx]]\<close> creates a missing member.\<close>

fun replace_helper :: "web_env \<Rightarrow> setting_mask \<Rightarrow> string list \<Rightarrow> json_value \<Rightarrow> json_value outcome" where
  "replace_helper env msk [] current =
     bind_outcome (we_asString env current) (\<lambda>s.
     bind_outcome (we_regex_replace env s (sk_regexp msk) (sk_replace msk)) (\<lambda>t. Ok (Json_Str t)))"
| "replace_helper env msk (k # ks) (Json_Object ms) =
     bind_outcome (replace_helper env msk ks (case map_of ms k of Some v \<Rightarrow> v | None \<Rightarrow> Json_Null))
       (\<lambda>v. Ok (Json_Object (sm_set k v ms)))"
| "replace_helper env msk (k # ks) Json_Null =
     bind_outcome (replace_helper env msk ks Json_Null) (\<lambda>v. Ok (Json_Object (sm_set k v [])))"
| "replace_helper env msk (k # ks) _ = Throws ''requires objectValue''"

definition replace_mask :: "web_env \<Rightarrow> setting_mask \<Rightarrow> json_value \<Rightarrow> json_value outcome" where
  "replace_mask env msk v = replace_helper env msk (split_any (sk_path msk) ''/'' allow_blank) v"

fun replace_masks :: "web_env \<Rightarrow> setting_mask list \<Rightarrow> json_value \<Rightarrow> json_value outcome" where
  "replace_masks env [] v = Ok v"
| "replace_masks env (m # ms) v = bind_outcome (replace_mask env m v) (replace_masks env ms)"

definition config_view :: "web_env \<Rightarrow> ('j, 'c) page_view" where
  "config_view env request w =
     (bind_outcome (settings_dump (ww_settings w)) (\<lambda>v.
      bind_outcome (replace_masks env settings_masks v) (\<lambda>settings_value.
        Ok (page_response ''text/html; charset=utf-8''
          (render_header env ''Config''
           @ ''build date: '' @ we_version env ''build_datetime'' @ ''<br/>'' @ newline
           @ ''built on commit: <b><a href='' @ [CHR 34] @ ''https://github.com/welltime/call45aggr/commit/''
           @ we_version env ''commit_hash'' @ [CHR 34] @ ''>'' @ we_version env ''commit_hash'' @ ''</a></b><br/>'' @ newline
           @ ''author: '' @ we_version env ''commit_author_name'' @ ''<br/>'' @ newline
           @ ''commit date: '' @ we_version env ''commit_datetime'' @ ''<br/>'' @ newline
           @ ''commit message: '' @ we_version env ''commit_message'' @ ''<br/><br/>'' @ newline
           @ ''<hr><br/>'' @ newline
           @ ''<pre>'' @ we_write_json env settings_value @ ''</pre>'' @ newline)))), w)"

section \<open>The icon and the health check\<close>

definition favicosrc :: string where
  "favicosrc =
     ''AAABAAEAEBAAAAEAIABoBAAAFgAAACgAAAAQAAAAIAAAAAEAIAAAAAAAAAQAAAAAAAAAAAAAAAAAAAAAAAAAAABXAAAAVwAAAFcAAABXAAAAV3'' @
     ''M3WP9zN1j/czdY/3M3WP9zN1j/uEuH/wAAAFcAAABXAAAAVwAAAAAAAAAAAAAAAAAAAACKOmb/ijpm/4o6Zv+KOmb/ijpm/4o6Zv+KOmb/uEuH'' @
     ''/7hLh5kAAAAAAAAAAAAAAAAAAAAAAAAAAAAAAACKOmb/ijpmjgAAAAAAAAAAijpm/4o6Zv+KOmb/ijpm/7hLh/8AAAAAAAAAAAAAAAAAAAAAAA'' @
     ''AAAAAAAAAAAAAAuEuH/wAAAAAAAAAAAAAAAIo6Zv+KOmb/ijpm/4o6Zv+KOmb/uEuHmQAAAAAAAAAAAAAAAAAAAAAAAAAAAAAAALhLh/8AAAAA'' @
     ''AAAAAAAAAACKOmaOijpm/4o6Zv+KOmb/ijpm/7hLh/8AAAAAAAAAAAAAAAAAAAAAAAAAAAAAAAC4S4f/uEuHngAAAAAAAAAAAAAAAIo6Zv+KOm'' @
     ''b/ijpm/4o6Zv+4S4f/AAAAAAAAAAAAAAAAAAAAAAAAAAAAAAAAAAAAALhLh/+4S4f/AAAAAAAAAACKOmb/czdY/3M3WP9zN1j/AAAAAAAAAAAA'' @
     ''AAAAAAAAAAAAAAAAAAAAAAAAAAAAAAAAAAAAAAAAAAAAAACKOmb/ijpm/3M3WP9zN1j/czdY/3M3WP9zN1hlAAAAAAAAAAAAAAAAAAAAAAAAAA'' @
     ''AAAAAAAAAAAIo6Zo6KOmb/ijpm/4o6Zv+KOmb/ijpm/4o6Zv+KOmb/ijpm/4o6Zv+4S4eZAAAAAAAAAAAAAAAAAAAAAMjV1TiKOmb/ijpm/2sk'' @
     ''a3VrJGs0KwD//4o6Zv+KOmb/ijpm/4o6Zv+KOmb/uEuH/wAAAAAAAAAAAAAAAAAAAAC+yspAijpm/4o6Zv9rJGs0AAAAACsA//+KOmb/ayRrdW'' @
     ''skazQrAP//ijpm/7hLh/8AAAAAAAAAAAAAAAAAAAAAAAAAAIo6Zv+KOmb/ayRrdWskazRrJGt1ijpm/2skazQAAAAAKwD//4o6Zv+4S4f/AAAA'' @
     ''AAAAAAAAAAAAAAAAAAAAAACKOmaOijpm/4o6Zv+KOmb/ijpm/4o6Zv9rJGt1ayRrNGska3W4S4f/AAAAAAAAAAAAAAAAAAAAAAAAAAAAAAAAAA'' @
     ''AAAIo6Zv+KOmb/ijpm/4o6Zv+KOmb/ijpm/4o6Zv+KOmb/uEuHmQAAAAAAAAAAAAAAAAAAAAAAAAAAAAAAAAAAAAC4S4d3uEuH/4o6Zv+KOmaH'' @
     ''xszMN4o6ZoeKOmb/uEuH/wAAAAAAAAAAAAAAAAAAAAAAAAAAAAAAAAAAAAAAAAAAAAAAALhLh/8AAAAAAAAAAAAAAAAAAAAAuEuH/wAAAAAAAA'' @
     ''AAAAAAAAAAAAAAAAAA+B8AAMAfAACYPwAAuB8AALgfAACcHwAAzD8AAPgfAADgAwAA5gMAAOZjAADnYwAA4HcAAPAHAAD4jwAA+98AAA==''"

definition favicon_view :: "web_env \<Rightarrow> ('j, 'c) page_view" where
  "favicon_view env request w =
     (case decode_base64 (we_binary_text env) favicosrc of
        Ok body \<Rightarrow> (Ok (response_new\<lparr>rs_body := body, rs_mime_type := ''image/x-icon'', rs_code := 200\<rparr>), w)
      | Throws m \<Rightarrow> (Ok response_new, w)
      | Undefined \<Rightarrow> (Undefined, w)
      | Diverges \<Rightarrow> (Diverges, w))"

fun assign_all :: "(string list \<times> json_value) list \<Rightarrow> json_value \<Rightarrow> json_value outcome" where
  "assign_all [] val = Ok val"
| "assign_all ((path, x) # rest) val = bind_outcome (json_assign path x val) (assign_all rest)"

fun status_id :: "health_status \<Rightarrow> string" where
  "status_id STATUS_WARNING = ''STATUS_WARNING''"
| "status_id STATUS_ERROR = ''STATUS_ERROR''"
| "status_id STATUS_CRITICAL = ''STATUS_CRITICAL''"

definition health_members :: "nat \<times> health_state \<Rightarrow> (string list \<times> json_value) list" where
  "health_members ht =
     (let item = concat_args [''item'', show_nat (fst ht)]
      in [([item, ''itemId''], Json_Str (hs_item (snd ht))), ([item, ''itemVal''], Json_Str []),
          ([item, ''statusId''], Json_Str (status_id (hs_status_type (snd ht)))),
          ([item, ''statusMessage''], Json_Str (hs_status_message (snd ht)))])"

definition healthcheck_view :: "web_env \<Rightarrow> ('j, 'c) page_view" where
  "healthcheck_view env request w =
     (let s = ww_settings w;
          (states, vs) = health_states (we_now env) (ww_health w);
          region = Json_Object (sm_set ''regionId'' (Json_Int (st_instance_id s))
                                 (sm_set ''regionName'' (Json_Str (st_instance_name s)) []));
          members =
            [([''autoLockFinance''], Json_Bool True), ([''currentCalls''], Json_Int 1),
             ([''instanceId''], Json_Int (st_instance_id s)),
             ([''item0'', ''itemId''], Json_Str ''call45aggr''), ([''item0'', ''itemVal''], Json_Str ''No errors''),
             ([''item0'', ''statusId''], Json_Str ''STATUS_OK''), ([''item0'', ''statusMessage''], Json_Str ''No errors''),
             ([''regionList''], Json_Array [region]), ([''runTime''], Json_Int (we_uptime env))]
            @ concat (map health_members (zip [1..<Suc (length states)] states))
      in (bind_outcome (assign_all members Json_Null) (\<lambda>val.
            Ok (response_new\<lparr>rs_mime_type := ''application/json'', rs_code := 200, rs_body := we_show_json env val\<rparr>)),
          w\<lparr>ww_health := vs\<rparr>))"

section \<open>\<open>create_default_handler\<close>\<close>

definition default_views :: "web_env \<Rightarrow> (string \<times> ('j, 'c) page_view) list" where
  "default_views env =
     [(''/favicon.ico'', favicon_view env), (''/config'', config_view env), (''/health'', health_view env), (''/'', root_view),
      (''/log'', log_view env), (''/sync'', sync_view env), (''/state'', state_view env), (''/data'', data_view env),
      (''/cyclic_task'', cyclic_task_view env), (''/online'', online_view env), (''/time'', time_view env),
      (''/merge'', merge_view env), (''/leg'', leg_view env), (''/records'', records_view env), (''/link'', link_view env)]"

definition create_default_handler :: "web_env \<Rightarrow> ('j, 'c) page_view" where
  "create_default_handler env = aggregated_handle (fold (\<lambda>(url, v). add_view url v) (default_views env) [])"

section \<open>Routing\<close>

lemma add_views_ok: "sm_ok vs \<Longrightarrow> sm_ok (fold (\<lambda>(url, v). add_view url v) ts vs)"
  by (induction ts arbitrary: vs) (auto simp: add_view_def)

lemma add_views_find:
  assumes "sm_ok vs" "distinct (map fst ts)" "\<forall>url \<in> set (map fst ts). map_of vs url = None"
  shows "map_of (fold (\<lambda>(url, v). add_view url v) ts vs) url
    = (case map_of ts url of Some v \<Rightarrow> Some v | None \<Rightarrow> map_of vs url)"
  using assms
proof (induction ts arbitrary: vs)
  case (Cons t ts)
  obtain u v where t: "t = (u, v)" by (meson surj_pair)
  have find: "map_of (sm_set u v vs) = (map_of vs)(u \<mapsto> v)" using Cons.prems(1) by (rule map_of_sm_set)
  then have "map_of (fold (\<lambda>(url, v). add_view url v) ts (sm_set u v vs)) url
      = (case map_of ts url of Some v \<Rightarrow> Some v | None \<Rightarrow> map_of (sm_set u v vs) url)"
    using Cons.prems t by (intro Cons.IH) auto
  moreover have "map_of ts u = None" using Cons.prems(2) t by (simp add: map_of_eq_None_iff)
  moreover have "add_view u v vs = sm_set u v vs" by (simp add: add_view_def)
  ultimately show ?case by (auto simp: t find split: option.splits)
qed simp

lemma default_urls: "distinct (map fst (default_views env))"
  by (simp add: default_views_def)

lemma default_views_find:
  "map_of (fold (\<lambda>(url, v). add_view url v) (default_views env) []) url = map_of (default_views env) url"
proof (rule trans [OF add_views_find])
  show "(case map_of (default_views env) url of Some v \<Rightarrow> Some v | None \<Rightarrow> map_of [] url) = map_of (default_views env) url"
    by (simp split: option.split)
qed (simp_all add: default_urls)

text \<open>A path up to its last slash.\<close>

definition parent_path :: "string \<Rightarrow> string" where
  "parent_path path = rev (tl (dropWhile (\<lambda>c. c \<noteq> CHR ''/'') (rev path)))"

lemma canonize_parent:
  "canonize_url path = (if CHR ''/'' \<in> set path then Ok (parent_path path) else Undefined)"
proof (cases "CHR ''/'' \<in> set path")
  case True
  have "dropWhile (\<lambda>c. c \<noteq> CHR ''/'') (rev path) \<noteq> []" using True by (auto simp only: dropWhile_eq_Nil_conv set_rev)
  then obtain y ys where d: "dropWhile (\<lambda>c. c \<noteq> CHR ''/'') (rev path) = y # ys" by (auto simp only: neq_Nil_conv)
  define t where "t = takeWhile (\<lambda>c. c \<noteq> CHR ''/'') (rev path)"
  have split: "rev path = t @ y # ys" using d unfolding t_def using takeWhile_dropWhile_id [of "\<lambda>c. c \<noteq> CHR ''/''" "rev path"] by simp
  have "path = rev (t @ y # ys)" by (simp add: split [symmetric])
  then have path: "path = rev ys @ [y] @ rev t" by simp
  have "take (length path - 1 - length t) path = rev ys" by (simp add: path)
  then show ?thesis using True d by (simp add: canonize_url_def find_last_def t_def [symmetric] parent_path_def)
next
  case False
  then show ?thesis by (simp add: canonize_url_def find_last_def)
qed

definition route :: "web_env \<Rightarrow> string \<Rightarrow> ('j, 'c) page_view option" where
  "route env path = (case map_of (default_views env) path of
     Some v \<Rightarrow> Some v | None \<Rightarrow> map_of (default_views env) (parent_path path))"

text \<open>
  Routing. A path that is a page goes to it, otherwise a path directly below a page
  goes to that page, any other gets a 404, a page that throws becomes a 500; and a target
  without a slash, as in \<open>OPTIONS *\<close>, is undefined behaviour.
\<close>

theorem default_handler_routes:
  "create_default_handler env request w =
    (if CHR ''/'' \<notin> set (rq_path request) then (Undefined, w)
     else case route env (rq_path request) of
       None \<Rightarrow> (Ok (not_found ''Page not found''), w)
     | Some v \<Rightarrow> (case v request w of
         (Throws m, w') \<Rightarrow> (Ok (server_error ''Internal server error.''), w')
       | (r, w') \<Rightarrow> (r, w')))"
  by (simp add: create_default_handler_def aggregated_handle_def canonize_parent route_def default_views_find
      split: option.split)

section \<open>The configuration page\<close>

text \<open>Outcomes that are a value or an exception.\<close>

fun defined_outcome :: "'a outcome \<Rightarrow> bool" where
  "defined_outcome (Ok x) = True"
| "defined_outcome (Throws m) = True"
| "defined_outcome _ = False"


lemma defined_bind: "defined_outcome m \<Longrightarrow> (\<And>x. m = Ok x \<Longrightarrow> defined_outcome (f x)) \<Longrightarrow> defined_outcome (bind_outcome m f)"
  by (cases m) auto

lemma bind_Throws: "bind_outcome m f = Throws t \<longleftrightarrow> m = Throws t \<or> (\<exists>x. m = Ok x \<and> f x = Throws t)"
  by (cases m) auto

lemma replace_helper_defined:
  assumes "\<And>v. defined_outcome (we_asString env v)" "\<And>s r t. defined_outcome (we_regex_replace env s r t)"
  shows "defined_outcome (replace_helper env msk path v)"
proof (induction path arbitrary: v)
  case Nil
  then show ?case by (auto intro!: defined_bind assms)
next
  case (Cons k ks)
  then show ?case by (cases v) (auto intro!: defined_bind)
qed

text \<open>Replacing along a path is an assignment of what the text there becomes.\<close>

lemma bind_outcome_assoc: "bind_outcome (bind_outcome m f) g = bind_outcome m (\<lambda>x. bind_outcome (f x) g)"
  by (cases m) simp_all

lemma replace_helper_assign:
  "replace_helper env msk path v =
     (case json_at path v of
        None \<Rightarrow> Throws ''requires objectValue''
      | Some x \<Rightarrow> bind_outcome (we_asString env x) (\<lambda>s.
          bind_outcome (we_regex_replace env s (sk_regexp msk) (sk_replace msk)) (\<lambda>t. json_assign path (Json_Str t) v)))"
proof (induction path arbitrary: v)
  case Nil
  then show ?case by simp
next
  case (Cons k ks)
  have "json_at ks Json_Null = Some Json_Null" by (cases ks) simp_all
  with Cons show ?case
    by (cases v) (simp_all add: bind_outcome_assoc split: option.split)
qed

lemma json_assign_ok: "json_assign p x v = Ok w \<Longrightarrow> json_ok v \<Longrightarrow> json_ok x \<Longrightarrow> json_ok w"
proof (induction p x v arbitrary: w rule: json_assign.induct)
  case (2 k ks x ms)
  define u where "u = (case map_of ms k of Some v \<Rightarrow> v | None \<Rightarrow> Json_Null)"
  have "json_ok u" using 2 by (auto simp: u_def intro: json_ok_member split: option.splits)
  with 2 show ?case by (auto simp: u_def [symmetric] json_ok_set simp del: json_ok.simps)
qed auto

lemma dump_object_ok: "dump_object seq s result = Ok v \<Longrightarrow> json_ok result \<Longrightarrow> json_ok v"
proof (induction seq arbitrary: result)
  case (Cons pm seq)
  have "json_ok (dump_value (snd pm) s)" by (cases "snd pm") (simp_all add: dump_value_def)
  with Cons show ?case by (cases pm) (auto dest: json_assign_ok)
qed simp

text \<open>Masks on other paths leave an array where it is, and its own mask throws.\<close>

lemma replace_mask_array:
  assumes "json_ok v" "json_at q v = Some (Json_Array vs)"
    "prefix_free (split_any (sk_path m) ''/'' allow_blank) q" "replace_mask env m v = Ok v'"
  shows "json_ok v' \<and> json_at q v' = Some (Json_Array vs)"
proof -
  let ?p = "split_any (sk_path m) ''/'' allow_blank"
  obtain x t where x: "json_at ?p v = Some x" "json_assign ?p (Json_Str t) v = Ok v'"
    using assms(4) by (auto simp: replace_mask_def replace_helper_assign split: option.splits)
  then show ?thesis
    using json_assign_at [of ?p v "Json_Str t"] assms by auto
qed

lemma mask_paths:
  "prefix_free (split_any ''db/source_connection_string'' ''/'' allow_blank) (split_any ''db/online_connection_string'' ''/'' allow_blank)"
  "prefix_free (split_any ''db/output_connection_string'' ''/'' allow_blank) (split_any ''db/online_connection_string'' ''/'' allow_blank)"
  by code_simp+

text \<open>
  C27 (error): the configuration page never shows. For every configuration, reading the masked
  settings takes the list of on-line connection strings for a text, which the JSON library
  refuses, so a request for the page is answered with an internal server error.
\<close>

theorem config_page_fails:
  fixes w :: "('j, 'c) web_world"
  assumes "\<And>v. defined_outcome (we_asString env v)" "\<And>vs. \<exists>m. we_asString env (Json_Array vs) = Throws m"
    "\<And>s r t. defined_outcome (we_regex_replace env s r t)" "rq_path request = ''/config''"
  shows "create_default_handler env request w = (Ok (server_error ''Internal server error.''), w)"
proof -
  let ?s = "ww_settings w" and ?q = "split_any ''db/online_connection_string'' ''/'' allow_blank"
  define online :: "settings setting_member" where "online = Strs_member st_online_connection_string (\<lambda>v. st_online_connection_string_update (\<lambda>_. v))"
  have mem: "(''db/online_connection_string'', online) \<in> set settings_sequence"
    by (simp add: settings_sequence_def online_def)
  obtain v where v: "settings_dump ?s = Ok v" "json_at ?q v = Some (dump_value online ?s)"
    using dump_object_at [of Json_Null settings_sequence ?s] sequence_paths mem
    by (force simp: settings_dump_def json_at_null)
  have ok: "json_ok v" using v(1) dump_object_ok by (force simp: settings_dump_def)
  obtain vs where arr: "json_at ?q v = Some (Json_Array vs)" using v(2) by (simp add: online_def dump_value_def)
  obtain m1 m2 m3 where m: "settings_masks = [m1, m2, m3]" "sk_path m3 = ''db/online_connection_string''"
    "prefix_free (split_any (sk_path m1) ''/'' allow_blank) ?q" "prefix_free (split_any (sk_path m2) ''/'' allow_blank) ?q"
    using mask_paths by (simp add: settings_masks_def)
  have defined: "defined_outcome (replace_mask env m u)" for m u
    unfolding replace_mask_def by (rule replace_helper_defined) (rule assms(1), rule assms(3))
  obtain t where t: "we_asString env (Json_Array vs) = Throws t" using assms(2) by blast
  have last: "replace_mask env m3 u = Throws t" if "json_at ?q u = Some (Json_Array vs)" for u
    using that t m(2) by (simp add: replace_mask_def replace_helper_assign)
  have "\<exists>t. replace_masks env [m1, m2, m3] v = Throws t"
  proof (cases "replace_mask env m1 v")
    case v1: (Ok v1)
    note a1 = replace_mask_array [OF ok arr m(3) v1]
    show ?thesis
    proof (cases "replace_mask env m2 v1")
      case v2: (Ok v2)
      then show ?thesis using v1 last replace_mask_array [OF _ _ m(4) v2] a1 by simp
    qed (use v1 defined [of m2 v1] in simp_all)
  qed (use defined [of m1 v] in simp_all)
  then obtain t' where "replace_masks env settings_masks v = Throws t'" using m(1) by auto
  then have "config_view env request w = (Throws t', w)" by (simp add: config_view_def v(1))
  moreover have "map_of (default_views env :: (string \<times> ('j, 'c) page_view) list) ''/config'' = Some (config_view env)"
    by (simp add: default_views_def)
  ultimately show ?thesis
    by (simp add: create_default_handler_def aggregated_handle_def canonize_parent default_views_find assms(4))
qed


text \<open>A plain environment: texts pass, nothing is replaced.\<close>

definition ex_web_env :: web_env where
  "ex_web_env =
     \<lparr>we_now = 0, we_clock = 0, we_uptime = 0, we_show_fixed2 = (\<lambda>r. []), we_show_fixed3 = (\<lambda>r. []),
      we_show_general = (\<lambda>r. []), we_show_non_finite = (\<lambda>n. ''inf''),
      we_asString = (\<lambda>v. case v of Json_Str s \<Rightarrow> Ok s | _ \<Rightarrow> Throws ''Type is not convertible to string''),
      we_regex_replace = (\<lambda>s r t. Ok s), we_write_json = (\<lambda>v. []), we_show_json = (\<lambda>v. []),
      we_binary_text = (\<lambda>s. Ok s), we_version = (\<lambda>n. n), we_query = (\<lambda>q. Throws ''no database''),
      we_html_dump = (\<lambda>n. [])\<rparr>"

theorem config_page_fails_witness:
  "\<forall>w :: (unit, unit) web_world.
    create_default_handler ex_web_env \<lparr>rq_fields = [], rq_path = ''/config'', rq_body = [], rq_method = 0, rq_parameters = []\<rparr> w
      = (Ok (server_error ''Internal server error.''), w)"
proof (rule allI, rule config_page_fails)
  show "defined_outcome (we_asString ex_web_env v)" for v by (cases v) (simp_all add: ex_web_env_def)
qed (simp_all add: ex_web_env_def)

end
