(* ===== verification/Pipeline.thy ===== *)
theory Pipeline
  imports Merge_Service Readers
begin

text \<open>
  The way of a call through the service: the two readers, the merge thread and the consumer of its
  output, each a thread of its own that shares queues and pause flags with the others. A reader
  makes three kinds of steps, the query of its window, the delivery of one row (a link whose call is
  still on-line is not delivered) and the advance of the window; the merge thread makes one pass per
  step; the consumer takes any number of finished records. The tables do not change behind the
  point the readers wait for.
\<close>

record 'j pipeline_env =
  pe_read :: read_settings
  pe_merge :: merge_settings
  pe_leg_exists :: "int \<Rightarrow> int \<Rightarrow> bool"
  pe_link_exists :: "int \<Rightarrow> int \<Rightarrow> bool"
  pe_leg_rows :: "int \<Rightarrow> int \<Rightarrow> db_row list"
  pe_link_rows :: "int \<Rightarrow> int \<Rightarrow> db_row list"
  pe_parse_json :: "string \<Rightarrow> 'j"
  pe_sort_legs :: "call_leg list \<Rightarrow> call_leg list"
  pe_sort_links :: "'j call_leg_link list \<Rightarrow> 'j call_leg_link list"

text \<open>The rows of the running query that are not delivered yet, \<open>None\<close> outside of \<open>getSQLData\<close>.\<close>

record 'j pipeline =
  pl_legReader :: leg_reader
  pl_linkReader :: link_reader
  pl_legRows :: "db_row list option"
  pl_linkRows :: "db_row list option"
  pl_merge :: "'j merge_container"
  pl_finished :: "'j call_record list"

definition pipeline_start :: "'j pipeline_env \<Rightarrow> int \<Rightarrow> 'j pipeline" where
  "pipeline_start env start =
     (let (m, legReader, linkReader) =
        container_setStart (pe_read env) start (merge_init 0, leg_reader_new, link_reader_new)
      in \<lparr>pl_legReader = legReader, pl_linkReader = linkReader, pl_legRows = None, pl_linkRows = None,
          pl_merge = m, pl_finished = []\<rparr>)"

definition leg_query :: "'j pipeline_env \<Rightarrow> int \<Rightarrow> int \<Rightarrow> 'j pipeline \<Rightarrow> 'j pipeline" where
  "leg_query env now1 now2 p =
     (let rd = (pl_legReader p)\<lparr>rw_paused := mc_leg_paused (pl_merge p)\<rparr>
      in if pl_legRows p = None \<and> read_ready (pe_read env) (pe_leg_exists env) now1 now2 rd
         then p\<lparr>pl_legReader := rd, pl_legRows := Some (pe_leg_rows env (rw_startTime rd) (rw_stopTime rd))\<rparr>
         else p)"

definition leg_deliver :: "'j pipeline \<Rightarrow> 'j pipeline" where
  "leg_deliver p =
     (case pl_legRows p of
        Some (row # rows) \<Rightarrow>
          let (rd, queue) = read_leg row (pl_legReader p, mc_queueLeg (pl_merge p))
          in p\<lparr>pl_legReader := rd, pl_legRows := Some rows, pl_merge := (pl_merge p)\<lparr>mc_queueLeg := queue\<rparr>\<rparr>
      | _ \<Rightarrow> p)"

definition leg_advance :: "'j pipeline_env \<Rightarrow> int \<Rightarrow> 'j pipeline \<Rightarrow> 'j pipeline" where
  "leg_advance env now3 p =
     (if pl_legRows p = Some []
      then p\<lparr>pl_legReader := advance_window (pe_read env) (pe_leg_exists env) now3 (pl_legReader p), pl_legRows := None\<rparr>
      else p)"

definition link_query :: "'j pipeline_env \<Rightarrow> int \<Rightarrow> int \<Rightarrow> 'j pipeline \<Rightarrow> 'j pipeline" where
  "link_query env now1 now2 p =
     (let rd = (pl_linkReader p)\<lparr>rw_paused := mc_link_paused (pl_merge p)\<rparr>
      in if pl_linkRows p = None \<and> read_ready (pe_read env) (pe_link_exists env) now1 now2 rd
         then p\<lparr>pl_linkReader := rd, pl_linkRows := Some (pe_link_rows env (rw_startTime rd) (rw_stopTime rd))\<rparr>
         else p)"

definition link_deliver ::
  "'j pipeline_env \<Rightarrow> (string \<Rightarrow> bool) \<Rightarrow> (string \<Rightarrow> bool) \<Rightarrow> 'j pipeline \<Rightarrow> 'j pipeline" where
  "link_deliver env online_orig online_term p =
     (case pl_linkRows p of
        Some (row # rows) \<Rightarrow>
          (case read_link (pe_parse_json env) online_orig online_term row (pl_linkReader p) of
             (None, rd) \<Rightarrow> p\<lparr>pl_linkReader := rd\<rparr>
           | (Some link, rd) \<Rightarrow> p\<lparr>pl_linkReader := rd, pl_linkRows := Some rows,
               pl_merge := (pl_merge p)\<lparr>mc_queueLink := mc_queueLink (pl_merge p) @ [link]\<rparr>\<rparr>)
      | _ \<Rightarrow> p)"

definition link_advance :: "'j pipeline_env \<Rightarrow> int \<Rightarrow> 'j pipeline \<Rightarrow> 'j pipeline" where
  "link_advance env now3 p =
     (if pl_linkRows p = Some []
      then p\<lparr>pl_linkReader := advance_window (pe_read env) (pe_link_exists env) now3 (pl_linkReader p), pl_linkRows := None\<rparr>
      else p)"

text \<open>The consumer's part of \<open>MergeService::run\<close>.\<close>

definition serve :: "'j pipeline_env \<Rightarrow> nat \<Rightarrow> 'j pipeline \<Rightarrow> 'j pipeline" where
  "serve env n p =
     p\<lparr>pl_merge := (pl_merge p)\<lparr>mc_output := drop n (mc_output (pl_merge p))\<rparr>,
       pl_finished := pl_finished p
         @ map (finish_record (pe_sort_legs env) (pe_sort_links env)) (take n (mc_output (pl_merge p)))\<rparr>"

inductive pipeline_step :: "'j pipeline_env \<Rightarrow> 'j pipeline \<Rightarrow> 'j pipeline \<Rightarrow> bool" for env where
  "pipeline_step env p (leg_query env now1 now2 p)"
| "pipeline_step env p (leg_deliver p)"
| "pipeline_step env p (leg_advance env now3 p)"
| "pipeline_step env p (link_query env now1 now2 p)"
| "pipeline_step env p (link_deliver env online_orig online_term p)"
| "pipeline_step env p (link_advance env now3 p)"
| "pipeline_step env p (p\<lparr>pl_merge := merge_pass (pe_merge env) g a0 lt lk (pl_merge p)\<rparr>)"
| "pipeline_step env p (serve env n p)"

inductive pipeline_reachable :: "'j pipeline_env \<Rightarrow> int \<Rightarrow> 'j pipeline \<Rightarrow> bool" for env start where
  start: "pipeline_reachable env start (pipeline_start env start)"
| step: "pipeline_reachable env start p \<Longrightarrow> pipeline_step env p p' \<Longrightarrow> pipeline_reachable env start p'"

inductive_cases pipeline_stepE: "pipeline_step env p p'"

section \<open>What has been taken from the tables\<close>

definition window_taken :: "(int \<times> db_row) list \<Rightarrow> int \<Rightarrow> 'r read_window_scheme \<Rightarrow> db_row list option \<Rightarrow> db_row multiset" where
  "window_taken tbl start rd rows =
     (case rows of
        None \<Rightarrow> stamped tbl start (rw_startTime rd)
      | Some rows \<Rightarrow> stamped tbl start (rw_stopTime rd) - mset rows)"

definition window_inv :: "(int \<times> db_row) list \<Rightarrow> int \<Rightarrow> 'r read_window_scheme \<Rightarrow> db_row list option \<Rightarrow> bool" where
  "window_inv tbl start rd rows \<longleftrightarrow> start \<le> rw_startTime rd \<and> rw_startTime rd \<le> rw_stopTime rd \<and>
     (case rows of None \<Rightarrow> True | Some rows \<Rightarrow> mset rows \<subseteq># stamped tbl start (rw_stopTime rd))"

text \<open>The originating ids of rows of the leg table, the links of rows of the link table.\<close>

definition orig_ids :: "db_row multiset \<Rightarrow> string multiset" where
  "orig_ids rows = image_mset cl_uniqueid (filter_mset cl_orig (image_mset decode_leg rows))"

definition link_items :: "(string \<Rightarrow> 'j) \<Rightarrow> db_row multiset \<Rightarrow> 'j call_leg_link multiset" where
  "link_items parse_json rows = image_mset (decode_link parse_json) rows"

definition pipeline_inv ::
  "'j pipeline_env \<Rightarrow> (int \<times> db_row) list \<Rightarrow> (int \<times> db_row) list \<Rightarrow> int \<Rightarrow> 'j pipeline \<Rightarrow> bool" where
  "pipeline_inv env legs links start p \<longleftrightarrow>
     merge_inv (pl_merge p) \<and>
     window_inv legs start (pl_legReader p) (pl_legRows p) \<and>
     window_inv links start (pl_linkReader p) (pl_linkRows p) \<and>
     orig_ids (window_taken legs start (pl_legReader p) (pl_legRows p))
       = state_origs (pl_merge p) + mset (map cr_orig (pl_finished p)) \<and>
     state_links (pl_merge p) + record_links (pl_finished p)
       \<subseteq># link_items (pe_parse_json env) (window_taken links start (pl_linkReader p) (pl_linkRows p))"

lemma window_query:
  assumes "window_inv tbl start rd None" "mset rows = stamped tbl (rw_startTime rd) (rw_stopTime rd)"
  shows "window_inv tbl start rd (Some rows)" "window_taken tbl start rd (Some rows) = window_taken tbl start rd None"
proof -
  have "stamped tbl start (rw_stopTime rd) = stamped tbl start (rw_startTime rd) + mset rows"
    using assms stamped_split [of start "rw_startTime rd" "rw_stopTime rd" tbl] by (simp add: window_inv_def)
  with assms(1) show "window_inv tbl start rd (Some rows)"
    "window_taken tbl start rd (Some rows) = window_taken tbl start rd None"
    by (simp_all add: window_inv_def window_taken_def)
qed

lemma window_deliver:
  assumes "window_inv tbl start rd (Some (row # rows))"
  shows "window_inv tbl start rd (Some rows)"
    "window_taken tbl start rd (Some rows) = add_mset row (window_taken tbl start rd (Some (row # rows)))"
proof -
  obtain T where "stamped tbl start (rw_stopTime rd) = mset (row # rows) + T"
    using assms by (auto simp: window_inv_def mset_subset_eq_exists_conv)
  with assms show "window_inv tbl start rd (Some rows)"
    "window_taken tbl start rd (Some rows) = add_mset row (window_taken tbl start rd (Some (row # rows)))"
    by (simp_all add: window_inv_def window_taken_def)
qed

lemma stamped_same [simp]: "stamped tbl a a = {#}"
  by (simp add: stamped_def)

text \<open>Only the times of a reader matter to its window.\<close>

lemma window_cong:
  assumes "rw_startTime rd' = rw_startTime rd" "rw_stopTime rd' = rw_stopTime rd"
  shows "window_inv tbl start rd' rows = window_inv tbl start rd rows"
    "window_taken tbl start rd' rows = window_taken tbl start rd rows"
  using assms by (cases rows; simp add: window_inv_def window_taken_def)+

lemma window_advance:
  assumes "window_inv tbl start rd (Some [])" "settings_ok cfg"
  shows "window_inv tbl start (advance_window cfg ex now3 rd) None"
    "window_taken tbl start (advance_window cfg ex now3 rd) None = window_taken tbl start rd (Some [])"
  using assms by (simp_all add: window_inv_def window_taken_def advance_window_fields)

section \<open>The steps\<close>

definition env_ok :: "'j pipeline_env \<Rightarrow> (int \<times> db_row) list \<Rightarrow> (int \<times> db_row) list \<Rightarrow> bool" where
  "env_ok env legs links \<longleftrightarrow> settings_ok (pe_read env) \<and>
     (\<forall>a b. mset (pe_leg_rows env a b) = stamped legs a b) \<and>
     (\<forall>a b. mset (pe_link_rows env a b) = stamped links a b) \<and>
     std_sort legCompareByStartTime (pe_sort_legs env) \<and> std_sort linkCompareByLinkId (pe_sort_links env)"

lemma leg_query_inv:
  assumes "env_ok env legs links" "pipeline_inv env legs links start p"
  shows "pipeline_inv env legs links start (leg_query env now1 now2 p)"
proof -
  let ?rd = "(pl_legReader p)\<lparr>rw_paused := mc_leg_paused (pl_merge p)\<rparr>"
  note same = window_cong [of ?rd "pl_legReader p" legs start]
  show ?thesis
  proof (cases "pl_legRows p = None \<and> read_ready (pe_read env) (pe_leg_exists env) now1 now2 ?rd")
    case True
    with assms(2) have "window_inv legs start ?rd None" by (simp add: pipeline_inv_def same)
    from window_query [OF this, of "pe_leg_rows env (rw_startTime ?rd) (rw_stopTime ?rd)"] assms True show ?thesis
      by (simp add: leg_query_def pipeline_inv_def env_ok_def same)
  next
    case False
    then have "leg_query env now1 now2 p = p" by (auto simp: leg_query_def Let_def)
    with assms(2) show ?thesis by simp
  qed
qed

lemma link_query_inv:
  assumes "env_ok env legs links" "pipeline_inv env legs links start p"
  shows "pipeline_inv env legs links start (link_query env now1 now2 p)"
proof -
  let ?rd = "(pl_linkReader p)\<lparr>rw_paused := mc_link_paused (pl_merge p)\<rparr>"
  note same = window_cong [of ?rd "pl_linkReader p" links start]
  show ?thesis
  proof (cases "pl_linkRows p = None \<and> read_ready (pe_read env) (pe_link_exists env) now1 now2 ?rd")
    case True
    with assms(2) have "window_inv links start ?rd None" by (simp add: pipeline_inv_def same)
    from window_query [OF this, of "pe_link_rows env (rw_startTime ?rd) (rw_stopTime ?rd)"] assms True show ?thesis
      by (simp add: link_query_def pipeline_inv_def env_ok_def same)
  next
    case False
    then have "link_query env now1 now2 p = p" by (auto simp: link_query_def Let_def)
    with assms(2) show ?thesis by simp
  qed
qed

lemma leg_advance_inv:
  assumes "env_ok env legs links" "pipeline_inv env legs links start p"
  shows "pipeline_inv env legs links start (leg_advance env now3 p)"
  using assms window_advance [of legs start "pl_legReader p" "pe_read env" "pe_leg_exists env" now3]
  by (auto simp: leg_advance_def pipeline_inv_def env_ok_def)

lemma link_advance_inv:
  assumes "env_ok env legs links" "pipeline_inv env legs links start p"
  shows "pipeline_inv env legs links start (link_advance env now3 p)"
  using assms window_advance [of links start "pl_linkReader p" "pe_read env" "pe_link_exists env" now3]
  by (auto simp: link_advance_def pipeline_inv_def env_ok_def)

lemma queue_leg_inv: "merge_inv st \<Longrightarrow> merge_inv (st\<lparr>mc_queueLeg := q\<rparr>)"
  by (simp add: merge_inv_def)

lemma queue_link_inv: "merge_inv st \<Longrightarrow> merge_inv (st\<lparr>mc_queueLink := q\<rparr>)"
  by (simp add: merge_inv_def)

lemma leg_deliver_queue:
  "pl_legRows p = Some (row # rows) \<Longrightarrow>
   mc_queueLeg (pl_merge (leg_deliver p)) = mc_queueLeg (pl_merge p) @ [decode_leg row]"
  by (simp add: leg_deliver_def read_leg_def Let_def)

lemma leg_deliver_inv:
  assumes "pipeline_inv env legs links start p"
  shows "pipeline_inv env legs links start (leg_deliver p)"
proof (cases "\<exists>row rows. pl_legRows p = Some (row # rows)")
  case True
  then obtain row rows where rows: "pl_legRows p = Some (row # rows)" by blast
  let ?rd = "(pl_legReader p)\<lparr>lr_readId := sm_set (cl_server_id (decode_leg row)) (int32 (cl_id (decode_leg row)))
      (lr_readId (pl_legReader p))\<rparr>"
  let ?m = "(pl_merge p)\<lparr>mc_queueLeg := mc_queueLeg (pl_merge p) @ [decode_leg row]\<rparr>"
  have eq: "leg_deliver p = p\<lparr>pl_legReader := ?rd, pl_legRows := Some rows, pl_merge := ?m\<rparr>"
    by (simp add: leg_deliver_def rows read_leg_def Let_def)
  note same = window_cong [of ?rd "pl_legReader p" legs start]
  have w: "window_inv legs start (pl_legReader p) (Some (row # rows))" using assms rows by (simp add: pipeline_inv_def)
  have origs: "state_origs ?m = state_origs (pl_merge p) + (if cl_orig (decode_leg row) then {#cl_uniqueid (decode_leg row)#} else {#})"
    by (simp add: state_origs_def)
  have ids: "orig_ids (add_mset row R) = orig_ids R + (if cl_orig (decode_leg row) then {#cl_uniqueid (decode_leg row)#} else {#})" for R
    by (simp add: orig_ids_def)
  have "state_links ?m = state_links (pl_merge p)" by (simp add: state_links_def)
  with assms rows window_deliver [OF w] origs ids queue_leg_inv [of "pl_merge p"] show ?thesis
    unfolding eq by (simp add: pipeline_inv_def same ac_simps)
next
  case False
  then have "leg_deliver p = p" by (auto simp: leg_deliver_def split: option.split list.split)
  with assms show ?thesis by simp
qed

lemma read_link_cases:
  obtains (waits) rd' where "read_link pj oo ot row rd = (None, rd')"
      "rw_startTime rd' = rw_startTime rd" "rw_stopTime rd' = rw_stopTime rd"
    | (reads) rd' where "read_link pj oo ot row rd = (Some (decode_link pj row), rd')"
      "rw_startTime rd' = rw_startTime rd" "rw_stopTime rd' = rw_stopTime rd"
  by (cases "oo (cll_uniqueid_orig (decode_link pj row))"; cases "ot (cll_uniqueid_term (decode_link pj row))")
    (auto simp: read_link_def Let_def)

lemma link_deliver_inv:
  assumes "pipeline_inv env legs links start p"
  shows "pipeline_inv env legs links start (link_deliver env oo ot p)"
proof (cases "\<exists>row rows. pl_linkRows p = Some (row # rows)")
  case True
  then obtain row rows where rows: "pl_linkRows p = Some (row # rows)" by blast
  show ?thesis
  proof (cases rule: read_link_cases [of "pe_parse_json env" oo ot row "pl_linkReader p"])
    case (waits rd')
    have "link_deliver env oo ot p = p\<lparr>pl_linkReader := rd'\<rparr>" by (simp add: link_deliver_def rows waits(1))
    with assms show ?thesis by (simp add: pipeline_inv_def window_cong [OF waits(2,3)])
  next
    case (reads rd')
    let ?link = "decode_link (pe_parse_json env) row"
    let ?m = "(pl_merge p)\<lparr>mc_queueLink := mc_queueLink (pl_merge p) @ [?link]\<rparr>"
    have eq: "link_deliver env oo ot p = p\<lparr>pl_linkReader := rd', pl_linkRows := Some rows, pl_merge := ?m\<rparr>"
      by (simp add: link_deliver_def rows reads(1))
    have w: "window_inv links start (pl_linkReader p) (Some (row # rows))" using assms rows by (simp add: pipeline_inv_def)
    have "state_links ?m = add_mset ?link (state_links (pl_merge p))" "state_origs ?m = state_origs (pl_merge p)"
      by (simp_all add: state_links_def state_origs_def)
    moreover have "link_items (pe_parse_json env) (add_mset row R) = add_mset ?link (link_items (pe_parse_json env) R)" for R
      by (simp add: link_items_def)
    ultimately show ?thesis
      using assms rows window_deliver [OF w] queue_link_inv [of "pl_merge p"]
      unfolding eq by (simp add: pipeline_inv_def window_cong [OF reads(2,3)])
  qed
next
  case False
  then have "link_deliver env oo ot p = p" by (auto simp: link_deliver_def split: option.split list.split)
  with assms show ?thesis by simp
qed

lemma pass_inv:
  assumes "pipeline_inv env legs links start p"
  shows "pipeline_inv env legs links start (p\<lparr>pl_merge := merge_pass (pe_merge env) g a0 lt lk (pl_merge p)\<rparr>)"
proof -
  let ?m = "merge_pass (pe_merge env) g a0 lt lk (pl_merge p)"
  have inv: "merge_inv (pl_merge p)" using assms by (simp add: pipeline_inv_def)
  have "merge_inv ?m" by (rule merge_step_inv [OF merge_step.pass inv])
  moreover have "state_links ?m \<subseteq># state_links (pl_merge p)"
    using merge_pass_links [OF inv, of "pe_merge env" g a0 lt lk] by (metis mset_subset_eq_add_left)
  ultimately show ?thesis
    using assms merge_pass_origs [of "pe_merge env" g a0 lt lk "pl_merge p"]
    by (auto simp: pipeline_inv_def intro: subset_mset.order_trans subset_mset.add_mono)
qed

lemma choose_leg_orig [simp]: "cr_orig (choose_leg leg rc) = cr_orig rc"
  by (simp add: choose_leg_def Let_def split: prod.split)

lemma choose_parties_orig [simp]: "cr_orig (choose_parties rc) = cr_orig rc"
proof -
  have "cr_orig (fold choose_leg ls rc) = cr_orig rc" for ls
    by (induction ls arbitrary: rc) simp_all
  then show ?thesis by (simp add: choose_parties_def)
qed

lemma finish_record_keeps:
  assumes "std_sort linkCompareByLinkId sort_links" "record_ok r"
  shows "cr_orig (finish_record sort_legs sort_links r) = cr_orig r"
    "mset (cr_links (finish_record sort_legs sort_links r)) = mset (cr_links r)"
  using assms choose_parties_result(3) [of r] std_sort.srt_mset [OF assms(1)]
  by (simp_all add: finish_record_def Let_def record_ok_def)

lemma finished_records:
  assumes "std_sort linkCompareByLinkId sort_links" "\<forall>r \<in> set rs. record_ok r"
  shows "map cr_orig (map (finish_record sort_legs sort_links) rs) = map cr_orig rs"
    "record_links (map (finish_record sort_legs sort_links) rs) = record_links rs"
  using assms(2) finish_record_keeps [OF assms(1)] by (induction rs) simp_all

lemma serve_inv:
  assumes "env_ok env legs links" "pipeline_inv env legs links start p"
  shows "pipeline_inv env legs links start (serve env n p)"
proof -
  let ?out = "mc_output (pl_merge p)"
  let ?m = "(pl_merge p)\<lparr>mc_output := drop n ?out\<rparr>"
  have inv: "merge_inv (pl_merge p)" using assms(2) by (simp add: pipeline_inv_def)
  then have out_ok: "\<forall>r \<in> set (take n ?out). record_ok r" by (auto simp: merge_inv_def dest: in_set_takeD)
  have "std_sort linkCompareByLinkId (pe_sort_links env)" using assms(1) by (simp add: env_ok_def)
  note fin = finished_records [OF this out_ok, of "pe_sort_legs env"]
  have "merge_inv ?m" by (rule merge_step_inv [OF merge_step.consumed inv])
  moreover have "state_origs ?m + mset (map cr_orig (take n ?out)) = state_origs (pl_merge p)"
  proof -
    have "mset (map cr_orig ?out) = mset (map cr_orig (take n ?out)) + mset (map cr_orig (drop n ?out))"
      by (metis append_take_drop_id map_append mset_append)
    then show ?thesis by (simp add: state_origs_def)
  qed
  moreover have "state_links ?m + record_links (take n ?out) = state_links (pl_merge p)"
  proof -
    have "record_links ?out = record_links (take n ?out) + record_links (drop n ?out)"
      by (metis append_take_drop_id record_links_simps(3))
    then show ?thesis by (simp add: state_links_def)
  qed
  moreover obtain fins where fins: "serve env n p = p\<lparr>pl_merge := ?m, pl_finished := pl_finished p @ fins\<rparr>"
    "map cr_orig fins = map cr_orig (take n ?out)" "record_links fins = record_links (take n ?out)"
    using fin that by (simp add: serve_def)
  ultimately show ?thesis
    using assms(2) unfolding fins(1)
    by (simp add: pipeline_inv_def fins(2,3) ac_simps del: mset_map)
qed

lemma pipeline_start_inv:
  assumes "env_ok env legs links"
  shows "pipeline_inv env legs links start (pipeline_start env start)"
proof -
  have "merge_inv (setStart start (merge_init 0 :: 'a merge_container))"
    using merge_init_inv [of 0] by (simp add: merge_inv_def setStart_def)
  moreover have "state_origs (setStart start (merge_init 0 :: 'a merge_container)) = {#}"
    "state_links (setStart start (merge_init 0 :: 'a merge_container)) = {#}"
    by (simp_all add: state_origs_def state_links_def setStart_def merge_init_def bucket_items_def)
  ultimately show ?thesis
    using assms
    by (simp add: pipeline_start_def container_setStart_def Let_def pipeline_inv_def window_inv_def window_taken_def
        reader_setStart_def env_ok_def settings_ok_def orig_ids_def setStart_def)
qed

lemma pipeline_reachable_inv:
  assumes "env_ok env legs links" "pipeline_reachable env start p"
  shows "pipeline_inv env legs links start p"
  using assms(2)
proof (induction rule: pipeline_reachable.induct)
  case start
  show ?case by (rule pipeline_start_inv [OF assms(1)])
next
  case (step p p')
  from step(2) step.IH show ?case
    by cases (auto intro: leg_query_inv leg_deliver_inv leg_advance_inv link_query_inv link_deliver_inv link_advance_inv
        pass_inv serve_inv assms(1))
qed

section \<open>Properties\<close>


definition ex_leg_row :: db_row where
  "ex_leg_row c = (if c = ''orig'' then ''t'' else if c = ''uniqueid'' then ''a'' else [])"

definition ex_pipeline_env :: "unit pipeline_env" where
  "ex_pipeline_env =
     \<lparr>pe_read = \<lparr>rs_read_threshold_second = 60, rs_read_waiting_second = 5, rs_max_call_time = 3600\<rparr>,
      pe_merge = \<lparr>ms_max_call_time = 3600, ms_max_queue_size = 10\<rparr>,
      pe_leg_exists = (\<lambda>_ _. True), pe_link_exists = (\<lambda>_ _. True),
      pe_leg_rows = (\<lambda>a b. if a < 130 \<and> 130 \<le> b then [ex_leg_row] else []), pe_link_rows = (\<lambda>_ _. []),
      pe_parse_json = (\<lambda>_. ()), pe_sort_legs = sort_key cl_start_time, pe_sort_links = sort_key cll_id\<rparr>"

lemma ex_pipeline_fields:
  "rs_read_threshold_second (pe_read ex_pipeline_env) = 60" "rs_read_waiting_second (pe_read ex_pipeline_env) = 5"
  "pe_leg_exists ex_pipeline_env a b" "pe_leg_rows ex_pipeline_env 100 160 = [ex_leg_row]"
  by (simp_all add: ex_pipeline_env_def)


end
