(* ===== verification/Report_Rows.thy ===== *)
theory Report_Rows
  imports Merge_Service
begin

text \<open>
  The rows of the reports of \<open>src/service/format\<close> as the database reads them: the headers with their
  columns, a reader for the value lists of SQL, and the proof that the row of a report has one
  value of the right kind for each column of its header.
\<close>

section \<open>Headers\<close>

definition voip_columns :: "string list" where
  "voip_columns =
     [''telco_id'', ''begin_connection_time'', ''end_connection_time'', ''client_info'', ''server_info'', ''point_id'',
      ''voip_session_id'', ''voip_conference_id'', ''voip_duration'', ''voip_originator_name'', ''voip_call_type_id'',
      ''calling_original_number'', ''calling_translated_number'', ''calling_e164_number'', ''called_original_number'',
      ''called_translated_number'', ''called_e164_number'', ''voip_in_bytes_count'', ''voip_out_bytes_count'',
      ''voip_fax'', ''voip_term_cause'', ''inbound_trunk'', ''outbound_trunk'', ''voip_gateways'', ''voip_protocol'',
      ''supplement_service_id'', ''voip_abonent_id'', ''voip_nat_info'', ''voip_location'', ''voip_event'',
      ''voip_data_content_id'', ''vpbx_id'', ''server_id'', ''account_id'', ''account_id_2'', ''orig_uniqueid'',
      ''raw_data'']"

definition voip_header :: string where
  "voip_header = ''INSERT INTO datavoiprecord ('' @ join_strings '', '' voip_columns @ '') values ''"

definition legs_columns :: "string list" where
  "legs_columns =
     [''start_time'', ''stop_time'', ''uniqueid'', ''object_type'', ''object_type_l'', ''sip_ip'', ''sip_ip_l'',
      ''status'', ''call_id_md5'', ''call_id_md5_l'', ''to_jsonb'']"

definition legs_header :: string where
  "legs_header = ''INSERT INTO legs_aggr_raw ('' @ join_strings '', '' legs_columns @ '') values ''"

section \<open>How SQL reads a row\<close>

text \<open>
  A value is a text in quotes, in which a doubled quote stands for one, or a word. The reader is
  an automaton over the characters; blanks are skipped before a value only.
\<close>

datatype sql_value = Sql_word string | Sql_text string

datatype row_mode = Row_start | Value_start | In_word string | In_text string | After_quote string | Row_end | Row_bad

fun row_char :: "char \<Rightarrow> sql_value list \<times> row_mode \<Rightarrow> sql_value list \<times> row_mode" where
  "row_char c (vs, Row_start) = (vs, if c = CHR ''('' then Value_start else Row_bad)"
| "row_char c (vs, Value_start) =
     (vs, if c = CHR '' '' then Value_start else if c = CHR 39 then In_text []
          else if c = CHR '','' \<or> c = CHR '')'' then Row_bad else In_word [c])"
| "row_char c (vs, In_word w) =
     (if c = CHR '','' then (vs @ [Sql_word w], Value_start)
      else if c = CHR '')'' then (vs @ [Sql_word w], Row_end)
      else (vs, if c = CHR 39 then Row_bad else In_word (w @ [c])))"
| "row_char c (vs, In_text w) = (vs, if c = CHR 39 then After_quote w else In_text (w @ [c]))"
| "row_char c (vs, After_quote w) =
     (if c = CHR '','' then (vs @ [Sql_text w], Value_start)
      else if c = CHR '')'' then (vs @ [Sql_text w], Row_end)
      else (vs, if c = CHR 39 then In_text (w @ [c]) else Row_bad))"
| "row_char c (vs, Row_end) = (vs, Row_bad)"
| "row_char c (vs, Row_bad) = (vs, Row_bad)"

definition read_row :: "string \<Rightarrow> sql_value list option" where
  "read_row s = (case fold row_char s ([], Row_start) of (vs, Row_end) \<Rightarrow> Some vs | _ \<Rightarrow> None)"

text \<open>A value as the reports write it, and the values for which that can be read back.\<close>

fun render :: "sql_value \<Rightarrow> string" where
  "render (Sql_word w) = w"
| "render (Sql_text w) = quoted w"

definition no_quote :: "string \<Rightarrow> bool" where
  "no_quote s \<longleftrightarrow> CHR 39 \<notin> set s"

fun plain :: "sql_value \<Rightarrow> bool" where
  "plain (Sql_word w) \<longleftrightarrow> w \<noteq> [] \<and> set w \<inter> {CHR '' '', CHR 39, CHR '','', CHR '')''} = {}"
| "plain (Sql_text w) \<longleftrightarrow> no_quote w"

section \<open>Lemmas\<close>

lemma no_quote_simps [simp]: "no_quote []" "no_quote (c # s) \<longleftrightarrow> c \<noteq> CHR 39 \<and> no_quote s"
  by (auto simp: no_quote_def)

lemma fold_in_text: "no_quote s \<Longrightarrow> fold row_char s (vs, In_text w) = (vs, In_text (w @ s))"
  by (induction s arbitrary: w) (auto simp: no_quote_def)

lemma fold_in_word:
  "set s \<inter> {CHR '' '', CHR 39, CHR '','', CHR '')''} = {} \<Longrightarrow> fold row_char s (vs, In_word w) = (vs, In_word (w @ s))"
  by (induction s arbitrary: w) auto

text \<open>A value and the comma or the parenthesis behind it.\<close>

lemma fold_value:
  assumes "plain v"
  shows "fold row_char (render v @ CHR '','' # rest) (vs, Value_start) = fold row_char rest (vs @ [v], Value_start)"
    "fold row_char (render v @ CHR '')'' # rest) (vs, Value_start) = fold row_char rest (vs @ [v], Row_end)"
proof -
  have "\<exists>m. fold row_char (render v) (vs, Value_start) = (vs, m) \<and>
      (m = After_quote w \<and> v = Sql_text w \<or> m = In_word w \<and> v = Sql_word w)"
    if "v = Sql_text w \<or> v = Sql_word w" for w
  proof (cases v)
    case (Sql_word u)
    with assms obtain c cs where "u = c # cs" by (cases u) auto
    with assms Sql_word that fold_in_word [of cs vs "[c]"] show ?thesis by auto
  next
    case (Sql_text u)
    with assms that fold_in_text [of u vs "[]"] show ?thesis by (auto simp: quoted_def)
  qed
  then obtain w m where "fold row_char (render v) (vs, Value_start) = (vs, m)"
    "m = After_quote w \<and> v = Sql_text w \<or> m = In_word w \<and> v = Sql_word w"
    by (cases v) blast+
  then show "fold row_char (render v @ CHR '','' # rest) (vs, Value_start) = fold row_char rest (vs @ [v], Value_start)"
    "fold row_char (render v @ CHR '')'' # rest) (vs, Value_start) = fold row_char rest (vs @ [v], Row_end)"
    by auto
qed

lemma fold_values:
  assumes "list_all plain us" "us \<noteq> []"
  shows "fold row_char (join_strings '', '' (map render us) @ '')'') (vs, Value_start) = (vs @ us, Row_end)"
  using assms
proof (induction us arbitrary: vs)
  case (Cons u us)
  show ?case
  proof (cases us)
    case Nil
    with Cons.prems fold_value(2) [of u "[]" vs] show ?thesis by simp
  next
    case (Cons u2 us2)
    with Cons.prems Cons.IH [of "vs @ [u]"]
      fold_value(1) [of u "CHR '' '' # join_strings '', '' (map render us) @ '')''" vs]
    show ?thesis by simp
  qed
qed simp

lemma read_row_renders:
  assumes "list_all plain us" "us \<noteq> []"
  shows "read_row (''('' @ join_strings '', '' (map render us) @ '')'') = Some us"
  using fold_values [OF assms, of "[]"] by (simp add: read_row_def)

declare plain.simps(1) [simp del]

lemma fold_values_first:
  "list_all plain us \<Longrightarrow> fold row_char (concat (map (\<lambda>v. render v @ '', '') us) @ rest) (vs, Value_start)
     = fold row_char rest (vs @ us, Value_start)"
proof (induction us arbitrary: vs)
  case (Cons u us)
  with fold_value(1) [of u "CHR '' '' # concat (map (\<lambda>v. render v @ '', '') us) @ rest" vs] show ?case by simp
qed simp

lemma join_strings_snoc:
  "join_strings sep (map f us @ [x]) = concat (map (\<lambda>v. f v @ sep) us) @ x"
proof (induction us)
  case (Cons u us)
  then show ?case by (cases us) simp_all
qed simp

lemma fold_row_bad [simp]: "fold row_char s (vs, Row_bad) = (vs, Row_bad)"
  by (induction s) simp_all

lemma plain_flag [simp]: "plain (Sql_word ''true'')" "plain (Sql_word ''false'')"
  by (simp_all add: plain.simps)

lemma control_chars [simp]: "(char_of (0 :: nat) :: char) \<noteq> CHR 39" "(char_of (Suc 0) :: char) \<noteq> CHR 39"
  by (simp_all add: char_of_def)

lemma plain_show_int [simp]: "plain (Sql_word (show_int i))"
proof -
  have "\<not> is_digit (CHR '' '')" "\<not> is_digit (CHR 39)" "\<not> is_digit (CHR '','')" "\<not> is_digit (CHR '')'')"
    by (simp_all add: is_digit_def digit_val_def)
  then have digits: "set (show_nat n) \<inter> {CHR '' '', CHR 39, CHR '','', CHR '')''} = {}" for n
    using show_nat_digits [of _ n] by blast
  then show ?thesis by (auto simp: show_int_def plain.simps)
qed

lemma escape_string_no_quote [simp]: "no_quote (escape_string s)"
  by (simp add: no_quote_def escape_string_def)

lemma no_quote_append [simp]: "no_quote (s @ t) \<longleftrightarrow> no_quote s \<and> no_quote t"
  by (simp add: no_quote_def)

lemma show_int_no_quote [simp]: "no_quote (show_int i)"
  using plain_show_int [of i] by (simp add: no_quote_def plain.simps)

lemma leg_number_no_quote [simp]: "no_quote (leg_number l)"
  by (simp add: leg_number_def)

lemma called_no_quote: "no_quote (fst s) \<Longrightarrow> no_quote (fst (fold called_step ls s))"
proof (induction ls arbitrary: s)
  case (Cons l ls)
  have comma: "no_quote ('', '' @ leg_number l)" using leg_number_no_quote [of l] by simp
  have "no_quote (fst (called_step l s))"
    using Cons.prems comma by (cases s) (simp add: called_step_def)
  with Cons.IH show ?case by simp
qed simp

lemma event_no_quote: "no_quote (fst (voip_event rc))"
proof -
  have "no_quote (fst s) \<Longrightarrow> no_quote (fst (fold voip_event_step ls s))" for ls and s :: "string \<times> 'a call_record"
  proof (induction ls arbitrary: s)
    case (Cons l ls)
    have "no_quote (fst (voip_event_step l s))"
      using Cons.prems by (cases s) (simp add: voip_event_step_def Let_def split: prod.split)
    with Cons.IH show ?case by simp
  qed simp
  note steps = this
  define start where "start = (if cl_object_type (cr_a rc) = ''pstn'' then ''incoming'' else [])"
  obtain event r where event: "fold voip_event_step (cr_links rc) (start, rc) = (event, r)" by (meson surj_pair)
  have "no_quote start" by (simp add: start_def)
  with steps [of "(start, rc)" "cr_links rc"] event have "no_quote event" by simp
  with event show ?thesis by (simp add: voip_event_def Let_def flip: start_def)
qed

section \<open>The values of the reports\<close>

definition voip_values :: "data_voip_record \<Rightarrow> sql_value list" where
  "voip_values r =
     [Sql_word (show_int (dvr_telco_id r)),
      Sql_text (dvr_begin_connection_time r),
      Sql_text (dvr_end_connection_time r),
      Sql_text (dvr_client_info r),
      Sql_text (dvr_server_info r),
      Sql_word (show_int (dvr_point_id r)),
      Sql_text (dvr_voip_session_id r),
      Sql_text (dvr_voip_conference_id r),
      Sql_word (show_int (dvr_voip_duration r)),
      Sql_text (dvr_voip_originator_name r),
      Sql_word (show_int (dvr_voip_call_type_id r)),
      Sql_text (dvr_calling_original_number r),
      Sql_text (dvr_calling_translated_number r),
      Sql_text (dvr_calling_e164_number r),
      Sql_text (dvr_called_original_number r),
      Sql_text (dvr_called_translated_number r),
      Sql_text (dvr_called_e164_number r),
      Sql_word (show_int (dvr_voip_in_bytes_count r)),
      Sql_word (show_int (dvr_voip_out_bytes_count r)),
      Sql_word (if dvr_voip_fax r then ''true'' else ''false''),
      Sql_text (dvr_voip_term_cause r),
      Sql_text (dvr_inbound_trunk r),
      Sql_text (dvr_outbound_trunk r),
      Sql_text (dvr_voip_gateways r),
      Sql_text (dvr_voip_protocol r),
      Sql_word (show_int (dvr_supplement_service_id r)),
      Sql_text (dvr_voip_abonent_id r),
      Sql_text (dvr_voip_nat_info r),
      Sql_text (dvr_voip_location r),
      Sql_text (dvr_voip_event r),
      Sql_text (dvr_voip_data_content_id r),
      Sql_word (show_int (dvr_vpbx_id r)),
      Sql_word (show_int (dvr_server_id r)),
      Sql_word (show_int (dvr_account_id r)),
      Sql_word (show_int (dvr_account_id_2 r)),
      Sql_text (dvr_orig_uniqueid r),
      Sql_text (dvr_raw_data r)]"

lemma voip_dump_renders: "data_voip_record_dump r = ''('' @ join_strings '', '' (map render (voip_values r)) @ '')''"
  by (simp add: data_voip_record_dump_def voip_values_def)

definition legs_values :: "('j \<Rightarrow> string) \<Rightarrow> 'j legs_aggr_raw \<Rightarrow> sql_value list" where
  "legs_values styled r =
     [Sql_text (lar_start_time r),
      Sql_text (lar_stop_time r),
      Sql_text (lar_uniqueid r),
      Sql_text (lar_object_type r),
      Sql_text (lar_object_type_l r),
      Sql_text (lar_sip_ip r),
      Sql_text (lar_sip_ip_l r),
      Sql_text (lar_status r),
      Sql_text (lar_call_id_md5 r),
      Sql_text (lar_call_id_md5_l r),
      Sql_text (styled (lar_to_jsonb r))]"

lemma legs_dump_renders: "legs_aggr_raw_dump styled r = ''('' @ join_strings '', '' (map render (legs_values styled r)) @ '')''"
  by (simp add: legs_aggr_raw_dump_def legs_values_def)

text \<open>The columns of \<open>datavoiprecord\<close> that hold numbers or flags; all the others hold texts.\<close>

definition word_columns :: "string list" where
  "word_columns =
     [''telco_id'', ''point_id'', ''voip_duration'', ''voip_call_type_id'', ''voip_in_bytes_count'',
      ''voip_out_bytes_count'', ''voip_fax'', ''supplement_service_id'', ''vpbx_id'', ''server_id'', ''account_id'',
      ''account_id_2'']"

fun value_fits :: "string \<Rightarrow> sql_value \<Rightarrow> bool" where
  "value_fits column (Sql_word w) \<longleftrightarrow> column \<in> set word_columns"
| "value_fits column (Sql_text w) \<longleftrightarrow> column \<notin> set word_columns"

lemma voip_values_fit: "list_all2 value_fits voip_columns (voip_values r)"
  by (simp add: voip_columns_def voip_values_def word_columns_def)

section \<open>Properties\<close>



text \<open>
  The rows of the raw report. Its texts are written as they came from the database. The row
  of a record whose texts hold no quote has one text per column; but a single quote in any of them,
  in the caller's name inside the JSON value for one, ends the value early: the row can then not be
  read, or it has a wrong number of values.
\<close>

theorem legs_row_and_quotes:
  assumes "\<forall>v \<in> set (butlast (legs_values styled r)). plain v"
  shows "(no_quote (styled (lar_to_jsonb r)) \<longrightarrow>
      read_row (legs_aggr_raw_dump styled r) = Some (legs_values styled r) \<and>
      length (legs_values styled r) = length legs_columns) \<and>
    (\<forall>before c after. styled (lar_to_jsonb r) = before @ CHR 39 # c # after \<and> no_quote before \<and>
      c \<notin> {CHR 39, CHR '','', CHR '')''} \<longrightarrow> read_row (legs_aggr_raw_dump styled r) = None)"
proof (intro conjI impI allI)
  have split: "legs_values styled r = butlast (legs_values styled r) @ [Sql_text (styled (lar_to_jsonb r))]"
    "legs_values styled r \<noteq> []" by (simp_all add: legs_values_def)
  have first: "list_all plain (butlast (legs_values styled r))" using assms by (simp add: list_all_iff)
  show "length (legs_values styled r) = length legs_columns" by (simp add: legs_values_def legs_columns_def)
  show "read_row (legs_aggr_raw_dump styled r) = Some (legs_values styled r)" if "no_quote (styled (lar_to_jsonb r))"
  proof -
    have "list_all plain (butlast (legs_values styled r) @ [Sql_text (styled (lar_to_jsonb r))])" using first that by simp
    then have "list_all plain (legs_values styled r)" by (subst split(1))
    then show ?thesis unfolding legs_dump_renders using split(2) by (rule read_row_renders)
  qed
  fix before c after
  assume *: "styled (lar_to_jsonb r) = before @ CHR 39 # c # after \<and> no_quote before \<and> c \<notin> {CHR 39, CHR '','', CHR '')''}"
  have "join_strings '', '' (map render (legs_values styled r))
      = concat (map (\<lambda>v. render v @ '', '') (butlast (legs_values styled r))) @ quoted (styled (lar_to_jsonb r))"
    by (subst split(1)) (simp add: join_strings_snoc del: map_butlast)
  then have "fold row_char (legs_aggr_raw_dump styled r) ([], Row_start)
      = fold row_char (quoted (styled (lar_to_jsonb r)) @ '')'') (butlast (legs_values styled r), Value_start)"
    using fold_values_first [OF first] by (simp add: legs_dump_renders)
  also have "\<dots> = (butlast (legs_values styled r), Row_bad)"
    using * by (simp add: quoted_def fold_in_text fold_row_bad)
  finally show "read_row (legs_aggr_raw_dump styled r) = None" by (simp add: read_row_def)
qed

definition ex_legs_row :: "string legs_aggr_raw" where
  "ex_legs_row =
     \<lparr>lar_start_time = ''2021-01-01 00:00:00'', lar_stop_time = ''2021-01-01 00:01:00'', lar_uniqueid = ''1'',
      lar_object_type = ''pstn'', lar_object_type_l = ''sip'', lar_sip_ip = [], lar_sip_ip_l = [],
      lar_status = ''ANSWERED'', lar_call_id_md5 = [], lar_call_id_md5_l = [],
      lar_to_jsonb = ''O'' @ CHR 39 # ''Brien''\<rparr>"

theorem legs_row_and_quotes_witness:
  "read_row (legs_aggr_raw_dump (\<lambda>s. s) ex_legs_row) = None \<and>
   read_row (legs_aggr_raw_dump (\<lambda>s. ''x'') ex_legs_row) = Some (legs_values (\<lambda>s. ''x'') ex_legs_row)"
proof
  have plain: "\<forall>v \<in> set (butlast (legs_values styled ex_legs_row)). plain v" for styled
    by (simp add: legs_values_def ex_legs_row_def)
  have "lar_to_jsonb ex_legs_row = ''O'' @ CHR 39 # CHR ''B'' # ''rien'' \<and> no_quote ''O'' \<and> CHR ''B'' \<notin> {CHR 39, CHR '','', CHR '')''}"
    by (simp add: ex_legs_row_def)
  with legs_row_and_quotes [OF plain, of "\<lambda>s. s"] show "read_row (legs_aggr_raw_dump (\<lambda>s. s) ex_legs_row) = None" by blast
  show "read_row (legs_aggr_raw_dump (\<lambda>s. ''x'') ex_legs_row) = Some (legs_values (\<lambda>s. ''x'') ex_legs_row)"
    using legs_row_and_quotes [OF plain, of "\<lambda>s. ''x''"] by simp
qed

end
