(* ===== verification/Application.thy ===== *)
theory Application
  imports Pages Merge_Service
begin

text \<open>
  \<open>src/daemon/application.cpp\<close>, \<open>src/daemon/daemon.cpp\<close>, \<open>src/main.cpp\<close> and the start and stop
  of \<open>src/log/log_instance.cpp\<close>: the life of the process. The log thread, the merge thread and the
  handlers of the io context interleave in any order; each handler, and each round of the two
  threads, is one step. Clock readings, the result of binding the port, the split of the log path and
  the contents of fresh ring buffers are parameters.
\<close>

section \<open>Actions that may throw\<close>

text \<open>
  \<open>Raises (Some m)\<close> is a \<open>std::exception\<close>, \<open>Raises None\<close> any other one; \<open>Undefined_act\<close> is a failed
  \<open>assert\<close> or the use of a null pointer, \<open>Blocked\<close> an action that never returns.
\<close>

datatype act_result = Done | Raises "string option" | Undefined_act | Blocked

type_synonym 'p act = "'p \<Rightarrow> act_result \<times> 'p"

fun run_acts :: "'p act list \<Rightarrow> 'p act" where
  "run_acts [] p = (Done, p)"
| "run_acts (a # acts) p = (case a p of (Done, p) \<Rightarrow> run_acts acts p | r \<Rightarrow> r)"

definition pure_act :: "('p \<Rightarrow> 'p) \<Rightarrow> 'p act" where
  "pure_act f p = (Done, f p)"

section \<open>The log thread\<close>

text \<open>Where the thread is in \<open>log_instance::loop\<close>.\<close>

datatype log_pc = Log_testing | Log_waiting | Log_exited

definition log_thread_step ::
  "int \<Rightarrow> 'j \<Rightarrow> bool \<Rightarrow> log_pc \<times> 'j log_instance \<Rightarrow> log_pc \<times> 'j log_instance" where
  "log_thread_step now null_json running = (\<lambda>(pc, li).
     case pc of
       Log_testing \<Rightarrow> (if running then Log_waiting else Log_exited, li)
     | Log_waiting \<Rightarrow> if li_queue li = [] then (Log_waiting, li)
                      else (Log_testing, log_round now ''log_handler'' null_json li)
     | Log_exited \<Rightarrow> (Log_exited, li))"

text \<open>
  \<open>~log_instance\<close>: an empty pointer is queued and the thread joined. Two steps decide whether
  the join returns (lemma \<open>log_join_decides\<close>); \<open>None\<close> when it does not.
\<close>

definition log_join ::
  "int \<Rightarrow> 'j \<Rightarrow> bool \<Rightarrow> log_pc \<times> 'j log_instance \<Rightarrow> 'j log_instance option" where
  "log_join now null_json running = (\<lambda>(pc, li).
     case (log_thread_step now null_json running ^^ 2) (pc, flush_logs li) of
       (Log_exited, li) \<Rightarrow> Some li
     | _ \<Rightarrow> None)"

section \<open>The process\<close>

text \<open>Where the merge thread is in \<open>MergeService::run\<close>, with the records it has taken from the queue.\<close>

datatype 'j merge_pc =
    Merge_starting | Merge_testing | Merge_dequeuing | Merge_holding "'j call_record list" | Merge_over

record ('j, 'c) process =
  pr_running :: bool
  pr_log :: "(log_pc \<times> 'j log_instance) option"
  pr_files :: "string \<Rightarrow> string"
  pr_instance :: "'c application option"
  pr_signals :: bool
  pr_servers :: "listener list"
  pr_io_threads :: nat
  pr_io_stopped :: bool
  pr_merge :: "'j merge_pc option"
  pr_init_timers :: "int list"
  pr_health :: health_values
  pr_applied :: "life_span_event list"

record ('j, 'c) app_env =
  ae_settings :: settings
  ae_now :: int
  ae_level :: log_message_level
  ae_null_json :: 'j
  ae_branch_path :: "string \<Rightarrow> string"
  ae_stem :: "string \<Rightarrow> string"
  ae_bind_error :: "string option"
  ae_connect :: "string \<Rightarrow> 'c"
  ae_errors_buf :: "error_info list"
  ae_times_buf :: "int list"
  ae_messages_buf :: "'j log_message list"

definition process_new :: "(string \<Rightarrow> string) \<Rightarrow> ('j, 'c) process" where
  "process_new files =
     \<lparr>pr_running = True, pr_log = None, pr_files = files, pr_instance = None, pr_signals = False,
      pr_servers = [], pr_io_threads = 0, pr_io_stopped = False, pr_merge = None, pr_init_timers = [],
      pr_health = [], pr_applied = []\<rparr>"

section \<open>Logging from the process\<close>

text \<open>
  The handlers of the io context are taken to run on the main thread; the merge thread has no name.
  \<open>instance()\<close> of the log dereferences a null pointer before \<open>start_log\<close> and
  after \<open>stop_log\<close>.
\<close>

definition log_call ::
  "('j, 'c) app_env \<Rightarrow> string \<Rightarrow> log_message_level \<Rightarrow> 'j log_argument list \<Rightarrow> ('j, 'c) process act" where
  "log_call env thread level args p =
     (case log_impl (ae_level env) (ae_now env) (ae_null_json env) level args of
        None \<Rightarrow> (Done, p)
      | Some mes \<Rightarrow>
          (case pr_log p of
             None \<Rightarrow> (Undefined_act, p)
           | Some (pc, li) \<Rightarrow> (Done, p\<lparr>pr_log := Some (pc, log_send thread mes li)\<rparr>)))"

definition start_log :: "('j, 'c) app_env \<Rightarrow> ('j, 'c) process act" where
  "start_log env p =
     (case pr_log p of
        Some _ \<Rightarrow> (Undefined_act, p)
      | None \<Rightarrow>
          let path = st_path_to_log_file (ae_settings env)
          in (Done, p\<lparr>pr_log := Some (Log_testing,
                log_start (ae_messages_buf env) path (ae_branch_path env path) (ae_stem env path) (pr_files p))\<rparr>))"

definition stop_log :: "('j, 'c) app_env \<Rightarrow> ('j, 'c) process act" where
  "stop_log env p =
     (case pr_log p of
        None \<Rightarrow> (Done, p)
      | Some th \<Rightarrow>
          (case log_join (ae_now env) (ae_null_json env) (pr_running p) th of
             None \<Rightarrow> (Blocked, p)
           | Some li \<Rightarrow> (Done, p\<lparr>pr_log := None, pr_files := li_files li\<rparr>)))"

definition on_log_queue :: "('j log_instance \<Rightarrow> 'j log_instance) \<Rightarrow> ('j, 'c) process act" where
  "on_log_queue f p =
     (case pr_log p of
        None \<Rightarrow> (Undefined_act, p)
      | Some (pc, li) \<Rightarrow> (Done, p\<lparr>pr_log := Some (pc, f li)\<rparr>))"

section \<open>Life span events and the first loading of data\<close>

definition on_instance :: "('c application \<Rightarrow> 'c application) \<Rightarrow> ('j, 'c) process \<Rightarrow> ('j, 'c) process" where
  "on_instance f p = p\<lparr>pr_instance := map_option f (pr_instance p)\<rparr>"

text \<open>
  The one routine that is registered, \<open>"start sync"\<close> of \<open>PullManager.cpp\<close>. \<open>INIT_DB\<close> is applied by
  a handler of the io context, so the application is there.
\<close>

definition default_events :: "('j, 'c) app_env \<Rightarrow> ('j, 'c) process life_span_storage" where
  "default_events env =
     add_event INIT_DB 0
       \<lparr>lf_name = ''start sync'',
        lf_run = (\<lambda>p. (None, on_instance (start_puller_task (ae_errors_buf env) (ae_times_buf env) (ae_settings env)) p))\<rparr>
       (\<lambda>_. [])"

definition register_life_span_error :: "('j, 'c) app_env \<Rightarrow> string \<times> string \<Rightarrow> ('j, 'c) process act" where
  "register_life_span_error env = (\<lambda>(name, message). run_acts
     [pure_act (\<lambda>p. p\<lparr>pr_health := health_error (ae_now env) name message (pr_health p)\<rparr>),
      log_call env ''main'' ERROR [Print message]])"

definition apply_life_span_events :: "('j, 'c) app_env \<Rightarrow> life_span_event \<Rightarrow> ('j, 'c) process act" where
  "apply_life_span_events env event p =
     (let (p, errs) = apply_event event (default_events env) (p\<lparr>pr_applied := pr_applied p @ [event]\<rparr>)
      in run_acts (map (register_life_span_error env) errs) p)"

text \<open>A task posted or a timer armed on the io context, with its delay.\<close>

definition start_init_data :: "int \<Rightarrow> ('j, 'c) process \<Rightarrow> ('j, 'c) process" where
  "start_init_data timeout p = p\<lparr>pr_init_timers := pr_init_timers p @ [timeout]\<rparr>"

text \<open>The task of \<open>start_init_data\<close>; \<open>failed\<close> is how \<open>repo::init_data\<close> ends.\<close>

definition init_task :: "('j, 'c) app_env \<Rightarrow> string option option \<Rightarrow> ('j, 'c) process act" where
  "init_task env failed =
     (case failed of
        None \<Rightarrow> apply_life_span_events env INIT_DB
      | Some (Some what) \<Rightarrow> run_acts
          [log_call env ''main'' ERROR [Print ''Unable to init data. Exception: '', Print what],
           pure_act (start_init_data 250)]
      | Some None \<Rightarrow> run_acts
          [log_call env ''main'' ERROR [Print ''Unknown exception during init_data''],
           pure_act (start_init_data 250)])"

section \<open>The routines of the cyclic tasks\<close>

text \<open>A pool of the application after its cleaner.\<close>

definition clean_pool ::
  "int \<Rightarrow> ('c application \<Rightarrow> 'c db_pool) \<Rightarrow> ('c db_pool \<Rightarrow> 'c application \<Rightarrow> 'c application) \<Rightarrow> ('j, 'c) process act" where
  "clean_pool now get put p =
     (case pr_instance p of
        None \<Rightarrow> (Undefined_act, p)
      | Some ap \<Rightarrow>
          (case pool_delete_older_then now 20 (get ap) of
             Ok pool \<Rightarrow> (Done, p\<lparr>pr_instance := Some (put pool ap)\<rparr>)
           | _ \<Rightarrow> (Undefined_act, p)))"

definition clean_online_pool :: "int \<Rightarrow> int \<Rightarrow> ('j, 'c) process act" where
  "clean_online_pool now key =
     clean_pool now (\<lambda>ap. the (map_of (ap_online_db_pool_list ap) key))
       (\<lambda>pool ap. ap\<lparr>ap_online_db_pool_list := sm_set key pool (ap_online_db_pool_list ap)\<rparr>)"

definition online_keys :: "('j, 'c) process \<Rightarrow> int list" where
  "online_keys p = (case pr_instance p of None \<Rightarrow> [] | Some ap \<Rightarrow> map fst (ap_online_db_pool_list ap))"

text \<open>The loader and the puller return without an effect: what they would do is commented out.\<close>

definition cyclic_routine :: "('j, 'c) app_env \<Rightarrow> string \<Rightarrow> ('j, 'c) process act" where
  "cyclic_routine env name p =
     (if name = ''source_db_pool_cleaner''
      then clean_pool (ae_now env) ap_source_db_pool (\<lambda>pool ap. ap\<lparr>ap_source_db_pool := pool\<rparr>) p
      else if name = ''online_db_pool_cleaner''
      then run_acts (map (clean_online_pool (ae_now env)) (online_keys p)) p
      else if name = ''output_db_pool_cleaner''
      then clean_pool (ae_now env) ap_output_db_pool (\<lambda>pool ap. ap\<lparr>ap_output_db_pool := pool\<rparr>) p
      else if name = ''logs_flusher'' then on_log_queue flush_logs p
      else if name = ''logs_cleaner'' then on_log_queue (clear_logs INFO (ae_null_json env)) p
      else (Done, p))"

text \<open>
  The handler of the timer of a task, started at \<open>us0\<close> and over at \<open>us1\<close>. A task that is no longer
  registered was stopped.
\<close>

definition task_error_args :: "string \<Rightarrow> string option \<Rightarrow> 'j log_argument list" where
  "task_error_args name msg =
     (case msg of
        Some m \<Rightarrow> [Print ''Cyclic task '', Print name, Print '' exception: '', Print m, Delay 120]
      | None \<Rightarrow> [Print ''Unknown exception in cyclic task '', Print name, Delay 120])"

definition finish_tick ::
  "string \<Rightarrow> int \<Rightarrow> int \<Rightarrow> string option option \<Rightarrow> ('j, 'c) process \<Rightarrow> ('j, 'c) process" where
  "finish_tick name us0 us1 failed p =
     (case pr_instance p of
        None \<Rightarrow> p
      | Some ap \<Rightarrow>
          (case get_cyclic_task name ap of
             None \<Rightarrow> p
           | Some t \<Rightarrow>
               let (t, vs) = ct_handler False us0 us1 failed (t, pr_health p)
               in p\<lparr>pr_instance := Some (ap\<lparr>ap_cyclic_tasks := sm_set name t (ap_cyclic_tasks ap)\<rparr>), pr_health := vs\<rparr>))"

definition tick :: "('j, 'c) app_env \<Rightarrow> string \<Rightarrow> int \<Rightarrow> int \<Rightarrow> ('j, 'c) process act" where
  "tick env name us0 us1 p =
     (case pr_instance p of
        None \<Rightarrow> (Done, p)
      | Some ap \<Rightarrow>
          (case get_cyclic_task name ap of
             None \<Rightarrow> (Done, p)
           | Some t \<Rightarrow>
               if \<not> ct_armed t then (Done, p)
               else (case cyclic_routine env name p of
                       (Done, p) \<Rightarrow> (Done, finish_tick name us0 us1 None p)
                     | (Raises m, p) \<Rightarrow>
                         log_call env ''main'' ERROR (task_error_args name m) (finish_tick name us0 us1 (Some m) p)
                     | r \<Rightarrow> r)))"

section \<open>\<open>application\<close>: start, stop, wait\<close>

definition create_server :: "('j, 'c) app_env \<Rightarrow> ('j, 'c) process act" where
  "create_server env p =
     (case ae_bind_error env of
        Some m \<Rightarrow> (Raises (Some m), p)
      | None \<Rightarrow> (Done, p\<lparr>pr_servers := [listener_new]\<rparr>))"

definition register_on_instance :: "('j, 'c) app_env \<Rightarrow> string \<Rightarrow> int \<Rightarrow> ('j, 'c) process act" where
  "register_on_instance env name timeout =
     pure_act (on_instance (register_cyclic_task (ae_errors_buf env) (ae_times_buf env) name timeout))"

definition application_init :: "('j, 'c) app_env \<Rightarrow> ('j, 'c) process act" where
  "application_init env = run_acts
     [pure_act (\<lambda>p. p\<lparr>pr_signals := True\<rparr>),
      create_server env,
      pure_act (\<lambda>p. p\<lparr>pr_servers := map listener_run (pr_servers p)\<rparr>),
      pure_act (\<lambda>p. p\<lparr>pr_io_threads := nat (st_threads_count (ae_settings env))\<rparr>),
      pure_act (on_instance (start_data_loader (ae_errors_buf env) (ae_times_buf env))),
      register_on_instance env ''source_db_pool_cleaner'' 10000,
      register_on_instance env ''online_db_pool_cleaner'' 10000,
      register_on_instance env ''output_db_pool_cleaner'' 10000,
      pure_act (\<lambda>p. p\<lparr>pr_merge := Some Merge_starting\<rparr>)]"

definition application_start :: "('j, 'c) app_env \<Rightarrow> ('j, 'c) process act" where
  "application_start env p =
     (if pr_instance p \<noteq> None then (Done, p)
      else run_acts
        [pure_act (\<lambda>p. p\<lparr>pr_running := True\<rparr>),
         start_log env,
         log_call env ''main'' NOTICE [Print ''start''],
         pure_act (\<lambda>p. p\<lparr>pr_instance := Some (application_new (ae_settings env))\<rparr>),
         application_init env,
         register_on_instance env ''logs_flusher'' 500,
         register_on_instance env ''logs_cleaner'' 3600000] p)"

text \<open>Every task is stopped, its routine runs a last time, and all are forgotten.\<close>

definition stop_tasks :: "('j, 'c) app_env \<Rightarrow> ('j, 'c) process act" where
  "stop_tasks env p =
     (case pr_instance p of
        None \<Rightarrow> (Undefined_act, p)
      | Some ap \<Rightarrow> run_acts
          [run_acts (map (cyclic_routine env) (fst (stop_all_cyclic_tasks ap))),
           pure_act (on_instance (snd \<circ> stop_all_cyclic_tasks))] p)"

definition stop_asio :: "('j, 'c) process \<Rightarrow> ('j, 'c) process" where
  "stop_asio p = p\<lparr>pr_servers := map listener_stop (pr_servers p), pr_io_stopped := True\<rparr>"

definition application_stop :: "('j, 'c) app_env \<Rightarrow> ('j, 'c) process act" where
  "application_stop env p =
     (if pr_instance p = None then (Done, p)
      else run_acts
        [pure_act (\<lambda>p. p\<lparr>pr_running := False\<rparr>),
         log_call env ''main'' NOTICE [Print ''stopping''],
         stop_tasks env,
         pure_act stop_asio,
         stop_log env] p)"

text \<open>\<open>app::stop\<close>, which nothing calls.\<close>

definition app_stop :: "('j, 'c) app_env \<Rightarrow> ('j, 'c) process act" where
  "app_stop env = run_acts [apply_life_span_events env STOP, application_stop env]"

section \<open>What happens while the process runs\<close>

text \<open>
  A task of \<open>start_init_data\<close> is due (with the way the loading ends), the timer of a cyclic task
  expires, a signal is caught, the log thread or the merge thread makes its next step (with the stamp
  it starts from, or the records in the queue).
\<close>

datatype 'j app_event =
    Init_due "string option option" | Tick string int int | Signal_caught | Log_turn
  | Merge_start int | Merge_turn "'j call_record list"

definition merge_service_step ::
  "('j, 'c) app_env \<Rightarrow> 'j call_record list \<Rightarrow> ('j, 'c) process act" where
  "merge_service_step env queued p =
     (case pr_merge p of
        Some Merge_testing \<Rightarrow>
          (Done, p\<lparr>pr_merge := Some (if pr_running p then Merge_dequeuing else Merge_over)\<rparr>)
      | Some Merge_dequeuing \<Rightarrow>
          (let records = take (nat (st_max_queue_size (ae_settings env))) queued
           in (Done, p\<lparr>pr_merge := Some (if records = [] then Merge_testing else Merge_holding records)\<rparr>))
      | Some (Merge_holding records) \<Rightarrow> run_acts
          [log_call env [] NOTICE
             [Print (concat_args [''update transaction time: '', show_int (max_record_time records), '' with: '',
                show_nat (length records), '' records''])],
           pure_act (\<lambda>p. p\<lparr>pr_merge := Some Merge_testing\<rparr>)] p
      | _ \<Rightarrow> (Done, p))"

definition app_step :: "('j, 'c) app_env \<Rightarrow> 'j app_event \<Rightarrow> ('j, 'c) process act" where
  "app_step env ev p =
     (case ev of
        Init_due failed \<Rightarrow>
          if pr_io_stopped p \<or> pr_init_timers p = [] then (Done, p)
          else init_task env failed (p\<lparr>pr_init_timers := tl (pr_init_timers p)\<rparr>)
      | Tick name us0 us1 \<Rightarrow> if pr_io_stopped p then (Done, p) else tick env name us0 us1 p
      | Signal_caught \<Rightarrow>
          if pr_io_stopped p \<or> \<not> pr_signals p then (Done, p)
          else application_stop env (p\<lparr>pr_signals := False\<rparr>)
      | Log_turn \<Rightarrow>
          (Done, p\<lparr>pr_log := map_option (log_thread_step (ae_now env) (ae_null_json env) (pr_running p)) (pr_log p)\<rparr>)
      | Merge_start stamp \<Rightarrow>
          (if pr_merge p = Some Merge_starting
           then run_acts [log_call env [] NOTICE [Print (concat_args [''start from: '', show_int stamp])],
                          pure_act (\<lambda>p. p\<lparr>pr_merge := Some Merge_testing\<rparr>)] p
           else (Done, p))
      | Merge_turn queued \<Rightarrow> merge_service_step env queued p)"

text \<open>
  How a process ends: still alive after the given events, an exit code, \<open>std::terminate\<close>, undefined
  behaviour, or a join that never returns.
\<close>

datatype process_end = Alive | Exits int | Terminated | Crashed | Hung

text \<open>
  \<open>wait\<close> after the io context was stopped: the io threads are joined and the application destroyed;
  the destructor of a \<open>std::thread\<close> that was neither joined nor detached terminates the program.
\<close>

definition application_wait :: "('j, 'c) process \<Rightarrow> process_end \<times> ('j, 'c) process" where
  "application_wait p =
     (if pr_instance p = None then (Exits 0, p)
      else if \<not> pr_io_stopped p then (Alive, p)
      else let p = p\<lparr>pr_io_threads := 0\<rparr>
           in if pr_merge p \<noteq> None then (Terminated, p)
              else (Exits 0, p\<lparr>pr_instance := None, pr_servers := []\<rparr>))"

definition run_failed :: "('j, 'c) app_env \<Rightarrow> string option \<Rightarrow> ('j, 'c) process \<Rightarrow> process_end \<times> ('j, 'c) process" where
  "run_failed env what p =
     (case log_call env ''main'' CRITICAL
             [Print (case what of Some m \<Rightarrow> concat_args [''Fatal Error: '', m] | None \<Rightarrow> ''Unknown error'')] p of
        (Done, p) \<Rightarrow> (Exits (-1), p)
      | (_, p) \<Rightarrow> (Crashed, p))"

definition after_act ::
  "('j, 'c) app_env \<Rightarrow> (('j, 'c) process \<Rightarrow> process_end \<times> ('j, 'c) process) \<Rightarrow>
   act_result \<times> ('j, 'c) process \<Rightarrow> process_end \<times> ('j, 'c) process" where
  "after_act env k = (\<lambda>(r, p).
     case r of Done \<Rightarrow> k p | Raises what \<Rightarrow> run_failed env what p | Undefined_act \<Rightarrow> (Crashed, p) | Blocked \<Rightarrow> (Hung, p))"

definition app_start_acts :: "('j, 'c) app_env \<Rightarrow> ('j, 'c) process act list" where
  "app_start_acts env =
     [apply_life_span_events env START, application_start env, apply_life_span_events env INIT_APP,
      pure_act (start_init_data 0)]"

text \<open>\<open>app::run\<close> up to and after the given events.\<close>

definition app_run ::
  "('j, 'c) app_env \<Rightarrow> 'j app_event list \<Rightarrow> ('j, 'c) process \<Rightarrow> process_end \<times> ('j, 'c) process" where
  "app_run env evs p =
     after_act env application_wait (run_acts (app_start_acts env @ map (app_step env) evs) p)"

text \<open>
  The end of the program: the destructors of the two static pointers, the application's
  and the log's.
\<close>

definition static_destruction :: "('j, 'c) app_env \<Rightarrow> int \<Rightarrow> ('j, 'c) process \<Rightarrow> process_end" where
  "static_destruction env code p =
     (if pr_instance p \<noteq> None \<and> (0 < pr_io_threads p \<or> pr_merge p \<noteq> None) then Terminated
      else if fst (stop_log env p) = Blocked then Hung
      else Exits code)"

definition process_exit :: "('j, 'c) app_env \<Rightarrow> process_end \<times> ('j, 'c) process \<Rightarrow> process_end" where
  "process_exit env = (\<lambda>(e, p). case e of Exits code \<Rightarrow> static_destruction env code p | _ \<Rightarrow> e)"

text \<open>
  \<open>main\<close>: what it prints, whether it lifts the core limit, and how it ends. The exception of
  \<open>read_settings\<close> is caught by nobody.
\<close>

definition call45aggr_version :: string where "call45aggr_version = ''1.0.0''"

definition main_program ::
  "(settings \<Rightarrow> log_message_level \<Rightarrow> ('j, 'c) app_env) \<Rightarrow> (string \<Rightarrow> (settings \<times> log_message_level) outcome) \<Rightarrow>
   string \<Rightarrow> string list \<Rightarrow> 'j app_event list \<Rightarrow> ('j, 'c) process \<Rightarrow> string \<times> bool \<times> process_end" where
  "main_program mk_env read_settings build_version argv evs p =
     (case argv of
        [prog, arg] \<Rightarrow>
          if arg = ''--version'' then (call45aggr_version @ ''.'' @ build_version @ newline, False, Exits 0)
          else (case read_settings arg of
                  Ok (s, level) \<Rightarrow>
                    ([], st_use_core_dump s, process_exit (mk_env s level) (app_run (mk_env s level) evs p))
                | Throws what \<Rightarrow> ([], False, Terminated)
                | _ \<Rightarrow> ([], False, Crashed))
      | _ \<Rightarrow> (concat (take 1 argv) @ ''[--version|path/to/config]'' @ newline, False, Exits (-1)))"

section \<open>\<open>daemon.cpp\<close>: borrowed connections\<close>

text \<open>A borrowed connection goes back to the pool it came from when the last holder lets it go.\<close>

definition source_conn :: "('j, 'c) app_env \<Rightarrow> 'c application \<Rightarrow> 'c reusable \<times> 'c application" where
  "source_conn env ap =
     (let (c, ap) = source_connection (ae_connect env) ap in (\<lparr>ru_poolId = 0, ru_instance = Some c\<rparr>, ap))"

definition source_callback :: "int \<Rightarrow> int \<Rightarrow> 'c \<Rightarrow> 'c application \<Rightarrow> 'c application" where
  "source_callback now pool_id val = back_source_connection now val"

definition output_conn :: "('j, 'c) app_env \<Rightarrow> 'c application \<Rightarrow> 'c reusable \<times> 'c application" where
  "output_conn env ap =
     (let (c, ap) = output_connection (ae_connect env) ap in (\<lparr>ru_poolId = 0, ru_instance = Some c\<rparr>, ap))"

definition output_callback :: "int \<Rightarrow> int \<Rightarrow> 'c \<Rightarrow> 'c application \<Rightarrow> 'c application" where
  "output_callback now pool_id val = back_output_connection now val"

definition online_conn :: "('j, 'c) app_env \<Rightarrow> int \<Rightarrow> 'c application \<Rightarrow> ('c reusable \<times> 'c application) outcome" where
  "online_conn env pool_id ap =
     bind_outcome (online_connection (ae_connect env) pool_id ap)
       (\<lambda>(c, ap). Ok (\<lparr>ru_poolId = pool_id, ru_instance = Some c\<rparr>, ap))"

definition online_callback :: "int \<Rightarrow> int \<Rightarrow> 'c \<Rightarrow> 'c application outcome \<Rightarrow> 'c application outcome" where
  "online_callback now pool_id val ap = bind_outcome ap (back_online_connection now pool_id val)"

definition online_pool_count :: "'c application \<Rightarrow> int" where
  "online_pool_count ap = online_connection_pool_count ap"

definition uptime :: "int \<Rightarrow> int \<Rightarrow> int" where
  "uptime start_time now = now - start_time"

section \<open>Lemmas\<close>

lemma run_acts_append:
  "run_acts (as @ bs) p = (case run_acts as p of (Done, p) \<Rightarrow> run_acts bs p | r \<Rightarrow> r)"
  by (induction as arbitrary: p) (auto split: prod.splits act_result.splits)

subsection \<open>What the parts of the process leave as it is\<close>

text \<open>Everything but the contents of the log, the application, the pages and the health register.\<close>

definition skeleton ::
  "('j, 'c) process \<Rightarrow> (bool \<times> bool \<times> bool \<times> bool) \<times> nat \<times> bool \<times> bool \<times> int list \<times> life_span_event list" where
  "skeleton p = ((pr_running p, pr_log p \<noteq> None, pr_instance p \<noteq> None, pr_signals p), pr_io_threads p,
     pr_io_stopped p, pr_merge p \<noteq> None, pr_init_timers p, pr_applied p)"

definition framed :: "('j, 'c) process act \<Rightarrow> bool" where
  "framed a \<longleftrightarrow> (\<forall>p. fst (a p) \<in> {Done, Undefined_act} \<and> skeleton (snd (a p)) = skeleton p)"

lemma framedD:
  assumes "framed a" "a p = (r, p')"
  shows "r = Done \<or> r = Undefined_act" "skeleton p' = skeleton p"
  using assms by (auto simp: framed_def dest: spec [of _ p])

lemma framed_pure: "(\<And>p. skeleton (f p) = skeleton p) \<Longrightarrow> framed (pure_act f)"
  by (simp add: framed_def pure_act_def)

lemma framed_run_acts: "(\<And>a. a \<in> set acts \<Longrightarrow> framed a) \<Longrightarrow> framed (run_acts acts)"
proof (induction acts)
  case (Cons a acts)
  then have a: "framed a" and IH: "framed (run_acts acts)" by simp_all
  show ?case unfolding framed_def
  proof
    fix p
    obtain r q where q: "a p = (r, q)" by fastforce
    with framedD [OF a q] framedD [OF IH, of q] show
      "fst (run_acts (a # acts) p) \<in> {Done, Undefined_act} \<and> skeleton (snd (run_acts (a # acts) p)) = skeleton p"
      by (cases "run_acts acts q") (auto split: act_result.splits)
  qed
qed (simp add: framed_def)

lemma framed_log_call: "framed (log_call env th level args)"
  by (auto simp: framed_def log_call_def skeleton_def split: option.splits)

lemma framed_on_log_queue: "framed (on_log_queue f)"
  by (auto simp: framed_def on_log_queue_def skeleton_def split: option.splits)

lemma framed_clean_pool: "framed (clean_pool now get put)"
  by (auto simp: framed_def clean_pool_def skeleton_def split: option.splits outcome.splits)

lemma skeleton_on_instance [simp]: "skeleton (on_instance f p) = skeleton p"
  by (simp add: skeleton_def on_instance_def)

lemma framed_if: "framed a \<Longrightarrow> framed b \<Longrightarrow> framed (\<lambda>p. if c then a p else b p)"
  by (simp add: framed_def)

lemma framed_clean_online_pools:
  "framed (\<lambda>p :: ('j, 'c) process. run_acts (map (clean_online_pool now) (online_keys p)) p)"
proof -
  have "framed (run_acts (map (clean_online_pool now) keys) :: ('j, 'c) process act)" for keys
    by (rule framed_run_acts) (auto simp: clean_online_pool_def framed_clean_pool)
  then show ?thesis by (simp add: framed_def)
qed

lemma framed_Done: "framed (Pair Done)"
  by (simp add: framed_def)

lemma framed_cyclic_routine: "framed (cyclic_routine env name)"
  unfolding cyclic_routine_def [abs_def]
  by (intro framed_if framed_clean_pool framed_clean_online_pools framed_on_log_queue framed_Done)

lemma skeleton_finish_tick [simp]: "skeleton (finish_tick name us0 us1 failed p) = skeleton p"
  by (auto simp: finish_tick_def skeleton_def split: option.splits prod.splits)

lemma framed_tick: "framed (tick env name us0 us1)"
  unfolding framed_def
proof
  fix p
  obtain r q where q: "cyclic_routine env name p = (r, q)" by fastforce
  note routine = framedD [OF framed_cyclic_routine q]
  show "fst (tick env name us0 us1 p) \<in> {Done, Undefined_act} \<and> skeleton (snd (tick env name us0 us1 p)) = skeleton p"
    using routine q by (auto simp: tick_def split: option.splits)
qed

lemma apply_default_events:
  "apply_life_span_events env event p = (Done,
     (if event = INIT_DB
      then on_instance (start_puller_task (ae_errors_buf env) (ae_times_buf env) (ae_settings env)) p else p)
     \<lparr>pr_applied := pr_applied p @ [event]\<rparr>)"
  by (cases event) (simp_all add: apply_life_span_events_def apply_event_def default_events_def add_event_def on_instance_def)

lemma log_call_present:
  assumes "pr_log p = Some (pc, li)"
  shows "\<exists>li'. log_call env th level args p = (Done, p\<lparr>pr_log := Some (pc, li')\<rparr>)"
proof (cases "log_impl (ae_level env) (ae_now env) (ae_null_json env) level args")
  case None
  have "p = p\<lparr>pr_log := Some (pc, li)\<rparr>" using assms by simp
  with None show ?thesis by (metis log_call_def option.simps(4))
next
  case (Some mes)
  with assms show ?thesis by (auto simp: log_call_def)
qed

subsection \<open>The log thread\<close>

lemma log_join_exits: "\<exists>li'. log_join now null_json False (pc, li) = Some li'"
proof -
  have "li_queue (flush_logs li) \<noteq> []" by (simp add: flush_logs_def)
  then show ?thesis
    by (cases pc) (simp_all add: log_join_def log_thread_step_def numeral_2_eq_2)
qed

lemma log_running_never_exits:
  "pc \<noteq> Log_exited \<Longrightarrow> fst ((log_thread_step now null_json True ^^ n) (pc, li)) \<noteq> Log_exited"
proof (induction n)
  case (Suc n)
  then show ?case
    by (auto simp: log_thread_step_def split: prod.splits log_pc.splits if_splits)
qed simp

lemma log_join_hangs: "pc \<noteq> Log_exited \<Longrightarrow> log_join now null_json True (pc, li) = None"
  using log_running_never_exits [of pc 2 now null_json "flush_logs li"]
  by (auto simp: log_join_def split: prod.splits log_pc.splits)

text \<open>Two steps decide: the join of \<open>log_join\<close> returns exactly when some number of steps ends the thread.\<close>

lemma log_join_decides:
  assumes "pc \<noteq> Log_exited"
  shows "log_join now null_json running (pc, li) \<noteq> None \<longleftrightarrow>
    (\<exists>n. fst ((log_thread_step now null_json running ^^ n) (pc, flush_logs li)) = Log_exited)"
proof (cases running)
  case True
  with log_join_hangs [OF assms, of now null_json li] log_running_never_exits [OF assms, of _ now null_json "flush_logs li"]
  show ?thesis by simp
next
  case False
  obtain li' where li': "log_join now null_json False (pc, li) = Some li'" using log_join_exits [of now null_json pc li] by blast
  then have "fst ((log_thread_step now null_json False ^^ 2) (pc, flush_logs li)) = Log_exited"
    by (auto simp: log_join_def split: prod.splits log_pc.splits)
  with li' False show ?thesis by auto
qed

subsection \<open>The states the process goes through\<close>

text \<open>Either the one task of \<open>start_init_data\<close> is pending or \<open>INIT_DB\<close> has been applied.\<close>

definition init_books :: "bool \<Rightarrow> int list \<Rightarrow> life_span_event list \<Rightarrow> bool" where
  "init_books loaded timers applied \<longleftrightarrow>
     (if loaded then applied = [START, INIT_APP, INIT_DB] \<and> timers = []
      else applied = [START, INIT_APP] \<and> length timers = 1)"

definition app_alive :: "bool \<Rightarrow> ('j, 'c) process \<Rightarrow> bool" where
  "app_alive loaded p \<longleftrightarrow> (\<exists>n ts applied. skeleton p = ((True, True, True, True), n, False, True, ts, applied) \<and>
     init_books loaded ts applied)"

definition app_stopped :: "bool \<Rightarrow> ('j, 'c) process \<Rightarrow> bool" where
  "app_stopped loaded p \<longleftrightarrow> (\<exists>n ts applied. skeleton p = ((False, False, True, False), n, True, True, ts, applied) \<and>
     init_books loaded ts applied)"

lemma app_start_fails:
  assumes "ae_bind_error env = Some m"
  shows "\<exists>p. run_acts (app_start_acts env) (process_new files) = (Raises (Some m), p) \<and>
    pr_running p \<and> (\<exists>li. pr_log p = Some (Log_testing, li)) \<and> pr_instance p \<noteq> None \<and>
    pr_io_threads p = 0 \<and> pr_merge p = None"
  using assms
  by (cases "log_impl (ae_level env) (ae_now env) (ae_null_json env) NOTICE [Print ''start'']")
    (simp_all add: app_start_acts_def application_start_def apply_default_events process_new_def pure_act_def
      start_log_def log_call_def application_init_def create_server_def Let_def)

lemma app_start_alive:
  assumes "ae_bind_error env = None"
  shows "\<exists>p. run_acts (app_start_acts env) (process_new files) = (Done, p) \<and> app_alive False p"
  using assms
  by (cases "log_impl (ae_level env) (ae_now env) (ae_null_json env) NOTICE [Print ''start'']")
    (simp_all add: app_start_acts_def application_start_def apply_default_events process_new_def pure_act_def
      start_log_def log_call_def application_init_def create_server_def register_on_instance_def on_instance_def
      start_init_data_def app_alive_def skeleton_def init_books_def Let_def)

lemma framed_stop_tasks: "framed (stop_tasks env)"
proof -
  have "framed (run_acts [run_acts (map (cyclic_routine env) names), pure_act (on_instance f)])" for names f
    by (rule framed_run_acts) (auto intro!: framed_run_acts framed_cyclic_routine framed_pure)
  then show ?thesis by (auto simp: framed_def stop_tasks_def split: option.splits)
qed

lemma stop_log_result:
  assumes "pr_log p \<noteq> None" "\<not> pr_running p"
  obtains files where "stop_log env p = (Done, p\<lparr>pr_log := None, pr_files := files\<rparr>)"
proof -
  obtain pc li where "pr_log p = Some (pc, li)" using assms(1) by auto
  moreover obtain li' where "log_join (ae_now env) (ae_null_json env) False (pc, li) = Some li'"
    using log_join_exits [of "ae_now env" "ae_null_json env" pc li] by blast
  ultimately have "stop_log env p = (Done, p\<lparr>pr_log := None, pr_files := li_files li'\<rparr>)"
    using assms(2) by (simp add: stop_log_def)
  then show ?thesis using that by blast
qed

lemma application_stop_result:
  assumes "app_alive loaded p" "application_stop env (p\<lparr>pr_signals := False\<rparr>) = (r, q)"
  shows "r = Undefined_act \<or> r = Done \<and> app_stopped loaded q"
proof -
  let ?p1 = "p\<lparr>pr_signals := False, pr_running := False\<rparr>"
  obtain n ts applied where sk: "skeleton ?p1 = ((False, True, True, False), n, False, True, ts, applied)"
    and books: "init_books loaded ts applied" and inst: "pr_instance p \<noteq> None"
    using assms(1) by (auto simp: app_alive_def skeleton_def)
  obtain r2 p2 where p2: "log_call env ''main'' NOTICE [Print ''stopping''] ?p1 = (r2, p2)" by fastforce
  obtain r3 p3 where p3: "stop_tasks env p2 = (r3, p3)" by fastforce
  note f2 = framedD [OF framed_log_call p2] and f3 = framedD [OF framed_stop_tasks p3]
  have sk3: "skeleton (stop_asio p3) = ((False, True, True, False), n, True, True, ts, applied)"
    using f2(2) f3(2) sk by (simp add: skeleton_def stop_asio_def)
  then obtain files where files: "stop_log env (stop_asio p3) = (Done, (stop_asio p3)\<lparr>pr_log := None, pr_files := files\<rparr>)"
    using stop_log_result [of "stop_asio p3" env] by (auto simp: skeleton_def)
  have "app_stopped loaded ((stop_asio p3)\<lparr>pr_log := None, pr_files := files\<rparr>)"
    using sk3 books by (simp add: app_stopped_def skeleton_def)
  with assms(2) inst p2 p3 f2(1) f3(1) files show ?thesis
    by (auto simp: application_stop_def pure_act_def)
qed

lemma log_then_set:
  assumes "run_acts [log_call env th level args, pure_act f] p = (r, q)"
  obtains "r = Undefined_act" | p1 where "skeleton p1 = skeleton p" "r = Done" "q = f p1"
proof -
  obtain r1 p1 where p1: "log_call env th level args p = (r1, p1)" by fastforce
  note fr = framedD [OF framed_log_call p1]
  from fr(1) show ?thesis
  proof
    assume "r1 = Done"
    with assms p1 have "r = Done" "q = f p1" by (simp_all add: pure_act_def)
    with fr(2) show ?thesis by (rule that(2))
  next
    assume "r1 = Undefined_act"
    with assms p1 have "r = Undefined_act" by simp
    then show ?thesis by (rule that(1))
  qed
qed

text \<open>What the loading of data does.\<close>

lemma init_task_result:
  assumes "init_task env failed p = (r, q)"
  shows "r = Undefined_act \<or> r = Done \<and>
    (case skeleton p of (flags, n, io, mg, ts, applied) \<Rightarrow>
       skeleton q = (flags, n, io, mg, if failed = None then ts else ts @ [250],
         if failed = None then applied @ [INIT_DB] else applied))"
proof (cases failed)
  case None
  with assms show ?thesis by (auto simp: init_task_def apply_default_events skeleton_def on_instance_def)
next
  case (Some what)
  define args where "args = (case what of Some m \<Rightarrow> [Print ''Unable to init data. Exception: '', Print m]
     | None \<Rightarrow> [Print ''Unknown exception during init_data'' :: 'a log_argument])"
  have "run_acts [log_call env ''main'' ERROR args, pure_act (start_init_data 250)] p = (r, q)"
    using assms by (simp add: init_task_def Some args_def split: option.splits)
  then show ?thesis
  proof (rule log_then_set)
    fix p1 assume "skeleton p1 = skeleton p" "r = Done" "q = start_init_data 250 p1"
    with Some show ?thesis by (simp add: skeleton_def start_init_data_def)
  qed simp
qed

lemma skeleton_merge: "pr_merge p \<noteq> None \<Longrightarrow> skeleton (p\<lparr>pr_merge := Some m\<rparr>) = skeleton p"
  by (simp add: skeleton_def)

lemma skeleton_same_merge: "skeleton p1 = skeleton p \<Longrightarrow> pr_merge p = Some x \<Longrightarrow> skeleton (p1\<lparr>pr_merge := Some m\<rparr>) = skeleton p"
  by (auto simp: skeleton_def)

lemma merge_service_step_result:
  assumes "merge_service_step env queued p = (r, q)"
  shows "r = Undefined_act \<or> r = Done \<and> skeleton q = skeleton p"
proof (cases "\<exists>records. pr_merge p = Some (Merge_holding records)")
  case True
  then obtain records where holding: "pr_merge p = Some (Merge_holding records)" by blast
  define msg where "msg = concat_args [''update transaction time: '', show_int (max_record_time records), '' with: '',
    show_nat (length records), '' records'']"
  have "run_acts [log_call env [] NOTICE [Print msg], pure_act (\<lambda>p. p\<lparr>pr_merge := Some Merge_testing\<rparr>)] p = (r, q)"
    using assms by (simp add: merge_service_step_def holding msg_def del: run_acts.simps)
  then show ?thesis by (rule log_then_set) (simp_all add: skeleton_same_merge [OF _ holding])
next
  case False
  with assms skeleton_merge [of p] show ?thesis
    by (auto simp: merge_service_step_def Let_def split: option.splits merge_pc.splits if_splits)
qed

lemma merge_start_result:
  assumes "ev = Merge_start stamp" "app_step env ev p = (r, q)"
  shows "r = Undefined_act \<or> r = Done \<and> skeleton q = skeleton p"
proof (cases "pr_merge p = Some Merge_starting")
  case True
  define msg where "msg = concat_args [''start from: '', show_int stamp]"
  have "run_acts [log_call env [] NOTICE [Print msg], pure_act (\<lambda>p. p\<lparr>pr_merge := Some Merge_testing\<rparr>)] p = (r, q)"
    using assms by (simp add: app_step_def True msg_def del: run_acts.simps)
  then show ?thesis by (rule log_then_set) (simp_all add: skeleton_same_merge [OF _ True])
next
  case False
  with assms show ?thesis by (simp add: app_step_def)
qed

text \<open>One step of the process, alive or stopped.\<close>

lemma app_step_alive:
  assumes "app_alive loaded p" "app_step env ev p = (r, q)"
  shows "r = Undefined_act \<or> r = Done \<and>
    (if ev = Signal_caught then app_stopped loaded q else app_alive (loaded \<or> ev = Init_due None) q)"
proof -
  obtain n ts applied where sk: "skeleton p = ((True, True, True, True), n, False, True, ts, applied)"
    and books: "init_books loaded ts applied" using assms(1) by (auto simp: app_alive_def)
  then have p: "pr_init_timers p = ts" "\<not> pr_io_stopped p" "pr_signals p" by (simp_all add: skeleton_def)
  have alive: "app_alive loaded q" if "skeleton q = skeleton p" for q
    using that assms(1) by (simp add: app_alive_def)
  show ?thesis
  proof (cases ev)
    case (Init_due failed)
    show ?thesis
    proof (cases "ts = []")
      case True
      with books have loaded by (simp add: init_books_def split: if_splits)
      with assms Init_due p True show ?thesis by (simp add: app_step_def)
    next
      case False
      with books have nl: "\<not> loaded" "length ts = 1" "applied = [START, INIT_APP]"
        by (simp_all add: init_books_def split: if_splits)
      let ?p = "p\<lparr>pr_init_timers := tl (pr_init_timers p)\<rparr>"
      have "tl ts = []" using nl(2) by (cases ts) auto
      then have sk': "skeleton ?p = ((True, True, True, True), n, False, True, [], applied)"
        using sk by (simp add: skeleton_def)
      have "init_task env failed ?p = (r, q)"
        using assms(2) Init_due p False by (simp add: app_step_def)
      from init_task_result [OF this] sk' nl Init_due show ?thesis
        by (cases failed) (auto simp: app_alive_def init_books_def)
    qed
  next
    case (Tick name us0 us1)
    with assms(2) p have t: "tick env name us0 us1 p = (r, q)" by (simp add: app_step_def)
    from framedD [OF framed_tick t] alive [of q] Tick show ?thesis by auto
  next
    case Signal_caught
    with assms(2) p have "application_stop env (p\<lparr>pr_signals := False\<rparr>) = (r, q)"
      by (simp add: app_step_def)
    from application_stop_result [OF assms(1) this] Signal_caught show ?thesis by simp
  next
    case Log_turn
    with assms(2) have "r = Done" "skeleton q = skeleton p" by (auto simp: app_step_def skeleton_def)
    with alive [of q] Log_turn show ?thesis by simp
  next
    case (Merge_start stamp)
    note result = merge_start_result [OF Merge_start assms(2)]
    from alive [of q] Merge_start result show ?thesis by auto
  next
    case (Merge_turn queued)
    with assms(2) have "merge_service_step env queued p = (r, q)" by (simp add: app_step_def)
    from merge_service_step_result [OF this] alive [of q] Merge_turn show ?thesis by auto
  qed
qed

lemma app_step_stopped:
  assumes "app_stopped loaded p" "app_step env ev p = (r, q)"
  shows "r = Undefined_act \<or> r = Done \<and> app_stopped loaded q"
proof -
  have p: "pr_io_stopped p" using assms(1) by (auto simp: app_stopped_def skeleton_def)
  have stopped: "app_stopped loaded q" if "skeleton q = skeleton p" for q
    using that assms(1) by (simp add: app_stopped_def)
  show ?thesis
  proof (cases ev)
    case Log_turn
    with assms(2) have "r = Done" "skeleton q = skeleton p" by (auto simp: app_step_def skeleton_def)
    with stopped [of q] show ?thesis by simp
  next
    case (Merge_start stamp)
    from merge_start_result [OF Merge_start assms(2)] stopped [of q] show ?thesis by auto
  next
    case (Merge_turn queued)
    with assms(2) have "merge_service_step env queued p = (r, q)" by (simp add: app_step_def)
    from merge_service_step_result [OF this] stopped [of q] show ?thesis by auto
  qed (use assms p in \<open>simp_all add: app_step_def\<close>)
qed

text \<open>Whether the first loading has succeeded before a signal came.\<close>

definition data_loaded :: "'j app_event list \<Rightarrow> bool" where
  "data_loaded evs \<longleftrightarrow> Init_due None \<in> set (takeWhile (\<lambda>ev. ev \<noteq> Signal_caught) evs)"

lemma app_steps_stopped:
  "app_stopped loaded p \<Longrightarrow> run_acts (map (app_step env) evs) p = (r, q) \<Longrightarrow>
   r = Undefined_act \<or> r = Done \<and> app_stopped loaded q"
proof (induction evs arbitrary: p)
  case (Cons ev evs)
  obtain r1 p1 where p1: "app_step env ev p = (r1, p1)" by fastforce
  from app_step_stopped [OF Cons.prems(1) p1] show ?case
  proof
    assume "r1 = Undefined_act"
    with Cons.prems(2) p1 show ?thesis by simp
  next
    assume "r1 = Done \<and> app_stopped loaded p1"
    with Cons.IH [of p1] Cons.prems(2) p1 show ?thesis by simp
  qed
qed simp

lemma app_steps_alive:
  "app_alive loaded p \<Longrightarrow> run_acts (map (app_step env) evs) p = (r, q) \<Longrightarrow>
   r = Undefined_act \<or> r = Done \<and>
     (if Signal_caught \<in> set evs then app_stopped (loaded \<or> data_loaded evs) q
      else app_alive (loaded \<or> data_loaded evs) q)"
proof (induction evs arbitrary: p loaded)
  case (Cons ev evs)
  obtain r1 p1 where p1: "app_step env ev p = (r1, p1)" by fastforce
  show ?case
  proof (cases "r1 = Undefined_act")
    case True
    with Cons.prems(2) p1 show ?thesis by simp
  next
    case False
    with app_step_alive [OF Cons.prems(1) p1] have "r1 = Done" and next_state:
      "if ev = Signal_caught then app_stopped loaded p1 else app_alive (loaded \<or> ev = Init_due None) p1" by simp_all
    then have rest: "run_acts (map (app_step env) evs) p1 = (r, q)" using Cons.prems(2) p1 by simp
    show ?thesis
    proof (cases "ev = Signal_caught")
      case True
      with next_state app_steps_stopped [OF _ rest] show ?thesis by (auto simp: data_loaded_def)
    next
      case False
      with next_state have "app_alive (loaded \<or> ev = Init_due None) p1" by simp
      from Cons.IH [OF this rest] False show ?thesis by (auto simp: data_loaded_def eq_commute [of "Init_due None" ev])
    qed
  qed
qed (simp add: data_loaded_def)

lemma app_acts_result:
  assumes "ae_bind_error env = None"
    "run_acts (app_start_acts env @ map (app_step env) evs) (process_new files) = (r, q)"
  shows "r = Undefined_act \<or> r = Done \<and>
    (if Signal_caught \<in> set evs then app_stopped (data_loaded evs) q else app_alive (data_loaded evs) q)"
proof -
  obtain p where p: "run_acts (app_start_acts env) (process_new files) = (Done, p)" "app_alive False p"
    using app_start_alive [OF assms(1)] by blast
  then have "run_acts (map (app_step env) evs) p = (r, q)" using assms(2) by (simp add: run_acts_append)
  from app_steps_alive [OF p(2) this] show ?thesis by (auto split: if_splits)
qed

lemma application_wait_result:
  assumes "if stopped then app_stopped loaded p else app_alive loaded p"
  shows "fst (application_wait p) = (if stopped then Terminated else Alive)"
  using assms by (auto simp: application_wait_def app_stopped_def app_alive_def skeleton_def Let_def split: if_splits)

section \<open>Stopping the log thread\<close>

text \<open>What still happens to the log once the application is not running: messages and turns of its thread.\<close>

datatype 'j log_action = Queue_message "'j log_message option" | Thread_turn

definition log_action_step ::
  "int \<Rightarrow> 'j \<Rightarrow> 'j log_action \<Rightarrow> log_pc \<times> 'j log_instance \<Rightarrow> log_pc \<times> 'j log_instance" where
  "log_action_step now null_json act = (\<lambda>(pc, li).
     case act of
       Queue_message mes \<Rightarrow> (pc, li\<lparr>li_queue := li_queue li @ [mes]\<rparr>)
     | Thread_turn \<Rightarrow> log_thread_step now null_json False (pc, li))"

lemma log_action_steps [simp]:
  "log_action_step now nj (Queue_message mes) (pc, li) = (pc, li\<lparr>li_queue := li_queue li @ [mes]\<rparr>)"
  "log_action_step now nj Thread_turn (Log_testing, li) = (Log_exited, li)"
  "log_action_step now nj Thread_turn (Log_exited, li) = (Log_exited, li)"
  "log_action_step now nj Thread_turn (Log_waiting, li)
     = (if li_queue li = [] then (Log_waiting, li) else (Log_testing, log_round now ''log_handler'' nj li))"
  by (simp_all add: log_action_step_def log_thread_step_def)

definition enqueued :: "'j log_action list \<Rightarrow> 'j log_message option list" where
  "enqueued acts = concat (map (\<lambda>act. case act of Queue_message mes \<Rightarrow> [mes] | Thread_turn \<Rightarrow> []) acts)"

lemma clear_loop_files [simp]: "li_files (snd (clear_loop now th nj es li)) = li_files li"
  by (induction now th nj es li rule: clear_loop.induct)
    (auto simp: send_log_message_def split: prod.splits)

lemma delay_message_files [simp]: "li_files (snd (delay_message now th nj ptr li)) = li_files li"
  using clear_loop_files [of now th nj "li_delay_storage li" li]
  by (auto simp: delay_message_def clear_delay_messages_def Let_def split: option.split prod.splits simp del: clear_loop_files)

lemma log_round_keeps_files:
  assumes "li_queue li = Some m # rest"
  shows "li_files (log_round now th nj li) = li_files li"
proof -
  obtain held p li' where d: "delay_message now th nj (Some m) (li\<lparr>li_queue := rest\<rparr>) = ((held, p), li')"
    by (metis surj_pair)
  have "li_files li' = li_files li" using delay_message_files [of now th nj "Some m" "li\<lparr>li_queue := rest\<rparr>"] d by simp
  moreover have "held \<or> p \<noteq> None" using d by (auto simp: delay_message_def Let_def split: if_splits)
  ultimately show ?thesis using assms d by (cases held) (auto simp: log_round_def)
qed

lemma log_exited_stays:
  "fst (fold (log_action_step now nj) acts (Log_exited, li)) = Log_exited \<and>
   li_files (snd (fold (log_action_step now nj) acts (Log_exited, li))) = li_files li"
proof (induction acts arbitrary: li)
  case (Cons a acts)
  then show ?case by (cases a) simp_all
qed simp

lemma log_testing_exits:
  "li_files (snd (fold (log_action_step now nj) acts (Log_testing, li))) = li_files li \<and>
   (Thread_turn \<in> set acts \<longrightarrow> fst (fold (log_action_step now nj) acts (Log_testing, li)) = Log_exited)"
proof (induction acts arbitrary: li)
  case (Cons a acts)
  then show ?case by (cases a) (simp_all add: log_exited_stays)
qed simp

lemma log_waiting_exits:
  "(li_files (snd (fold (log_action_step now nj) acts (Log_waiting, li))) = li_files li \<or>
    (\<exists>rest. li_queue li @ enqueued acts = None # rest) \<and>
    li_files (snd (fold (log_action_step now nj) acts (Log_waiting, li)))
      = fold (on_log (li_messages li)) (li_handlers li) (li_files li)) \<and>
   (li_queue li \<noteq> [] \<and> 2 \<le> count_list acts Thread_turn \<longrightarrow>
    fst (fold (log_action_step now nj) acts (Log_waiting, li)) = Log_exited)"
proof (induction acts arbitrary: li)
  case (Cons a acts)
  show ?case
  proof (cases a)
    case (Queue_message mes)
    with Cons.IH [of "li\<lparr>li_queue := li_queue li @ [mes]\<rparr>"] show ?thesis
      by (simp add: enqueued_def)
  next
    case Thread_turn
    show ?thesis
    proof (cases "li_queue li")
      case Nil
      with Thread_turn Cons.IH [of li] show ?thesis
        by (simp add: enqueued_def)
    next
      case (Cons mes rest)
      let ?li = "log_round now ''log_handler'' nj li"
      have step: "log_action_step now nj a (Log_waiting, li) = (Log_testing, ?li)"
        using Cons Thread_turn by simp
      have "1 \<le> count_list acts Thread_turn \<Longrightarrow> Thread_turn \<in> set acts"
        by (cases "Thread_turn \<in> set acts") (auto simp: count_list_0_iff)
      moreover have "li_files ?li = (if mes = None then fold (on_log (li_messages li)) (li_handlers li) (li_files li) else li_files li)"
        using Cons log_round_keeps_files [of li _ rest] log_round_flush [of li rest] by (cases mes) simp_all
      ultimately show ?thesis
        using log_testing_exits [of now nj acts ?li] Cons Thread_turn step by (auto simp: enqueued_def)
    qed
  qed
qed (simp add: enqueued_def)

definition ex_app_env :: "string option \<Rightarrow> (unit, string) app_env" where
  "ex_app_env bind_error =
     \<lparr>ae_settings = default_settings, ae_now = 1000, ae_level = DEBUG, ae_null_json = (),
      ae_branch_path = (\<lambda>_. ''logs''), ae_stem = (\<lambda>_. ''call45aggr''), ae_bind_error = bind_error,
      ae_connect = (\<lambda>s. s), ae_errors_buf = [], ae_times_buf = [], ae_messages_buf = []\<rparr>"

section \<open>Properties\<close>



text \<open>
  C23 (liveness): the first loading of the data. It is tried again, each time after a quarter of a
  second, until it succeeds: as long as the process is alive, exactly one attempt is pending before
  the first success and none afterwards, and the events of \<open>INIT_DB\<close> are applied exactly once, after
  \<open>START\<close> and \<open>INIT_APP\<close>. The events of \<open>STOP\<close> are never applied, not even when a signal stops the
  process.
\<close>

theorem init_db_applied_once:
  assumes "ae_bind_error env = None"
    "run_acts (app_start_acts env @ map (app_step env) evs) (process_new files) = (r, p)"
  shows "r = Undefined_act \<or> r = Done
    \<and> pr_applied p = (if data_loaded evs then [START, INIT_APP, INIT_DB] else [START, INIT_APP])
    \<and> length (pr_init_timers p) = (if data_loaded evs then 0 else 1)
    \<and> (pr_io_stopped p \<longleftrightarrow> Signal_caught \<in> set evs)"
  using app_acts_result [OF assms]
  by (auto simp: app_stopped_def app_alive_def skeleton_def init_books_def split: if_splits)

theorem init_db_applied_once_witness:
  "\<exists>r p. run_acts (app_start_acts (ex_app_env None) @ map (app_step (ex_app_env None))
       [Init_due (Some (Some ''no link'')), Init_due None, Init_due None]) (process_new (\<lambda>_. [])) = (r, p) \<and>
     (r = Undefined_act \<or> pr_applied p = [START, INIT_APP, INIT_DB] \<and> pr_init_timers p = [])"
proof -
  obtain r p where run: "run_acts (app_start_acts (ex_app_env None) @ map (app_step (ex_app_env None))
       [Init_due (Some (Some ''no link'')), Init_due None, Init_due None]) (process_new (\<lambda>_. [])) = (r, p)" by fastforce
  have "ae_bind_error (ex_app_env None) = None" by (simp add: ex_app_env_def)
  from init_db_applied_once [OF this run] run show ?thesis by (auto simp: data_loaded_def)
qed

text \<open>
  C26 (error): what the log writes when the application stops. Once the application is not running, the
  log thread makes at most one more round, whatever is queued and whatever the order of the steps: the
  messages it has collected reach the files only if that round happens to be a flush, everything
  queued behind it is lost, and the thread is gone as soon as it has had two turns with something
  in the queue.
\<close>

theorem stop_writes_one_round:
  fixes now :: int and null_json :: 'j
  defines "final acts pc li \<equiv> fold (log_action_step now null_json) acts (pc, li)"
  shows "(li_files (snd (final acts pc li)) = li_files li \<or>
      pc = Log_waiting \<and> (\<exists>rest. li_queue li @ enqueued acts = None # rest) \<and>
      li_files (snd (final acts pc li)) = fold (on_log (li_messages li)) (li_handlers li) (li_files li)) \<and>
    (li_queue li \<noteq> [] \<and> 2 \<le> count_list acts Thread_turn \<longrightarrow> fst (final acts pc li) = Log_exited)"
proof -
  have "2 \<le> count_list acts Thread_turn \<Longrightarrow> Thread_turn \<in> set acts"
    by (cases "Thread_turn \<in> set acts") (auto simp: count_list_0_iff)
  then show ?thesis
    using log_waiting_exits [of now null_json acts li] log_testing_exits [of now null_json acts li]
      log_exited_stays [of now null_json acts li]
    by (cases pc) (simp_all add: final_def)
qed

definition ex_stopping :: "unit log_message" where
  "ex_stopping = \<lparr>lm_message = ''stopping'', lm_timestamp = 5, lm_level = NOTICE, lm_thread_name = ''main'',
     lm_delay_in_seconds = 0, lm_json = (), lm_destination = ANY\<rparr>"

definition ex_stopping_log :: "unit log_instance" where
  "ex_stopping_log = (log_start [ex_stopping] ''a.log'' ''d'' ''a'' (\<lambda>_. []))
     \<lparr>li_messages := [ex_stopping], li_queue := [Some ex_stopping]\<rparr>"

theorem stop_writes_one_round_witness:
  "\<exists>li'. fold (log_action_step 9 ()) [Thread_turn, Queue_message None, Thread_turn, Queue_message None]
       (Log_waiting, ex_stopping_log) = (Log_exited, li') \<and> li_files li' = (\<lambda>_. [])"
proof -
  let ?acts = "[Thread_turn, Queue_message None, Thread_turn, Queue_message None]"
  obtain pc' li' where run: "fold (log_action_step 9 ()) ?acts (Log_waiting, ex_stopping_log) = (pc', li')" by fastforce
  then show ?thesis
    using stop_writes_one_round [of 9 "()" ?acts Log_waiting ex_stopping_log]
    by (simp add: ex_stopping_log_def log_start_def)
qed

end
