(* ===== verification/Locks.thy ===== *)
theory Locks
  imports Prelude
begin

text \<open>
  \<open>src/systems/Spinlock.h\<close>, \<open>NoneMutex.hpp\<close> and \<open>Singleton.h\<close>. Threads are numbers. A critical
  section under a \<open>lock_guard\<close> is the list of the updates it makes to the data the lock protects,
  each a step of its own, so that the sections of two threads interleave wherever the lock lets
  them.
\<close>

section \<open>\<open>Spinlock\<close>\<close>

definition SPIN_BEFORE_YIELD :: nat where "SPIN_BEFORE_YIELD = 4000"

text \<open>\<open>test_and_set\<close>: the old value of the flag; the flag is set.\<close>

definition test_and_set :: "bool \<Rightarrow> bool \<times> bool" where
  "test_and_set is_locked = (is_locked, True)"

text \<open>One evaluation of the loop of \<open>lock\<close>: \<open>None\<close> leaves the loop; else what is left of \<open>spin\<close> and whether it yields.\<close>

definition lock_round :: "nat \<Rightarrow> bool \<Rightarrow> (nat \<times> bool) option \<times> bool" where
  "lock_round spin is_locked =
     (let (held, is_locked) = test_and_set is_locked
      in (if held then Some (if spin \<noteq> 0 then (spin - 1, False) else (spin, True)) else None, is_locked))"

definition try_lock :: "bool \<Rightarrow> bool \<times> bool" where
  "try_lock is_locked = (let (held, is_locked) = test_and_set is_locked in (\<not> held, is_locked))"

definition unlock :: "bool \<Rightarrow> bool" where
  "unlock is_locked = False"

text \<open>\<open>NoneMutex\<close>: \<open>lock\<close> and \<open>unlock\<close> do nothing.\<close>

definition none_lock_round :: "nat \<Rightarrow> bool \<Rightarrow> (nat \<times> bool) option \<times> bool" where
  "none_lock_round spin is_locked = (None, is_locked)"

definition none_unlock :: "bool \<Rightarrow> bool" where
  "none_unlock is_locked = is_locked"

text \<open>\<open>Singleton::instance\<close>: the function-local static is built by the first call only.\<close>

definition singleton_instance :: "'a \<Rightarrow> 'a option \<Rightarrow> 'a \<times> 'a option" where
  "singleton_instance new_instance existing =
     (case existing of Some x \<Rightarrow> (x, existing) | None \<Rightarrow> (new_instance, Some new_instance))"

section \<open>Threads that use a lock\<close>

datatype 'd lock_pc = Outside | Trying nat "('d \<Rightarrow> 'd) list" | Inside "('d \<Rightarrow> 'd) list"

record 'd lock_state =
  lk_is_locked :: bool
  lk_pc :: "nat \<Rightarrow> 'd lock_pc"
  lk_data :: 'd
  lk_entered :: "('d \<Rightarrow> 'd) list list"

definition lock_init :: "'d \<Rightarrow> 'd lock_state" where
  "lock_init d = \<lparr>lk_is_locked = False, lk_pc = (\<lambda>_. Outside), lk_data = d, lk_entered = []\<rparr>"

definition set_pc :: "nat \<Rightarrow> 'd lock_pc \<Rightarrow> 'd lock_state \<Rightarrow> 'd lock_state" where
  "set_pc t pc s = s\<lparr>lk_pc := (lk_pc s)(t := pc)\<rparr>"

definition enter :: "nat \<Rightarrow> ('d \<Rightarrow> 'd) list \<Rightarrow> 'd lock_state \<Rightarrow> 'd lock_state" where
  "enter t work s = set_pc t (Inside work) (s\<lparr>lk_entered := lk_entered s @ [work]\<rparr>)"

text \<open>The step relation over a lock given by one round of its \<open>lock\<close>, its \<open>try_lock\<close> and its \<open>unlock\<close>.\<close>

inductive lock_step ::
  "(nat \<Rightarrow> bool \<Rightarrow> (nat \<times> bool) option \<times> bool) \<Rightarrow> (bool \<Rightarrow> bool \<times> bool) \<Rightarrow> (bool \<Rightarrow> bool) \<Rightarrow>
   'd lock_state \<Rightarrow> 'd lock_state \<Rightarrow> bool"
  for lock :: "nat \<Rightarrow> bool \<Rightarrow> (nat \<times> bool) option \<times> bool" and tryl :: "bool \<Rightarrow> bool \<times> bool"
    and unlk :: "bool \<Rightarrow> bool" where
  ask: "lk_pc s t = Outside \<Longrightarrow> lock_step lock tryl unlk s (set_pc t (Trying SPIN_BEFORE_YIELD work) s)"
| spin: "lk_pc s t = Trying n work \<Longrightarrow> lock n (lk_is_locked s) = (Some (n', yields), b) \<Longrightarrow>
    lock_step lock tryl unlk s (set_pc t (Trying n' work) (s\<lparr>lk_is_locked := b\<rparr>))"
| acquire: "lk_pc s t = Trying n work \<Longrightarrow> lock n (lk_is_locked s) = (None, b) \<Longrightarrow>
    lock_step lock tryl unlk s (enter t work (s\<lparr>lk_is_locked := b\<rparr>))"
| try_fails: "lk_pc s t = Outside \<Longrightarrow> tryl (lk_is_locked s) = (False, b) \<Longrightarrow>
    lock_step lock tryl unlk s (s\<lparr>lk_is_locked := b\<rparr>)"
| try_acquires: "lk_pc s t = Outside \<Longrightarrow> tryl (lk_is_locked s) = (True, b) \<Longrightarrow>
    lock_step lock tryl unlk s (enter t work (s\<lparr>lk_is_locked := b\<rparr>))"
| works: "lk_pc s t = Inside (f # work) \<Longrightarrow>
    lock_step lock tryl unlk s (set_pc t (Inside work) (s\<lparr>lk_data := f (lk_data s)\<rparr>))"
| release: "lk_pc s t = Inside [] \<Longrightarrow>
    lock_step lock tryl unlk s (set_pc t Outside (s\<lparr>lk_is_locked := unlk (lk_is_locked s)\<rparr>))"

inductive lock_reachable ::
  "(nat \<Rightarrow> bool \<Rightarrow> (nat \<times> bool) option \<times> bool) \<Rightarrow> (bool \<Rightarrow> bool \<times> bool) \<Rightarrow> (bool \<Rightarrow> bool) \<Rightarrow>
   'd \<Rightarrow> 'd lock_state \<Rightarrow> bool"
  for lock :: "nat \<Rightarrow> bool \<Rightarrow> (nat \<times> bool) option \<times> bool" and tryl :: "bool \<Rightarrow> bool \<times> bool"
    and unlk :: "bool \<Rightarrow> bool" and d :: 'd where
  init: "lock_reachable lock tryl unlk d (lock_init d)"
| step: "lock_reachable lock tryl unlk d s \<Longrightarrow> lock_step lock tryl unlk s s' \<Longrightarrow> lock_reachable lock tryl unlk d s'"

inductive_cases lock_stepE: "lock_step lock tryl unlk s s'"

section \<open>What a lock promises\<close>

text \<open>
  The interface of a mutex, as \<open>lock_guard\<close> uses it: the flag says whether somebody is inside, nobody
  gets in while it is set, and leaving clears it.
\<close>

locale mutex =
  fixes lock :: "nat \<Rightarrow> bool \<Rightarrow> (nat \<times> bool) option \<times> bool"
    and tryl :: "bool \<Rightarrow> bool \<times> bool"
    and unlk :: "bool \<Rightarrow> bool"
  assumes lock_enters: "lock n b = (None, b') \<Longrightarrow> \<not> b \<and> b'"
    and lock_waits: "lock n b = (Some r, b') \<Longrightarrow> b \<and> b'"
    and try_enters: "tryl b = (True, b') \<Longrightarrow> \<not> b \<and> b'"
    and try_leaves: "tryl b = (False, b') \<Longrightarrow> b \<and> b'"
    and unlock_clears: "\<not> unlk b"
begin

text \<open>Nobody inside: the entered sections have been made, in order; else one thread, with the rest of the last one.\<close>

definition serial :: "'d \<Rightarrow> 'd lock_state \<Rightarrow> bool" where
  "serial d s \<longleftrightarrow>
     (if lk_is_locked s
      then \<exists>t work. lk_pc s t = Inside work \<and> (\<forall>u. u \<noteq> t \<longrightarrow> (\<forall>w. lk_pc s u \<noteq> Inside w)) \<and>
             fold (\<lambda>f. f) work (lk_data s) = fold (\<lambda>f. f) (concat (lk_entered s)) d
      else (\<forall>t w. lk_pc s t \<noteq> Inside w) \<and> lk_data s = fold (\<lambda>f. f) (concat (lk_entered s)) d)"

lemma serial_enter:
  assumes "serial d s" "\<not> lk_is_locked s"
  shows "serial d (enter t work (s\<lparr>lk_is_locked := True\<rparr>))"
  using assms by (auto simp: serial_def enter_def set_pc_def)

lemma serial_outside:
  assumes "serial d s" "\<forall>w. lk_pc s t \<noteq> Inside w" "\<forall>w. pc \<noteq> Inside w"
  shows "serial d (set_pc t pc s)"
  using assms by (auto simp: serial_def set_pc_def split: if_splits)

lemma serial_inside:
  assumes "serial d s" "lk_pc s t = Inside work"
  shows "lk_is_locked s" "\<forall>u. u \<noteq> t \<longrightarrow> (\<forall>w. lk_pc s u \<noteq> Inside w)"
    "fold (\<lambda>f. f) work (lk_data s) = fold (\<lambda>f. f) (concat (lk_entered s)) d"
proof -
  show locked: "lk_is_locked s" using assms by (auto simp: serial_def split: if_splits)
  then obtain t' work' where *: "lk_pc s t' = Inside work'" "\<forall>u. u \<noteq> t' \<longrightarrow> (\<forall>w. lk_pc s u \<noteq> Inside w)"
    "fold (\<lambda>f. f) work' (lk_data s) = fold (\<lambda>f. f) (concat (lk_entered s)) d"
    using assms(1) by (auto simp: serial_def)
  then have "t' = t" using assms(2) by metis
  with * assms(2) show "\<forall>u. u \<noteq> t \<longrightarrow> (\<forall>w. lk_pc s u \<noteq> Inside w)"
    "fold (\<lambda>f. f) work (lk_data s) = fold (\<lambda>f. f) (concat (lk_entered s)) d" by simp_all
qed

lemma serial_step: "lock_step lock tryl unlk s s' \<Longrightarrow> serial d s \<Longrightarrow> serial d s'"
proof (induction rule: lock_step.induct)
  case (ask s t work)
  then show ?case by (intro serial_outside) simp_all
next
  case (spin s t n work n' yields b)
  from lock_waits [OF spin(2)] have "s\<lparr>lk_is_locked := b\<rparr> = s" by simp
  with spin show ?case by (simp add: serial_outside)
next
  case (acquire s t n work b)
  from lock_enters [OF acquire(2)] acquire show ?case by (simp add: serial_enter)
next
  case (try_fails s t b)
  from try_leaves [OF try_fails(2)] have "s\<lparr>lk_is_locked := b\<rparr> = s" by simp
  with try_fails show ?case by simp
next
  case (try_acquires s t b work)
  from try_enters [OF try_acquires(2)] try_acquires show ?case by (simp add: serial_enter)
next
  case (works s t f work)
  note inside = serial_inside [OF works(2,1)]
  then show ?case by (auto simp: serial_def set_pc_def intro!: exI [of _ t])
next
  case (release s t)
  note inside = serial_inside [OF release(2,1)]
  then show ?case using unlock_clears by (auto simp: serial_def set_pc_def)
qed

lemma reachable_serial: "lock_reachable lock tryl unlk d s \<Longrightarrow> serial d s"
proof (induction rule: lock_reachable.induct)
  case init
  show ?case by (simp add: serial_def lock_init_def)
qed (rule serial_step)

lemma one_inside:
  assumes "lock_reachable lock tryl unlk d s" "lk_pc s t = Inside v" "lk_pc s u = Inside w"
  shows "t = u"
  using serial_inside(2) [OF reachable_serial [OF assms(1)] assms(2)] assms(3) by metis

lemma sections_serialised:
  assumes "lock_reachable lock tryl unlk d s" "\<forall>t w. lk_pc s t \<noteq> Inside w"
  shows "lk_data s = fold (\<lambda>f. f) (concat (lk_entered s)) d"
  using reachable_serial [OF assms(1)] assms(2) by (auto simp: serial_def split: if_splits)

end

interpretation spin: mutex lock_round try_lock unlock
  by unfold_locales (auto simp: lock_round_def try_lock_def unlock_def test_and_set_def split: if_splits)

section \<open>Lemmas on the spinlock\<close>

lemma spin_bounded:
  "lock_reachable lock_round try_lock unlock d s \<Longrightarrow> lk_pc s t = Trying n work \<Longrightarrow> n \<le> SPIN_BEFORE_YIELD"
proof (induction arbitrary: t n work rule: lock_reachable.induct)
  case init
  then show ?case by (simp add: lock_init_def)
next
  case (step s s')
  from step(2) show ?case
    using step.IH step.prems
    by cases (auto simp: set_pc_def enter_def lock_round_def test_and_set_def split: if_splits intro: order_trans [OF diff_le_self])
qed

text \<open>A waiting thread yields from its \<open>SPIN_BEFORE_YIELD\<close>-th failed attempt on.\<close>

lemma lock_round_yields:
  "fst (lock_round n True) = Some (n - 1, n = 0)"
  by (simp add: lock_round_def test_and_set_def)

lemma singleton_built_once:
  "fst (singleton_instance b (snd (singleton_instance a None))) = fst (singleton_instance a None)"
  by (simp add: singleton_instance_def)

section \<open>Properties\<close>

text \<open>
  C22 (safety): the spinlock. However the threads interleave, at most one is inside its critical section, and
  whenever nobody is inside, the data is what the sections entered so far make of it when they are
  run one after the other in the order they got the lock; so a reader under the lock never sees
  half an update. A thread that waits for a free lock gets in with its next attempt, and
  \<open>try_lock\<close> fails exactly when somebody is inside.
\<close>

theorem spinlock_serialises:
  assumes "lock_reachable lock_round try_lock unlock d s"
  shows "(lk_pc s t = Inside v \<and> lk_pc s u = Inside w \<longrightarrow> t = u) \<and>
    ((\<forall>t w. lk_pc s t \<noteq> Inside w) \<longrightarrow> lk_data s = fold (\<lambda>f. f) (concat (lk_entered s)) d) \<and>
    (fst (lock_round n (lk_is_locked s)) = None \<longleftrightarrow> (\<forall>t w. lk_pc s t \<noteq> Inside w)) \<and>
    (fst (try_lock (lk_is_locked s)) \<longleftrightarrow> (\<forall>t w. lk_pc s t \<noteq> Inside w))"
proof (intro conjI impI)
  show "lk_pc s t = Inside v \<and> lk_pc s u = Inside w \<Longrightarrow> t = u" using spin.one_inside [OF assms] by blast
  show "\<forall>t w. lk_pc s t \<noteq> Inside w \<Longrightarrow> lk_data s = fold (\<lambda>f. f) (concat (lk_entered s)) d"
    using spin.sections_serialised [OF assms] by blast
  have "lk_is_locked s \<longleftrightarrow> (\<exists>t w. lk_pc s t = Inside w)"
    using spin.reachable_serial [OF assms] by (auto simp: spin.serial_def split: if_splits)
  then show "fst (lock_round n (lk_is_locked s)) = None \<longleftrightarrow> (\<forall>t w. lk_pc s t \<noteq> Inside w)"
    "fst (try_lock (lk_is_locked s)) \<longleftrightarrow> (\<forall>t w. lk_pc s t \<noteq> Inside w)"
    by (auto simp: lock_round_def try_lock_def test_and_set_def)
qed

text \<open>A thread adds two to a number, in two updates.\<close>

definition ex_add :: "(nat \<Rightarrow> nat) list" where
  "ex_add = [\<lambda>n. n + 1, \<lambda>n. n + 1]"

theorem spinlock_serialises_witness:
  "\<exists>s. lock_reachable lock_round try_lock unlock 0 s \<and> lk_data s = (2 :: nat) \<and> lk_entered s = [ex_add] \<and>
     (\<forall>t w. lk_pc s t \<noteq> Inside w) \<and> lk_data s = fold (\<lambda>f. f) (concat (lk_entered s)) 0"
proof -
  let ?R = "lock_reachable lock_round try_lock unlock (0 :: nat)"
  let ?s1 = "enter 1 ex_add ((lock_init 0)\<lparr>lk_is_locked := True\<rparr>)"
  have s1: "?R ?s1"
    by (rule lock_reachable.step [OF lock_reachable.init], rule lock_step.try_acquires)
      (simp_all add: lock_init_def try_lock_def test_and_set_def)
  let ?s2 = "set_pc 1 (Inside [\<lambda>n. n + 1]) (?s1\<lparr>lk_data := 1\<rparr>)"
  have "lock_step lock_round try_lock unlock ?s1 ?s2"
    using lock_step.works [of ?s1 1 "\<lambda>n. n + 1" "[\<lambda>n. n + 1]" lock_round try_lock unlock]
    by (simp add: enter_def set_pc_def ex_add_def lock_init_def)
  with s1 have s2: "?R ?s2" by (rule lock_reachable.step)
  let ?s3 = "set_pc 1 (Inside []) (?s2\<lparr>lk_data := 2\<rparr>)"
  have "lock_step lock_round try_lock unlock ?s2 ?s3"
    using lock_step.works [of ?s2 1 "\<lambda>n. n + 1" "[]" lock_round try_lock unlock]
    by (simp add: enter_def set_pc_def ex_add_def lock_init_def numeral_2_eq_2)
  with s2 have s3: "?R ?s3" by (rule lock_reachable.step)
  let ?s4 = "set_pc 1 Outside (?s3\<lparr>lk_is_locked := False\<rparr>)"
  have "lock_step lock_round try_lock unlock ?s3 ?s4"
    using lock_step.release [of ?s3 1 lock_round try_lock unlock] by (simp add: unlock_def set_pc_def)
  with s3 have s4: "?R ?s4" by (rule lock_reachable.step)
  have "\<forall>t w. lk_pc ?s4 t \<noteq> Inside w" "lk_data ?s4 = 2" "lk_entered ?s4 = [ex_add]"
    by (simp_all add: enter_def set_pc_def ex_add_def lock_init_def)
  with s4 spinlock_serialises [OF s4] show ?thesis by blast
qed

end
