(* ===== verification/Streams.thy ===== *)
theory Streams
  imports Utilities Models
begin

text \<open>
  \<open>src/common/string_streambuf.cpp\<close>, \<open>osstream.hpp\<close>, \<open>size_for_output.hpp\<close> and \<open>concat.hpp\<close>: output
  streams that write into a string. An inserter is given by the text it prints; the
  manipulators that flush the stream are kept apart, because the buffer answers a flush with
  a failure.
\<close>

section \<open>\<open>string_streambuf\<close>\<close>

definition xsputn :: "string \<Rightarrow> string \<Rightarrow> nat \<times> string" where
  "xsputn s buffer = (length s, buffer @ s)"

definition overflow :: "char \<Rightarrow> string \<Rightarrow> char \<times> string" where
  "overflow ch buffer = (ch, buffer @ [ch])"

definition sb_sync :: "string \<Rightarrow> int \<times> string" where
  "sb_sync buffer = (-1, buffer)"

section \<open>Streams on such a buffer\<close>

text \<open>\<open>st_bad\<close> is the error state of \<open>std::ios\<close>: while it is set, every inserter does nothing.\<close>

record string_stream =
  ss_buffer :: string
  ss_bad :: bool

text \<open>
  \<open>osstream\<close> starts behind what its string holds; \<open>rdbuf\<close> clears the state the base class was
  built with.
\<close>

definition osstream_new :: "string \<Rightarrow> string_stream" where
  "osstream_new buffer = \<lparr>ss_buffer = buffer, ss_bad = False\<rparr>"

datatype stream_item = Put string | Put_char char | Flush | Endl

definition put_text :: "string \<Rightarrow> string_stream \<Rightarrow> string_stream" where
  "put_text s st =
     (if ss_bad st then st
      else let (n, buffer) = xsputn s (ss_buffer st) in st\<lparr>ss_buffer := buffer, ss_bad := n \<noteq> length s\<rparr>)"

definition put_char :: "char \<Rightarrow> string_stream \<Rightarrow> string_stream" where
  "put_char c st =
     (if ss_bad st then st else let (r, buffer) = overflow c (ss_buffer st) in st\<lparr>ss_buffer := buffer\<rparr>)"

definition stream_flush :: "string_stream \<Rightarrow> string_stream" where
  "stream_flush st =
     (if ss_bad st then st
      else let (r, buffer) = sb_sync (ss_buffer st) in st\<lparr>ss_buffer := buffer, ss_bad := r = -1\<rparr>)"

fun stream_put :: "stream_item \<Rightarrow> string_stream \<Rightarrow> string_stream" where
  "stream_put (Put s) st = put_text s st"
| "stream_put (Put_char c) st = put_char c st"
| "stream_put Flush st = stream_flush st"
| "stream_put Endl st = stream_flush (fold put_char newline st)"

section \<open>\<open>concat\<close> and the sizes it reserves\<close>

text \<open>A value of \<open>sizeof\<close> \<open>n\<close>, a function pointer, a character, an array of \<open>n\<close> elements, a string.\<close>

datatype output_shape = Shape_value nat | Shape_function | Shape_char | Shape_array output_shape nat | Shape_string string

fun size_for_output :: "output_shape \<Rightarrow> nat" where
  "size_for_output (Shape_value n) = n * 2"
| "size_for_output Shape_function = 11"
| "size_for_output Shape_char = 1"
| "size_for_output (Shape_array elem n) = size_for_output elem * n"
| "size_for_output (Shape_string s) = length s"

definition reserved_size :: "output_shape list \<Rightarrow> nat" where
  "reserved_size shapes = fold (\<lambda>s n. n + size_for_output s) shapes 0"

definition concat_stream :: "stream_item list \<Rightarrow> string" where
  "concat_stream args = ss_buffer (fold stream_put args (osstream_new []))"

section \<open>\<open>CallRecord::dump\<close> as it writes to a stream\<close>

definition call_record_items :: "'j call_record \<Rightarrow> stream_item list" where
  "call_record_items r =
     [Put ''CallRecord start'', Endl]
     @ concat (map (\<lambda>(k, leg). [Put ''leg: '', Put (cl_uniqueid leg), Put '' '', Put (cl_start_time leg), Endl]) (cr_legs r))
     @ concat (map (\<lambda>link. [Put ''link: '', Put (cll_uniqueid_orig link), Put '' -> '', Put (cll_uniqueid_term link),
          Put '' '', Put (cll_link_start_time link), Endl]) (cr_links r))
     @ [Put ''CallRecord stop with legs: ('', Put (show_nat (length (cr_legs r))), Put '') links: ('',
        Put (show_nat (length (cr_links r))), Put '')'', Endl]"

section \<open>Lemmas\<close>

fun item_text :: "stream_item \<Rightarrow> string" where
  "item_text (Put s) = s"
| "item_text (Put_char c) = [c]"
| "item_text Flush = []"
| "item_text Endl = newline"

definition flushes :: "stream_item \<Rightarrow> bool" where
  "flushes i \<longleftrightarrow> i \<in> {Flush, Endl}"

text \<open>What is sent to a stream up to and with the first flush.\<close>

definition until_flush :: "stream_item list \<Rightarrow> stream_item list" where
  "until_flush items = takeWhile (\<lambda>i. \<not> flushes i) items @ take 1 (dropWhile (\<lambda>i. \<not> flushes i) items)"

lemma stream_put_bad: "ss_bad st \<Longrightarrow> stream_put i st = st"
  by (cases i) (simp_all add: put_text_def put_char_def stream_flush_def newline_def)

lemma fold_stream_put_bad: "ss_bad st \<Longrightarrow> fold stream_put items st = st"
  by (induction items) (simp_all add: stream_put_bad)

lemma stream_put_good:
  "\<not> ss_bad st \<Longrightarrow> stream_put i st = \<lparr>ss_buffer = ss_buffer st @ item_text i, ss_bad = flushes i\<rparr>"
  by (cases i) (simp_all add: put_text_def put_char_def stream_flush_def xsputn_def overflow_def sb_sync_def
      flushes_def newline_def)

lemma texts_of_concat:
  "concat (map item_text (concat (map f xs))) = concat (map (\<lambda>x. concat (map item_text (f x))) xs)"
  by (induction xs) simp_all

lemma call_record_text: "concat (map item_text (call_record_items r)) = call_record_dump r"
  by (simp add: call_record_items_def call_record_dump_def split_def texts_of_concat)

section \<open>Properties\<close>

text \<open>
  Writing to a string through a stream. The string ends up with what it held followed by
  exactly the texts sent up to and with the first \<open>std::endl\<close> or \<open>std::flush\<close>: the buffer answers
  the flush with a failure, so everything sent behind it is dropped. Without a flush it is the
  concatenation of all texts.
\<close>

theorem string_stream_output:
  "ss_buffer (fold stream_put items (osstream_new s)) = s @ concat (map item_text (until_flush items)) \<and>
   ss_bad (fold stream_put items (osstream_new s)) = list_ex flushes items"
proof (induction items arbitrary: s)
  case Nil
  then show ?case by (simp add: osstream_new_def until_flush_def)
next
  case (Cons i items)
  have step: "stream_put i (osstream_new s) = \<lparr>ss_buffer = s @ item_text i, ss_bad = flushes i\<rparr>"
    by (simp add: stream_put_good osstream_new_def)
  show ?case
  proof (cases "flushes i")
    case True
    then show ?thesis by (simp add: step fold_stream_put_bad until_flush_def)
  next
    case False
    with Cons [of "s @ item_text i"] show ?thesis
      by (simp add: step until_flush_def flip: osstream_new_def [of "s @ item_text i"])
  qed
qed

lemma concat_stream_args: "concat_stream (map Put args) = concat_args args"
proof -
  have "fold stream_put (map Put args) (osstream_new s) = osstream_new (s @ concat args)" for s
    by (induction args arbitrary: s) (simp_all add: osstream_new_def stream_put_good flushes_def del: stream_put.simps)
  from this [of "[]"] show ?thesis by (simp add: concat_stream_def osstream_new_def concat_args_concat)
qed

text \<open>A record dumped into a string stream, as \<open>concat\<close> makes one, loses all but its first line.\<close>

lemma call_record_dump_cut:
  "ss_buffer (fold stream_put (call_record_items r) (osstream_new [])) = ''CallRecord start'' @ newline"
proof -
  have "fold stream_put (call_record_items r) (osstream_new [])
      = \<lparr>ss_buffer = ''CallRecord start'' @ newline, ss_bad = True\<rparr>"
    by (simp add: call_record_items_def stream_put_good stream_put_bad fold_stream_put_bad osstream_new_def flushes_def
        del: stream_put.simps concat_append)
  then show ?thesis by simp
qed

end
