(* ===== verification/Graylog.thy ===== *)
theory Graylog
  imports Log Settings
begin

text \<open>
  \<open>src/log/graylog_writer.cpp\<close> and the parameters of a message (\<open>log/parameters.hpp\<close>): the last handler of
  the log thread. Parsing the address, connecting the socket and writing JSON as text belong to the
  libraries and are parameters; the sink is the text that has been sent.
\<close>

section \<open>Parameters\<close>

text \<open>The values a parameter can have; a number with a fraction is what the JSON library makes of it.\<close>

definition dump_parameters :: "(string \<times> json_value) list \<Rightarrow> json_value \<Rightarrow> json_value outcome" where
  "dump_parameters ps val = fold (\<lambda>(key, v) val. bind_outcome val (json_assign [key] v)) ps (Ok val)"

section \<open>The handler\<close>

record graylog_api =
  ga_from_string :: "string \<Rightarrow> bool"
  ga_connect :: "string \<Rightarrow> int \<Rightarrow> bool"
  ga_write_json :: "json_value \<Rightarrow> string"

fun json_empty :: "json_value \<Rightarrow> bool" where
  "json_empty Json_Null = True"
| "json_empty (Json_Array vs) = (vs = [])"
| "json_empty (Json_Object ms) = (ms = [])"
| "json_empty _ = False"

text \<open>The members added to the parameters of a message, in place.\<close>

definition graylog_message :: "settings \<Rightarrow> json_value log_message \<Rightarrow> json_value log_message outcome" where
  "graylog_message s m =
     bind_outcome (json_assign [''source''] (Json_Str (st_graylog_source s)) (lm_json m)) (\<lambda>j.
     bind_outcome (json_assign [''server''] (Json_Str (show_int (st_instance_id s))) j) (\<lambda>j.
     bind_outcome (json_assign [''timestamp''] (Json_Str (show_int (lm_timestamp m))) j) (\<lambda>j.
     bind_outcome (json_assign [''message''] (Json_Str (lm_message m)) j) (\<lambda>j.
     bind_outcome (json_assign [''level''] (Json_Int (int (level_no (lm_level m)))) j) (\<lambda>j.
     Ok (m\<lparr>lm_json := j\<rparr>))))))"

fun graylog_batch ::
  "graylog_api \<Rightarrow> settings \<Rightarrow> json_value log_message list \<Rightarrow> string \<times> json_value log_message list \<Rightarrow>
   (string \<times> json_value log_message list) outcome" where
  "graylog_batch api s [] acc = Ok acc"
| "graylog_batch api s (m # ms) (out, seen) =
     (if json_empty (lm_json m) then graylog_batch api s ms (out, seen @ [m])
      else bind_outcome (graylog_message s m)
             (\<lambda>m. graylog_batch api s ms (out @ ga_write_json api (lm_json m) @ [char_of (0 :: nat)], seen @ [m])))"

text \<open>
  \<open>on_log\<close>: what is sent, the messages as they are left, and the arguments of an error that is logged.
  \<open>from_string\<close> throws for anything but a numeric address.
\<close>

definition graylog_on_log ::
  "graylog_api \<Rightarrow> settings \<Rightarrow> json_value log_message list \<Rightarrow>
   (string \<times> json_value log_message list \<times> json_value log_argument list option) outcome" where
  "graylog_on_log api s messages =
     (if messages = [] then Ok ([], messages, None)
      else if st_graylog_host s = [] \<or> st_graylog_port s = 0 then Ok ([], messages, None)
      else if \<not> ga_from_string api (st_graylog_host s) then Throws ''from_string''
      else if \<not> ga_connect api (st_graylog_host s) (st_graylog_port s)
      then Ok ([], messages, Some [Print ''Unable connect to graylog '', Print (st_graylog_host s), Print '':'',
                                    Print (show_int (st_graylog_port s))])
      else bind_outcome (graylog_batch api s messages ([], [])) (\<lambda>(out, seen). Ok (out, seen, None)))"

text \<open>
  One round of the log thread with all five handlers of \<open>start_log\<close>: a flush hands the batch to the
  file writers and then to graylog. The error is queued like any other message. An
  exception leaves the thread.
\<close>

definition log_round_all ::
  "graylog_api \<Rightarrow> settings \<Rightarrow> log_message_level \<Rightarrow> int \<Rightarrow> json_value log_instance \<Rightarrow>
   (json_value log_instance \<times> string) outcome" where
  "log_round_all api s global now li =
     (case li_queue li of
        None # rest \<Rightarrow>
          bind_outcome (graylog_on_log api s (li_messages li)) (\<lambda>(out, seen, err).
            let li' = log_round now ''log_handler'' Json_Null li
            in Ok (case err of
                     None \<Rightarrow> (li', out)
                   | Some args \<Rightarrow>
                       (case log_impl global now Json_Null ERROR args of
                          None \<Rightarrow> (li', out)
                        | Some mes \<Rightarrow> (log_send ''log_handler'' mes li', out))))
      | _ \<Rightarrow> Ok (log_round now ''log_handler'' Json_Null li, []))"

fun log_rounds_all ::
  "graylog_api \<Rightarrow> settings \<Rightarrow> log_message_level \<Rightarrow> int list \<Rightarrow> json_value log_instance \<Rightarrow>
   (json_value log_instance \<times> string) outcome" where
  "log_rounds_all api s global [] li = Ok (li, [])"
| "log_rounds_all api s global (now # stamps) li =
     bind_outcome (log_round_all api s global now li) (\<lambda>(li, out).
     bind_outcome (log_rounds_all api s global stamps li) (\<lambda>(li, out'). Ok (li, out @ out')))"

text \<open>The flush that the cyclic task asks for, and the round that takes what the flush has queued.\<close>

fun flush_cycles ::
  "graylog_api \<Rightarrow> settings \<Rightarrow> log_message_level \<Rightarrow> int list \<Rightarrow> json_value log_instance \<Rightarrow> json_value log_instance outcome" where
  "flush_cycles api s global [] li = Ok li"
| "flush_cycles api s global (now # stamps) li =
     bind_outcome (log_rounds_all api s global [now, now] (flush_logs li))
       (\<lambda>(li, out). flush_cycles api s global stamps li)"

section \<open>Lemmas\<close>

definition graylog_error :: "settings \<Rightarrow> int \<Rightarrow> json_value log_message" where
  "graylog_error s now =
     \<lparr>lm_message = ''Unable connect to graylog '' @ st_graylog_host s @ '':'' @ show_int (st_graylog_port s),
      lm_timestamp = now, lm_level = ERROR, lm_thread_name = ''log_handler'', lm_delay_in_seconds = 0,
      lm_json = Json_Null, lm_destination = ANY\<rparr>"

lemma graylog_error_delay: "lm_delay_in_seconds (graylog_error s now) = 0"
  by (simp add: graylog_error_def)

definition graylog_configured :: "settings \<Rightarrow> bool" where
  "graylog_configured s \<longleftrightarrow> st_graylog_host s \<noteq> [] \<and> st_graylog_port s \<noteq> 0"

text \<open>A flush with something to write when graylog cannot be reached: one new message.\<close>

lemma unreachable_cycle:
  assumes "graylog_configured s" "ga_from_string api (st_graylog_host s)"
    "\<not> ga_connect api (st_graylog_host s) (st_graylog_port s)" "ERROR \<le> global"
    "li_messages li \<noteq> []" "li_queue li = []"
  shows "\<exists>ring. log_rounds_all api s global [now, now] (flush_logs li) = Ok
    (li\<lparr>li_messages := [graylog_error s now], li_last_messages := ring,
        li_files := fold (on_log (li_messages li)) (li_handlers li) (li_files li)\<rparr>, [])"
proof -
  have mes: "log_impl global now Json_Null ERROR [Print ''Unable connect to graylog '', Print (st_graylog_host s),
      Print '':'', Print (show_int (st_graylog_port s))]
    = Some ((graylog_error s now)\<lparr>lm_thread_name := []\<rparr>)"
    using assms(4) by (simp add: log_impl_def new_log_message_def graylog_error_def)
  let ?li1 = "li\<lparr>li_queue := [Some (graylog_error s now)],
      li_files := fold (on_log (li_messages li)) (li_handlers li) (li_files li), li_messages := []\<rparr>"
  have "log_round_all api s global now (flush_logs li) = Ok (?li1, [])"
    using assms mes
    by (simp add: log_round_all_def flush_logs_def graylog_on_log_def graylog_configured_def log_round_flush
        log_send_def send_log_message_def graylog_error_def)
  moreover have "log_round_all api s global now ?li1 = Ok (?li1\<lparr>li_queue := [],
      li_last_messages := rb_push (graylog_error s now) (li_last_messages li), li_messages := [graylog_error s now]\<rparr>, [])"
    by (simp add: log_round_all_def log_round_message [of ?li1 "graylog_error s now" "[]"] graylog_error_delay)
  ultimately have "log_rounds_all api s global [now, now] (flush_logs li) = Ok
      (li\<lparr>li_queue := [], li_files := fold (on_log (li_messages li)) (li_handlers li) (li_files li),
          li_messages := [graylog_error s now],
          li_last_messages := rb_push (graylog_error s now) (li_last_messages li)\<rparr>, [])" by simp
  moreover have "li\<lparr>li_queue := []\<rparr> = li" using assms(6) by (cases li) simp
  ultimately show ?thesis
    by (intro exI [of _ "rb_push (graylog_error s now) (li_last_messages li)"]) (cases li; simp)
qed

section \<open>Properties\<close>

text \<open>
  C36 (error): an unreachable graylog keeps the log busy for ever. Once one message has been logged, every
  flush fails to connect and logs that as an error, which the next flush finds: after any number
  of flushes the error of the last one waits for the next, and the files hold the errors of all
  the flushes before. With a host that is not a numeric address the first flush of a message
  throws, which the log thread does not catch.
\<close>

theorem graylog_unreachable_feeds_itself:
  assumes "graylog_configured s" "li_messages li \<noteq> []" "li_queue li = []" "nows \<noteq> []"
  shows "(ga_from_string api (st_graylog_host s) \<and> \<not> ga_connect api (st_graylog_host s) (st_graylog_port s) \<and>
      ERROR \<le> global \<longrightarrow>
      (\<exists>li'. flush_cycles api s global nows li = Ok li' \<and> li_messages li' = [graylog_error s (last nows)] \<and>
        li_queue li' = [] \<and> li_files li' = fold (\<lambda>batch. fold (on_log batch) (li_handlers li))
          (li_messages li # map (\<lambda>t. [graylog_error s t]) (butlast nows)) (li_files li))) \<and>
    (\<not> ga_from_string api (st_graylog_host s) \<longrightarrow> flush_cycles api s global nows li = Throws ''from_string'')"
proof (intro conjI impI)
  assume un: "ga_from_string api (st_graylog_host s) \<and> \<not> ga_connect api (st_graylog_host s) (st_graylog_port s) \<and>
      ERROR \<le> global"
  have "\<exists>li'. flush_cycles api s global nows li = Ok li' \<and> li_messages li' = [graylog_error s (last nows)] \<and>
        li_queue li' = [] \<and> li_handlers li' = li_handlers li \<and> li_files li' = fold (\<lambda>batch. fold (on_log batch) (li_handlers li))
          (li_messages li # map (\<lambda>t. [graylog_error s t]) (butlast nows)) (li_files li)"
    using assms(2-4)
  proof (induction nows arbitrary: li)
    case (Cons now nows)
    obtain ring where cycle: "log_rounds_all api s global [now, now] (flush_logs li) = Ok
        (li\<lparr>li_messages := [graylog_error s now], li_last_messages := ring,
            li_files := fold (on_log (li_messages li)) (li_handlers li) (li_files li)\<rparr>, [])" (is "_ = Ok (?li, [])")
      using unreachable_cycle [of s api global li now] assms(1) un Cons.prems(1,2) by blast
    show ?case
    proof (cases nows)
      case Nil
      with cycle Cons.prems(2) show ?thesis by (simp del: log_rounds_all.simps)
    next
      case (Cons n2 ns)
      with Cons.IH [of ?li] Cons.prems(2) cycle show ?thesis by (simp del: log_rounds_all.simps)
    qed
  qed simp
  then show "\<exists>li'. flush_cycles api s global nows li = Ok li' \<and> li_messages li' = [graylog_error s (last nows)] \<and>
        li_queue li' = [] \<and> li_files li' = fold (\<lambda>batch. fold (on_log batch) (li_handlers li))
          (li_messages li # map (\<lambda>t. [graylog_error s t]) (butlast nows)) (li_files li)" by blast
next
  assume "\<not> ga_from_string api (st_graylog_host s)"
  with assms show "flush_cycles api s global nows li = Throws ''from_string''"
    by (cases nows) (simp_all add: log_round_all_def flush_logs_def graylog_on_log_def graylog_configured_def)
qed

definition ex_graylog_settings :: settings where
  "ex_graylog_settings = default_settings\<lparr>st_graylog_host := ''10.0.0.1''\<rparr>"

definition ex_graylog_log :: "json_value log_instance" where
  "ex_graylog_log = (log_start [] ''a.log'' ''d'' ''a'' (\<lambda>_. []))\<lparr>li_messages := [graylog_error ex_graylog_settings 1]\<rparr>"

theorem graylog_unreachable_feeds_itself_witness:
  "\<exists>li'. flush_cycles \<lparr>ga_from_string = (\<lambda>_. True), ga_connect = (\<lambda>_ _. False), ga_write_json = (\<lambda>_. [])\<rparr>
       ex_graylog_settings ERROR [2, 3, 4] ex_graylog_log = Ok li' \<and>
     li_messages li' = [graylog_error ex_graylog_settings 4]"
proof -
  have "graylog_configured ex_graylog_settings" "li_messages ex_graylog_log \<noteq> []" "li_queue ex_graylog_log = []"
    by (simp_all add: graylog_configured_def ex_graylog_settings_def default_settings_def ex_graylog_log_def log_start_def)
  from graylog_unreachable_feeds_itself [OF this, of "[2, 3, 4]"
      "\<lparr>ga_from_string = (\<lambda>_. True), ga_connect = (\<lambda>_ _. False), ga_write_json = (\<lambda>_. [])\<rparr>" ERROR]
  show ?thesis by auto
qed

end
