(* ===== verification/Watcher.thy ===== *)
theory Watcher
  imports Merge_Online Db
begin

text \<open>
  The thread of an on-line watcher, \<open>MergeOnline::OnlineWatcher::run\<close> in
  \<open>src/service/MergeOnline.cpp\<close>: it borrows a connection, loads the table and subscribes to its
  notifications in one transaction, then follows them, a second at a time, until it is time to load
  the table again. The database is the parameter of \<open>Db\<close> over a world \<open>'w\<close>, extended by the calls
  this loop makes of \<open>libpq\<close> and of the system.
\<close>

section \<open>The loop over the notifications\<close>

text \<open>
  \<open>wa_socket c\<close> is \<open>PQsocket\<close> of the connection, of the null pointer when \<open>c\<close> is false;
  \<open>wa_select\<close> whether \<open>select\<close> succeeds within its second; \<open>wa_notifies\<close> what \<open>PQconsumeInput\<close> and
  the loop of \<open>PQnotifies\<close> then give, in order, each with the reading of its JSON text; \<open>wa_running\<close> is
  \<open>app::running() && getStatus() == RUNNING\<close>.
\<close>

type_synonym notification = "string \<times> (string \<Rightarrow> string outcome)"

record 'w watch_api =
  wa_pq :: "'w pq_api"
  wa_socket :: "bool \<Rightarrow> 'w \<Rightarrow> int"
  wa_select :: "int \<Rightarrow> 'w \<Rightarrow> bool \<times> 'w"
  wa_notifies :: "'w \<Rightarrow> notification list \<times> 'w"
  wa_running :: "'w \<Rightarrow> bool"

fun online_events :: "bool \<Rightarrow> notification list \<Rightarrow> online_watcher \<Rightarrow> online_watcher outcome" where
  "online_events garbage [] w = Ok w"
| "online_events garbage ((event, link) # ns) w = bind_outcome (online_event garbage event link w) (online_events garbage ns)"

text \<open>\<open>FD_SET\<close> on a number outside \<open>[0, FD_SETSIZE)\<close> is undefined.\<close>

definition fd_ok :: "int \<Rightarrow> bool" where
  "fd_ok sock \<longleftrightarrow> 0 \<le> sock \<and> sock < 1024"

text \<open>
  \<open>while (waited-- && app::running() && ...)\<close>: \<open>waited\<close> is an \<open>int\<close>; counting down below its least
  value is undefined. The result is the watcher, the world and how the loop ended.
\<close>

function watch_loop ::
  "'w watch_api \<Rightarrow> bool \<Rightarrow> int \<Rightarrow> int \<Rightarrow> online_watcher \<Rightarrow> 'w \<Rightarrow> online_watcher outcome \<times> 'w" where
  "watch_loop api garbage sock waited w s =
     (if waited \<le> - (2 ^ 31) then (Undefined, s)
      else if waited = 0 \<or> \<not> wa_running api s then (Ok w, s)
      else if \<not> fd_ok sock then (Undefined, s)
      else case wa_select api sock s of
        (False, s) \<Rightarrow> (Ok w, s)
      | (True, s) \<Rightarrow>
          (case wa_notifies api s of (ns, s) \<Rightarrow>
             (case online_events garbage ns w of
                Ok w \<Rightarrow> watch_loop api garbage sock (waited - 1) w s
              | e \<Rightarrow> (e, s))))"
  by pat_completeness auto
termination
  by (relation "measure (\<lambda>(api, garbage, sock, waited, w, s). nat (waited + 2 ^ 31))") auto

declare watch_loop.simps [simp del]

section \<open>A session\<close>

text \<open>The rows of the table as the loop \<open>while (res.next())\<close> reads them; a column that is not there is undefined.\<close>

definition row_of :: "bdb_result \<Rightarrow> db_row" where
  "row_of br c = (case br_get_s br c of Ok t \<Rightarrow> t | _ \<Rightarrow> [])"

definition online_rows :: "bdb_result \<Rightarrow> db_row list outcome" where
  "online_rows res =
     (if \<forall>br \<in> set (br_rows (\<lambda>br. br) res). \<forall>c \<in> set [''uniqueid_orig'', ''uniqueid_term'', ''link_start_time''].
           br_get_s br c \<noteq> Undefined
      then Ok (map row_of (br_rows (\<lambda>br. br) res)) else Undefined)"

definition listen_statements :: "string list" where
  "listen_statements =
     [''LISTEN '' @ dquoted link_insert, ''LISTEN '' @ dquoted link_update, ''LISTEN '' @ dquoted link_delete, ''COMMIT'']"

fun exec_all :: "'w pq_api \<Rightarrow> string list \<Rightarrow> bdb \<Rightarrow> 'w \<Rightarrow> (unit, 'w) db_result" where
  "exec_all api [] db s = (Inr (), db, s)"
| "exec_all api (q # qs) db s =
     (case bdb_exec api q db s of
        (Inl e, db, s) \<Rightarrow> (Inl e, db, s)
      | (Inr _, db, s) \<Rightarrow> exec_all api qs db s)"

definition exn_text :: "db_exn \<Rightarrow> string" where
  "exn_text e = (case e of DbExn x \<Rightarrow> ex_message x | OtherExn m \<Rightarrow> m)"

text \<open>
  From \<open>BEGIN\<close> to \<open>COMMIT\<close>: what was loaded stays loaded when a later statement throws.
\<close>

definition session_open ::
  "'w watch_api \<Rightarrow> bool \<Rightarrow> online_watcher \<Rightarrow> bdb \<Rightarrow> 'w \<Rightarrow> unit outcome \<times> online_watcher \<times> bdb \<times> 'w" where
  "session_open api garbage w db s =
     (case bdb_exec (wa_pq api) ''BEGIN'' db s of
        (Inl e, db, s) \<Rightarrow> (Throws (exn_text e), w, db, s)
      | (Inr _, db, s) \<Rightarrow>
          (case bdb_query (wa_pq api) ''select * from call_leg_link_online'' db s of
             (Inl e, db, s) \<Rightarrow> (Throws (exn_text e), w, db, s)
           | (Inr res, db, s) \<Rightarrow>
               (case online_rows res of
                  Ok rows \<Rightarrow>
                    (case exec_all (wa_pq api) listen_statements db s of
                       (Inl e, db, s) \<Rightarrow> (Throws (exn_text e), online_load garbage rows w, db, s)
                     | (Inr _, db, s) \<Rightarrow> (Ok (), online_load garbage rows w, db, s))
                | _ \<Rightarrow> (Undefined, w, db, s))))"

text \<open>The socket is asked for before the first statement opens the connection.\<close>

definition watch_session ::
  "'w watch_api \<Rightarrow> bool \<Rightarrow> int \<Rightarrow> online_watcher \<Rightarrow> bdb \<Rightarrow> 'w \<Rightarrow> online_watcher outcome \<times> bdb \<times> 'w" where
  "watch_session api garbage table_reload_time w db s =
     (let sock = wa_socket api (db_connected db) s;
          waited = int32 table_reload_time
      in case session_open api garbage w db s of
           (Ok _, w, db, s) \<Rightarrow> (case watch_loop api garbage sock waited w s of (r, s) \<Rightarrow> (r, db, s))
         | (Throws m, w, db, s) \<Rightarrow> (Throws m, db, s)
         | (_, w, db, s) \<Rightarrow> (Undefined, db, s))"

text \<open>
  The outer loop, \<open>n\<close> sessions of it at most. Each borrows the oldest connection of the pool, or a
  new one, and the end of the round gives it back; \<open>now\<close> is the clock then. What a session throws
  leaves \<open>run\<close>, and with it the thread.
\<close>

fun watch_run ::
  "'w watch_api \<Rightarrow> bool \<Rightarrow> int \<Rightarrow> ('w \<Rightarrow> int) \<Rightarrow> nat \<Rightarrow> online_watcher \<Rightarrow> bdb db_pool \<Rightarrow> 'w \<Rightarrow>
   online_watcher outcome \<times> bdb db_pool \<times> 'w" where
  "watch_run api garbage table_reload_time now 0 w pool s = (Ok w, pool, s)"
| "watch_run api garbage table_reload_time now (Suc n) w pool s =
     (if \<not> wa_running api s then (Ok w, pool, s)
      else case pool_get bdb_new pool of (db, pool) \<Rightarrow>
        (case watch_session api garbage table_reload_time w db s of (r, db, s) \<Rightarrow>
           (case r of
              Ok w \<Rightarrow> watch_run api garbage table_reload_time now n w (pool_back (now s) db pool) s
            | e \<Rightarrow> (e, pool_back (now s) db pool, s))))"

text \<open>The constructor makes a watcher for every pool of on-line connections and starts it.\<close>

definition online_new :: "nat \<Rightarrow> online_watcher list" where
  "online_new pools = map (\<lambda>i. ow_new (int i)) [0..<pools]"

definition getWatcherSize :: "online_watcher list \<Rightarrow> nat" where
  "getWatcherSize ws = length ws"


section \<open>Changes of the table\<close>

text \<open>
  The committed changes of the table of the on-line links, as (originating, terminating) pairs. The
  triggers of the database, which are not in the sources, notify each with its event and the row.
\<close>

datatype change = Inserted "string \<times> string" | Updated "string \<times> string" | Deleted "string \<times> string"

fun apply_change :: "change \<Rightarrow> (string \<times> string) multiset \<Rightarrow> (string \<times> string) multiset" where
  "apply_change (Inserted p) t = add_mset p t"
| "apply_change (Updated p) t = t"
| "apply_change (Deleted p) t = t - {#p#}"

fun notifies :: "change \<Rightarrow> notification \<Rightarrow> bool" where
  "notifies (Inserted p) n \<longleftrightarrow> fst n = link_insert \<and> well_formed (snd n) (fst p) (snd p)"
| "notifies (Updated p) n \<longleftrightarrow> fst n = link_update \<and> well_formed (snd n) (fst p) (snd p)"
| "notifies (Deleted p) n \<longleftrightarrow> fst n = link_delete \<and> well_formed (snd n) (fst p) (snd p)"

definition table_after :: "change list \<Rightarrow> (string \<times> string) multiset" where
  "table_after cs = fold apply_change cs {#}"

text \<open>The notifications the loop takes in, in order.\<close>

function loop_notes :: "'w watch_api \<Rightarrow> int \<Rightarrow> int \<Rightarrow> 'w \<Rightarrow> notification list" where
  "loop_notes api sock waited s =
     (if waited \<le> - (2 ^ 31) \<or> waited = 0 \<or> \<not> wa_running api s \<or> \<not> fst (wa_select api sock s) then []
      else case wa_notifies api (snd (wa_select api sock s)) of (ns, s) \<Rightarrow> ns @ loop_notes api sock (waited - 1) s)"
  by pat_completeness auto
termination
  by (relation "measure (\<lambda>(api, sock, waited, s). nat (waited + 2 ^ 31))") auto

declare loop_notes.simps [simp del]

lemma online_events_append:
  "online_events g (ns @ ms) w = bind_outcome (online_events g ns w) (online_events g ms)"
proof (induction g ns w rule: online_events.induct)
  case (2 g event link ns w)
  then show ?case by (cases "online_event g event link w") auto
qed simp

lemma watch_loop_events:
  "watch_loop api g sock waited w s = (Ok w', s') \<Longrightarrow> online_events g (loop_notes api sock waited s) w = Ok w'"
proof (induction api g sock waited w s rule: watch_loop.induct)
  case (1 api g sock waited w s)
  show ?case
  proof (cases "waited = 0 \<or> \<not> wa_running api s \<or> \<not> fst (wa_select api sock s)")
    case True
    then show ?thesis using "1.prems"
      by (subst loop_notes.simps; subst (asm) watch_loop.simps) (auto split: if_splits prod.splits)
  next
    case False
    obtain s1 where sel: "wa_select api sock s = (True, s1)" using False by (cases "wa_select api sock s") auto
    obtain ns s2 where ns: "wa_notifies api s1 = (ns, s2)" by fastforce
    from "1.prems" False sel ns obtain w1 where w1: "online_events g ns w = Ok w1"
      "watch_loop api g sock (waited - 1) w1 s2 = (Ok w', s')" "\<not> waited \<le> - (2 ^ 31)" "fd_ok sock"
      by (subst (asm) watch_loop.simps) (auto split: if_splits outcome.splits)
    have "online_events g (loop_notes api sock (waited - 1) s2) w1 = Ok w'"
      using False w1 sel ns by (intro "1.IH") auto
    then show ?thesis using False w1 sel ns
      by (subst loop_notes.simps) (simp add: online_events_append)
  qed
qed

lemma online_events_changes:
  "list_all2 notifies cs ns \<Longrightarrow>
   \<exists>w'. online_events g ns w = Ok w' \<and> ow_ready w' = ow_ready w \<and> online_pairs w' = fold apply_change cs (online_pairs w)"
proof (induction arbitrary: w rule: list_all2_induct)
  case (Cons c cs n ns)
  obtain event link where n: "n = (event, link)" by fastforce
  have "\<exists>w1. online_event g event link w = Ok w1 \<and> ow_ready w1 = ow_ready w \<and>
      online_pairs w1 = apply_change c (online_pairs w)"
    using Cons.hyps(1) online_event_pairs [of link _ _ g event w] n by (cases c) fastforce+
  then obtain w1 where "online_event g event link w = Ok w1" "ow_ready w1 = ow_ready w"
      "online_pairs w1 = apply_change c (online_pairs w)" by blast
  with Cons.IH [of w1] n show ?case by auto
qed simp

lemma fold_change_keeps: "p \<in># t \<Longrightarrow> Deleted p \<notin> set cs \<Longrightarrow> p \<in># fold apply_change cs t"
proof (induction cs arbitrary: t)
  case (Cons c cs)
  then have "p \<in># apply_change c t" by (cases c) (auto simp: in_diff_count)
  with Cons show ?case by simp
qed simp

lemma session_open_ready: "session_open api g w db s = (Ok u, w1, db1, s1) \<Longrightarrow> ow_ready w1"
  by (auto simp: session_open_def online_load_def split: prod.splits sum.splits outcome.splits)

lemma check_one: "ow_ready w \<Longrightarrow> p \<in># online_pairs w \<Longrightarrow> fst p \<noteq> [] \<Longrightarrow> checkUniqueIdOrig (fst p) [w] = Some True"
  proof -
  assume w: "ow_ready w" "p \<in># online_pairs w" "fst p \<noteq> []"
  then obtain r where "r \<in> set (ow_data w)" "cllo_uniqueid_orig r = fst p"
    by (auto simp: online_pairs_def link_pair_def)
  with w show ?thesis using check_loop_iff [of "[w]" "fst p" cllo_uniqueid_orig]
    by (auto simp: checkUniqueIdOrig_def)
qed

section \<open>An example database\<close>

text \<open>One link on line at the time of the \<open>SELECT\<close>, no notification, a socket once the connection is open.\<close>

definition ex_table :: pg_result where
  "ex_table = \<lparr>pg_ntuples = 1, pg_getvalue = (\<lambda>r n. Some ''a''), pg_getisnull = (\<lambda>r n. False)\<rparr>"

definition ex_watch :: "unit watch_api" where
  "ex_watch = \<lparr>wa_pq =
       \<lparr>api_connectdb = (\<lambda>c s. (None, s)),
        api_execute = (\<lambda>q s. ((if q = ''select * from call_leg_link_online'' then PGRES_TUPLES_OK else PGRES_COMMAND_OK,
          [], ex_table), s)),
        api_execParams = (\<lambda>q ps s. ((PGRES_COMMAND_OK, [], ex_table), s))\<rparr>,
     wa_socket = (\<lambda>c s. if c then 5 else - 1), wa_select = (\<lambda>sock s. (True, s)),
     wa_notifies = (\<lambda>s. ([], s)), wa_running = (\<lambda>s. True)\<rparr>"

lemma ex_connect:
  "db_need_advisory_lock db = 0 \<Longrightarrow> bdb_connect (wa_pq ex_watch) db s = (Inr (), db\<lparr>db_connected := True\<rparr>, s)"
  by (simp add: bdb_connect_def connect_lock_def connect_timezone_def ex_watch_def timezone_statement_def)

lemma ex_exec:
  "c_str q \<noteq> ''select * from call_leg_link_online'' \<Longrightarrow> db_need_advisory_lock db = 0 \<Longrightarrow>
   bdb_exec (wa_pq ex_watch) q db s = (Inr (), db\<lparr>db_noticies := [], db_connected := True\<rparr>, s)"
  by (simp add: bdb_exec_def Let_def numeral_2_eq_2 ex_connect) (simp add: ex_watch_def)

lemma ex_query:
  "c_str q = ''select * from call_leg_link_online'' \<Longrightarrow> db_need_advisory_lock db = 0 \<Longrightarrow>
   bdb_query (wa_pq ex_watch) q db s
     = (Inr (br_new ex_table []), db\<lparr>db_noticies := [], db_connected := True\<rparr>, s)"
  by (simp add: bdb_query_def Let_def numeral_2_eq_2 ex_connect) (simp add: ex_watch_def)

lemma ex_texts:
  "c_str ''select * from call_leg_link_online'' = ''select * from call_leg_link_online''"
  "c_str ''BEGIN'' = ''BEGIN''" "c_str ''COMMIT'' = ''COMMIT''"
  by (simp_all add: c_str_def char_of_def)

lemma ex_listen: "c_str (''LISTEN '' @ t) \<noteq> ''select * from call_leg_link_online''"
  by (simp add: c_str_def char_of_def)

lemma ex_rows: "\<exists>row. online_rows (br_new ex_table []) = Ok [row] \<and> row ''uniqueid_orig'' = ''a'' \<and> row ''uniqueid_term'' = ''a''"
proof -
  have get: "br_get_s ((br_new ex_table [])\<lparr>br_index := i\<rparr>) c = Ok ''a''" for i c
    by (simp add: br_get_s_def br_field_def br_new_def ex_table_def c_str_def char_of_def)
  have "pg_ntuples ex_table = 1" by (simp add: ex_table_def)
  then show ?thesis by (simp add: online_rows_def br_rows_all get row_of_def)
qed

lemma ex_open:
  assumes "db_need_advisory_lock db = 0"
  shows "\<exists>w1 db1. session_open ex_watch g w db s = (Ok (), w1, db1, s) \<and> online_pairs w1 = {#(''a'', ''a'')#}"
proof -
  obtain row where row: "online_rows (br_new ex_table []) = Ok [row]" "row ''uniqueid_orig'' = ''a''" "row ''uniqueid_term'' = ''a''"
    using ex_rows by blast
  have pair: "online_pairs (online_load g [row] w) = {#(''a'', ''a'')#}"
    using row(2,3) by (simp add: online_pairs_def online_load_def row_s_def c_str_def char_of_def)
  show ?thesis using assms row(1) pair
    by (simp add: session_open_def listen_statements_def ex_exec ex_query ex_texts ex_listen del: append.simps)
qed

lemma ex_notes: "loop_notes ex_watch sock 1 s = []"
  by (subst loop_notes.simps, subst loop_notes.simps) (simp add: ex_watch_def)

lemma ex_loop: "watch_loop ex_watch g 5 1 w s = (Ok w, s)"
  by (subst watch_loop.simps, subst watch_loop.simps) (simp add: ex_watch_def fd_ok_def)

section \<open>Properties\<close>

text \<open>
  C13 (refinement): what a session of the watcher holds. Let \<open>cs\<close> be the committed changes of the
  table, the \<open>SELECT\<close> having seen the first \<open>i\<close>, and the notifications starting with change \<open>j\<close>, which
  is where the \<open>COMMIT\<close> of the \<open>LISTEN\<close>s puts it. A session that ends leaves the watcher ready with the
  loaded rows changed as \<open>cs\<close> from \<open>j\<close> on: the table itself when \<open>i = j\<close>. But the \<open>SELECT\<close> comes
  first, so changes can fall between the two: a link deleted there stays, and \<open>checkUniqueIdOrig\<close> goes on
  to answer that its channel is on line, which makes the link reader wait.
\<close>

theorem watcher_session_follows:
  assumes "session_open api g w db s = (Ok (), w1, db1, s1)" "online_pairs w1 = table_after (take i cs)"
    "list_all2 notifies (drop j cs) (loop_notes api (wa_socket api (db_connected db) s) (int32 T) s1)"
    "watch_session api g T w db s = (Ok w', db', s')"
  shows "ow_ready w' \<and> online_pairs w' = fold apply_change (drop j cs) (table_after (take i cs)) \<and>
    (i = j \<longrightarrow> online_pairs w' = table_after cs) \<and>
    (\<forall>p. p \<in># table_after (take i cs) \<and> Deleted p \<notin> set (drop j cs) \<and> fst p \<noteq> [] \<longrightarrow>
       checkUniqueIdOrig (fst p) [w'] = Some True)"
proof -
  have "online_events g (loop_notes api (wa_socket api (db_connected db) s) (int32 T) s1) w1 = Ok w'"
    using assms(1,4) by (intro watch_loop_events) (auto simp: watch_session_def split: prod.splits)
  with online_events_changes [OF assms(3), of g w1] assms(2) session_open_ready [OF assms(1)]
  have w': "ow_ready w'" "online_pairs w' = fold apply_change (drop j cs) (table_after (take i cs))" by auto
  have "i = j \<longrightarrow> online_pairs w' = table_after cs"
    using w'(2) unfolding table_after_def by (metis append_take_drop_id comp_apply fold_append)
  with w' fold_change_keeps check_one show ?thesis by simp
qed

theorem watcher_session_follows_witness:
  "let p = (''a'', ''a'') in
   \<exists>w'. fst (watch_session ex_watch True 1 (ow_new 0) ((bdb_new ''c'')\<lparr>db_connected := True\<rparr>) ()) = Ok w' \<and>
     table_after [Inserted p, Deleted p] = {#} \<and> online_pairs w' = {#p#} \<and> checkUniqueIdOrig ''a'' [w'] = Some True"
proof -
  let ?p = "(''a'', ''a'')" and ?db = "(bdb_new ''c'')\<lparr>db_connected := True\<rparr>"
  obtain w1 db1 where o: "session_open ex_watch True (ow_new 0) ?db () = (Ok (), w1, db1, ())"
    and pairs: "online_pairs w1 = {#?p#}" using ex_open [of ?db True "ow_new 0" "()"] by (auto simp: bdb_new_def)
  have s: "watch_session ex_watch True 1 (ow_new 0) ?db () = (Ok w1, db1, ())"
    using o by (simp add: watch_session_def ex_loop) (simp add: ex_watch_def ex_loop [unfolded ex_watch_def])
  have t: "table_after (take 1 [Inserted ?p, Deleted ?p]) = {#?p#}" "table_after [Inserted ?p, Deleted ?p] = {#}"
    by (simp_all add: table_after_def)
  have note_list: "list_all2 notifies (drop 2 [Inserted ?p, Deleted ?p])
      (loop_notes ex_watch (wa_socket ex_watch (db_connected ?db) ()) (int32 1) ())"
    by (simp add: ex_notes)
  from watcher_session_follows [OF o _ note_list s, of 1] pairs t s show ?thesis by (auto simp: Let_def)
qed

text \<open>
  C25 (error): the first session of a watcher. The pool is empty, so the connection is new and not
  yet open when its socket is asked for; \<open>PQsocket\<close> of the null pointer is \<open>-1\<close>. The session
  either throws, which leaves the thread, or reaches \<open>FD_SET\<close> with \<open>-1\<close>, which is undefined: it never
  gets to follow its notifications, provided the watcher is not stopped while it opens the session.
\<close>

theorem watcher_first_session:
  assumes "pool_connections pool = []" "wa_socket api False s = - 1" "wa_running api s" "0 < T" "T < 2 ^ 31"
    "\<And>w1 db1 s1. session_open api g w (bdb_new (pool_string pool)) s = (Ok (), w1, db1, s1) \<Longrightarrow> wa_running api s1"
  shows "fst (watch_run api g T now (Suc n) w pool s) =
    (case session_open api g w (bdb_new (pool_string pool)) s of (Throws m, _) \<Rightarrow> Throws m | _ \<Rightarrow> Undefined)"
proof -
  obtain r w1 db1 s1 where o: "session_open api g w (bdb_new (pool_string pool)) s = (r, w1, db1, s1)"
    by (metis prod.collapse)
  have "fst (watch_loop api g (- 1) (int32 T) w1 s1) = Undefined" if "r = Ok ()"
    using assms(4-6) o that by (subst watch_loop.simps) (simp add: fd_ok_def)
  with assms(1-3) o show ?thesis
    by (cases r) (auto simp: pool_get_def watch_session_def bdb_new_def Let_def split: prod.splits)
qed

theorem watcher_first_session_witness:
  "fst (watch_run ex_watch True 300 (\<lambda>s. 0) 1 (ow_new 0) (pool_new ''c'') ()) = Undefined"
proof -
  obtain w1 db1 where o: "session_open ex_watch True (ow_new 0) (bdb_new ''c'') () = (Ok (), w1, db1, ())"
    using ex_open [of "bdb_new ''c''" True "ow_new 0" "()"] by (auto simp: bdb_new_def)
  then show ?thesis
    using watcher_first_session [of "pool_new ''c''" ex_watch "()" 300 True "ow_new 0" "\<lambda>s. 0" 0]
    by (simp add: pool_new_def) (simp add: ex_watch_def)
qed

end
