(* ===== verification/Ownership.thy ===== *)
theory Ownership
  imports Db_Result
begin

text \<open>
  Who frees what: the results of \<open>libpq\<close> that the objects of \<open>src/db/BDbResult.cpp\<close> own, and the C
  strings of \<open>src/db/ParamQuery.cpp\<close>. Both classes are moved and never copied. Objects live in numbered
  variables; a program creates them, moves one into a new or an existing variable and destroys
  them, in any order the language allows.
\<close>

section \<open>Programs that move owners\<close>

datatype 'o own_op = Create nat 'o | Move_new nat nat | Move_assign nat nat | Destroy nat

record ('o, 'h) own_state =
  ow_objs :: "'o option list"
  ow_opened :: "'h multiset"
  ow_freed :: "'h multiset"
  ow_lost :: "'h multiset"

abbreviation free_var :: "'o option list \<Rightarrow> nat \<Rightarrow> bool" where
  "free_var objs v \<equiv> v < length objs \<and> objs ! v = None"

abbreviation holds :: "'o option list \<Rightarrow> nat \<Rightarrow> 'o \<Rightarrow> bool" where
  "holds objs v obj \<equiv> v < length objs \<and> objs ! v = Some obj"

text \<open>
  A step, with the class's own operations: \<open>move b\<close> is the new object and what is left of \<open>b\<close>;
  \<open>assign a b\<close> the two after \<open>a = std::move(b)\<close> and what that frees; \<open>clear\<close> what the destructor frees.
\<close>

inductive own_step ::
  "('o \<Rightarrow> 'h multiset) \<Rightarrow> ('o \<Rightarrow> 'o \<times> 'o) \<Rightarrow> ('o \<Rightarrow> 'o \<Rightarrow> 'o \<times> 'o \<times> 'h list) \<Rightarrow> ('o \<Rightarrow> 'h list) \<Rightarrow>
   ('o \<Rightarrow> 'h multiset) \<Rightarrow> 'o own_op \<Rightarrow> ('o, 'h) own_state \<Rightarrow> ('o, 'h) own_state \<Rightarrow> bool"
  for handles :: "'o \<Rightarrow> 'h multiset" and move assign clear and drops :: "'o \<Rightarrow> 'h multiset" where
  create: "free_var (ow_objs s) v \<Longrightarrow>
    own_step handles move assign clear drops (Create v obj) s
      (s\<lparr>ow_objs := (ow_objs s)[v := Some obj], ow_opened := ow_opened s + handles obj\<rparr>)"
| move_new: "free_var (ow_objs s) v \<Longrightarrow> holds (ow_objs s) u b \<Longrightarrow> move b = (a, b') \<Longrightarrow>
    own_step handles move assign clear drops (Move_new v u) s
      (s\<lparr>ow_objs := (ow_objs s)[v := Some a, u := Some b']\<rparr>)"
| move_assign: "holds (ow_objs s) v a \<Longrightarrow> holds (ow_objs s) u b \<Longrightarrow> v \<noteq> u \<Longrightarrow> assign a b = (a', b', hs) \<Longrightarrow>
    own_step handles move assign clear drops (Move_assign v u) s
      (s\<lparr>ow_objs := (ow_objs s)[v := Some a', u := Some b'], ow_freed := ow_freed s + mset hs,
         ow_lost := ow_lost s + drops a\<rparr>)"
| destroy: "holds (ow_objs s) v obj \<Longrightarrow>
    own_step handles move assign clear drops (Destroy v) s
      (s\<lparr>ow_objs := (ow_objs s)[v := None], ow_freed := ow_freed s + mset (clear obj)\<rparr>)"

inductive own_run ::
  "('o \<Rightarrow> 'h multiset) \<Rightarrow> ('o \<Rightarrow> 'o \<times> 'o) \<Rightarrow> ('o \<Rightarrow> 'o \<Rightarrow> 'o \<times> 'o \<times> 'h list) \<Rightarrow> ('o \<Rightarrow> 'h list) \<Rightarrow>
   ('o \<Rightarrow> 'h multiset) \<Rightarrow> 'o own_op list \<Rightarrow> ('o, 'h) own_state \<Rightarrow> ('o, 'h) own_state \<Rightarrow> bool"
  for handles :: "'o \<Rightarrow> 'h multiset" and move assign clear and drops :: "'o \<Rightarrow> 'h multiset" where
  nil: "own_run handles move assign clear drops [] s s"
| cons: "own_step handles move assign clear drops p s s' \<Longrightarrow> own_run handles move assign clear drops ps s' s'' \<Longrightarrow>
    own_run handles move assign clear drops (p # ps) s s''"

definition own_init :: "nat \<Rightarrow> ('o, 'h) own_state" where
  "own_init n = \<lparr>ow_objs = replicate n None, ow_opened = {#}, ow_freed = {#}, ow_lost = {#}\<rparr>"

definition owned :: "('o \<Rightarrow> 'h multiset) \<Rightarrow> 'o option list \<Rightarrow> 'h multiset" where
  "owned handles objs = sum_list (map (case_option {#} handles) objs)"

lemma owned_update:
  "v < length objs \<Longrightarrow> owned handles (objs[v := x]) + case_option {#} handles (objs ! v) = owned handles objs + case_option {#} handles x"
proof (induction objs arbitrary: v)
  case (Cons y ys)
  then show ?case by (cases v) (auto simp: owned_def ac_simps)
qed simp

lemma mset_cancel:
  fixes x y :: "'h multiset"
  assumes "x + hb + ha = y + p + q" "p + q + (r + t) = ha + hb"
  shows "x + r + t = y"
proof (rule multiset_eqI)
  fix z
  have "count x z + count hb z + count ha z = count y z + count p z + count q z"
    using arg_cong [OF assms(1), of "\<lambda>m. count m z"] by simp
  moreover have "count p z + count q z + (count r z + count t z) = count ha z + count hb z"
    using arg_cong [OF assms(2), of "\<lambda>m. count m z"] by simp
  ultimately show "count (x + r + t) z = count y z" by simp
qed

section \<open>The interface of an owner\<close>

locale owner =
  fixes handles :: "'o \<Rightarrow> 'h multiset"
    and move :: "'o \<Rightarrow> 'o \<times> 'o"
    and assign :: "'o \<Rightarrow> 'o \<Rightarrow> 'o \<times> 'o \<times> 'h list"
    and clear :: "'o \<Rightarrow> 'h list"
    and drops :: "'o \<Rightarrow> 'h multiset"
  assumes move_keeps: "move b = (a, b') \<Longrightarrow> handles a + handles b' = handles b"
    and assign_keeps: "assign a b = (a', b', hs) \<Longrightarrow> handles a' + handles b' + mset hs + drops a = handles a + handles b"
    and clear_all: "mset (clear a) = handles a"
begin

lemma step_conserves:
  assumes "own_step handles move assign clear drops p s s'"
    "ow_opened s = owned handles (ow_objs s) + ow_freed s + ow_lost s"
  shows "ow_opened s' = owned handles (ow_objs s') + ow_freed s' + ow_lost s'"
  using assms
proof cases
  case (create v obj)
  then show ?thesis using owned_update [of v "ow_objs s" handles "Some obj"] assms(2) by (simp add: ac_simps)
next
  case (move_new v u b a b')
  then have "u \<noteq> v" by auto
  with move_new have "owned handles ((ow_objs s)[v := Some a, u := Some b']) + handles b = owned handles (ow_objs s) + handles a + handles b'"
    using owned_update [of v "ow_objs s" handles "Some a"] owned_update [of u "(ow_objs s)[v := Some a]" handles "Some b'"]
    by simp
  then have "owned handles ((ow_objs s)[v := Some a, u := Some b']) = owned handles (ow_objs s)"
    using mset_cancel [of _ "handles b" "{#}" "owned handles (ow_objs s)" "handles a" "handles b'" "{#}" "{#}"]
      move_keeps [OF move_new(5)] by simp
  with move_new assms(2) show ?thesis by simp
next
  case (move_assign v a u b a' b' hs)
  let ?o = "(ow_objs s)[v := Some a', u := Some b']"
  have "owned handles ?o + handles b + handles a = owned handles (ow_objs s) + handles a' + handles b'"
    using move_assign owned_update [of v "ow_objs s" handles "Some a'"] owned_update [of u "(ow_objs s)[v := Some a']" handles "Some b'"]
    by (simp add: ac_simps)
  moreover have "handles a' + handles b' + (mset hs + drops a) = handles a + handles b"
    using assign_keeps move_assign by (simp add: ac_simps)
  ultimately have "owned handles ?o + mset hs + drops a = owned handles (ow_objs s)"
    by (rule mset_cancel)
  with move_assign assms(2) show ?thesis by (simp add: ac_simps)
next
  case (destroy v obj)
  then show ?thesis using owned_update [of v "ow_objs s" handles None] clear_all [of obj] assms(2) by (simp add: ac_simps)
qed

lemma run_conserves:
  "own_run handles move assign clear drops ps s s' \<Longrightarrow>
   ow_opened s = owned handles (ow_objs s) + ow_freed s + ow_lost s \<Longrightarrow>
   ow_opened s' = owned handles (ow_objs s') + ow_freed s' + ow_lost s'"
  by (induction ps s s' rule: own_run.induct) (auto dest: step_conserves)

end

section \<open>\<open>BDbResult\<close>\<close>

definition br_handles :: "bdb_result \<Rightarrow> pg_result multiset" where
  "br_handles br = (case br_res br of None \<Rightarrow> {#} | Some res \<Rightarrow> {#res#})"

text \<open>The destructor: \<open>PQclear\<close> of a result that is there.\<close>

definition br_destroy :: "bdb_result \<Rightarrow> pg_result list" where
  "br_destroy br = (case br_res br of None \<Rightarrow> [] | Some res \<Rightarrow> [res])"

text \<open>\<open>a = std::move(bd)\<close> of two different objects: both afterwards, and what is cleared.\<close>

definition br_move_assign :: "bdb_result \<Rightarrow> bdb_result \<Rightarrow> bdb_result \<times> bdb_result \<times> pg_result list" where
  "br_move_assign a bd =
     (a\<lparr>br_res := br_res bd, br_index := br_index bd, br_count := br_count bd, br_noticies := br_noticies bd\<rparr>,
      \<lparr>br_res = None, br_count = 0, br_index = - 1, br_noticies = []\<rparr>,
      (case br_res a of None \<Rightarrow> [] | Some res \<Rightarrow> [res]))"

interpretation brs: owner br_handles br_move br_move_assign br_destroy "\<lambda>a. {#}"
  by unfold_locales
    (auto simp: br_handles_def br_move_def br_move_assign_def br_destroy_def split: option.splits)

section \<open>\<open>ParamQuery\<close>\<close>

definition pq_handles :: "param_query \<Rightarrow> string multiset" where
  "pq_handles q = mset (List.map_filter (\<lambda>p. p) (concat (pq_rows q)))"

text \<open>The move constructor. A moved string and a moved vector are left empty.\<close>

definition pq_move :: "param_query \<Rightarrow> param_query \<times> param_query" where
  "pq_move q = (\<lparr>pq_query = pq_query q, pq_width = pq_width q, pq_rows = pq_rows q\<rparr>,
     \<lparr>pq_query = [], pq_width = 0, pq_rows = []\<rparr>)"

text \<open>The assignment lets the vector of the target go, whose elements are plain pointers.\<close>

definition pq_move_assign :: "param_query \<Rightarrow> param_query \<Rightarrow> param_query \<times> param_query \<times> string list" where
  "pq_move_assign a q = (a\<lparr>pq_query := pq_query q, pq_width := pq_width q, pq_rows := pq_rows q\<rparr>,
     \<lparr>pq_query = [], pq_width = 0, pq_rows = []\<rparr>, [])"

text \<open>\<open>delete[]\<close> of every pointer, of which the null pointers do nothing.\<close>

definition pq_destroy :: "param_query \<Rightarrow> string list" where
  "pq_destroy q = List.map_filter (\<lambda>p. p) (concat (pq_rows q))"

interpretation pqs: owner pq_handles pq_move pq_move_assign pq_destroy pq_handles
  by unfold_locales
    (auto simp: pq_handles_def pq_move_def pq_move_assign_def pq_destroy_def map_filter_simps)

lemma lost_grows_only:
  "own_step h m as c d p s s' \<Longrightarrow> (\<And>a. d a = {#}) \<Longrightarrow> ow_lost s = {#} \<Longrightarrow> ow_lost s' = {#}"
  by (auto elim!: own_step.cases)

lemma run_loses_nothing:
  "own_run h m as c d ps s s' \<Longrightarrow> (\<And>a. d a = {#}) \<Longrightarrow> ow_lost s = {#} \<Longrightarrow> ow_lost s' = {#}"
  by (induction ps s s' rule: own_run.induct) (auto dest: lost_grows_only)

lemma init_conserves: "ow_opened (own_init n) = owned handles (ow_objs (own_init n)) + ow_freed (own_init n) + ow_lost (own_init n)"
  by (induction n) (simp_all add: own_init_def owned_def)

lemma owned_none: "list_all (\<lambda>x. x = None) objs \<Longrightarrow> owned handles objs = {#}"
  by (induction objs) (auto simp: owned_def)

section \<open>Properties\<close>

text \<open>
  Every result of the database is cleared exactly once. Over any program that
  creates, moves, assigns and destroys \<open>BDbResult\<close> objects, the results handed to constructors
  are those the live objects hold together with those cleared; when no object is left, each has
  been cleared as often as it was handed over. For \<open>ParamQuery\<close> the same count needs a third part: what
  an assignment overwrites is never deleted.
\<close>

theorem results_cleared_once:
  assumes "own_run br_handles br_move br_move_assign br_destroy (\<lambda>a. {#}) ps (own_init n) s"
    "own_run pq_handles pq_move pq_move_assign pq_destroy pq_handles qs (own_init m) t"
  shows "ow_opened s = owned br_handles (ow_objs s) + ow_freed s \<and>
    (list_all (\<lambda>x. x = None) (ow_objs s) \<longrightarrow> ow_freed s = ow_opened s) \<and>
    ow_opened t = owned pq_handles (ow_objs t) + ow_freed t + ow_lost t"
  using brs.run_conserves [OF assms(1) init_conserves] run_loses_nothing [OF assms(1)]
    pqs.run_conserves [OF assms(2) init_conserves] owned_none [of "ow_objs s" br_handles]
  by (simp add: own_init_def)


text \<open>A result moved on and both objects destroyed; a query assigned over one that holds a parameter.\<close>

definition ex_res :: pg_result where
  "ex_res = \<lparr>pg_ntuples = 0, pg_getvalue = (\<lambda>r n. None), pg_getisnull = (\<lambda>r n. True)\<rparr>"

theorem results_cleared_once_witness:
  "\<exists>s t. own_run br_handles br_move br_move_assign br_destroy (\<lambda>a. {#})
       [Create 0 (br_new ex_res []), Move_new 1 0, Destroy 0, Destroy 1] (own_init 2) s \<and>
     own_run pq_handles pq_move pq_move_assign pq_destroy pq_handles
       [Create 0 (pq_addValue ''a'' (pq_new ''q'' 1)), Create 1 (pq_new ''q'' 1), Move_assign 0 1, Destroy 0, Destroy 1] (own_init 2) t \<and>
     ow_freed s = {#ex_res#} \<and> ow_freed s = ow_opened s \<and> ow_freed t = {#} \<and> ow_opened t = {#''a''#}"
proof -
  let ?S = "own_step br_handles br_move br_move_assign br_destroy (\<lambda>a. {#})"
  let ?T = "own_step pq_handles pq_move pq_move_assign pq_destroy pq_handles"
  let ?q = "pq_addValue ''a'' (pq_new ''q'' 1)"
  obtain s where s: "own_run br_handles br_move br_move_assign br_destroy (\<lambda>a. {#})
      [Create 0 (br_new ex_res []), Move_new 1 0, Destroy 0, Destroy 1] (own_init 2) s"
    "ow_freed s = {#ex_res#}" "list_all (\<lambda>x. x = None) (ow_objs s)"
    by (rule_tac that)
      (rule own_run.cons, rule own_step.create, simp add: own_init_def,
       rule own_run.cons, rule own_step.move_new, simp add: own_init_def, simp add: own_init_def, rule surjective_pairing,
       rule own_run.cons, rule own_step.destroy, simp add: own_init_def br_move_def,
       rule own_run.cons, rule own_step.destroy, simp add: own_init_def br_move_def, rule own_run.nil,
       simp_all add: own_init_def br_move_def br_destroy_def br_new_def numeral_2_eq_2)
  obtain t where t: "own_run pq_handles pq_move pq_move_assign pq_destroy pq_handles
       [Create 0 ?q, Create 1 (pq_new ''q'' 1), Move_assign 0 1, Destroy 0, Destroy 1] (own_init 2) t"
    "ow_freed t = {#}" "ow_opened t = {#''a''#}"
    by (rule_tac that)
      (rule own_run.cons, rule own_step.create, simp add: own_init_def,
       rule own_run.cons, rule own_step.create, simp add: own_init_def,
       rule own_run.cons, rule own_step.move_assign, simp add: own_init_def, simp add: own_init_def, simp, rule pq_move_assign_def,
       rule own_run.cons, rule own_step.destroy, simp add: own_init_def,
       rule own_run.cons, rule own_step.destroy, simp add: own_init_def, rule own_run.nil,
       simp_all add: own_init_def pq_destroy_def pq_handles_def pq_addValue_def pq_push_back_def pq_new_def
         map_filter_simps c_str_def char_of_def numeral_2_eq_2)
  from results_cleared_once [OF s(1) t(1)] s t show ?thesis by (intro exI [of _ s] exI [of _ t]) simp
qed

end
