(* ===== verification/Scopes.thy ===== *)
theory Scopes
  imports Utilities
begin

text \<open>
  The scopes of \<open>src/systems/Timer.h\<close>, which start a timer where they are declared and stop it where
  they end, and the iterators of \<open>src/common/array_view.hpp\<close>.
\<close>

section \<open>What a timer shows\<close>

definition isStarted :: "timer \<Rightarrow> bool" where
  "isStarted t \<longleftrightarrow> tr_state t = STARTED"

definition timer_nDoneMeasurements :: "timer \<Rightarrow> nat" where
  "timer_nDoneMeasurements t = tr_nDoneMeasurements t"

definition timer_lastMeasuredInterval :: "timer \<Rightarrow> int" where
  "timer_lastMeasuredInterval t = ck_lastMeasuredInterval (tr_mono t)"

definition timer_totalMeasuredIntervals :: "timer \<Rightarrow> int" where
  "timer_totalMeasuredIntervals t = ck_totalMeasuredIntervals (tr_mono t)"

definition timer_totalConsumedCPUTime :: "timer \<Rightarrow> int" where
  "timer_totalConsumedCPUTime t = ck_totalMeasuredIntervals (tr_cpu t)"

section \<open>\<open>TimerScope\<close>\<close>

text \<open>
  How a block with a scope ends: the constructor throws and the block is not run; the block ends, by a
  return or a throw alike, as \<open>'r\<close>; or the destructor throws, which a destructor must not.
\<close>

datatype 'r scope_end = Not_entered string | Left 'r | Terminates string

definition timer_scope ::
  "nat \<Rightarrow> int \<times> int \<Rightarrow> (timer \<times> 's \<Rightarrow> 'r \<times> timer \<times> 's) \<Rightarrow> int \<times> int \<Rightarrow> timer \<times> 's \<Rightarrow> 'r scope_end \<times> timer \<times> 's" where
  "timer_scope tid enter block leave = (\<lambda>(t, s).
     case timer_start tid (fst enter) (snd enter) t of
       (t, Some m) \<Rightarrow> (Not_entered m, t, s)
     | (t, None) \<Rightarrow>
         (case block (t, s) of (r, t, s) \<Rightarrow>
            (case timer_stop tid (fst leave) (snd leave) t of
               (t, Some m) \<Rightarrow> (Terminates m, t, s)
             | (t, None) \<Rightarrow> (Left r, t, s))))"

lemma timer_stop_same:
  assumes "tr_state t = STOPPED" "timer_start tid c m t = (u, x)"
  shows "\<exists>w. timer_stop tid c' m' u = (w, None) \<and> tr_state w = STOPPED \<and>
    tr_nDoneMeasurements w = tr_nDoneMeasurements t + 1 \<and>
    ck_totalMeasuredIntervals (tr_mono w) = ck_totalMeasuredIntervals (tr_mono t) + (m' - m) \<and>
    ck_totalMeasuredIntervals (tr_cpu w) = ck_totalMeasuredIntervals (tr_cpu t) + (c' - c) \<and>
    ck_lastMeasuredInterval (tr_mono w) = m' - m"
  using assms by (auto simp: timer_start_def timer_stop_def base_start_def base_stop_def close_interval_def Let_def)

lemma timer_start_idle':
  "tr_state t = STOPPED \<Longrightarrow> \<exists>u. timer_start tid c m t = (u, None) \<and> tr_state u = STARTED \<and> tr_startedFrom u = Some tid"
  by (simp add: timer_start_def base_start_def)

section \<open>\<open>TimerScopeGuarded\<close>\<close>

text \<open>
  Several threads over one timer, constructor and destructor of a scope each whole under the lock. A
  thread is outside, inside its scope, or has been thrown out by the constructor; the process is over
  when a destructor throws.
\<close>

datatype guard_op = Enter nat int int | Leave nat int int

record guard_state =
  gs_timer :: timer
  gs_inside :: "nat set"
  gs_terminated :: bool

definition guard_init :: guard_state where
  "guard_init = \<lparr>gs_timer = timer_new, gs_inside = {}, gs_terminated = False\<rparr>"

definition scope_enter :: "nat \<Rightarrow> int \<Rightarrow> int \<Rightarrow> guard_state \<Rightarrow> guard_state" where
  "scope_enter tid c m g =
     (case timer_start tid c m (gs_timer g) of
        (t, Some _) \<Rightarrow> g\<lparr>gs_timer := t\<rparr>
      | (t, None) \<Rightarrow> g\<lparr>gs_timer := t, gs_inside := insert tid (gs_inside g)\<rparr>)"

definition scope_exit :: "nat \<Rightarrow> int \<Rightarrow> int \<Rightarrow> guard_state \<Rightarrow> guard_state" where
  "scope_exit tid c m g =
     (case timer_stop tid c m (gs_timer g) of
        (t, Some _) \<Rightarrow> g\<lparr>gs_timer := t, gs_terminated := True\<rparr>
      | (t, None) \<Rightarrow> g\<lparr>gs_timer := t, gs_inside := gs_inside g - {tid}\<rparr>)"

text \<open>A thread leaves the scope it is inside of.\<close>

inductive guard_reachable :: "guard_state \<Rightarrow> bool" where
  init: "guard_reachable guard_init"
| enter: "guard_reachable g \<Longrightarrow> \<not> gs_terminated g \<Longrightarrow> guard_reachable (scope_enter tid c m g)"
| leave: "guard_reachable g \<Longrightarrow> \<not> gs_terminated g \<Longrightarrow> tid \<in> gs_inside g \<Longrightarrow> guard_reachable (scope_exit tid c m g)"

definition guard_inv :: "guard_state \<Rightarrow> bool" where
  "guard_inv g \<longleftrightarrow> \<not> gs_terminated g \<and>
     (if isStarted (gs_timer g)
      then \<exists>tid. gs_inside g = {tid} \<and> tr_startedFrom (gs_timer g) = Some tid
      else gs_inside g = {})"

lemma guard_reachable_inv: "guard_reachable g \<Longrightarrow> guard_inv g"
proof (induction rule: guard_reachable.induct)
  case init
  then show ?case by (simp add: guard_inv_def guard_init_def isStarted_def timer_new_def)
next
  case (enter g tid c m)
  then show ?case
    by (cases "tr_state (gs_timer g)")
      (auto simp: guard_inv_def scope_enter_def isStarted_def timer_start_def base_start_def)
next
  case (leave g tid c m)
  then show ?case
    by (auto simp: guard_inv_def scope_exit_def isStarted_def timer_stop_def base_stop_def Let_def split: if_splits)
qed

section \<open>Iterators of a view\<close>

text \<open>An iterator is a pointer, as a position in the array it points into; \<open>None\<close> is the null pointer.\<close>

type_synonym view_iter = "int option"

definition vi_add :: "int \<Rightarrow> view_iter \<Rightarrow> view_iter outcome" where
  "vi_add n i = (case i of Some p \<Rightarrow> Ok (Some (p + n)) | None \<Rightarrow> if n = 0 then Ok None else Undefined)"

definition vi_preinc :: "view_iter \<Rightarrow> view_iter outcome" where
  "vi_preinc i = vi_add 1 i"

text \<open>The value of the postfix form is made from the new position, and the new position.\<close>

definition vi_postinc :: "view_iter \<Rightarrow> (view_iter \<times> view_iter) outcome" where
  "vi_postinc i = bind_outcome (vi_add 1 i) (\<lambda>j. bind_outcome (vi_add (- 1) j) (\<lambda>k. Ok (k, j)))"

definition vi_predec :: "view_iter \<Rightarrow> view_iter outcome" where
  "vi_predec i = vi_add (- 1) i"

definition vi_postdec :: "view_iter \<Rightarrow> (view_iter \<times> view_iter) outcome" where
  "vi_postdec i = bind_outcome (vi_add (- 1) i) (\<lambda>j. bind_outcome (vi_add 1 j) (\<lambda>k. Ok (k, j)))"

definition vi_minus :: "int \<Rightarrow> view_iter \<Rightarrow> view_iter outcome" where
  "vi_minus n i = vi_add (- n) i"

text \<open>Pointers are compared and subtracted inside one array.\<close>

definition vi_distance :: "view_iter \<Rightarrow> view_iter \<Rightarrow> int outcome" where
  "vi_distance i j = (case (i, j) of (Some p, Some q) \<Rightarrow> Ok (p - q) | (None, None) \<Rightarrow> Ok 0 | _ \<Rightarrow> Undefined)"

definition vi_less :: "view_iter \<Rightarrow> view_iter \<Rightarrow> bool outcome" where
  "vi_less i j = bind_outcome (vi_distance i j) (\<lambda>d. Ok (d < 0))"

definition vi_neq :: "view_iter \<Rightarrow> view_iter \<Rightarrow> bool" where
  "vi_neq i j \<longleftrightarrow> i \<noteq> j"

definition vi_deref :: "'a list \<Rightarrow> view_iter \<Rightarrow> 'a outcome" where
  "vi_deref arr i = (case i of
       Some p \<Rightarrow> if 0 \<le> p \<and> p < int (length arr) then Ok (arr ! nat p) else Undefined
     | None \<Rightarrow> Undefined)"

definition vi_index :: "'a list \<Rightarrow> int \<Rightarrow> view_iter \<Rightarrow> 'a outcome" where
  "vi_index arr n i = bind_outcome (vi_add n i) (vi_deref arr)"

definition av_begin :: "'a array_view \<Rightarrow> view_iter" where
  "av_begin v = map_option int (av_ptr v)"

definition av_end :: "'a array_view \<Rightarrow> view_iter outcome" where
  "av_end v = vi_add (int (av_size v)) (av_begin v)"

text \<open>\<open>for (auto x : view)\<close>, \<open>n\<close> rounds at most; \<open>Diverges\<close> when they are not enough.\<close>

fun range_for :: "'a list \<Rightarrow> view_iter \<Rightarrow> nat \<Rightarrow> view_iter \<Rightarrow> 'a list outcome" where
  "range_for arr e 0 i = (if vi_neq i e then Diverges else Ok [])"
| "range_for arr e (Suc n) i =
     (if \<not> vi_neq i e then Ok []
      else bind_outcome (vi_deref arr i) (\<lambda>x. bind_outcome (vi_preinc i) (\<lambda>i.
             bind_outcome (range_for arr e n i) (\<lambda>xs. Ok (x # xs)))))"

text \<open>A view of \<open>size\<close> elements inside its array.\<close>

definition av_ok :: "'a array_view \<Rightarrow> bool" where
  "av_ok v \<longleftrightarrow> (case av_ptr v of None \<Rightarrow> av_size v = 0 | Some p \<Rightarrow> p + av_size v \<le> length (av_array v))"

lemma range_for_items:
  "p + k \<le> length arr \<Longrightarrow> k \<le> n \<Longrightarrow> range_for arr (Some (int (p + k))) n (Some (int p)) = Ok (take k (drop p arr))"
proof (induction n arbitrary: p k)
  case 0
  then show ?case by (simp add: vi_neq_def)
next
  case (Suc n)
  show ?case
  proof (cases k)
    case 0
    then show ?thesis by (simp add: vi_neq_def)
  next
    case (Suc j)
    have "range_for arr (Some (int (Suc p + j))) n (Some (int (Suc p))) = Ok (take j (drop (Suc p) arr))"
      using Suc Suc.prems by (intro Suc.IH) auto
    moreover have "drop p arr = arr ! p # drop (Suc p) arr"
      using Suc Suc.prems by (simp add: Cons_nth_drop_Suc)
    ultimately show ?thesis using Suc Suc.prems
      by (simp add: vi_neq_def vi_deref_def vi_preinc_def vi_add_def ac_simps)
  qed
qed

section \<open>Properties\<close>

text \<open>
  A scope over a stopped timer whose block leaves the timer alone runs the block once, counts one
  measurement, adds the time between its ends and leaves the timer stopped.
\<close>

theorem timer_scope_counts_one:
  assumes "tr_state t = STOPPED" "\<And>u s. fst (snd (block (u, s))) = u"
  shows "\<exists>w. timer_scope tid (c0, m0) block (c1, m1) (t, s) = (Left (fst (block (fst (timer_start tid c0 m0 t), s))), w,
      snd (snd (block (fst (timer_start tid c0 m0 t), s)))) \<and> \<not> isStarted w \<and>
    timer_nDoneMeasurements w = timer_nDoneMeasurements t + 1 \<and>
    timer_totalMeasuredIntervals w = timer_totalMeasuredIntervals t + (m1 - m0) \<and>
    timer_totalConsumedCPUTime w = timer_totalConsumedCPUTime t + (c1 - c0) \<and> timer_lastMeasuredInterval w = m1 - m0"
proof -
  obtain u where u: "timer_start tid c0 m0 t = (u, None)" "tr_state u = STARTED"
    using timer_start_idle' [OF assms(1)] by blast
  obtain w where w: "timer_stop tid c1 m1 u = (w, None)" "tr_state w = STOPPED"
    "tr_nDoneMeasurements w = tr_nDoneMeasurements t + 1"
    "ck_totalMeasuredIntervals (tr_mono w) = ck_totalMeasuredIntervals (tr_mono t) + (m1 - m0)"
    "ck_totalMeasuredIntervals (tr_cpu w) = ck_totalMeasuredIntervals (tr_cpu t) + (c1 - c0)"
    "ck_lastMeasuredInterval (tr_mono w) = m1 - m0"
    using timer_stop_same [OF assms(1) u(1)] by blast
  obtain r s' where b: "block (u, s) = (r, u, s')" using assms(2) [of u s] by (metis prod.collapse)
  have "timer_scope tid (c0, m0) block (c1, m1) (t, s) = (Left r, w, s')"
    by (simp add: timer_scope_def u b w)
  with u b w show ?thesis
    by (simp add: isStarted_def timer_nDoneMeasurements_def timer_totalMeasuredIntervals_def
        timer_totalConsumedCPUTime_def timer_lastMeasuredInterval_def)
qed

theorem timer_scope_counts_one_witness:
  "\<exists>w. timer_scope 1 (0, 10) (\<lambda>(t, s). (s, t, s + 1)) (3, 25) (timer_new, 7 :: int) = (Left 7, w, 8) \<and>
     timer_nDoneMeasurements w = 1 \<and> timer_totalMeasuredIntervals w = 15"
proof -
  have "tr_state timer_new = STOPPED" by (simp add: timer_new_def)
  from timer_scope_counts_one [OF this, of "\<lambda>(t, s). (s, t, s + 1)" 1 0 10 3 25 "7 :: int"] show ?thesis
    by (auto simp: timer_nDoneMeasurements_def timer_totalMeasuredIntervals_def timer_new_def)
qed

text \<open>
  Over any interleaving of the scopes of several threads under the lock at most one thread is inside its
  scope, a thread that comes then is not let in, and no destructor throws.
\<close>

theorem guarded_scopes_exclusive:
  assumes "guard_reachable g"
  shows "\<not> gs_terminated g \<and> (\<exists>tid. gs_inside g \<subseteq> {tid}) \<and> isStarted (gs_timer g) = (gs_inside g \<noteq> {}) \<and>
    (gs_inside g \<noteq> {} \<longrightarrow> scope_enter other c m g = g)"
  using guard_reachable_inv [OF assms]
  by (auto simp: guard_inv_def isStarted_def scope_enter_def timer_start_def base_start_def split: if_splits)

theorem guarded_scopes_exclusive_witness:
  "\<exists>g. guard_reachable g \<and> gs_inside g = {1} \<and> isStarted (gs_timer g) \<and> scope_enter 2 5 5 g = g"
proof -
  have r: "guard_reachable (scope_enter 1 0 0 guard_init)"
    by (intro guard_reachable.intros) (simp add: guard_init_def)
  have i: "gs_inside (scope_enter 1 0 0 guard_init) = {1}"
    by (simp add: scope_enter_def guard_init_def timer_start_def base_start_def timer_new_def)
  from guarded_scopes_exclusive [OF r, of 2 5 5] r i show ?thesis by blast
qed

text \<open>
  The range loop over a view inside its array visits its elements, in order, in as many rounds, and
  nothing it does is undefined; incrementing and decrementing give back the iterator.
\<close>

theorem view_loop_items:
  assumes "av_ok v"
  shows "\<exists>e. av_end v = Ok e \<and> range_for (av_array v) e (av_size v) (av_begin v) = Ok (av_items v) \<and>
    vi_distance e (av_begin v) = Ok (int (av_size v)) \<and>
    vi_postinc (Some p) = Ok (Some p, Some (p + 1)) \<and> vi_postdec (Some (p + 1)) = Ok (Some (p + 1), Some p)"
proof (cases "av_ptr v")
  case None
  with assms show ?thesis
    by (simp add: av_ok_def av_end_def av_begin_def vi_add_def av_items_def vi_neq_def vi_distance_def vi_postinc_def vi_postdec_def)
next
  case (Some q)
  with assms range_for_items [of q "av_size v" "av_array v" "av_size v"] show ?thesis
    by (simp add: av_ok_def av_end_def av_begin_def vi_add_def av_items_def vi_distance_def vi_postinc_def vi_postdec_def)
qed

theorem view_loop_items_witness:
  "\<exists>e. av_end (av_of_vector [4, 5 :: int]) = Ok e \<and>
     range_for [4, 5 :: int] e 2 (av_begin (av_of_vector [4, 5 :: int])) = Ok [4, 5]"
proof -
  have "av_ok (av_of_vector [4, 5 :: int])" by (simp add: av_ok_def av_of_vector_def)
  then obtain e where "av_end (av_of_vector [4, 5 :: int]) = Ok e"
    "range_for [4, 5 :: int] e (Suc (Suc 0)) (av_begin (av_of_vector [4, 5 :: int])) = Ok [4, 5]"
    using view_loop_items [of "av_of_vector [4, 5 :: int]" 0]
    by (auto simp: av_of_vector_def av_items_def simp del: range_for.simps)
  then show ?thesis unfolding numeral_2_eq_2 by blast
qed

end
