(* ===== verification/Mock_Db.thy ===== *)
theory Mock_Db
  imports Db_Result
begin

text \<open>
  The database of the tests, \<open>src/db/MockBDb.*\<close> and \<open>MockData.h\<close>: a text of rows, cells between bars,
  which is the answer to every query. \<open>MockBDbResult\<close> is in \<open>Db_Result\<close>.
\<close>

record mock_db =
  md_data :: "string list"

definition mock_db_of_list :: "string list \<Rightarrow> mock_db" where
  "mock_db_of_list xs = \<lparr>md_data = xs\<rparr>"

definition mock_db_of_text :: "string \<Rightarrow> mock_db" where
  "mock_db_of_text src = \<lparr>md_data = split_any (c_str src) newline skip_blank\<rparr>"

text \<open>The methods that only answer, or do nothing.\<close>

definition mock_setCS :: "string \<Rightarrow> mock_db \<Rightarrow> mock_db" where "mock_setCS connstr db = db"
definition mock_getCS :: "mock_db \<Rightarrow> string" where "mock_getCS db = []"
definition mock_connect :: "mock_db \<Rightarrow> bool \<times> mock_db" where "mock_connect db = (False, db)"
definition mock_connected :: "mock_db \<Rightarrow> bool" where "mock_connected db = False"
definition mock_disconnect :: "mock_db \<Rightarrow> mock_db" where "mock_disconnect db = db"
definition mock_needAdvisoryLock :: "int \<Rightarrow> mock_db \<Rightarrow> mock_db" where "mock_needAdvisoryLock key db = db"
definition mock_exec :: "'q \<Rightarrow> mock_db \<Rightarrow> mock_db" where "mock_exec squery db = db"
definition mock_query :: "'q \<Rightarrow> mock_db \<Rightarrow> mock_result" where "mock_query squery db = mk_new (md_data db)"
definition mock_ping :: "mock_db \<Rightarrow> bool" where "mock_ping db = True"
definition mock_rel_exists :: "string \<Rightarrow> mock_db \<Rightarrow> bool" where "mock_rel_exists rel db = False"
definition mock_exec2 :: "'q list \<Rightarrow> mock_db \<Rightarrow> mock_db" where "mock_exec2 parts db = db"
definition mock_query2 :: "'q list \<Rightarrow> mock_db \<Rightarrow> mock_result" where "mock_query2 parts db = mock_query [] db"

text \<open>What else \<open>MockBDbResult\<close> answers; \<open>get(r, f)\<close> asserts, and \<open>strtod\<close> is a parameter.\<close>

definition mk_size :: "mock_result \<Rightarrow> nat" where "mk_size m = length (mk_data m)"
definition mk_position :: "mock_result \<Rightarrow> int" where "mk_position m = uint64 (mk_index m)"
definition mk_get_at :: "int \<Rightarrow> int \<Rightarrow> mock_result \<Rightarrow> string outcome" where "mk_get_at r f m = Undefined"
definition mk_get_ll :: "mock_result \<Rightarrow> int \<Rightarrow> int outcome" where
  "mk_get_ll m f = bind_outcome (mk_get_s m f) (\<lambda>s. Ok (atoll (c_str s)))"
definition mk_get_d :: "(string \<Rightarrow> rat) \<Rightarrow> mock_result \<Rightarrow> int \<Rightarrow> rat outcome" where
  "mk_get_d strtod m f = bind_outcome (mk_get_s m f) (\<lambda>s. Ok (strtod (c_str s)))"

definition mk_fill_cs :: "mock_result \<Rightarrow> int \<Rightarrow> string \<Rightarrow> string outcome" where
  "mk_fill_cs m f str = bind_outcome (mk_get_s m f)
     (\<lambda>s. let n = length str - 1; t = take n (c_str s)
          in Ok (t @ replicate (n - length t) (char_of (0 :: nat)) @ drop n str))"

text \<open>The loop \<open>while (res.next())\<close> over the rest of the result.\<close>

function mk_rows :: "mock_result \<Rightarrow> string list list outcome" where
  "mk_rows m =
     (if mk_index m \<ge> int (length (mk_data m)) then Throws ''vector::_M_range_check''
      else case mk_next m of
        Ok (True, m) \<Rightarrow> bind_outcome (mk_rows m) (\<lambda>rows. Ok (mk_state m # rows))
      | Ok (False, m) \<Rightarrow> Ok []
      | Throws e \<Rightarrow> Throws e | Undefined \<Rightarrow> Undefined | Diverges \<Rightarrow> Diverges)"
  by pat_completeness auto
termination
  by (relation "measure (\<lambda>m. nat (int (length (mk_data m)) - mk_index m))")
    (auto simp: mk_next_def mk_move_to_def mk_parse_def vector_at_def split: if_splits)

declare mk_rows.simps [simp del]

definition cells :: "string \<Rightarrow> string list" where
  "cells src = map trim (split_any src ''|'' allow_blank)"

lemma mk_rows_from:
  "k \<le> length (mk_data m) \<Longrightarrow> mk_index m = int k - 1 \<Longrightarrow> mk_rows m = Ok (map cells (drop k (mk_data m)))"
proof (induction "length (mk_data m) - k" arbitrary: k m)
  case 0
  then show ?case by (subst mk_rows.simps) (simp add: mk_next_def)
next
  case (Suc j)
  let ?m = "m\<lparr>mk_index := int k, mk_state := cells (mk_data m ! k)\<rparr>"
  have k: "k < length (mk_data m)" using Suc.hyps(2) by simp
  have "mk_next m = Ok (True, ?m)"
    using k Suc.prems by (simp add: mk_next_def mk_move_to_def mk_parse_def vector_at_def cells_def)
  moreover have "mk_rows ?m = Ok (map cells (drop (Suc k) (mk_data m)))"
    using Suc.hyps(1) [of ?m "Suc k"] Suc.hyps(2) k by simp
  ultimately show ?case using k Suc.prems
    by (subst mk_rows.simps) (simp add: Cons_nth_drop_Suc [symmetric])
qed

text \<open>A cell the splitting and trimming leave alone, and a row of them.\<close>

definition cell_ok :: "string \<Rightarrow> bool" where
  "cell_ok s \<longleftrightarrow> s \<noteq> [] \<and> trim s = s \<and> CHR ''|'' \<notin> set s \<and> char_of (10 :: nat) \<notin> set s \<and> char_of (0 :: nat) \<notin> set s"

definition mock_text :: "string list list \<Rightarrow> string" where
  "mock_text rows = join_strings newline (map (join_strings ''|'') rows)"

lemma sep_bar: "sep_matches c ''|'' \<longleftrightarrow> c = CHR ''|''"
  by (auto simp: sep_matches_def c_str_def char_of_def)

lemma sep_newline: "sep_matches c newline \<longleftrightarrow> c = char_of (10 :: nat)"
  by (auto simp: sep_matches_def newline_def c_str_def)

lemma set_join_strings: "c \<in> set (join_strings sep xs) \<Longrightarrow> c \<in> set sep \<or> (\<exists>x \<in> set xs. c \<in> set x)"
  by (induction xs rule: induct_list012) auto

lemma join_strings_nonempty: "xs \<noteq> [] \<Longrightarrow> \<forall>x \<in> set xs. x \<noteq> [] \<Longrightarrow> join_strings sep xs \<noteq> []"
  by (cases xs rule: remdups_adj.cases) auto

lemma cells_of_row: "row \<noteq> [] \<Longrightarrow> \<forall>c \<in> set row. cell_ok c \<Longrightarrow> cells (join_strings ''|'' row) = row"
proof -
  assume row: "row \<noteq> []" "\<forall>c \<in> set row. cell_ok c"
  have "split_any (join_strings ''|'' row) ''|'' allow_blank = row"
    using row by (intro split_any_joined) (auto simp: sep_bar cell_ok_def)
  with row show ?thesis by (simp add: cells_def cell_ok_def map_idI)
qed

lemma row_text:
  assumes "row \<noteq> []" "\<forall>c \<in> set row. cell_ok c"
  shows "join_strings ''|'' row \<noteq> []" "char_of (10 :: nat) \<notin> set (join_strings ''|'' row)"
    "char_of (0 :: nat) \<notin> set (join_strings ''|'' row)"
  using assms join_strings_nonempty [of row "''|''"]
  by (auto simp: cell_ok_def char_of_def dest!: set_join_strings)

section \<open>Properties\<close>

text \<open>
  A table written as text is read back: rows of cells that are not blank, hold no bar, line end or zero and
  have no space at their ends come back as they are, whatever the statement, and as often as asked.
\<close>

theorem mock_rows_read_back:
  assumes "\<forall>row \<in> set rows. row \<noteq> [] \<and> (\<forall>c \<in> set row. cell_ok c)"
  shows "mk_rows (mock_query q (mock_exec e (mock_db_of_text (mock_text rows)))) = Ok rows"
proof -
  let ?lines = "map (join_strings ''|'') rows"
  have line: "l \<noteq> [] \<and> char_of (10 :: nat) \<notin> set l \<and> char_of (0 :: nat) \<notin> set l" if "l \<in> set ?lines" for l
    using that assms row_text by auto
  have "char_of (0 :: nat) \<notin> set (mock_text rows)"
    using line by (auto simp: mock_text_def newline_def dest!: set_join_strings)
  then have "c_str (mock_text rows) = join_strings [char_of (10 :: nat)] ?lines"
    by (simp add: c_str_id mock_text_def newline_def)
  moreover have "split_any (join_strings [char_of (10 :: nat)] ?lines) newline allow_blank = ?lines"
    using line last_in_set [of ?lines] by (intro split_any_joined) (simp_all add: sep_newline del: set_map last_map, metis)
  moreover have "filter (\<lambda>p. p \<noteq> []) ?lines = ?lines"
    using line by (intro filter_True) blast
  ultimately have "md_data (mock_db_of_text (mock_text rows)) = ?lines"
    by (simp add: mock_db_of_text_def split_any_skips)
  moreover have "map cells ?lines = rows"
    using assms cells_of_row by (simp add: map_idI)
  ultimately show ?thesis
    using mk_rows_from [of 0 "mk_new ?lines"] by (simp add: mock_query_def mock_exec_def mk_new_def)
qed

theorem mock_rows_read_back_witness:
  "mk_rows (mock_query ''select'' (mock_exec ''x'' (mock_db_of_text (mock_text [[''1'', ''ab''], [''2'', ''c d'']]))))
     = Ok [[''1'', ''ab''], [''2'', ''c d'']]"
  by (rule mock_rows_read_back)
    (auto simp: cell_ok_def trim_def ltrim_def rtrim_def is_space_def char_of_def)

end
