(* ===== verification/Limited_Copy.thy ===== *)
theory Limited_Copy
  imports Sync
begin

text \<open>
  \<open>BDb::copy\<close> with a limit on its bandwidth: the callback of the copy is a \<open>SpeedLimiter\<close>, which
  sleeps after every buffer for as long as the copy is ahead of its rate.
\<close>

section \<open>The copy with a limiter\<close>

text \<open>
  \<open>lt_clock\<close> is the monotonic clock in nanoseconds, \<open>lt_sleep\<close> the world after sleeping. The limiter
  takes the default of a hundredth of a second between its points.
\<close>

record 'w limit_env =
  lt_clock :: "'w \<Rightarrow> int"
  lt_sleep :: "rat \<Rightarrow> 'w \<Rightarrow> 'w"

definition limiter_callback ::
  "'w limit_env \<Rightarrow> int \<Rightarrow> ('w, speed_limiter) copy_state \<Rightarrow> (copy_exn + unit) \<times> ('w, speed_limiter) copy_state" where
  "limiter_callback env bytes_read s =
     (case sl_on_progress_updated (lt_clock env (cs_world s)) bytes_read (cs_callback s) of (l, time_to_sleep) \<Rightarrow>
        (Inr (), s\<lparr>cs_callback := l,
           cs_world := if time_to_sleep = 0 then cs_world s else lt_sleep env time_to_sleep (cs_world s)\<rparr>))"

definition copy_ex_limited ::
  "'w limit_env \<Rightarrow> 'w copy_api \<Rightarrow> 'w copy_api \<Rightarrow> string \<Rightarrow> string \<Rightarrow> string \<Rightarrow> string \<Rightarrow> string \<Rightarrow> rat \<Rightarrow>
   ('w, speed_limiter) copy_state \<Rightarrow> (copy_exn + int) \<times> ('w, speed_limiter) copy_state" where
  "copy_ex_limited env src dst src_table dst_table src_columns dst_columns condition bandwidth_limit_mbits s =
     copy_ex src dst src_table dst_table src_columns dst_columns condition (limiter_callback env)
       (s\<lparr>cs_callback := sl_new bandwidth_limit_mbits 10000000\<rparr>)"

definition bdb_copy_limited ::
  "'w limit_env \<Rightarrow> 'w copy_api \<Rightarrow> 'w copy_api \<Rightarrow> string \<Rightarrow> string \<Rightarrow> string \<Rightarrow> string \<Rightarrow> rat \<Rightarrow>
   ('w, speed_limiter) copy_state \<Rightarrow> (copy_exn + int) \<times> ('w, speed_limiter) copy_state" where
  "bdb_copy_limited env src dst src_table dst_table columns condition bandwidth_limit_mbits =
     copy_ex_limited env src dst src_table dst_table columns columns condition bandwidth_limit_mbits"

text \<open>Whatever the limit, what reaches the slave is a prefix of the buffers of the master.\<close>

lemma sends_prefix_before:
  assumes "sends_prefix bs f" "\<And>s. sent_data (g s) = sent_data s"
  shows "sends_prefix bs (\<lambda>s. f (g s))"
  unfolding sends_prefix_def
proof
  fix s
  from assms(1) [unfolded sends_prefix_def, rule_format, of "g s"]
  show "\<exists>k. sent_data (snd (f (g s))) = sent_data s @ filter (\<lambda>b. b \<noteq> []) (take k bs) \<and>
      (\<forall>n. fst (f (g s)) = Inr n \<longrightarrow> k = length bs \<and> n = fold (\<lambda>b n. uint64 (n + int (length b))) bs 0)"
    unfolding assms(2) .
qed

lemma limited_copy_sends:
  assumes "\<And>r w. data_of (snd (lt_sleep env r w)) = data_of (snd w)" "cp_getCopyData src = (\<lambda>_. bs)"
  shows "sends_prefix bs (\<lambda>s. copy_ex_limited env (observe False src) (observe True dst) src_table dst_table
    src_columns dst_columns condition mbits s)"
proof -
  have "no_data (limiter_callback env n)" for n
    using assms(1) by (auto simp: no_data_def limiter_callback_def split: prod.splits)
  then have "sends_prefix bs (copy_ex (observe False src) (observe True dst) src_table dst_table src_columns dst_columns
      condition (limiter_callback env))"
    by (rule copy_ex_sends [where callback = "limiter_callback env", OF _ assms(2)])
  then show ?thesis unfolding copy_ex_limited_def by (rule sends_prefix_before) simp
qed

text \<open>The limiter the threads of the pull manager share: each update whole under its lock.\<close>

definition shared_on_progress_updated :: "int \<Rightarrow> int \<Rightarrow> speed_limiter \<Rightarrow> speed_limiter \<times> rat" where
  "shared_on_progress_updated now bytes_count l = sl_on_progress_updated now bytes_count l"

section \<open>Updates of a limiter\<close>

text \<open>A run of updates, each the reading of the clock and the bytes that came.\<close>

fun sl_run :: "(int \<times> int) list \<Rightarrow> speed_limiter \<Rightarrow> speed_limiter" where
  "sl_run [] l = l"
| "sl_run ((now, n) # obs) l = sl_run obs (fst (sl_on_progress_updated now n l))"

text \<open>
  While the ring has not wrapped: \<open>k\<close> points at most, the first of them the first update, the last one
  the position of the tail.
\<close>

definition sl_inv :: "int \<Rightarrow> int \<Rightarrow> int \<Rightarrow> nat \<Rightarrow> speed_limiter \<Rightarrow> bool" where
  "sl_inv now0 tot0 tot k l \<longleftrightarrow> sl_enabled l \<and> 1 \<le> sl_size l \<and> sl_size l \<le> k \<and> k \<le> sl_max_queue_size \<and>
     sl_tail l = sl_wrap (int (sl_size l)) \<and> length (sl_queue l) = sl_max_queue_size \<and>
     sl_queue l ! 1 = (now0, tot0) \<and> sl_total l = tot"

lemma sl_wrap_small: "n < 128 \<Longrightarrow> sl_wrap (int n) = n"
  by (simp add: sl_wrap_def sl_max_queue_size_def)

lemma sl_wrap_int: "int (sl_wrap i) = i mod 128"
  by (simp add: sl_wrap_def sl_max_queue_size_def)

lemma sl_wrap_first: "sl_wrap (int (sl_wrap (int n)) - int n + 1) = 1"
proof -
  have "int (sl_wrap (int (sl_wrap (int n)) - int n + 1)) = (int n mod 128 - int n + 1) mod 128"
    by (simp only: sl_wrap_int)
  also have "\<dots> = (int n - (int n - 1)) mod 128"
    using mod_diff_left_eq [of "int n" 128 "int n - 1"] by (simp add: algebra_simps)
  also have "\<dots> = 1" by simp
  finally show ?thesis by simp
qed

lemma sl_wrap_not_first: "2 \<le> n \<Longrightarrow> n \<le> 128 \<Longrightarrow> sl_wrap (int n) \<noteq> 1"
  by (cases "n = 128") (auto simp: sl_wrap_def sl_max_queue_size_def)

lemma sl_wrap_next: "sl_wrap (int (sl_wrap (int n)) + 1) = sl_wrap (int (Suc n))"
proof -
  have "int (sl_wrap (int (sl_wrap (int n)) + 1)) = int (sl_wrap (int (Suc n)))"
    by (simp only: sl_wrap_int mod_add_left_eq) (simp add: add.commute)
  then show ?thesis by simp
qed

text \<open>An update of an enabled limiter, with whether it overwrites its last point.\<close>

definition sl_overrides :: "speed_limiter \<Rightarrow> bool" where
  "sl_overrides l \<longleftrightarrow> sl_size l > 1 \<and> fst (sl_last l) - fst (sl_penult l) < sl_min_between l"

definition sl_moved :: "int \<Rightarrow> int \<Rightarrow> speed_limiter \<Rightarrow> speed_limiter" where
  "sl_moved now n l =
     (let sz = (if sl_overrides l then sl_size l else min sl_max_queue_size (sl_size l + 1));
          tail = (if sl_overrides l then sl_tail l else sl_wrap (int (sl_tail l) + 1))
      in l\<lparr>sl_total := sl_total l + n, sl_size := sz, sl_tail := tail, sl_queue := (sl_queue l)[tail := (now, sl_total l + n)]\<rparr>)"

lemma sl_update:
  assumes "sl_enabled l"
  shows "sl_on_progress_updated now n l =
    (sl_moved now n l, if sl_size (sl_moved now n l) \<le> 1 then 0
       else max 0 (sl_remaining_time (sl_moved now n l) (sl_first (sl_moved now n l)) (sl_last (sl_moved now n l))))"
proof -
  have "sl_last (l\<lparr>sl_total := t\<rparr>) = sl_last l" "sl_penult (l\<lparr>sl_total := t\<rparr>) = sl_penult l" for t
    by (simp_all add: sl_last_def sl_penult_def)
  with assms show ?thesis
    by (simp add: sl_on_progress_updated_def sl_moved_def sl_overrides_def Let_def max_def)
qed

lemma sl_inv_step:
  assumes "sl_inv now0 tot0 tot k l" "k < sl_max_queue_size"
  shows "sl_inv now0 tot0 (tot + n) (Suc k) (sl_moved now n l) \<and> 2 \<le> sl_size (sl_moved now n l) \<and>
    sl_last (sl_moved now n l) = (now, tot + n) \<and> sl_first (sl_moved now n l) = (now0, tot0) \<and>
    sl_per_byte (sl_moved now n l) = sl_per_byte l"
proof (cases "sl_overrides l")
  case True
  have tail: "sl_tail l \<noteq> 1" "sl_tail l < length (sl_queue l)"
    using assms True sl_wrap_not_first [of "sl_size l"]
    by (auto simp: sl_inv_def sl_overrides_def sl_max_queue_size_def sl_wrap_def nat_less_iff)
  with True assms sl_wrap_first [of "sl_size l"] show ?thesis
    by (auto simp: sl_inv_def sl_moved_def sl_overrides_def sl_last_def sl_first_def Let_def)
next
  case False
  have size: "min sl_max_queue_size (sl_size l + 1) = Suc (sl_size l)" using assms by (simp add: sl_inv_def)
  have tail: "sl_wrap (int (sl_tail l) + 1) = sl_wrap (int (Suc (sl_size l)))"
    using assms(1) sl_wrap_next [of "sl_size l"] by (simp add: sl_inv_def)
  have other: "sl_wrap (int (Suc (sl_size l))) \<noteq> 1" "sl_wrap (int (Suc (sl_size l))) < length (sl_queue l)"
    using assms sl_wrap_not_first [of "Suc (sl_size l)"]
    by (auto simp: sl_inv_def sl_max_queue_size_def sl_wrap_def nat_less_iff)
  from False assms size tail other sl_wrap_first [of "Suc (sl_size l)"] show ?thesis
    by (auto simp: sl_inv_def sl_moved_def sl_last_def sl_first_def Let_def)
qed

lemma sl_inv_run:
  "sl_inv now0 tot0 tot k l \<Longrightarrow> k + length obs \<le> sl_max_queue_size \<Longrightarrow>
   sl_inv now0 tot0 (tot + sum_list (map snd obs)) (k + length obs) (sl_run obs l) \<and> sl_per_byte (sl_run obs l) = sl_per_byte l"
proof (induction obs arbitrary: tot k l)
  case (Cons ob obs)
  obtain now n where ob: "ob = (now, n)" by fastforce
  have en: "sl_enabled l" using Cons.prems(1) by (simp add: sl_inv_def)
  have "k < sl_max_queue_size" using Cons.prems(2) by simp
  from sl_inv_step [OF Cons.prems(1) this, of n now] Cons.IH [of "tot + n" "Suc k" "sl_moved now n l"] Cons.prems(2)
  show ?case by (simp add: ob sl_update [OF en] add.assoc)
qed simp

lemma sl_first_update:
  assumes "0 < mbits"
  shows "sl_inv now0 n0 n0 1 (fst (sl_on_progress_updated now0 n0 (sl_new mbits min_between)))"
    "sl_per_byte (fst (sl_on_progress_updated now0 n0 (sl_new mbits min_between))) = 1000000000 / (mbits * 1024 * 1024 / 8)"
  using assms
  by (simp_all add: sl_update sl_new_def sl_inv_def sl_moved_def sl_overrides_def sl_max_queue_size_def sl_wrap_def Let_def)

section \<open>Properties\<close>



end
