(* ===== verification/Reader_Thread.thy ===== *)
theory Reader_Thread
  imports Pipeline Thread
begin

text \<open>
  The threads of the two readers, \<open>ReadCallLeg::run\<close> and \<open>ReadCallLegLink::run\<close> with their
  \<open>getSQLData\<close>, from one sleep to the next: every test of a waiting loop is a step, so a thread can be found in
  any of its waits. \<open>Readers\<close> takes a whole round at once; here it is shown what a round keeps while it lasts, when
  the thread ends and where it does not.
\<close>

section \<open>Where a thread is\<close>

text \<open>
  The top of the loop, the wait for the clock, the wait for newer rows, the wait while paused, the rows that
  are left to deliver, the moving of the window, and after the loop.
\<close>

datatype 'p reader_pc = Loop_head | Wait_clock | Wait_probe | Wait_paused | Delivering 'p | Advancing | Left_run

record ('p, 'r, 'item) reader_thread =
  rt_pc :: "'p reader_pc"
  rt_reader :: 'r
  rt_delivered :: "'item list"

text \<open>
  What a step finds when it looks: whether the application runs, the status of the thread, the clock, the
  answers of the source database, the queue it writes to, and the calls in progress.
\<close>

record reading =
  rg_running :: bool
  rg_status :: thread_status
  rg_now :: int
  rg_exists :: "int \<Rightarrow> int \<Rightarrow> bool"
  rg_select :: "int \<Rightarrow> int \<Rightarrow> db_row list"
  rg_queue_size :: nat
  rg_max_queue_size :: nat
  rg_online_orig :: "string \<Rightarrow> bool"
  rg_online_term :: "string \<Rightarrow> bool"

section \<open>The loop of \<open>run\<close>\<close>

definition window_tick ::
  "read_settings \<Rightarrow> (db_row list \<Rightarrow> 'p) \<Rightarrow> reading \<Rightarrow> 'p reader_pc \<Rightarrow> 'r read_window_scheme \<Rightarrow>
   'p reader_pc \<times> 'r read_window_scheme" where
  "window_tick cfg first e pc w = (case pc of
       Loop_head \<Rightarrow>
         (if \<not> (rg_running e \<and> rg_status e = RUNNING) then (Left_run, w)
          else if rw_stopTime w = 0 then (Loop_head, w)
          else (Wait_clock, w))
     | Wait_clock \<Rightarrow>
         (if rw_stopTime w > rg_now e - rs_read_threshold_second cfg then (Wait_clock, w) else (Wait_probe, w))
     | Wait_probe \<Rightarrow>
         (if \<not> rg_exists e (rw_stopTime w) (rg_now e - rs_read_waiting_second cfg) then (Wait_probe, w)
          else (Wait_paused, w))
     | Wait_paused \<Rightarrow>
         (if rw_paused w then (Wait_paused, w)
          else (Delivering (first (rg_select e (rw_startTime w) (rw_stopTime w))), w))
     | Delivering p \<Rightarrow> (Delivering p, w)
     | Advancing \<Rightarrow> (Loop_head, advance_window cfg (rg_exists e) (rg_now e) w)
     | Left_run \<Rightarrow> (Left_run, w))"

text \<open>
  The rows of a query are delivered by \<open>deliver\<close>, which differs between the two classes: what is left to deliver,
  if anything, the reader and what has been enqueued.
\<close>

definition thread_tick ::
  "read_settings \<Rightarrow> (db_row list \<Rightarrow> 'p) \<Rightarrow>
   (reading \<Rightarrow> 'p \<Rightarrow> 'r read_window_scheme \<Rightarrow> 'p option \<times> 'r read_window_scheme \<times> 'item list) \<Rightarrow>
   reading \<Rightarrow> ('p, 'r read_window_scheme, 'item) reader_thread \<Rightarrow> ('p, 'r read_window_scheme, 'item) reader_thread" where
  "thread_tick cfg first deliver e t = (case rt_pc t of
       Delivering p \<Rightarrow>
         (case deliver e p (rt_reader t) of (q, rd, items) \<Rightarrow>
            t\<lparr>rt_pc := (case q of None \<Rightarrow> Advancing | Some q \<Rightarrow> Delivering q), rt_reader := rd,
              rt_delivered := rt_delivered t @ items\<rparr>)
     | pc \<Rightarrow> (case window_tick cfg first e pc (rt_reader t) of (pc, w) \<Rightarrow> t\<lparr>rt_pc := pc, rt_reader := w\<rparr>))"

section \<open>\<open>getSQLData\<close>\<close>

datatype leg_delivery = Leg_rows "db_row list" | Leg_full call_leg "db_row list"

definition leg_deliver_tick ::
  "reading \<Rightarrow> leg_delivery \<Rightarrow> leg_reader \<Rightarrow> leg_delivery option \<times> leg_reader \<times> call_leg list" where
  "leg_deliver_tick e p rd = (case p of
       Leg_rows [] \<Rightarrow> (None, rd, [])
     | Leg_rows (row # rows) \<Rightarrow>
         (let leg = decode_leg row
          in (Some (Leg_full leg rows),
              rd\<lparr>lr_readId := sm_set (cl_server_id leg) (int32 (cl_id leg)) (lr_readId rd)\<rparr>, []))
     | Leg_full leg rows \<Rightarrow>
         (if rg_queue_size e \<ge> rg_max_queue_size e then (Some (Leg_full leg rows), rd, [])
          else (Some (Leg_rows rows), rd, [leg])))"

text \<open>A link waits for its originating channel, then for its terminating one; the first is not asked again.\<close>

datatype 'j link_delivery =
    Link_rows "db_row list"
  | Link_orig "'j call_leg_link" "db_row list"
  | Link_term "'j call_leg_link" "db_row list"
  | Link_full "'j call_leg_link" "db_row list"

definition link_deliver_tick ::
  "(string \<Rightarrow> 'j) \<Rightarrow> reading \<Rightarrow> 'j link_delivery \<Rightarrow> link_reader \<Rightarrow>
   'j link_delivery option \<times> link_reader \<times> 'j call_leg_link list" where
  "link_deliver_tick parse_json e p rd = (case p of
       Link_rows [] \<Rightarrow> (None, rd, [])
     | Link_rows (row # rows) \<Rightarrow> (Some (Link_orig (decode_link parse_json row) rows), rd, [])
     | Link_orig link rows \<Rightarrow>
         (if rg_online_orig e (cll_uniqueid_orig link)
          then (Some p, rd\<lparr>kr_waitLinkOrig := cll_uniqueid_orig link\<rparr>, [])
          else (Some (Link_term link rows), rd\<lparr>kr_waitLinkOrig := []\<rparr>, []))
     | Link_term link rows \<Rightarrow>
         (if rg_online_term e (cll_uniqueid_term link)
          then (Some p, rd\<lparr>kr_waitLinkTerm := cll_uniqueid_term link\<rparr>, [])
          else (Some (Link_full link rows), rd\<lparr>kr_waitLinkTerm := []\<rparr>, []))
     | Link_full link rows \<Rightarrow>
         (if rg_queue_size e \<ge> rg_max_queue_size e then (Some p, rd, [])
          else (Some (Link_rows rows), rd, [link])))"

type_synonym leg_thread = "(leg_delivery, leg_reader, call_leg) reader_thread"
type_synonym 'j link_thread = "('j link_delivery, link_reader, 'j call_leg_link) reader_thread"

definition leg_thread_tick :: "read_settings \<Rightarrow> reading \<Rightarrow> leg_thread \<Rightarrow> leg_thread" where
  "leg_thread_tick cfg = thread_tick cfg Leg_rows leg_deliver_tick"

definition link_thread_tick ::
  "read_settings \<Rightarrow> (string \<Rightarrow> 'j) \<Rightarrow> reading \<Rightarrow> 'j link_thread \<Rightarrow> 'j link_thread" where
  "link_thread_tick cfg parse_json = thread_tick cfg Link_rows (link_deliver_tick parse_json)"

text \<open>A reader as \<open>MergeContainer\<close> has it when its thread starts, and what the merge thread does to it meanwhile.\<close>

definition thread_from :: "'r \<Rightarrow> ('p, 'r, 'item) reader_thread" where
  "thread_from rd = \<lparr>rt_pc = Loop_head, rt_reader = rd, rt_delivered = []\<rparr>"

datatype reader_move = Ticks reading | Paused_set bool

definition thread_move ::
  "(reading \<Rightarrow> ('p, 'r read_window_scheme, 'item) reader_thread \<Rightarrow> ('p, 'r read_window_scheme, 'item) reader_thread) \<Rightarrow>
   reader_move \<Rightarrow> ('p, 'r read_window_scheme, 'item) reader_thread \<Rightarrow> ('p, 'r read_window_scheme, 'item) reader_thread" where
  "thread_move tick m t = (case m of
       Ticks e \<Rightarrow> tick e t
     | Paused_set b \<Rightarrow> t\<lparr>rt_reader := (if b then reader_pause else reader_resume) (rt_reader t)\<rparr>)"

section \<open>The end of a thread\<close>

text \<open>
  An upper bound for the steps a thread still needs once the application is not running, when \<open>work\<close> measures a
  delivery, a row needs \<open>per_row\<close> steps and the next query has at most \<open>rows\<close> rows.
\<close>

definition steps_left :: "('p \<Rightarrow> nat) \<Rightarrow> nat \<Rightarrow> nat \<Rightarrow> ('p, 'r, 'item) reader_thread \<Rightarrow> nat" where
  "steps_left work per_row rows t = (case rt_pc t of
       Left_run \<Rightarrow> 0
     | Loop_head \<Rightarrow> 1
     | Advancing \<Rightarrow> 2
     | Delivering p \<Rightarrow> 3 + work p
     | Wait_paused \<Rightarrow> 4 + per_row * rows
     | Wait_probe \<Rightarrow> 5 + per_row * rows
     | Wait_clock \<Rightarrow> 6 + per_row * rows)"

text \<open>Nothing keeps the thread: every wait would end at this reading.\<close>

definition unblocked ::
  "read_settings \<Rightarrow> (reading \<Rightarrow> bool) \<Rightarrow> nat \<Rightarrow> ('p, 'r read_window_scheme, 'item) reader_thread \<Rightarrow> reading \<Rightarrow> bool" where
  "unblocked cfg free rows t e \<longleftrightarrow> \<not> rg_running e \<and> free e \<and>
     rw_stopTime (rt_reader t) \<le> rg_now e - rs_read_threshold_second cfg \<and>
     rg_exists e (rw_stopTime (rt_reader t)) (rg_now e - rs_read_waiting_second cfg) \<and>
     length (rg_select e (rw_startTime (rt_reader t)) (rw_stopTime (rt_reader t))) \<le> rows"

section \<open>The interface of a delivery\<close>

text \<open>
  What the loop relies on: the items of a delivery are those of its rows, each enqueued once, the window is not
  touched, and a delivery that finds no obstacle gets closer to its end.
\<close>

locale delivery =
  fixes first :: "db_row list \<Rightarrow> 'p"
    and deliver :: "reading \<Rightarrow> 'p \<Rightarrow> 'r read_window_scheme \<Rightarrow> 'p option \<times> 'r read_window_scheme \<times> 'item list"
    and item :: "db_row \<Rightarrow> 'item"
    and left_items :: "'p \<Rightarrow> 'item list"
    and work :: "'p \<Rightarrow> nat"
    and per_row :: nat
    and free :: "reading \<Rightarrow> bool"
  assumes left_first: "left_items (first rows) = map item rows"
    and left_deliver: "deliver e p rd = (q, rd', items) \<Longrightarrow>
      items @ (case q of None \<Rightarrow> [] | Some q \<Rightarrow> left_items q) = left_items p"
    and keeps_window: "deliver e p rd = (q, rd', items) \<Longrightarrow>
      rw_startTime rd' = rw_startTime rd \<and> rw_stopTime rd' = rw_stopTime rd \<and> rw_paused rd' = rw_paused rd"
    and work_first: "work (first rows) = per_row * length rows"
    and work_less: "free e \<Longrightarrow> deliver e p rd = (Some p', rd', items) \<Longrightarrow> work p' < work p"
begin

definition tick where
  "tick cfg = thread_tick cfg first deliver"

definition to_come where
  "to_come t = (case rt_pc t of Delivering p \<Rightarrow> left_items p | _ \<Rightarrow> [])"

definition due where
  "due t = (case rt_pc t of Delivering p \<Rightarrow> rw_stopTime (rt_reader t) | Advancing \<Rightarrow> rw_stopTime (rt_reader t)
     | _ \<Rightarrow> rw_startTime (rt_reader t))"

definition books where
  "books tbl a t \<longleftrightarrow> a \<le> rw_startTime (rt_reader t) \<and> rw_startTime (rt_reader t) \<le> rw_stopTime (rt_reader t) \<and>
     mset (rt_delivered t @ to_come t) = image_mset item (stamped tbl a (due t)) \<and>
     mset (to_come t) \<subseteq># image_mset item (stamped tbl (rw_startTime (rt_reader t)) (due t))"

lemma books_delivering:
  assumes b: "books tbl a t" and pc: "rt_pc t = Delivering p"
  shows "books tbl a (tick cfg e t)"
proof -
  obtain q rd items where d: "deliver e p (rt_reader t) = (q, rd, items)" by (meson prod_cases3)
  let ?rest = "case q of None \<Rightarrow> [] | Some q \<Rightarrow> left_items q"
  have l: "items @ ?rest = left_items p" by (rule left_deliver [OF d])
  have "mset ?rest \<subseteq># mset (left_items p)" unfolding l [symmetric] by simp
  moreover have "to_come (tick cfg e t) = ?rest" "due (tick cfg e t) = due t"
    "rt_delivered (tick cfg e t) = rt_delivered t @ items" "rt_reader (tick cfg e t) = rd"
    using keeps_window [OF d] pc d
    by (cases q; simp add: tick_def thread_tick_def to_come_def due_def)+
  moreover have "to_come t = left_items p" using pc by (simp add: to_come_def)
  ultimately show ?thesis using b keeps_window [OF d] l
    unfolding books_def by (metis append_assoc subset_mset.order_trans)
qed

lemma books_tick:
  assumes cfg: "settings_ok cfg" and sel: "\<And>x y. mset (rg_select e x y) = stamped tbl x y" and b: "books tbl a t"
  shows "books tbl a (tick cfg e t)"
proof (cases "rt_pc t")
  case (Delivering p)
  with b show ?thesis by (rule books_delivering)
next
  case Wait_paused
  have "mset (map item (rg_select e x y)) = image_mset item (stamped tbl x y)" for x y by (simp add: sel)
  with Wait_paused b show ?thesis
    using stamped_split [of a "rw_startTime (rt_reader t)" "rw_stopTime (rt_reader t)" tbl, symmetric]
    by (simp add: tick_def thread_tick_def window_tick_def books_def to_come_def due_def left_first)
next
  case Advancing
  with b cfg show ?thesis
    by (auto simp: tick_def thread_tick_def window_tick_def books_def to_come_def due_def advance_window_fields
        intro: order_trans)
qed (use b in \<open>simp_all add: tick_def thread_tick_def window_tick_def books_def to_come_def due_def\<close>)

lemma books_paused: "books tbl a t \<Longrightarrow> books tbl a (thread_move tk (Paused_set b) t)"
  by (simp add: thread_move_def books_def to_come_def due_def reader_pause_def reader_resume_def split: reader_pc.splits)

lemma books_run:
  assumes cfg: "settings_ok cfg" and sel: "\<And>e x y. Ticks e \<in> set ms \<Longrightarrow> mset (rg_select e x y) = stamped tbl x y"
  shows "books tbl a t \<Longrightarrow> books tbl a (fold (thread_move (tick cfg)) ms t)"
  using sel
proof (induction ms arbitrary: t)
  case (Cons m ms)
  have "books tbl a (thread_move (tick cfg) m t)"
  proof (cases m)
    case (Ticks e)
    then show ?thesis using books_tick [OF cfg Cons.prems(2) Cons.prems(1)] by (simp add: thread_move_def)
  qed (simp add: books_paused Cons.prems(1))
  with Cons.IH Cons.prems(2) show ?case by simp
qed simp

text \<open>What the merge thread may conclude from the time a reader reports.\<close>

lemma sum_subset: "C \<subseteq># B \<Longrightarrow> D + C = A + B \<Longrightarrow> A \<subseteq># D" for A B C D :: "'x multiset"
proof -
  assume s: "D + C = A + B" and "C \<subseteq># B"
  then obtain E where "B = C + E" by (auto simp: subset_mset.le_iff_add)
  with s have "D = A + E" by (simp add: ac_simps)
  then show ?thesis by simp
qed

lemma books_bounds:
  assumes "books tbl a t"
  shows "image_mset item (stamped tbl a (rw_startTime (rt_reader t))) \<subseteq># mset (rt_delivered t)"
    "mset (rt_delivered t) \<subseteq># image_mset item (stamped tbl a (rw_stopTime (rt_reader t)))"
proof -
  let ?start = "rw_startTime (rt_reader t)" and ?stop = "rw_stopTime (rt_reader t)"
  have b: "a \<le> ?start" "?start \<le> ?stop" "?start \<le> due t" "due t \<le> ?stop"
    "mset (rt_delivered t) + mset (to_come t) = image_mset item (stamped tbl a (due t))"
    "mset (to_come t) \<subseteq># image_mset item (stamped tbl ?start (due t))"
    using assms by (auto simp: books_def due_def split: reader_pc.splits)
  have "mset (rt_delivered t) + mset (to_come t) =
      image_mset item (stamped tbl a ?start) + image_mset item (stamped tbl ?start (due t))"
    using stamped_split [OF b(1,3), of tbl] b(5) by (metis image_mset_union)
  with b(6) show "image_mset item (stamped tbl a ?start) \<subseteq># mset (rt_delivered t)"
    by (rule sum_subset)
  have "mset (rt_delivered t) \<subseteq># image_mset item (stamped tbl a (due t))" using b(5) by (metis mset_subset_eq_add_left)
  also have "\<dots> \<subseteq># image_mset item (stamped tbl a ?stop)"
    using stamped_split [of a "due t" ?stop tbl] b by (metis image_mset_union mset_subset_eq_add_left order_trans)
  finally show "mset (rt_delivered t) \<subseteq># image_mset item (stamped tbl a ?stop)" .
qed

lemma books_from: "settings_ok cfg \<Longrightarrow> books tbl a (thread_from (reader_setStart cfg a w))"
  by (simp add: books_def thread_from_def to_come_def due_def reader_setStart_def settings_ok_def stamped_same)

lemma steps_less:
  assumes "unblocked cfg free rows t e" "\<not> rw_paused (rt_reader t)" "rt_pc t \<noteq> Left_run"
  shows "steps_left work per_row rows (tick cfg e t) < steps_left work per_row rows t"
proof (cases "rt_pc t")
  case (Delivering p)
  obtain q rd items where d: "deliver e p (rt_reader t) = (q, rd, items)" by (meson prod_cases3)
  with Delivering show ?thesis
    using work_less [of e p "rt_reader t" _ rd items] assms(1)
    by (cases q) (simp_all add: tick_def thread_tick_def steps_left_def unblocked_def)
qed (use assms in \<open>simp_all add: tick_def thread_tick_def window_tick_def steps_left_def unblocked_def work_first less_Suc_eq_le\<close>)

lemma tick_keeps:
  assumes "\<not> rg_running e"
  shows "rt_pc (tick cfg e t) = Left_run \<or> rt_pc (tick cfg e t) = Loop_head \<or>
     rw_startTime (rt_reader (tick cfg e t)) = rw_startTime (rt_reader t) \<and>
     rw_stopTime (rt_reader (tick cfg e t)) = rw_stopTime (rt_reader t) \<and>
     rw_paused (rt_reader (tick cfg e t)) = rw_paused (rt_reader t)"
proof (cases "rt_pc t")
  case (Delivering p)
  obtain q rd items where d: "deliver e p (rt_reader t) = (q, rd, items)" by (meson prod_cases3)
  with Delivering keeps_window [OF d] show ?thesis by (simp add: tick_def thread_tick_def)
qed (use assms in \<open>simp_all add: tick_def thread_tick_def window_tick_def\<close>)

lemma leaves_head: "\<not> rg_running e \<Longrightarrow> rt_pc t \<in> {Loop_head, Left_run} \<Longrightarrow> rt_pc (tick cfg e t) = Left_run"
  by (auto simp: tick_def thread_tick_def window_tick_def)

lemma left_stays: "rt_pc t = Left_run \<Longrightarrow> rt_pc (fold (tick cfg) es t) = Left_run"
  by (induction es arbitrary: t) (simp_all add: tick_def thread_tick_def window_tick_def)

lemma thread_ends:
  "list_all (unblocked cfg free rows t) es \<Longrightarrow> \<not> rw_paused (rt_reader t) \<Longrightarrow> steps_left work per_row rows t \<le> length es \<Longrightarrow>
   rt_pc (fold (tick cfg) es t) = Left_run"
proof (induction es arbitrary: t)
  case Nil
  then show ?case by (simp add: steps_left_def split: reader_pc.splits)
next
  case (Cons e es)
  let ?t = "tick cfg e t"
  have run: "\<not> rg_running e" using Cons.prems(1) by (simp add: unblocked_def)
  show ?case
  proof (cases "rt_pc t = Left_run")
    case True
    then show ?thesis by (rule left_stays)
  next
    case False
    with Cons.prems have less: "steps_left work per_row rows ?t \<le> length es"
      using steps_less [of cfg rows t e] by simp
    consider "rt_pc ?t = Left_run" | "rt_pc ?t = Loop_head"
      | "rw_startTime (rt_reader ?t) = rw_startTime (rt_reader t)" "rw_stopTime (rt_reader ?t) = rw_stopTime (rt_reader t)"
        "rw_paused (rt_reader ?t) = rw_paused (rt_reader t)"
      using tick_keeps [OF run] by blast
    then show ?thesis
    proof cases
      case 1
      then show ?thesis using left_stays [of ?t cfg es] by simp
    next
      case 2
      with less obtain e' es' where es: "es = e' # es'" by (cases es) (simp_all add: steps_left_def)
      then have "\<not> rg_running e'" using Cons.prems(1) by (simp add: unblocked_def)
      then have "rt_pc (tick cfg e' ?t) = Left_run" by (rule leaves_head) (simp add: 2)
      then show ?thesis using left_stays es by simp
    next
      case 3
      then have "unblocked cfg free rows ?t = unblocked cfg free rows t" by (simp add: unblocked_def fun_eq_iff)
      with Cons.prems 3 less show ?thesis using Cons.IH [of ?t] by simp
    qed
  qed
qed

text \<open>While it is paused a thread does not get past its wait, whatever it finds.\<close>

lemma tick_paused: "rt_pc t = Wait_paused \<Longrightarrow> rw_paused (rt_reader t) \<Longrightarrow> tick cfg e t = t"
  by (cases t) (simp add: tick_def thread_tick_def window_tick_def)

end

section \<open>The two deliveries\<close>

fun left_legs :: "leg_delivery \<Rightarrow> call_leg list" where
  "left_legs (Leg_rows rows) = map decode_leg rows"
| "left_legs (Leg_full leg rows) = leg # map decode_leg rows"

fun leg_work :: "leg_delivery \<Rightarrow> nat" where
  "leg_work (Leg_rows rows) = 2 * length rows"
| "leg_work (Leg_full leg rows) = 1 + 2 * length rows"

definition queue_free :: "reading \<Rightarrow> bool" where
  "queue_free e \<longleftrightarrow> rg_queue_size e < rg_max_queue_size e"

interpretation leg_delivery: delivery Leg_rows leg_deliver_tick decode_leg left_legs leg_work 2 queue_free
proof
  fix e p and rd rd' :: leg_reader and q items
  assume d: "leg_deliver_tick e p rd = (q, rd', items)"
  then show "items @ (case q of None \<Rightarrow> [] | Some q \<Rightarrow> left_legs q) = left_legs p"
    by (auto simp: leg_deliver_tick_def Let_def split: leg_delivery.splits list.splits if_splits)
  from d show "rw_startTime rd' = rw_startTime rd \<and> rw_stopTime rd' = rw_stopTime rd \<and> rw_paused rd' = rw_paused rd"
    by (auto simp: leg_deliver_tick_def Let_def split: leg_delivery.splits list.splits if_splits)
next
  fix e p p' and rd rd' :: leg_reader and items
  assume "queue_free e" "leg_deliver_tick e p rd = (Some p', rd', items)"
  then show "leg_work p' < leg_work p"
    by (auto simp: leg_deliver_tick_def queue_free_def Let_def split: leg_delivery.splits list.splits if_splits)
qed simp_all

fun left_links :: "(string \<Rightarrow> 'j) \<Rightarrow> 'j link_delivery \<Rightarrow> 'j call_leg_link list" where
  "left_links parse_json (Link_rows rows) = map (decode_link parse_json) rows"
| "left_links parse_json (Link_orig link rows) = link # map (decode_link parse_json) rows"
| "left_links parse_json (Link_term link rows) = link # map (decode_link parse_json) rows"
| "left_links parse_json (Link_full link rows) = link # map (decode_link parse_json) rows"

fun link_work :: "'j link_delivery \<Rightarrow> nat" where
  "link_work (Link_rows rows) = 4 * length rows"
| "link_work (Link_orig link rows) = 3 + 4 * length rows"
| "link_work (Link_term link rows) = 2 + 4 * length rows"
| "link_work (Link_full link rows) = 1 + 4 * length rows"

definition links_free :: "reading \<Rightarrow> bool" where
  "links_free e \<longleftrightarrow> queue_free e \<and> rg_online_orig e = (\<lambda>_. False) \<and> rg_online_term e = (\<lambda>_. False)"

interpretation link_delivery: delivery Link_rows "link_deliver_tick parse_json" "decode_link parse_json"
  "left_links parse_json" link_work 4 links_free for parse_json
proof
  fix e p and rd rd' :: link_reader and q items
  assume d: "link_deliver_tick parse_json e p rd = (q, rd', items)"
  then show "items @ (case q of None \<Rightarrow> [] | Some q \<Rightarrow> left_links parse_json q) = left_links parse_json p"
    by (auto simp: link_deliver_tick_def split: link_delivery.splits list.splits if_splits)
  from d show "rw_startTime rd' = rw_startTime rd \<and> rw_stopTime rd' = rw_stopTime rd \<and> rw_paused rd' = rw_paused rd"
    by (auto simp: link_deliver_tick_def split: link_delivery.splits list.splits if_splits)
next
  fix e p p' and rd rd' :: link_reader and items
  assume "links_free e" "link_deliver_tick parse_json e p rd = (Some p', rd', items)"
  then show "link_work p' < link_work p"
    by (auto simp: link_deliver_tick_def queue_free_def links_free_def split: link_delivery.splits list.splits if_splits)
qed simp_all


section \<open>The threads of a container\<close>

text \<open>
  \<open>MergeContainer::onStart\<close> starts the reader of links and then the reader of legs, \<open>run\<close> controls them, and
  \<open>onStop\<close> stops them in the same order, in the merge thread. Every reader has the state of its
  thread (\<open>Thread\<close>); its stopper is the merge thread.
\<close>

datatype container_stage = Starts_link | Starts_leg | Merging | Stops_link | Stops_leg | Container_ended

record 'j container =
  ct_stage :: container_stage
  ct_running :: bool
  ct_link :: "'j link_thread"
  ct_leg :: leg_thread
  ct_link_thread :: thread_state
  ct_leg_thread :: thread_state

definition container_new :: "read_settings \<Rightarrow> int \<Rightarrow> 'j container" where
  "container_new cfg start =
     \<lparr>ct_stage = Starts_link, ct_running = True,
      ct_link = thread_from (reader_setStart cfg start link_reader_new),
      ct_leg = thread_from (reader_setStart cfg start leg_reader_new),
      ct_link_thread = thread_started, ct_leg_thread = thread_started\<rparr>"

text \<open>A step of the thread itself in \<open>threadFun\<close>, and one of its stopper in \<open>stop\<close>.\<close>

definition own_step :: "bool \<Rightarrow> thread_state \<Rightarrow> thread_state \<Rightarrow> bool" where
  "own_step has_left t t' \<longleftrightarrow> thread_step t t' \<and> th_stopper t' = th_stopper t \<and> th_app_running t' = th_app_running t \<and>
     (th_pc t' = Leaving_run \<longrightarrow> has_left)"

definition stopper_step :: "thread_state \<Rightarrow> thread_state \<Rightarrow> bool" where
  "stopper_step t t' \<longleftrightarrow> thread_step t t' \<and> th_pc t' = th_pc t \<and> th_app_running t' = th_app_running t"

definition set_paused :: "bool \<Rightarrow> ('p, 'r read_window_scheme, 'item) reader_thread \<Rightarrow> ('p, 'r read_window_scheme, 'item) reader_thread" where
  "set_paused b t = t\<lparr>rt_reader := (if b then reader_pause else reader_resume) (rt_reader t)\<rparr>"

inductive container_step ::
  "read_settings \<Rightarrow> merge_settings \<Rightarrow> (string \<Rightarrow> 'j) \<Rightarrow> 'j container \<Rightarrow> 'j container \<Rightarrow> bool"
  for cfg :: read_settings and mcfg :: merge_settings and parse_json :: "string \<Rightarrow> 'j" where
  starts_link: "ct_stage c = Starts_link \<Longrightarrow> container_step cfg mcfg parse_json c (c\<lparr>ct_stage := Starts_leg\<rparr>)"
| starts_leg: "ct_stage c = Starts_leg \<Longrightarrow> container_step cfg mcfg parse_json c (c\<lparr>ct_stage := Merging\<rparr>)"
| link_looks: "ct_stage c \<noteq> Starts_link \<Longrightarrow> th_pc (ct_link_thread c) = In_run \<Longrightarrow>
    rg_running e = ct_running c \<Longrightarrow> rg_status e = th_status (ct_link_thread c) \<Longrightarrow>
    container_step cfg mcfg parse_json c (c\<lparr>ct_link := link_thread_tick cfg parse_json e (ct_link c)\<rparr>)"
| leg_looks: "ct_stage c \<notin> {Starts_link, Starts_leg} \<Longrightarrow> th_pc (ct_leg_thread c) = In_run \<Longrightarrow>
    rg_running e = ct_running c \<Longrightarrow> rg_status e = th_status (ct_leg_thread c) \<Longrightarrow>
    container_step cfg mcfg parse_json c (c\<lparr>ct_leg := leg_thread_tick cfg e (ct_leg c)\<rparr>)"
| link_moves: "ct_stage c \<noteq> Starts_link \<Longrightarrow> own_step (rt_pc (ct_link c) = Left_run) (ct_link_thread c) t \<Longrightarrow>
    container_step cfg mcfg parse_json c (c\<lparr>ct_link_thread := t\<rparr>)"
| leg_moves: "ct_stage c \<notin> {Starts_link, Starts_leg} \<Longrightarrow> own_step (rt_pc (ct_leg c) = Left_run) (ct_leg_thread c) t \<Longrightarrow>
    container_step cfg mcfg parse_json c (c\<lparr>ct_leg_thread := t\<rparr>)"
| controls: "ct_stage c = Merging \<Longrightarrow>
    mc_link_paused (mc :: 'j merge_container) = rw_paused (rt_reader (ct_link c)) \<Longrightarrow> mc_leg_paused mc = rw_paused (rt_reader (ct_leg c)) \<Longrightarrow>
    container_step cfg mcfg parse_json c
      (c\<lparr>ct_link := set_paused (mc_link_paused (control_readers mcfg mc)) (ct_link c),
         ct_leg := set_paused (mc_leg_paused (control_readers mcfg mc)) (ct_leg c)\<rparr>)"
| leaves: "ct_stage c = Merging \<Longrightarrow> \<not> ct_running c \<Longrightarrow> container_step cfg mcfg parse_json c (c\<lparr>ct_stage := Stops_link\<rparr>)"
| stops_link: "ct_stage c = Stops_link \<Longrightarrow> stopper_step (ct_link_thread c) t \<Longrightarrow>
    container_step cfg mcfg parse_json c (c\<lparr>ct_link_thread := t\<rparr>)"
| link_stopped: "ct_stage c = Stops_link \<Longrightarrow> th_stopper (ct_link_thread c) \<in> {Returned, Joined} \<Longrightarrow>
    container_step cfg mcfg parse_json c (c\<lparr>ct_stage := Stops_leg\<rparr>)"
| stops_leg: "ct_stage c = Stops_leg \<Longrightarrow> stopper_step (ct_leg_thread c) t \<Longrightarrow>
    container_step cfg mcfg parse_json c (c\<lparr>ct_leg_thread := t\<rparr>)"
| leg_stopped: "ct_stage c = Stops_leg \<Longrightarrow> th_stopper (ct_leg_thread c) \<in> {Returned, Joined} \<Longrightarrow>
    container_step cfg mcfg parse_json c (c\<lparr>ct_stage := Container_ended\<rparr>)"
| app_ends: "container_step cfg mcfg parse_json c
    (c\<lparr>ct_running := False, ct_link_thread := (ct_link_thread c)\<lparr>th_app_running := False\<rparr>,
       ct_leg_thread := (ct_leg_thread c)\<lparr>th_app_running := False\<rparr>\<rparr>)"

abbreviation container_steps ::
  "read_settings \<Rightarrow> merge_settings \<Rightarrow> (string \<Rightarrow> 'j) \<Rightarrow> 'j container \<Rightarrow> 'j container \<Rightarrow> bool" where
  "container_steps cfg mcfg parse_json \<equiv> (container_step cfg mcfg parse_json)\<^sup>*\<^sup>*"

inductive_cases container_stepE: "container_step cfg mcfg parse_json c c'"

text \<open>Where the thread of a reader is when the reader is.\<close>

definition held :: "('p, 'r read_window_scheme, 'item) reader_thread \<Rightarrow> bool" where
  "held t \<longleftrightarrow> rt_pc t = Wait_paused \<and> rw_paused (rt_reader t)"

definition in_step :: "'p reader_pc \<Rightarrow> thread_state \<Rightarrow> bool" where
  "in_step pc t \<longleftrightarrow> (th_pc t \<in> {Spawned, In_onStart} \<longrightarrow> pc = Loop_head) \<and>
     (th_pc t \<in> {Leaving_run, In_onStop, Finished} \<longrightarrow> pc = Left_run)"

text \<open>A thread in \<open>run\<close> whose stopper has not given up on it.\<close>

definition awaited :: "thread_state \<Rightarrow> bool" where
  "awaited t \<longleftrightarrow> th_pc t = In_run \<and>
     (th_stopper t \<in> {Idle, Saw_running} \<and> th_status t = RUNNING \<or>
      th_stopper t \<in> {Wrote_stopping, Joining} \<and> th_status t = STOPPING)"

lemma own_step_awaited:
  assumes "own_step b t t'" "\<not> b" "awaited t"
  shows "awaited t'"
proof -
  from assms have st: "thread_step t t'" and k: "th_stopper t' = th_stopper t" "th_app_running t' = th_app_running t"
    "th_pc t' \<noteq> Leaving_run" by (simp_all add: own_step_def)
  from st show ?thesis by cases (use k assms(3) in \<open>simp_all add: awaited_def\<close>)
qed

lemma stopper_step_awaited:
  assumes "stopper_step t t'" "awaited t"
  shows "awaited t'"
proof -
  from assms have st: "thread_step t t'" and k: "th_pc t' = th_pc t" by (simp_all add: stopper_step_def)
  from st show ?thesis by cases (use k assms(2) in \<open>simp_all add: awaited_def\<close>)
qed

lemma own_step_in_step:
  assumes "own_step (pc = Left_run) t t'" "in_step pc t"
  shows "in_step pc t'"
proof -
  from assms have st: "thread_step t t'" and k: "th_pc t' = Leaving_run \<longrightarrow> pc = Left_run" by (simp_all add: own_step_def)
  from st show ?thesis by cases (use k assms(2) in \<open>simp_all add: in_step_def\<close>)
qed

lemma own_step_running:
  assumes "own_step b t t'" "th_pc t = In_run \<longrightarrow> th_status t = RUNNING"
  shows "th_pc t' = In_run \<longrightarrow> th_status t' = RUNNING"
proof -
  from assms have st: "thread_step t t'" and k: "th_stopper t' = th_stopper t" by (simp_all add: own_step_def)
  from st show ?thesis by cases (use k assms(2) in simp_all)
qed

lemma leg_tick_held: "held t \<Longrightarrow> leg_thread_tick cfg e t = t"
  using leg_delivery.tick_paused [of t cfg e] by (simp add: held_def leg_thread_tick_def leg_delivery.tick_def)

lemma link_tick_held: "held t \<Longrightarrow> link_thread_tick cfg parse_json e t = t"
  using link_delivery.tick_paused [of t parse_json cfg e] by (simp add: held_def link_thread_tick_def link_delivery.tick_def)

text \<open>Up to the end of the merging nobody has tried to stop a reader.\<close>

definition merging_inv :: "'j container \<Rightarrow> bool" where
  "merging_inv c \<longleftrightarrow> (ct_stage c \<in> {Starts_link, Starts_leg, Merging} \<longrightarrow>
     in_step (rt_pc (ct_link c)) (ct_link_thread c) \<and> in_step (rt_pc (ct_leg c)) (ct_leg_thread c) \<and>
     th_stopper (ct_link_thread c) = Idle \<and> th_stopper (ct_leg_thread c) = Idle \<and>
     (th_pc (ct_link_thread c) = In_run \<longrightarrow> th_status (ct_link_thread c) = RUNNING) \<and>
     (th_pc (ct_leg_thread c) = In_run \<longrightarrow> th_status (ct_leg_thread c) = RUNNING))"

lemma in_step_run: "th_pc t = In_run \<Longrightarrow> in_step pc t"
  by (simp add: in_step_def)

lemma set_paused_pc [simp]: "rt_pc (set_paused b t) = rt_pc t"
  by (simp add: set_paused_def)

lemma merging_inv_step: "container_step cfg mcfg parse_json c c' \<Longrightarrow> merging_inv c \<Longrightarrow> merging_inv c'"
proof (induction rule: container_step.induct)
  case (link_moves c t)
  then show ?case
    using own_step_in_step [OF link_moves(2)] own_step_running [OF link_moves(2)]
    by (simp add: merging_inv_def own_step_def)
next
  case (leg_moves c t)
  then show ?case
    using own_step_in_step [OF leg_moves(2)] own_step_running [OF leg_moves(2)]
    by (simp add: merging_inv_def own_step_def)
next
  case (app_ends c)
  then show ?case by (simp add: merging_inv_def in_step_def)
qed (simp_all add: merging_inv_def in_step_run)

lemma merging_inv_new: "merging_inv (container_new cfg start)"
  by (simp add: merging_inv_def container_new_def thread_started_def in_step_def thread_from_def)

lemma merging_inv_steps: "container_steps cfg mcfg parse_json c c' \<Longrightarrow> merging_inv c \<Longrightarrow> merging_inv c'"
  by (induction rule: rtranclp_induct) (simp_all add: merging_inv_step)

lemma held_running: "held t \<Longrightarrow> in_step (rt_pc t) th \<Longrightarrow> th_pc th = In_run"
  by (cases "th_pc th") (simp_all add: held_def in_step_def)

text \<open>A stage at which the merge thread still has to stop the reader, and waits for it.\<close>

definition link_waits :: "'j container \<Rightarrow> bool" where
  "link_waits c \<longleftrightarrow> ct_stage c = Stops_link \<and> held (ct_link c) \<and> awaited (ct_link_thread c)"

definition leg_waits :: "'j container \<Rightarrow> bool" where
  "leg_waits c \<longleftrightarrow> ct_stage c \<in> {Stops_link, Stops_leg} \<and> held (ct_leg c) \<and> awaited (ct_leg_thread c)"

lemma held_left: "held t \<Longrightarrow> rt_pc t \<noteq> Left_run"
  by (simp add: held_def)

lemma awaited_stopper: "awaited t \<Longrightarrow> th_stopper t \<notin> {Returned, Joined}"
  by (auto simp: awaited_def)

lemma link_waits_step: "container_step cfg mcfg parse_json c c' \<Longrightarrow> link_waits c \<Longrightarrow> link_waits c'"
proof (induction rule: container_step.induct)
  case (link_moves c t)
  then show ?case using own_step_awaited [OF link_moves(2)] held_left by (auto simp: link_waits_def)
next
  case (stops_link c t)
  then show ?case using stopper_step_awaited by (auto simp: link_waits_def)
next
  case (link_stopped c)
  then show ?case using awaited_stopper by (auto simp: link_waits_def)
next
  case (app_ends c)
  then show ?case by (simp add: link_waits_def awaited_def)
qed (simp_all add: link_waits_def link_tick_held)

lemma leg_waits_step: "container_step cfg mcfg parse_json c c' \<Longrightarrow> leg_waits c \<Longrightarrow> leg_waits c'"
proof (induction rule: container_step.induct)
  case (leg_moves c t)
  then show ?case using own_step_awaited [OF leg_moves(2)] held_left by (auto simp: leg_waits_def)
next
  case (stops_leg c t)
  then show ?case using stopper_step_awaited by (auto simp: leg_waits_def)
next
  case (leg_stopped c)
  then show ?case using awaited_stopper by (auto simp: leg_waits_def)
next
  case (app_ends c)
  then show ?case by (simp add: leg_waits_def awaited_def)
qed (auto simp: leg_waits_def leg_tick_held)

lemma waits_steps:
  "container_steps cfg mcfg parse_json c c' \<Longrightarrow> link_waits c \<or> leg_waits c \<Longrightarrow> link_waits c' \<or> leg_waits c'"
  by (induction rule: rtranclp_induct) (use link_waits_step leg_waits_step in blast)+


lemma merging_waits:
  assumes "merging_inv c" "ct_stage c = Merging" "held (ct_link c) \<or> held (ct_leg c)"
  shows "link_waits (c\<lparr>ct_stage := Stops_link\<rparr>) \<or> leg_waits (c\<lparr>ct_stage := Stops_link\<rparr>)"
  using assms held_running [of "ct_link c"] held_running [of "ct_leg c"]
  by (auto simp: merging_inv_def link_waits_def leg_waits_def awaited_def)

section \<open>Properties\<close>

text \<open>
  C5 (safety): what a reader has enqueued, whatever its waits find and whenever it is paused: at least every
  row stamped after the start and up to the time it reports, at most those up to the end of its window, none
  twice. The merge thread retires records by the first half.
\<close>

theorem reader_thread_delivers:
  fixes legs :: leg_thread and links :: "'j link_thread"
  assumes "settings_ok cfg" "\<And>e x y. Ticks e \<in> set ms \<Longrightarrow> mset (rg_select e x y) = stamped tbl x y"
    "legs = fold (thread_move (leg_thread_tick cfg)) ms (thread_from (reader_setStart cfg a rl))"
    "links = fold (thread_move (link_thread_tick cfg parse_json)) ms (thread_from (reader_setStart cfg a rk))"
  shows "image_mset decode_leg (stamped tbl a (reader_getTime (rt_reader legs))) \<subseteq># mset (rt_delivered legs) \<and>
    mset (rt_delivered legs) \<subseteq># image_mset decode_leg (stamped tbl a (rw_stopTime (rt_reader legs))) \<and>
    image_mset (decode_link parse_json) (stamped tbl a (reader_getTime (rt_reader links))) \<subseteq># mset (rt_delivered links) \<and>
    mset (rt_delivered links) \<subseteq># image_mset (decode_link parse_json) (stamped tbl a (rw_stopTime (rt_reader links)))"
proof -
  have l: "leg_delivery.books tbl a legs"
    unfolding assms(3) leg_thread_tick_def leg_delivery.tick_def [symmetric]
    by (rule leg_delivery.books_run [OF assms(1,2) leg_delivery.books_from [OF assms(1)]])
  have k: "link_delivery.books parse_json tbl a links"
    unfolding assms(4) link_thread_tick_def link_delivery.tick_def [symmetric]
    by (rule link_delivery.books_run [OF assms(1,2) link_delivery.books_from [OF assms(1)]])
  show ?thesis
    unfolding reader_getTime_def using leg_delivery.books_bounds [OF l] link_delivery.books_bounds [OF k] by simp
qed

text \<open>A table and a reading of it with nothing in the way.\<close>

definition ex_leg_table :: "(int \<times> db_row) list" where
  "ex_leg_table = [(130, \<lambda>c. ''7''), (170, \<lambda>c. ''8'')]"

definition ex_reading :: "bool \<Rightarrow> reading" where
  "ex_reading running =
     \<lparr>rg_running = running, rg_status = RUNNING, rg_now = 1000, rg_exists = \<lambda>x y. True,
      rg_select = \<lambda>x y. map snd (filter (\<lambda>(t, r). x < t \<and> t \<le> y) ex_leg_table),
      rg_queue_size = 0, rg_max_queue_size = 10, rg_online_orig = \<lambda>_. False, rg_online_term = \<lambda>_. False\<rparr>"

definition ex_read_settings :: read_settings where
  "ex_read_settings = \<lparr>rs_read_threshold_second = 60, rs_read_waiting_second = 5, rs_max_call_time = 3600\<rparr>"

theorem reader_thread_delivers_witness:
  "let legs = fold (thread_move (leg_thread_tick ex_read_settings)) (replicate 9 (Ticks (ex_reading True)))
         (thread_from (reader_setStart ex_read_settings 100 leg_reader_new))
   in image_mset decode_leg (stamped ex_leg_table 100 (reader_getTime (rt_reader legs))) \<subseteq># mset (rt_delivered legs) \<and>
      length (rt_delivered legs) = 1 \<and> reader_getTime (rt_reader legs) = 160"
proof -
  let ?legs = "fold (thread_move (leg_thread_tick ex_read_settings)) (replicate 9 (Ticks (ex_reading True)))
      (thread_from (reader_setStart ex_read_settings 100 leg_reader_new))"
  have ok: "settings_ok ex_read_settings" by (simp add: settings_ok_def ex_read_settings_def)
  have sel: "Ticks e \<in> set (replicate 9 (Ticks (ex_reading True))) \<Longrightarrow> mset (rg_select e x y) = stamped ex_leg_table x y" for e x y
    by (simp add: ex_reading_def stamped_def)
  have "image_mset decode_leg (stamped ex_leg_table 100 (reader_getTime (rt_reader ?legs))) \<subseteq># mset (rt_delivered ?legs)"
    using reader_thread_delivers [OF ok sel refl refl] by blast
  moreover have "length (rt_delivered ?legs) = 1 \<and> reader_getTime (rt_reader ?legs) = 160"
    by code_simp
  ultimately show ?thesis unfolding Let_def by blast
qed

text \<open>
  C7 (liveness): once the application is not running a reader that nothing keeps ends within a number of steps that is
  known beforehand, four or six for the waits and the window and a few for each row that is left.
\<close>

theorem reader_thread_ends:
  "(list_all (unblocked cfg queue_free rows legs) es \<longrightarrow> \<not> rw_paused (rt_reader legs) \<longrightarrow>
      steps_left leg_work 2 rows legs \<le> length es \<longrightarrow>
      rt_pc (fold (leg_thread_tick cfg) es legs) = Left_run) \<and>
   (list_all (unblocked cfg links_free rows links) es \<longrightarrow> \<not> rw_paused (rt_reader links) \<longrightarrow>
      steps_left link_work 4 rows links \<le> length es \<longrightarrow>
      rt_pc (fold (link_thread_tick cfg parse_json) es links) = Left_run)"
  unfolding leg_thread_tick_def link_thread_tick_def leg_delivery.tick_def [symmetric] link_delivery.tick_def [symmetric]
  using leg_delivery.thread_ends link_delivery.thread_ends by blast

theorem reader_thread_ends_witness:
  "rt_pc (fold (link_thread_tick ex_read_settings (\<lambda>s. s)) (replicate 14 (ex_reading False))
     \<lparr>rt_pc = Wait_clock, rt_reader = reader_setStart ex_read_settings 100 link_reader_new, rt_delivered = []\<rparr>) = Left_run"
proof -
  let ?t = "\<lparr>rt_pc = Wait_clock, rt_reader = reader_setStart ex_read_settings 100 link_reader_new, rt_delivered = []\<rparr>
     :: string link_thread"
  have "unblocked ex_read_settings links_free 2 ?t (ex_reading False)"
    by (simp add: unblocked_def links_free_def queue_free_def ex_reading_def ex_read_settings_def ex_leg_table_def
        reader_setStart_def link_reader_new_def)
  then have "list_all (unblocked ex_read_settings links_free 2 ?t) (replicate 14 (ex_reading False))"
    by (simp add: list_all_iff)
  moreover have "\<not> rw_paused (rt_reader ?t)" by (simp add: reader_setStart_def link_reader_new_def)
  moreover have "steps_left link_work 4 2 ?t \<le> length (replicate 14 (ex_reading False))" by (simp add: steps_left_def)
  ultimately show ?thesis using reader_thread_ends by blast
qed

text \<open>
  C6 (error): when the application stops while a reader is held, the container never ends: the merge thread, which
  alone resumes a reader, has left its loop for \<open>onStop\<close> and waits there for a thread that does not look
  whether it should go on.
\<close>

theorem container_never_ends:
  assumes "container_steps cfg mcfg parse_json (container_new rcfg start) c" "ct_stage c = Merging" "\<not> ct_running c"
    "held (ct_link c) \<or> held (ct_leg c)"
    "container_steps cfg mcfg parse_json (c\<lparr>ct_stage := Stops_link\<rparr>) c'"
  shows "ct_stage c' \<in> {Stops_link, Stops_leg} \<and> (th_pc (ct_link_thread c') = In_run \<or> th_pc (ct_leg_thread c') = In_run)"
proof -
  have "merging_inv c" using merging_inv_steps [OF assms(1) merging_inv_new] .
  from waits_steps [OF assms(5) merging_waits [OF this assms(2,4)]] show ?thesis
    by (auto simp: link_waits_def leg_waits_def awaited_def)
qed


text \<open>The leg reader runs ahead, is paused, and the application stops.\<close>

definition ex_held :: "unit container" where
  "ex_held =
     \<lparr>ct_stage = Merging, ct_running = False,
      ct_link = thread_from (reader_setStart ex_read_settings 100 link_reader_new),
      ct_leg = \<lparr>rt_pc = Wait_paused, rt_reader = reader_pause (reader_setStart ex_read_settings 100 leg_reader_new),
                rt_delivered = []\<rparr>,
      ct_link_thread = thread_started\<lparr>th_app_running := False\<rparr>,
      ct_leg_thread = \<lparr>th_status = RUNNING, th_pc = In_run, th_stopper = Idle, th_app_running = False\<rparr>\<rparr>"

lemma ex_held_reached:
  "container_steps ex_read_settings ex_cfg (\<lambda>s. ()) (container_new ex_read_settings 100) ex_held"
proof -
  let ?steps = "container_steps ex_read_settings ex_cfg (\<lambda>s. ())"
  let ?c = "container_new ex_read_settings 100 :: unit container"
  let ?rd = "reader_setStart ex_read_settings 100 leg_reader_new"
  let ?run = "\<lparr>th_status = RUNNING, th_pc = In_run, th_stopper = Idle, th_app_running = True\<rparr>"
  let ?at = "\<lambda>pc. ?c\<lparr>ct_stage := Merging, ct_leg_thread := ?run,
      ct_leg := \<lparr>rt_pc = pc, rt_reader = ?rd, rt_delivered = []\<rparr>\<rparr>"
  have step: "?steps ?c c \<Longrightarrow> container_step ex_read_settings ex_cfg (\<lambda>s. ()) c c' \<Longrightarrow> c' = c'' \<Longrightarrow> ?steps ?c c''" for c c' c''
    by (simp add: rtranclp.rtrancl_into_rtrancl)
  note sets = container_new_def thread_from_def thread_started_def
  have 1: "?steps ?c (?c\<lparr>ct_stage := Starts_leg\<rparr>)"
    by (rule step [OF rtranclp.rtrancl_refl container_step.starts_link]) (simp_all add: sets)
  have 2: "?steps ?c (?c\<lparr>ct_stage := Merging\<rparr>)"
    by (rule step [OF 1 container_step.starts_leg]) simp_all
  have own1: "own_step b thread_started \<lparr>th_status = WAITING, th_pc = In_onStart, th_stopper = Idle, th_app_running = True\<rparr>" for b
    using thread_step.set_waiting [of thread_started] by (simp add: own_step_def thread_started_def)
  have own2: "own_step b \<lparr>th_status = WAITING, th_pc = In_onStart, th_stopper = Idle, th_app_running = True\<rparr> ?run" for b
    using thread_step.set_running [of "\<lparr>th_status = WAITING, th_pc = In_onStart, th_stopper = Idle, th_app_running = True\<rparr>"]
    by (simp add: own_step_def)
  have 3: "?steps ?c (?c\<lparr>ct_stage := Merging,
      ct_leg_thread := \<lparr>th_status = WAITING, th_pc = In_onStart, th_stopper = Idle, th_app_running = True\<rparr>\<rparr>)"
    by (rule step [OF 2 container_step.leg_moves]) (simp_all add: own1 [unfolded thread_started_def] sets)
  have 4: "?steps ?c (?at Loop_head)"
    by (rule step [OF 3 container_step.leg_moves]) (simp_all add: own2 sets)
  have look: "?steps ?c (?at pc)"
    if a: "?steps ?c (?at pc')" and b: "leg_thread_tick ex_read_settings (ex_reading True)
      \<lparr>rt_pc = pc', rt_reader = ?rd, rt_delivered = []\<rparr> = \<lparr>rt_pc = pc, rt_reader = ?rd, rt_delivered = []\<rparr>" for pc pc'
    by (rule step [OF a container_step.leg_looks [where e = "ex_reading True"]])
      (simp_all add: b, simp_all add: sets ex_reading_def)
  note tick = leg_thread_tick_def thread_tick_def window_tick_def ex_reading_def ex_read_settings_def
    reader_setStart_def leg_reader_new_def
  have 5: "?steps ?c (?at Wait_clock)" by (rule look [OF 4]) (simp add: tick)
  have 6: "?steps ?c (?at Wait_probe)" by (rule look [OF 5]) (simp add: tick)
  have 7: "?steps ?c (?at Wait_paused)" by (rule look [OF 6]) (simp add: tick)
  let ?mc = "(merge_init 0)\<lparr>mc_maxLegTime := 1000000\<rparr> :: unit merge_container"
  have mc: "mc_link_paused (control_readers ex_cfg ?mc) = False" "mc_leg_paused (control_readers ex_cfg ?mc) = True"
    "mc_link_paused ?mc = False" "mc_leg_paused ?mc = False"
    by (simp_all add: control_readers_def merge_init_def ex_cfg_def Let_def)
  have 8: "?steps ?c (?at Wait_paused\<lparr>ct_leg := \<lparr>rt_pc = Wait_paused, rt_reader = reader_pause ?rd, rt_delivered = []\<rparr>\<rparr>)"
    by (rule step [OF 7 container_step.controls [where mc = ?mc]])
      (simp_all add: mc, simp_all add: sets set_paused_def reader_resume_def reader_setStart_def leg_reader_new_def link_reader_new_def)
  show ?thesis
    by (rule step [OF 8 container_step.app_ends]) (simp add: ex_held_def sets)
qed

theorem container_never_ends_witness:
  "container_steps ex_read_settings ex_cfg (\<lambda>s. ()) (container_new ex_read_settings 100) ex_held \<and>
   container_step ex_read_settings ex_cfg (\<lambda>s. ()) ex_held (ex_held\<lparr>ct_stage := Stops_link\<rparr>) \<and>
   ct_stage (ex_held\<lparr>ct_stage := Stops_link\<rparr>) \<in> {Stops_link, Stops_leg}"
proof -
  have h: "ct_stage ex_held = Merging" "\<not> ct_running ex_held" "held (ct_link ex_held) \<or> held (ct_leg ex_held)"
    by (simp_all add: ex_held_def held_def reader_pause_def)
  have "ct_stage (ex_held\<lparr>ct_stage := Stops_link\<rparr>) \<in> {Stops_link, Stops_leg}"
    using container_never_ends [OF ex_held_reached h rtranclp.rtrancl_refl] by blast
  then show ?thesis using ex_held_reached container_step.leaves [OF h(1,2)] by blast
qed

end
