(* ===== verification/Settings_Store.thy ===== *)
theory Settings_Store
  imports Settings
begin

text \<open>
  The settings as the rest of the program sees them: \<open>settings\<close> is a handle on an object shared with every other
  handle that was taken since the same reading, and \<open>settings::instance_\<close> is the handle in force. A handle is the
  place of its object among those created, or nothing before the first reading. The vectors of numbers and the
  dump of vectors, which the table of \<open>Settings\<close> does not use or takes as one assignment, are here too.
\<close>

section \<open>Handles\<close>

type_synonym settings_handle = "nat option"

record settings_store =
  so_impls :: "settings list"
  so_instance :: settings_handle
  so_log_level :: log_message_level

text \<open>\<open>Log\<close> starts with the level of its own default.\<close>

definition store_new :: "log_message_level \<Rightarrow> settings_store" where
  "store_new level = \<lparr>so_impls = [], so_instance = None, so_log_level = level\<rparr>"

definition get_settings :: "settings_store \<Rightarrow> settings_handle" where
  "get_settings so = so_instance so"

text \<open>A member function of a handle without an object is undefined.\<close>

definition with_impl :: "(settings \<Rightarrow> 'a) \<Rightarrow> settings_store \<Rightarrow> settings_handle \<Rightarrow> 'a outcome" where
  "with_impl get_field so h = (case h of None \<Rightarrow> Undefined | Some i \<Rightarrow> Ok (get_field (so_impls so ! i)))"

definition settings_path :: "settings_store \<Rightarrow> settings_handle \<Rightarrow> string outcome" where
  "settings_path = with_impl st_settings_path"
definition web_port :: "settings_store \<Rightarrow> settings_handle \<Rightarrow> int outcome" where
  "web_port = with_impl st_web_port"
definition max_call_time :: "settings_store \<Rightarrow> settings_handle \<Rightarrow> int outcome" where
  "max_call_time = with_impl st_max_call_time"
definition table_reload_time :: "settings_store \<Rightarrow> settings_handle \<Rightarrow> int outcome" where
  "table_reload_time = with_impl st_table_reload_time"
definition sql_insert_buffer_size :: "settings_store \<Rightarrow> settings_handle \<Rightarrow> int outcome" where
  "sql_insert_buffer_size = with_impl st_sql_insert_buffer_size"
definition max_queue_size :: "settings_store \<Rightarrow> settings_handle \<Rightarrow> int outcome" where
  "max_queue_size = with_impl st_max_queue_size"
definition read_threshold_second :: "settings_store \<Rightarrow> settings_handle \<Rightarrow> int outcome" where
  "read_threshold_second = with_impl st_read_threshold_second"
definition read_waiting_second :: "settings_store \<Rightarrow> settings_handle \<Rightarrow> int outcome" where
  "read_waiting_second = with_impl st_read_waiting_second"
definition threads_count :: "settings_store \<Rightarrow> settings_handle \<Rightarrow> int outcome" where
  "threads_count = with_impl st_threads_count"
definition source_connection_string :: "settings_store \<Rightarrow> settings_handle \<Rightarrow> string outcome" where
  "source_connection_string = with_impl st_source_connection_string"
definition path_to_logs :: "settings_store \<Rightarrow> settings_handle \<Rightarrow> string outcome" where
  "path_to_logs = with_impl st_path_to_log_file"
definition graylog_port :: "settings_store \<Rightarrow> settings_handle \<Rightarrow> int outcome" where
  "graylog_port = with_impl st_graylog_port"
definition graylog_host :: "settings_store \<Rightarrow> settings_handle \<Rightarrow> string outcome" where
  "graylog_host = with_impl st_graylog_host"
definition graylog_source :: "settings_store \<Rightarrow> settings_handle \<Rightarrow> string outcome" where
  "graylog_source = with_impl st_graylog_source"
definition instance_id :: "settings_store \<Rightarrow> settings_handle \<Rightarrow> int outcome" where
  "instance_id = with_impl st_instance_id"
definition instance_name :: "settings_store \<Rightarrow> settings_handle \<Rightarrow> string outcome" where
  "instance_name = with_impl st_instance_name"
definition sync_thread_period :: "settings_store \<Rightarrow> settings_handle \<Rightarrow> int outcome" where
  "sync_thread_period = with_impl st_sync_thread_period"
definition online_connection_string :: "settings_store \<Rightarrow> settings_handle \<Rightarrow> string list outcome" where
  "online_connection_string = with_impl st_online_connection_string"
definition output_connection_string :: "settings_store \<Rightarrow> settings_handle \<Rightarrow> string outcome" where
  "output_connection_string = with_impl st_output_connection_string"
definition db_bandwidth :: "settings_store \<Rightarrow> settings_handle \<Rightarrow> int outcome" where
  "db_bandwidth = with_impl st_db_bandwidth"
definition loader_thread_count :: "settings_store \<Rightarrow> settings_handle \<Rightarrow> int outcome" where
  "loader_thread_count = with_impl st_loader_thread_count"
definition log_level :: "settings_store \<Rightarrow> settings_handle \<Rightarrow> string outcome" where
  "log_level = with_impl st_log_level"
definition handle_is_slave :: "settings_store \<Rightarrow> settings_handle \<Rightarrow> bool outcome" where
  "handle_is_slave = with_impl is_slave"
definition use_core_dump :: "settings_store \<Rightarrow> settings_handle \<Rightarrow> bool outcome" where
  "use_core_dump = with_impl st_use_core_dump"

section \<open>Reading anew\<close>

text \<open>
  \<open>settings::parse\<close> on the store: it creates an object and returns the handle on it, or the handle that was in force
  when the file is missing or no JSON; what throws on the way leaves everything as it was but for an object
  nobody has a handle on.
\<close>

definition store_parse ::
  "json_api \<Rightarrow> (string \<Rightarrow> string) \<Rightarrow> (string \<Rightarrow> json_value option) \<Rightarrow> string \<Rightarrow> string option \<Rightarrow>
   settings_store \<Rightarrow> settings_handle outcome \<times> settings_store" where
  "store_parse api pf json_text path_to_file content so =
     (let result = default_settings\<lparr>st_settings_path := path_to_file\<rparr>;
          h = Some (length (so_impls so));
          backup_config = (if get_settings so \<noteq> None then get_settings so else h);
          so1 = so\<lparr>so_impls := so_impls so @ [result]\<rparr>
      in if path_to_file = [] then (Ok h, so1)
         else case content of
                None \<Rightarrow> (Ok backup_config, so1)
              | Some source \<Rightarrow>
                  (case json_text source of
                     None \<Rightarrow> (Ok backup_config, so1)
                   | Some root \<Rightarrow>
                       (case parse_object api pf root settings_sequence result of
                          Ok impl \<Rightarrow> (Ok h, so\<lparr>so_impls := so_impls so @ [impl]\<rparr>)
                        | e \<Rightarrow> (bind_outcome e (\<lambda>_. Ok h), so1))))"

definition reread_settings ::
  "json_api \<Rightarrow> (string \<Rightarrow> string) \<Rightarrow> (string \<Rightarrow> json_value option) \<Rightarrow> (string \<Rightarrow> string option) \<Rightarrow> string \<Rightarrow>
   settings_store \<Rightarrow> unit outcome \<times> settings_store" where
  "reread_settings api pf json_text files path_to_file so =
     (case (if path_to_file = [] \<and> get_settings so \<noteq> None then settings_path so (get_settings so) else Ok path_to_file) of
        Ok path \<Rightarrow>
          (case store_parse api pf json_text path (files path) so of
             (Ok h, so) \<Rightarrow>
               (let so = so\<lparr>so_instance := h\<rparr>
                in case log_level so (so_instance so) of
                     Ok level \<Rightarrow> (Ok (), so\<lparr>so_log_level := parse_log_level level\<rparr>)
                   | e \<Rightarrow> (bind_outcome e (\<lambda>_. Ok ()), so))
           | (e, so) \<Rightarrow> (bind_outcome e (\<lambda>_. Ok ()), so))
      | e \<Rightarrow> (bind_outcome e (\<lambda>_. Ok ()), so))"

section \<open>Vectors\<close>

fun read_ints_loop :: "json_value list \<Rightarrow> int list \<Rightarrow> int list" where
  "read_ints_loop [] result = result"
| "read_ints_loop (Json_Int n # vs) result =
     (if - (2 ^ 63) \<le> n \<and> n < 2 ^ 63 then read_ints_loop vs (result @ [int32 n]) else read_ints_loop vs result)"
| "read_ints_loop (_ # vs) result = read_ints_loop vs result"

definition read_json_ints :: "json_value \<Rightarrow> int list" where
  "read_json_ints json = (case json of Json_Array vs \<Rightarrow> read_ints_loop vs [] | _ \<Rightarrow> [])"

text \<open>\<open>resize\<close> makes an array of a null value; \<open>current[idx] = v[idx]\<close> for every element.\<close>

definition json_resize :: "nat \<Rightarrow> json_value \<Rightarrow> json_value outcome" where
  "json_resize n current = (case current of
       Json_Null \<Rightarrow> Ok (Json_Array (replicate n Json_Null))
     | Json_Array vs \<Rightarrow> Ok (Json_Array (take n vs @ replicate (n - length vs) Json_Null))
     | _ \<Rightarrow> Throws ''in Json::Value::resize(): requires arrayValue'')"

fun assign_elements :: "('e \<Rightarrow> json_value) \<Rightarrow> nat \<Rightarrow> 'e list \<Rightarrow> json_value list \<Rightarrow> json_value list" where
  "assign_elements to_json idx [] current = current"
| "assign_elements to_json idx (x # v) current = assign_elements to_json (Suc idx) v (current[idx := to_json x])"

definition dump_vector :: "('e \<Rightarrow> json_value) \<Rightarrow> 'e list \<Rightarrow> json_value \<Rightarrow> json_value outcome" where
  "dump_vector to_json v current =
     bind_outcome (json_resize (length v) current) (\<lambda>current. case current of
         Json_Array vs \<Rightarrow> Ok (Json_Array (assign_elements to_json 0 v vs))
       | current \<Rightarrow> Ok current)"

text \<open>\<open>dump_helper\<close>: \<open>leaf\<close> is what it does at the end of the path.\<close>

fun dump_helper :: "(json_value \<Rightarrow> json_value outcome) \<Rightarrow> string list \<Rightarrow> json_value \<Rightarrow> json_value outcome" where
  "dump_helper leaf [] current = leaf current"
| "dump_helper leaf (k # ks) (Json_Object ms) =
     bind_outcome (dump_helper leaf ks (case map_of ms k of Some v \<Rightarrow> v | None \<Rightarrow> Json_Null))
       (\<lambda>v. Ok (Json_Object (sm_set k v ms)))"
| "dump_helper leaf (k # ks) Json_Null =
     bind_outcome (dump_helper leaf ks Json_Null) (\<lambda>v. Ok (Json_Object (sm_set k v [])))"
| "dump_helper leaf (k # ks) _ = Throws ''requires objectValue''"

lemma dump_helper_scalar: "dump_helper (\<lambda>current. Ok x) path current = json_assign path x current"
  by (induction path x current rule: json_assign.induct) simp_all

lemma assign_elements_replicate:
  "assign_elements to_json (length front) v (front @ replicate (length v) Json_Null) = front @ map to_json v"
proof (induction v arbitrary: front)
  case (Cons x v)
  from Cons [of "front @ [to_json x]"] show ?case by simp
qed simp

lemma dump_vector_null: "dump_vector to_json v Json_Null = Ok (Json_Array (map to_json v))"
  using assign_elements_replicate [of to_json "[]" v] by (simp add: dump_vector_def json_resize_def)

lemma dump_helper_vector:
  "json_at path current = Some Json_Null \<Longrightarrow>
   dump_helper (dump_vector to_json v) path current = json_assign path (Json_Array (map to_json v)) current"
proof (induction path "Json_Array (map to_json v)" current rule: json_assign.induct)
  case (2 k ks ms)
  have "json_at ks Json_Null = Some Json_Null" by (cases ks) simp_all
  with 2 show ?case by (simp split: option.splits)
next
  case (3 k ks)
  have "json_at ks Json_Null = Some Json_Null" by (cases ks) simp_all
  with 3 show ?case by simp
qed (simp_all add: dump_vector_null)

lemma read_ints_loop_dumped:
  "\<forall>n \<in> set ns. int32 n = n \<Longrightarrow> read_ints_loop (map Json_Int ns) result = result @ ns"
proof (induction ns arbitrary: result)
  case (Cons n ns)
  then have n: "int32 n = n" by simp
  have "- (2 ^ 31) \<le> int32 n \<and> int32 n < 2 ^ 31" by (rule int32_range)
  with n have "- (2 ^ 63) \<le> n \<and> n < 2 ^ 63" by simp
  with Cons n show ?case by simp
qed simp

section \<open>The store and the settings in force\<close>

definition in_force :: "settings_store \<Rightarrow> settings option" where
  "in_force so = map_option (\<lambda>i. so_impls so ! i) (so_instance so)"

definition store_ok :: "settings_store \<Rightarrow> bool" where
  "store_ok so \<longleftrightarrow> (\<forall>i. so_instance so = Some i \<longrightarrow> i < length (so_impls so))"

definition same_handles :: "settings_store \<Rightarrow> settings_store \<Rightarrow> bool" where
  "same_handles so so' \<longleftrightarrow> (\<exists>new. so_impls so' = so_impls so @ new)"

lemma same_handles_refl: "same_handles so so"
  by (simp add: same_handles_def)

lemma same_handles_trans: "same_handles a b \<Longrightarrow> same_handles b c \<Longrightarrow> same_handles a c"
  by (auto simp: same_handles_def)

lemma same_handles_read:
  "same_handles so so' \<Longrightarrow> i < length (so_impls so) \<Longrightarrow> with_impl get_field so' (Some i) = with_impl get_field so (Some i)"
  by (auto simp: same_handles_def with_impl_def nth_append)

text \<open>One reading, seen from outside.\<close>

definition reads_as :: "(settings \<times> log_message_level) outcome \<Rightarrow> settings_store \<Rightarrow> unit outcome \<times> settings_store \<Rightarrow> bool" where
  "reads_as spec so res \<longleftrightarrow> store_ok (snd res) \<and> same_handles so (snd res) \<and>
     (case spec of
        Ok (s, level) \<Rightarrow> fst res = Ok () \<and> in_force (snd res) = Some s \<and> so_log_level (snd res) = level
      | e \<Rightarrow> fst res = bind_outcome e (\<lambda>_. Ok ()) \<and> so_instance (snd res) = so_instance so \<and>
             so_log_level (snd res) = so_log_level so)"

lemma in_force_None: "in_force so = None \<longleftrightarrow> so_instance so = None"
  by (simp add: in_force_def)

lemma store_parse_as:
  assumes "store_ok so" "store_parse api pf json_text path content so = (r, so')"
  shows "so_instance so' = so_instance so \<and> so_log_level so' = so_log_level so \<and> same_handles so so' \<and>
    (case settings_parse api pf json_text (in_force so) path content of
       Ok s \<Rightarrow> (\<exists>i. r = Ok (Some i) \<and> i < length (so_impls so') \<and> so_impls so' ! i = s)
     | e \<Rightarrow> r = bind_outcome e (\<lambda>_. Ok None))"
  using assms
  by (auto simp: store_parse_def settings_parse_def Let_def in_force_def get_settings_def same_handles_def store_ok_def nth_append
      split: if_splits option.splits outcome.splits)

lemma read_settings_as:
  assumes "store_ok so"
  shows "reads_as (read_settings_file api pf json_text files path_to_file (in_force so)) so
    (reread_settings api pf json_text files path_to_file so)"
proof -
  let ?path = "reread_path path_to_file (in_force so)"
  obtain r so1 where p: "store_parse api pf json_text ?path (files ?path) so = (r, so1)" by (meson surj_pair)
  have path: "(if path_to_file = [] \<and> get_settings so \<noteq> None then settings_path so (get_settings so) else Ok path_to_file) = Ok ?path"
    by (auto simp: reread_path_def in_force_def get_settings_def settings_path_def with_impl_def split: option.splits)
  from store_parse_as [OF assms p] show ?thesis
    unfolding reread_settings_def path outcome.case p
    by (auto simp: reads_as_def read_settings_file_def Let_def log_level_def with_impl_def in_force_def store_ok_def
        same_handles_def split: outcome.splits) (use assms in \<open>auto simp: store_ok_def nth_append\<close>)
qed


text \<open>Any number of readings, of whatever files.\<close>

definition read_all ::
  "json_api \<Rightarrow> (string \<Rightarrow> string) \<Rightarrow> ((string \<Rightarrow> json_value option) \<times> (string \<Rightarrow> string option) \<times> string) list \<Rightarrow>
   settings_store \<Rightarrow> settings_store" where
  "read_all api pf = fold (\<lambda>(json_text, files, path) so. snd (reread_settings api pf json_text files path so))"

definition settings_after ::
  "json_api \<Rightarrow> (string \<Rightarrow> string) \<Rightarrow> ((string \<Rightarrow> json_value option) \<times> (string \<Rightarrow> string option) \<times> string) list \<Rightarrow>
   settings option \<Rightarrow> settings option" where
  "settings_after api pf = fold (\<lambda>(json_text, files, path) old.
     case read_settings_file api pf json_text files path old of Ok (s, level) \<Rightarrow> Some s | _ \<Rightarrow> old)"

lemma reads_as_in_force:
  "reads_as spec so res \<Longrightarrow> store_ok so \<Longrightarrow> in_force (snd res) = (case spec of Ok (s, level) \<Rightarrow> Some s | _ \<Rightarrow> in_force so)"
  by (cases "so_instance so")
    (auto simp: reads_as_def in_force_def same_handles_def store_ok_def nth_append split: outcome.splits option.splits)

lemma read_all_keeps:
  "store_ok so \<Longrightarrow> store_ok (read_all api pf reads so) \<and> same_handles so (read_all api pf reads so) \<and>
     in_force (read_all api pf reads so) = settings_after api pf reads (in_force so)"
proof (induction reads arbitrary: so)
  case Nil
  then show ?case by (simp add: read_all_def settings_after_def same_handles_refl)
next
  case (Cons r reads)
  obtain json_text files path where r: "r = (json_text, files, path)" by (cases r) auto
  let ?so = "snd (reread_settings api pf json_text files path so)"
  have as: "reads_as (read_settings_file api pf json_text files path (in_force so)) so
      (reread_settings api pf json_text files path so)" by (rule read_settings_as [OF Cons.prems])
  then have ok: "store_ok ?so" "same_handles so ?so" by (simp_all add: reads_as_def)
  show ?case
    using Cons.IH [OF ok(1)] same_handles_trans [OF ok(2)] reads_as_in_force [OF as Cons.prems]
    by (simp add: read_all_def settings_after_def r)
qed

text \<open>What a vector of numbers is dumped as reads back.\<close>

lemma int_vector_round_trip:
  assumes "\<forall>n \<in> set ns. int32 n = n" "json_at path current = Some Json_Null" "json_ok current"
  shows "\<exists>w. dump_helper (dump_vector Json_Int ns) path current = Ok w \<and>
    json_at path w = Some (Json_Array (map Json_Int ns)) \<and> read_json_ints (Json_Array (map Json_Int ns)) = ns"
  using json_assign_at [of path current "Json_Array (map Json_Int ns)"] assms
  by (auto simp: dump_helper_vector read_json_ints_def read_ints_loop_dumped)

section \<open>Properties\<close>

text \<open>
  C31 (refinement): the shared settings. Over any sequence of readings the settings in force change as
  \<open>read_settings_file\<close> says, a reading that fails leaves them, and every handle taken before shows what it showed.
  Before the first reading every member function is undefined.
\<close>

theorem settings_handles_keep:
  assumes "store_ok so"
  shows "in_force (read_all api pf reads so) = settings_after api pf reads (in_force so) \<and>
    (\<forall>i < length (so_impls so). with_impl get_field (read_all api pf reads so) (Some i) = with_impl get_field so (Some i)) \<and>
    web_port (store_new level) (get_settings (store_new level)) = Undefined"
  using read_all_keeps [OF assms, of api pf reads]
  by (auto simp: same_handles_read store_new_def web_port_def get_settings_def)
    (simp_all add: with_impl_def)

theorem settings_handles_keep_witness:
  "let reads = [(\<lambda>_. Some (Json_Object [(''web_port'', Json_Int 81)]), \<lambda>_. Some [], ''a.json''),
                (\<lambda>_. Some (Json_Object [(''web_port'', Json_Str ''82'')]), \<lambda>_. Some [], ''b.json'')];
       so = read_all ex_json_api (\<lambda>f. f) [(\<lambda>_. None, \<lambda>_. None, [])] (store_new DEBUG)
   in map_option st_web_port (in_force so) = Some 8080 \<and>
      map_option st_web_port (in_force (read_all ex_json_api (\<lambda>f. f) reads so)) = Some 81 \<and>
      web_port (read_all ex_json_api (\<lambda>f. f) reads so) (get_settings so) = Ok 8080"
proof -
  let ?reads = "[(\<lambda>_. Some (Json_Object [(''web_port'', Json_Int 81)]), \<lambda>_. Some [], ''a.json''),
      (\<lambda>_. Some (Json_Object [(''web_port'', Json_Str ''82'')]), \<lambda>_. Some [], ''b.json'')]"
  let ?so = "read_all ex_json_api (\<lambda>f. f) [(\<lambda>_. None, \<lambda>_. None, [])] (store_new DEBUG)"
  have new: "store_ok (store_new DEBUG)" by (simp add: store_ok_def store_new_def)
  then have ok: "store_ok ?so" using read_all_keeps by blast
  have so: "get_settings ?so = Some 0" "length (so_impls ?so) = 1" "map_option st_web_port (in_force ?so) = Some 8080"
    "web_port ?so (Some 0) = Ok 8080" by code_simp+
  have "map_option st_web_port (settings_after ex_json_api (\<lambda>f. f) ?reads (in_force ?so)) = Some 81" by code_simp
  with so settings_handles_keep [OF ok, of ex_json_api "\<lambda>f. f" ?reads st_web_port] show ?thesis
    unfolding Let_def web_port_def by (auto simp: get_settings_def)
qed

end
