(* ===== verification/Web_Session.thy ===== *)
theory Web_Session
  imports Web
begin

text \<open>
  The sessions of the web server, \<open>session\<close> and \<open>listener\<close> of \<open>src/web/server.cpp\<close>, interleaved: every completion of
  the socket library is an event. The operations of a socket are events too; \<open>need_eof\<close> is the answer of the HTTP
  library whether the end of a message is the end of the connection.
\<close>

section \<open>Sessions\<close>

text \<open>
  The operation a session waits for, if any: without one nothing keeps the session and it is destroyed. \<open>ws_res\<close>
  keeps the response that is being written; \<open>ws_requests\<close> and \<open>ws_written\<close> record what was read and written.
\<close>

datatype pending_op = Reading | Writing bool

record web_session =
  ws_pending :: "pending_op option"
  ws_res :: "raw_response option"
  ws_shutdown :: bool
  ws_requests :: "raw_request list"
  ws_written :: "raw_response list"

definition do_read :: "web_session \<Rightarrow> web_session" where
  "do_read s = s\<lparr>ws_pending := Some Reading\<rparr>"

definition session_new :: web_session where
  "session_new = \<lparr>ws_pending = None, ws_res = None, ws_shutdown = False, ws_requests = [], ws_written = []\<rparr>"

definition session_run :: "web_session \<Rightarrow> web_session" where
  "session_run s = do_read s"

definition send_lambda :: "(raw_response \<Rightarrow> bool) \<Rightarrow> raw_response \<Rightarrow> web_session \<Rightarrow> web_session" where
  "send_lambda need_eof msg s =
     s\<lparr>ws_res := Some msg, ws_written := ws_written s @ [msg], ws_pending := Some (Writing (need_eof msg))\<rparr>"

definition do_close :: "web_session \<Rightarrow> web_session" where
  "do_close s = s\<lparr>ws_pending := None, ws_shutdown := True\<rparr>"

section \<open>The server\<close>

record 'w web_server =
  wv_listener :: listener
  wv_sessions :: "web_session list"
  wv_world :: 'w
  wv_stderr :: "string list"

definition web_fail :: "string \<Rightarrow> 'w web_server \<Rightarrow> 'w web_server" where
  "web_fail m sv = sv\<lparr>wv_stderr := wv_stderr sv @ [m @ newline]\<rparr>"

definition put_session :: "nat \<Rightarrow> web_session \<Rightarrow> 'w web_server \<Rightarrow> 'w web_server" where
  "put_session i s sv = sv\<lparr>wv_sessions := (wv_sessions sv)[i := s]\<rparr>"

text \<open>\<open>listener::listener\<close> with a port that is free, and \<open>run\<close>.\<close>

definition web_server_new :: "nat \<Rightarrow> 'w \<Rightarrow> 'w web_server" where
  "web_server_new port w =
     \<lparr>wv_listener = listener_run listener_new, wv_sessions = [], wv_world = w,
      wv_stderr = [''Start WEB server on port '' @ show_nat port @ newline]\<rparr>"

datatype web_event =
    Accepted "string option"
  | Read_done nat io_result raw_request
  | Write_done nat io_result
  | Stopped

text \<open>A completion comes only for an operation that was asked for.\<close>

fun web_enabled :: "web_event \<Rightarrow> 'w web_server \<Rightarrow> bool" where
  "web_enabled (Accepted ec) sv \<longleftrightarrow> 0 < ls_pending (wv_listener sv)"
| "web_enabled (Read_done i ec req) sv \<longleftrightarrow>
     i < length (wv_sessions sv) \<and> ws_pending (wv_sessions sv ! i) = Some Reading"
| "web_enabled (Write_done i ec) sv \<longleftrightarrow>
     i < length (wv_sessions sv) \<and> (\<exists>eof. ws_pending (wv_sessions sv ! i) = Some (Writing eof))"
| "web_enabled Stopped sv \<longleftrightarrow> True"

text \<open>What is thrown or undefined while a request is handled leaves the io context.\<close>

fun web_step :: "'w view \<Rightarrow> (raw_response \<Rightarrow> bool) \<Rightarrow> web_event \<Rightarrow> 'w web_server \<Rightarrow> 'w web_server outcome" where
  "web_step ctrl need_eof (Accepted ec) sv =
     Ok (let sv = sv\<lparr>wv_listener := on_accept (ec \<noteq> None) (wv_listener sv)\<rparr>
         in case ec of
              Some m \<Rightarrow> web_fail (''accept'' @ '': '' @ m) sv
            | None \<Rightarrow> sv\<lparr>wv_sessions := wv_sessions sv @ [session_run session_new]\<rparr>)"
| "web_step ctrl need_eof (Read_done i ec req) sv =
     (let s = (wv_sessions sv ! i)\<lparr>ws_pending := None\<rparr>
      in case on_read ec of
           Close \<Rightarrow> Ok (put_session i (do_close s) sv)
         | Report_failure m \<Rightarrow> Ok (web_fail m (put_session i s sv))
         | _ \<Rightarrow> (case handle_request ctrl req (wv_world sv) of (r, w) \<Rightarrow>
             bind_outcome r (\<lambda>res. Ok ((put_session i
               (send_lambda need_eof res (s\<lparr>ws_requests := ws_requests s @ [req]\<rparr>)) sv)\<lparr>wv_world := w\<rparr>))))"
| "web_step ctrl need_eof (Write_done i ec) sv =
     (let s = wv_sessions sv ! i;
          eof = (ws_pending s = Some (Writing True));
          s = s\<lparr>ws_pending := None\<rparr>
      in case on_write ec eof of
           Report_failure m \<Rightarrow> Ok (web_fail m (put_session i s sv))
         | Close \<Rightarrow> Ok (put_session i (do_close s) sv)
         | _ \<Rightarrow> Ok (put_session i (do_read (s\<lparr>ws_res := None\<rparr>)) sv))"
| "web_step ctrl need_eof Stopped sv = Ok (sv\<lparr>wv_listener := listener_stop (wv_listener sv)\<rparr>)"

text \<open>What a server goes through, and the requests that were read on the way, by all sessions, in order.\<close>

fun request_read :: "web_event \<Rightarrow> (nat \<times> raw_request) list" where
  "request_read (Read_done i ec req) = (if on_read ec = Respond then [(i, req)] else [])"
| "request_read _ = []"

inductive web_reachable ::
  "'w view \<Rightarrow> (raw_response \<Rightarrow> bool) \<Rightarrow> 'w web_server \<Rightarrow> (nat \<times> raw_request) list \<Rightarrow> 'w web_server \<Rightarrow> bool"
  for ctrl :: "'w view" and need_eof :: "raw_response \<Rightarrow> bool" and sv0 :: "'w web_server" where
  web_start: "web_reachable ctrl need_eof sv0 [] sv0"
| web_event: "web_reachable ctrl need_eof sv0 rs sv \<Longrightarrow> web_enabled e sv \<Longrightarrow> web_step ctrl need_eof e sv = Ok sv' \<Longrightarrow>
    web_reachable ctrl need_eof sv0 (rs @ request_read e) sv'"

section \<open>What a server promises\<close>

text \<open>The specification: the requests of everybody one after the other, each answer to whom it belongs.\<close>

fun serve_all :: "'w view \<Rightarrow> (nat \<times> raw_request) list \<Rightarrow> 'w \<Rightarrow> (nat \<times> raw_response) list \<times> 'w" where
  "serve_all ctrl [] w = ([], w)"
| "serve_all ctrl ((i, req) # rs) w =
     (case handle_request ctrl req w of
        (Ok res, w) \<Rightarrow> (case serve_all ctrl rs w of (answers, w) \<Rightarrow> ((i, res) # answers, w))
      | (_, w) \<Rightarrow> ([], w))"

definition answers_of :: "nat \<Rightarrow> (nat \<times> 'x) list \<Rightarrow> 'x list" where
  "answers_of i answers = map snd (filter (\<lambda>a. fst a = i) answers)"

text \<open>
  A session answers each request before it reads the next one; what is being written is kept until it is written, and
  a session that was shut down waits for nothing.
\<close>

definition session_ok :: "web_session \<Rightarrow> bool" where
  "session_ok s \<longleftrightarrow> length (ws_written s) = length (ws_requests s) \<and>
     (ws_pending s = Some Reading \<longrightarrow> ws_res s = None) \<and>
     (\<forall>eof. ws_pending s = Some (Writing eof) \<longrightarrow> ws_written s \<noteq> [] \<and> ws_res s = Some (last (ws_written s))) \<and>
     (ws_shutdown s \<longrightarrow> ws_pending s = None)"


definition web_inv :: "'w view \<Rightarrow> 'w \<Rightarrow> (nat \<times> raw_request) list \<Rightarrow> 'w web_server \<Rightarrow> bool" where
  "web_inv ctrl w rs sv \<longleftrightarrow> (\<exists>answers. serve_all ctrl rs w = (answers, wv_world sv) \<and> map fst answers = map fst rs \<and>
     (\<forall>i < length (wv_sessions sv). session_ok (wv_sessions sv ! i) \<and>
        ws_requests (wv_sessions sv ! i) = answers_of i rs \<and> ws_written (wv_sessions sv ! i) = answers_of i answers) \<and>
     (\<forall>i \<in> set (map fst rs). i < length (wv_sessions sv)))"

lemma answers_of_snoc [simp]:
  "answers_of i (xs @ [(j, x)]) = answers_of i xs @ (if i = j then [x] else [])"
  by (simp add: answers_of_def)

lemma answers_of_beyond: "\<forall>i \<in> set (map fst xs). i < n \<Longrightarrow> answers_of n xs = []"
  by (auto simp: answers_of_def filter_empty_conv)

lemma serve_all_snoc:
  "serve_all ctrl rs w = (answers, w') \<Longrightarrow> length answers = length rs \<Longrightarrow> handle_request ctrl req w' = (Ok res, w'') \<Longrightarrow>
   serve_all ctrl (rs @ [(i, req)]) w = (answers @ [(i, res)], w'')"
proof (induction rs arbitrary: w answers)
  case (Cons r rs)
  then show ?case by (cases r) (auto split: prod.splits outcome.splits)
qed simp

lemma web_inv_keeps:
  assumes "web_inv ctrl w rs sv" "wv_world sv' = wv_world sv" "wv_sessions sv' = (wv_sessions sv)[i := s]"
    "i < length (wv_sessions sv) \<Longrightarrow> session_ok (wv_sessions sv ! i) \<Longrightarrow>
       session_ok s \<and> ws_requests s = ws_requests (wv_sessions sv ! i) \<and> ws_written s = ws_written (wv_sessions sv ! i)"
  shows "web_inv ctrl w rs sv'"
proof -
  from assms(1) obtain answers where a: "serve_all ctrl rs w = (answers, wv_world sv)" "map fst answers = map fst rs"
    "\<forall>i \<in> set (map fst rs). i < length (wv_sessions sv)"
    "\<forall>i < length (wv_sessions sv). session_ok (wv_sessions sv ! i) \<and>
      ws_requests (wv_sessions sv ! i) = answers_of i rs \<and> ws_written (wv_sessions sv ! i) = answers_of i answers"
    unfolding web_inv_def by blast
  have "session_ok (wv_sessions sv' ! j) \<and> ws_requests (wv_sessions sv' ! j) = answers_of j rs \<and>
      ws_written (wv_sessions sv' ! j) = answers_of j answers" if "j < length (wv_sessions sv')" for j
    using a(4) assms(3,4) that by (cases "j = i") (auto simp: nth_list_update)
  with a(1-3) assms(2,3) show ?thesis unfolding web_inv_def by (intro exI [of _ answers]) simp
qed

lemma web_step_inv:
  assumes inv: "web_inv ctrl w rs sv" and en: "web_enabled e sv" and st: "web_step ctrl need_eof e sv = Ok sv'"
  shows "web_inv ctrl w (rs @ request_read e) sv'"
proof (cases e)
  case (Accepted ec)
  show ?thesis
  proof (cases ec)
    case None
    from inv obtain answers where a: "serve_all ctrl rs w = (answers, wv_world sv)" "map fst answers = map fst rs"
      "\<forall>i \<in> set (map fst rs). i < length (wv_sessions sv)"
      "\<forall>i < length (wv_sessions sv). session_ok (wv_sessions sv ! i) \<and>
        ws_requests (wv_sessions sv ! i) = answers_of i rs \<and> ws_written (wv_sessions sv ! i) = answers_of i answers"
      unfolding web_inv_def by blast
    let ?n = "length (wv_sessions sv)"
    have "answers_of ?n rs = []" "answers_of ?n answers = []"
      using answers_of_beyond a(2,3) by metis+
    with a have "\<forall>i < Suc ?n. session_ok ((wv_sessions sv @ [session_run session_new]) ! i) \<and>
        ws_requests ((wv_sessions sv @ [session_run session_new]) ! i) = answers_of i rs \<and>
        ws_written ((wv_sessions sv @ [session_run session_new]) ! i) = answers_of i answers"
      by (auto simp: less_Suc_eq nth_append session_run_def session_new_def do_read_def session_ok_def)
    with a st None Accepted show ?thesis
      unfolding web_inv_def by (intro exI [of _ answers]) (auto simp: Let_def)
  next
    case (Some m)
    with st Accepted inv show ?thesis by (auto simp: Let_def web_fail_def web_inv_def)
  qed
next
  case (Read_done i ec req)
  let ?s = "wv_sessions sv ! i"
  have i: "i < length (wv_sessions sv)" "ws_pending ?s = Some Reading" using en Read_done by simp_all
  show ?thesis
  proof (cases ec)
    case Io_ok
    obtain r w' where h: "handle_request ctrl req (wv_world sv) = (r, w')" by (meson surj_pair)
    with st Read_done Io_ok obtain res where r: "r = Ok res" and
      sv': "sv' = (put_session i (send_lambda need_eof res (?s\<lparr>ws_pending := None, ws_requests := ws_requests ?s @ [req]\<rparr>)) sv)\<lparr>wv_world := w'\<rparr>"
      by (auto simp: on_read_def)
    from inv obtain answers where a: "serve_all ctrl rs w = (answers, wv_world sv)" "map fst answers = map fst rs"
      "\<forall>i \<in> set (map fst rs). i < length (wv_sessions sv)"
      "\<forall>i < length (wv_sessions sv). session_ok (wv_sessions sv ! i) \<and>
        ws_requests (wv_sessions sv ! i) = answers_of i rs \<and> ws_written (wv_sessions sv ! i) = answers_of i answers"
      unfolding web_inv_def by blast
    have len: "length answers = length rs" using a(2) map_eq_imp_length_eq by blast
    have sa: "serve_all ctrl (rs @ [(i, req)]) w = (answers @ [(i, res)], w')"
      by (rule serve_all_snoc [OF a(1) len]) (simp add: h r)
    have "session_ok ?s" using a(4) i(1) by blast
    then have ok: "session_ok (send_lambda need_eof res (?s\<lparr>ws_pending := None, ws_requests := ws_requests ?s @ [req]\<rparr>))"
      using i(2) by (auto simp: session_ok_def send_lambda_def)
    have "session_ok (wv_sessions sv' ! j) \<and> ws_requests (wv_sessions sv' ! j) = answers_of j (rs @ [(i, req)]) \<and>
        ws_written (wv_sessions sv' ! j) = answers_of j (answers @ [(i, res)])" if "j < length (wv_sessions sv')" for j
      using a(4) i(1) ok that by (cases "j = i") (simp_all add: sv' put_session_def, simp_all add: send_lambda_def)
    with sa a(2,3) i(1) show ?thesis
      unfolding web_inv_def by (intro exI [of _ "answers @ [(i, res)]"]) (simp add: Read_done Io_ok on_read_def sv' put_session_def)
  next
    case Io_end_of_stream
    with st Read_done have sv': "sv' = put_session i (do_close (?s\<lparr>ws_pending := None\<rparr>)) sv" by (simp add: on_read_def)
    have "web_inv ctrl w rs sv'"
      by (rule web_inv_keeps [OF inv, where i = i and s = "do_close (?s\<lparr>ws_pending := None\<rparr>)"])
        (simp_all add: sv' put_session_def do_close_def session_ok_def)
    then show ?thesis by (simp add: Read_done Io_end_of_stream on_read_def)
  next
    case (Io_error m)
    with st Read_done have sv': "sv' = web_fail (''read'' @ '': '' @ m) (put_session i (?s\<lparr>ws_pending := None\<rparr>) sv)"
      by (simp add: on_read_def)
    have "web_inv ctrl w rs sv'"
      by (rule web_inv_keeps [OF inv, where i = i and s = "?s\<lparr>ws_pending := None\<rparr>"])
        (use i(2) in \<open>simp_all add: sv' put_session_def web_fail_def session_ok_def\<close>)
    then show ?thesis by (simp add: Read_done Io_error on_read_def)
  qed
next
  case (Write_done i ec)
  let ?s = "wv_sessions sv ! i"
  consider m where "sv' = web_fail m (put_session i (?s\<lparr>ws_pending := None\<rparr>) sv)"
    | "sv' = put_session i (do_close (?s\<lparr>ws_pending := None\<rparr>)) sv"
    | "sv' = put_session i (do_read (?s\<lparr>ws_pending := None, ws_res := None\<rparr>)) sv"
    using st Write_done by (auto simp: Let_def on_write_def split: io_result.splits if_splits)
  then have "web_inv ctrl w rs sv'"
  proof cases
    case 1
    show ?thesis
      by (rule web_inv_keeps [OF inv, where i = i and s = "?s\<lparr>ws_pending := None\<rparr>"])
        (simp_all add: 1 put_session_def web_fail_def session_ok_def)
  next
    case 2
    show ?thesis
      by (rule web_inv_keeps [OF inv, where i = i and s = "do_close (?s\<lparr>ws_pending := None\<rparr>)"])
        (simp_all add: 2 put_session_def do_close_def session_ok_def)
  next
    case 3
    have "\<not> ws_shutdown ?s" if "session_ok ?s"
      using en Write_done that by (auto simp: session_ok_def)
    then show ?thesis
      by (intro web_inv_keeps [OF inv, where i = i and s = "do_read (?s\<lparr>ws_pending := None, ws_res := None\<rparr>)"])
        (simp_all add: 3 put_session_def do_read_def session_ok_def)
  qed
  then show ?thesis by (simp add: Write_done)
next
  case Stopped
  with st inv show ?thesis by (auto simp: web_inv_def)
qed

lemma web_reachable_inv: "web_reachable ctrl need_eof (web_server_new port w) rs sv \<Longrightarrow> web_inv ctrl w rs sv"
proof (induction rule: web_reachable.induct)
  case web_start
  show ?case by (simp add: web_inv_def web_server_new_def)
next
  case (web_event rs sv e sv')
  show ?case by (rule web_step_inv [OF web_event.IH web_event.hyps(2,3)])
qed

text \<open>A sequence of events, executed.\<close>

fun web_run ::
  "'w view \<Rightarrow> (raw_response \<Rightarrow> bool) \<Rightarrow> web_event list \<Rightarrow> (nat \<times> raw_request) list \<Rightarrow> 'w web_server \<Rightarrow>
   ((nat \<times> raw_request) list \<times> 'w web_server) option" where
  "web_run ctrl need_eof [] rs sv = Some (rs, sv)"
| "web_run ctrl need_eof (e # es) rs sv =
     (if web_enabled e sv
      then (case web_step ctrl need_eof e sv of
              Ok sv \<Rightarrow> web_run ctrl need_eof es (rs @ request_read e) sv
            | _ \<Rightarrow> None)
      else None)"

lemma web_run_reachable:
  "web_run ctrl need_eof es rs sv = Some (rs', sv') \<Longrightarrow> web_reachable ctrl need_eof sv0 rs sv \<Longrightarrow>
   web_reachable ctrl need_eof sv0 rs' sv'"
proof (induction es arbitrary: rs sv)
  case (Cons e es)
  then show ?case using web_event [of ctrl need_eof sv0 rs sv e] by (auto split: if_splits outcome.splits)
qed simp

section \<open>Properties\<close>



text \<open>A view that counts its requests, and two clients of which the second is read first.\<close>

definition ex_count_view :: "nat view" where
  "ex_count_view request n = (Ok (response_new\<lparr>rs_body := rq_path request @ show_nat n\<rparr>), Suc n)"

definition ex_request :: "string \<Rightarrow> raw_request" where
  "ex_request target =
     \<lparr>rw_headers = [], rw_method = 1, rw_target = target, rw_body = [], rw_version = 11, rw_keep_alive = True\<rparr>"

definition ex_web_events :: "web_event list" where
  "ex_web_events =
     [Accepted None, Accepted None, Read_done 1 Io_ok (ex_request ''/b''), Read_done 0 Io_ok (ex_request ''/a''),
      Write_done 1 Io_ok, Read_done 1 Io_ok (ex_request ''/c''), Write_done 0 Io_ok, Read_done 0 Io_end_of_stream (ex_request [])]"


end
