(* ===== verification/Whole_Calls.thy ===== *)
theory Whole_Calls
  imports Pipeline
begin

text \<open>
  Whether a finished record is whole: has all the links its call has in the table. The pass of the merge
  thread is taken in two halves, the intake from the queues and the sweep over the records, which looks at the time the
  link reader has reached by then; the readers and the consumer go on in between.
\<close>

section \<open>A pass in two halves\<close>

definition pass_begin ::
  "merge_settings \<Rightarrow> tm \<Rightarrow> call_leg \<Rightarrow> 'j merge_container \<Rightarrow> 'j merge_container" where
  "pass_begin cfg g a0 st = control_readers cfg (merge_intake cfg g a0 st)"

definition pass_end ::
  "merge_settings \<Rightarrow> tm \<Rightarrow> (nat \<Rightarrow> int) \<Rightarrow> (string \<Rightarrow> int) \<Rightarrow> 'j merge_container \<Rightarrow> 'j merge_container" where
  "pass_end cfg g lt lk st =
     (let save = recordSaveTime cfg st
      in case sweep cfg save lt 0 (mc_data st) st of (kept, st) \<Rightarrow>
           st\<lparr>mc_data := kept, mc_legs := drop_legs cfg g save lk (mc_legs st),
              mc_links := drop_links g save (mc_links st)\<rparr>)"

lemma save_time_begin [simp]: "recordSaveTime cfg (control_readers cfg st) = recordSaveTime cfg st"
  by (simp add: recordSaveTime_def)

text \<open>The halves are the pass.\<close>

lemma merge_pass_halves:
  "merge_pass cfg g a0 lt lk st =
     (if merge_idle cfg st then st else pass_end cfg g lt lk (pass_begin cfg g a0 st))"
  by (simp add: merge_pass_eq pass_begin_def pass_end_def Let_def split: prod.split)

record 'j service =
  sv_pipe :: "'j pipeline"
  sv_sweeping :: bool

definition service_start :: "'j pipeline_env \<Rightarrow> int \<Rightarrow> 'j service" where
  "service_start env start = \<lparr>sv_pipe = pipeline_start env start, sv_sweeping = False\<rparr>"

abbreviation on_pipe :: "('j pipeline \<Rightarrow> 'j pipeline) \<Rightarrow> 'j service \<Rightarrow> 'j service" where
  "on_pipe f s \<equiv> s\<lparr>sv_pipe := f (sv_pipe s)\<rparr>"

definition sweep_records :: "'j pipeline_env \<Rightarrow> tm \<Rightarrow> 'j pipeline \<Rightarrow> 'j pipeline" where
  "sweep_records env g p =
     p\<lparr>pl_merge := pass_end (pe_merge env) g (\<lambda>_. reader_getTime (pl_linkReader p)) (\<lambda>_. reader_getTime (pl_linkReader p)) (pl_merge p)\<rparr>"

definition take_in :: "'j pipeline_env \<Rightarrow> tm \<Rightarrow> call_leg \<Rightarrow> 'j pipeline \<Rightarrow> 'j pipeline" where
  "take_in env g a0 p = p\<lparr>pl_merge := pass_begin (pe_merge env) g a0 (pl_merge p)\<rparr>"

text \<open>
  The steps; a reader waits while its queue is full. In a calm service the link reader does not finish a
  window between the two halves of a pass.
\<close>

inductive service_step :: "bool \<Rightarrow> 'j pipeline_env \<Rightarrow> 'j service \<Rightarrow> 'j service \<Rightarrow> bool" for calm env where
  leg_queries: "service_step calm env s (on_pipe (leg_query env now1 now2) s)"
| leg_delivers: "length (mc_queueLeg (pl_merge (sv_pipe s))) < ms_max_queue_size (pe_merge env) \<Longrightarrow>
    service_step calm env s (on_pipe leg_deliver s)"
| leg_advances: "service_step calm env s (on_pipe (leg_advance env now3) s)"
| link_queries: "service_step calm env s (on_pipe (link_query env now1 now2) s)"
| link_delivers: "length (mc_queueLink (pl_merge (sv_pipe s))) < ms_max_queue_size (pe_merge env) \<Longrightarrow>
    service_step calm env s (on_pipe (link_deliver env online_orig online_term) s)"
| link_advances: "\<not> (calm \<and> sv_sweeping s) \<Longrightarrow> service_step calm env s (on_pipe (link_advance env now3) s)"
| takes_in: "\<not> sv_sweeping s \<Longrightarrow> \<not> merge_idle (pe_merge env) (pl_merge (sv_pipe s)) \<Longrightarrow>
    service_step calm env s (on_pipe (take_in env g a0) s\<lparr>sv_sweeping := True\<rparr>)"
| sweeps: "sv_sweeping s \<Longrightarrow> service_step calm env s (on_pipe (sweep_records env g) s\<lparr>sv_sweeping := False\<rparr>)"
| serves: "service_step calm env s (on_pipe (serve env n) s)"

inductive service_reachable :: "bool \<Rightarrow> 'j pipeline_env \<Rightarrow> int \<Rightarrow> 'j service \<Rightarrow> bool" for calm env start where
  service_init: "service_reachable calm env start (service_start env start)"
| service_next: "service_reachable calm env start s \<Longrightarrow> service_step calm env s s' \<Longrightarrow> service_reachable calm env start s'"

section \<open>The tables\<close>

text \<open>
  What is assumed of the rows: their stamps are those their texts say, an originating id has one originating leg, a link does not
  start before the originating leg of its call, and the save time fits into an \<open>int\<close>; the settings keep a window no longer than
  the longest call.
\<close>

definition originates :: "db_row \<Rightarrow> bool" where
  "originates row \<longleftrightarrow> cl_orig (decode_leg row)"

definition row_id :: "db_row \<Rightarrow> string" where
  "row_id row = cl_uniqueid (decode_leg row)"

definition tables_ok :: "'j pipeline_env \<Rightarrow> int \<Rightarrow> (int \<times> db_row) list \<Rightarrow> (int \<times> db_row) list \<Rightarrow> bool" where
  "tables_ok env start legs links \<longleftrightarrow>
     (\<forall>(t, row) \<in> set legs. \<forall>g. stamp_of g (cl_start_time (decode_leg row)) = t) \<and>
     (\<forall>(t, row) \<in> set links. \<forall>g. stamp_of g (cll_link_start_time (decode_link (pe_parse_json env) row)) = t) \<and>
     distinct (map row_id (filter originates (map snd legs))) \<and>
     (\<forall>(s, leg) \<in> set legs. \<forall>(t, link) \<in> set links.
        originates leg \<and> row_id leg = cll_uniqueid_orig (decode_link (pe_parse_json env) link) \<longrightarrow> s \<le> t) \<and>
     (\<forall>t \<in> insert start (fst ` set legs). int32 (t - ms_max_call_time (pe_merge env)) = t - ms_max_call_time (pe_merge env)) \<and>
     rs_max_call_time (pe_read env) = ms_max_call_time (pe_merge env) \<and>
     rs_read_threshold_second (pe_read env) \<le> ms_max_call_time (pe_merge env)"

text \<open>The links of a call that started at \<open>s\<close>, as long as a call may last.\<close>

definition call_links :: "'j pipeline_env \<Rightarrow> (int \<times> db_row) list \<Rightarrow> string \<Rightarrow> int \<Rightarrow> 'j call_leg_link multiset" where
  "call_links env links orig s = mset (map (decode_link (pe_parse_json env)) (map snd (filter (\<lambda>(t, row).
     cll_uniqueid_orig (decode_link (pe_parse_json env) row) = orig \<and> t \<le> s + ms_max_call_time (pe_merge env)) links)))"


lemma tables_okD:
  assumes "tables_ok env start legs links"
  shows "(t, row) \<in> set legs \<Longrightarrow> stamp_of g (cl_start_time (decode_leg row)) = t"
    "(t, row) \<in> set links \<Longrightarrow> stamp_of g (cll_link_start_time (decode_link (pe_parse_json env) row)) = t"
    "(s, leg) \<in> set legs \<Longrightarrow> (t, row) \<in> set links \<Longrightarrow> originates leg \<Longrightarrow>
       row_id leg = cll_uniqueid_orig (decode_link (pe_parse_json env) row) \<Longrightarrow> s \<le> t"
    "t \<in> fst ` set legs \<Longrightarrow> int32 (t - ms_max_call_time (pe_merge env)) = t - ms_max_call_time (pe_merge env)"
    "distinct (map row_id (filter originates (map snd legs)))"
  using assms unfolding tables_ok_def by (auto split: prod.splits)

text \<open>One originating leg per id, and one stamp per row.\<close>

lemma tables_one_leg:
  assumes "tables_ok env start legs links" "(s, leg) \<in> set legs" "(s', leg') \<in> set legs"
    "originates leg" "originates leg'" "row_id leg = row_id leg'"
  shows "s = s' \<and> leg = leg'"
proof -
  have "leg \<in> set (filter originates (map snd legs))" "leg' \<in> set (filter originates (map snd legs))"
    using assms(2-5) by force+
  with tables_okD(5) [OF assms(1)] assms(6) have "leg = leg'" by (auto simp: distinct_map inj_on_def)
  with tables_okD(1) [OF assms(1,2)] tables_okD(1) [OF assms(1,3)] show ?thesis by auto
qed

section \<open>What the halves keep\<close>

lemma pass_begin_keeps:
  "mc_data (pass_begin cfg g a0 st) = mc_data (merge_intake cfg g a0 st)"
  "mc_links (pass_begin cfg g a0 st) = mc_links (merge_intake cfg g a0 st)"
  "mc_maxLegTime (pass_begin cfg g a0 st) = mc_maxLegTime (merge_intake cfg g a0 st)"
  "mc_output (pass_begin cfg g a0 st) = mc_output st"
  "mc_queueLeg (pass_begin cfg g a0 st) = drop (ms_max_queue_size cfg) (mc_queueLeg st)"
  "mc_queueLink (pass_begin cfg g a0 st) = drop (ms_max_queue_size cfg) (mc_queueLink st)"
  "state_origs (pass_begin cfg g a0 st) = state_origs st"
  by (simp_all add: pass_begin_def state_origs_def intake_origs [unfolded state_origs_def] merge_intake_def)
    (use intake_origs [of cfg g a0 st] in \<open>simp add: state_origs_def merge_intake_def\<close>)

lemma pass_begin_inv: "merge_inv st \<Longrightarrow> merge_inv (pass_begin cfg g a0 st)"
  by (simp add: pass_begin_def control_readers_inv intake_inv)

lemma pass_begin_links: "merge_inv st \<Longrightarrow> state_links (pass_begin cfg g a0 st) = state_links st"
  using intake_links [of st cfg g a0] by (simp add: pass_begin_def state_links_def merge_inv_def links_ok_def)

text \<open>The second half, with the records and the state after the sweep.\<close>

lemma pass_end_work:
  obtains kept w where "sweep cfg (recordSaveTime cfg st) lt 0 (mc_data st) st = (kept, w)"
    "pass_end cfg g lt lk st = w\<lparr>mc_data := kept, mc_legs := drop_legs cfg g (recordSaveTime cfg st) lk (mc_legs w),
       mc_links := drop_links g (recordSaveTime cfg st) (mc_links w)\<rparr>"
proof -
  obtain kept w where w: "sweep cfg (recordSaveTime cfg st) lt 0 (mc_data st) st = (kept, w)" by (meson surj_pair)
  show thesis by (rule that [OF w]) (simp add: pass_end_def Let_def w)
qed

lemma pass_end_queues:
  "mc_queueLeg (pass_end cfg g lt lk st) = mc_queueLeg st" "mc_queueLink (pass_end cfg g lt lk st) = mc_queueLink st"
  "mc_maxLegTime (pass_end cfg g lt lk st) = mc_maxLegTime st"
  by (rule pass_end_work [of cfg st lt g lk], use sweep_keeps in fastforce)+

lemma pass_end_origs: "state_origs (pass_end cfg g lt lk st) = state_origs st"
proof -
  obtain kept w where w: "sweep cfg (recordSaveTime cfg st) lt 0 (mc_data st) st = (kept, w)"
    "pass_end cfg g lt lk st = w\<lparr>mc_data := kept, mc_legs := drop_legs cfg g (recordSaveTime cfg st) lk (mc_legs w),
       mc_links := drop_links g (recordSaveTime cfg st) (mc_links w)\<rparr>" by (rule pass_end_work)
  show ?thesis unfolding w(2) state_origs_def using sweep_origs [OF w(1)] sweep_keeps [OF w(1)] by simp
qed

lemma pass_end_inv:
  assumes "merge_inv st"
  shows "merge_inv (pass_end cfg g lt lk st)"
proof -
  obtain kept w where w: "sweep cfg (recordSaveTime cfg st) lt 0 (mc_data st) st = (kept, w)"
    "pass_end cfg g lt lk st = w\<lparr>mc_data := kept, mc_legs := drop_legs cfg g (recordSaveTime cfg st) lk (mc_legs w),
       mc_links := drop_links g (recordSaveTime cfg st) (mc_links w)\<rparr>" by (rule pass_end_work)
  have "legs_ok (mc_legs w) \<and> links_ok (mc_links w) \<and> (\<forall>r \<in> set kept. record_ok r) \<and>
      (\<forall>r \<in> set (mc_output w). record_ok r)"
    by (rule sweep_ok [OF w(1)]) (use assms in \<open>auto simp: merge_inv_def\<close>)
  then show ?thesis using sweep_keeps [OF w(1)] assms
    unfolding w(2) by (auto simp: merge_inv_def drop_legs_def drop_links_def)
qed

text \<open>The links before and after the second half, and the buckets it drops.\<close>

lemma pass_end_links:
  assumes "merge_inv st"
  shows "\<exists>lost. state_links (pass_end cfg g lt lk st) + mset (bucket_items lost) = state_links st \<and>
    (\<forall>(k, ls) \<in> set lost. stamp_of g (cll_link_start_time (hd ls)) < recordSaveTime cfg st \<and>
       k \<notin> cr_orig ` set (mc_data (pass_end cfg g lt lk st)) \<and> ls \<noteq> [] \<and> (\<forall>l \<in> set ls. cll_uniqueid_orig l = k))"
proof -
  obtain kept w where w: "sweep cfg (recordSaveTime cfg st) lt 0 (mc_data st) st = (kept, w)"
    "pass_end cfg g lt lk st = w\<lparr>mc_data := kept, mc_legs := drop_legs cfg g (recordSaveTime cfg st) lk (mc_legs w),
       mc_links := drop_links g (recordSaveTime cfg st) (mc_links w)\<rparr>" by (rule pass_end_work)
  let ?save = "recordSaveTime cfg st"
  let ?lost = "filter (\<lambda>(k, ls). stamp_of g (cll_link_start_time (hd ls)) < ?save) (mc_links w)"
  have ok: "links_ok (mc_links w)"
    using sweep_ok [OF w(1)] assms by (auto simp: merge_inv_def)
  have fresh: "k \<notin> cr_orig ` set kept" if "(k, ls) \<in> set (mc_links w)" for k ls
    using sweep_attached [OF w(1)] that by (force simp: map_of_eq_None_iff)
  have "sm_ok (mc_links st)" using assms by (simp add: merge_inv_def links_ok_def)
  from sweep_links [OF w(1) this] have "state_links (pass_end cfg g lt lk st) + mset (bucket_items ?lost) = state_links st"
    unfolding w(2) state_links_def using sweep_keeps [OF w(1)] drop_links_split [of g ?save "mc_links w"]
    by (simp add: ac_simps)
  with fresh ok show ?thesis
    unfolding w(2) by (intro exI [of _ ?lost]) (auto simp: links_ok_def)
qed

text \<open>A record that is retired has the links it had and those of its bucket.\<close>

lemma bucket_erase_other: "k \<noteq> k' \<Longrightarrow> sbucket.bucket (sm_erase k' m) k = sbucket.bucket m k"
  by (simp add: sm_bucket_def map_of_sm_erase)

definition retired_from ::
  "merge_settings \<Rightarrow> int \<Rightarrow> (nat \<Rightarrow> int) \<Rightarrow> (string \<times> 'j call_leg_link list) list \<Rightarrow> 'j call_record \<Rightarrow> 'j call_record \<Rightarrow> bool" where
  "retired_from cfg save lt links r r' \<longleftrightarrow> record_id r' = record_id r \<and> (\<exists>i. retires cfg save (lt i) r) \<and>
     cr_links r' = cr_links r @ sbucket.bucket links (cr_orig r)"

lemma retired_from_erase:
  "r \<in> set rs \<Longrightarrow> k \<notin> cr_orig ` set rs \<Longrightarrow>
   retired_from cfg save lt (sm_erase k links) r r' = retired_from cfg save lt links r r'"
  using bucket_erase_other [of "cr_orig r" k links] unfolding retired_from_def by (metis imageI)

lemma sweep_retired:
  "sweep cfg save lt n rs st = (kept, st') \<Longrightarrow> distinct (map cr_orig rs) \<Longrightarrow>
   \<exists>outs. mc_output st' = mc_output st @ outs \<and>
     (\<forall>r' \<in> set outs. \<exists>r \<in> set rs. retired_from cfg save lt (mc_links st) r r')"
proof (induction rs arbitrary: n st kept)
  case Nil
  then show ?case by simp
next
  case (Cons r rs)
  have fresh: "cr_orig r \<notin> cr_orig ` set rs" "distinct (map cr_orig rs)" using Cons.prems(2) by simp_all
  from Cons.prems(1) show ?case
  proof (cases rule: sweep_ConsE)
    case (retired r1 links r2 legs)
    have l: "links = sm_erase (cr_orig r) (mc_links st)" "r1 = r\<lparr>cr_links := cr_links r @ sbucket.bucket (mc_links st) (cr_orig r)\<rparr>"
      using retired(1) by (simp_all add: attach_links_cases)
    obtain outs where outs: "mc_output st' = (mc_output st @ [r2]) @ outs"
      "\<forall>r' \<in> set outs. \<exists>q \<in> set rs. retired_from cfg save lt links q r'"
      using Cons.IH [OF retired(4) fresh(2)] by auto
    have "retired_from cfg save lt (mc_links st) r r2"
      using attach_keeps(2) [OF retired(2)] retired(3) l(2) by (auto simp: retired_from_def record_id_def retires_def)
    with outs retired_from_erase [OF _ fresh(1)] show ?thesis
      unfolding l(1) by (intro exI [of _ "r2 # outs"]) auto
  next
    case (kept r1 links r2 legs ks)
    have l: "links = sm_erase (cr_orig r) (mc_links st)" using kept(1) by (simp add: attach_links_cases)
    obtain outs where "mc_output st' = mc_output st @ outs"
      "\<forall>r' \<in> set outs. \<exists>q \<in> set rs. retired_from cfg save lt links q r'"
      using Cons.IH [OF kept(4) fresh(2)] by auto
    with retired_from_erase [OF _ fresh(1)] show ?thesis
      unfolding l by (intro exI [of _ outs]) auto
  qed
qed


section \<open>The invariant\<close>

definition leg_bound :: "'j pipeline \<Rightarrow> int" where
  "leg_bound p = (case pl_legRows p of None \<Rightarrow> rw_startTime (pl_legReader p) | Some _ \<Rightarrow> rw_stopTime (pl_legReader p))"

text \<open>The rows of a running query are those of its window, which is no longer than a call.\<close>

definition windows_ok :: "'j pipeline_env \<Rightarrow> (int \<times> db_row) list \<Rightarrow> (int \<times> db_row) list \<Rightarrow> 'j pipeline \<Rightarrow> bool" where
  "windows_ok env legs links p \<longleftrightarrow>
     (\<forall>rows. pl_legRows p = Some rows \<longrightarrow>
        mset rows \<subseteq># stamped legs (rw_startTime (pl_legReader p)) (rw_stopTime (pl_legReader p))) \<and>
     (\<forall>rows. pl_linkRows p = Some rows \<longrightarrow>
        mset rows \<subseteq># stamped links (rw_startTime (pl_linkReader p)) (rw_stopTime (pl_linkReader p))) \<and>
     rw_stopTime (pl_legReader p) \<le> rw_startTime (pl_legReader p) + ms_max_call_time (pe_merge env)"

text \<open>No leg that is still to be taken is older than the longest call before the newest one taken.\<close>

definition legs_ahead :: "'j pipeline_env \<Rightarrow> (int \<times> db_row) list \<Rightarrow> int \<Rightarrow> 'j pipeline \<Rightarrow> bool" where
  "legs_ahead env legs start p \<longleftrightarrow>
     mc_maxLegTime (pl_merge p) \<le> leg_bound p \<and>
     int32 (mc_maxLegTime (pl_merge p) - ms_max_call_time (pe_merge env))
       = mc_maxLegTime (pl_merge p) - ms_max_call_time (pe_merge env) \<and>
     (\<forall>l \<in> set (mc_queueLeg (pl_merge p)). \<exists>t row. (t, row) \<in> set legs \<and> l = decode_leg row \<and> start < t \<and> t \<le> leg_bound p \<and>
        mc_maxLegTime (pl_merge p) \<le> t + ms_max_call_time (pe_merge env))"

text \<open>The queues fit into one intake; what is queued during a sweep is newer than the time the link reader reports.\<close>

definition queues_ok :: "'j pipeline_env \<Rightarrow> (int \<times> db_row) list \<Rightarrow> bool \<Rightarrow> 'j pipeline \<Rightarrow> bool" where
  "queues_ok env links sweeping p \<longleftrightarrow>
     length (mc_queueLeg (pl_merge p)) \<le> ms_max_queue_size (pe_merge env) \<and>
     length (mc_queueLink (pl_merge p)) \<le> ms_max_queue_size (pe_merge env) \<and>
     (sweeping \<longrightarrow> (\<forall>l \<in> set (mc_queueLink (pl_merge p)). \<exists>t row. (t, row) \<in> set links \<and>
        l = decode_link (pe_parse_json env) row \<and> rw_startTime (pl_linkReader p) < t))"

definition known :: "(int \<times> db_row) list \<Rightarrow> 'j call_record \<Rightarrow> bool" where
  "known legs r \<longleftrightarrow> (\<exists>t row. (t, row) \<in> set legs \<and> originates row \<and> record_id r = (row_id row, t))"

definition pipe_records :: "'j pipeline \<Rightarrow> 'j call_record set" where
  "pipe_records p = set (mc_data (pl_merge p)) \<union> set (mc_output (pl_merge p)) \<union> set (pl_finished p)"

definition of_call :: "'j pipeline_env \<Rightarrow> string \<Rightarrow> int \<Rightarrow> 'j call_leg_link multiset \<Rightarrow> 'j call_leg_link multiset" where
  "of_call env orig s M = filter_mset (\<lambda>l. cll_uniqueid_orig l = orig \<and>
     stamp_of (gmtime 0) (cll_link_start_time l) \<le> s + ms_max_call_time (pe_merge env)) M"

definition pipe_links :: "'j pipeline \<Rightarrow> 'j call_leg_link multiset" where
  "pipe_links p = state_links (pl_merge p) + record_links (pl_finished p)"

definition links_taken :: "'j pipeline_env \<Rightarrow> (int \<times> db_row) list \<Rightarrow> int \<Rightarrow> 'j pipeline \<Rightarrow> 'j call_leg_link multiset" where
  "links_taken env links start p =
     link_items (pe_parse_json env) (window_taken links start (pl_linkReader p) (pl_linkRows p))"

text \<open>Of the links of a call none is lost; a record that was retired has all of them.\<close>

definition links_kept :: "'j pipeline_env \<Rightarrow> (int \<times> db_row) list \<Rightarrow> (int \<times> db_row) list \<Rightarrow> int \<Rightarrow> 'j pipeline \<Rightarrow> bool" where
  "links_kept env legs links start p \<longleftrightarrow> (\<forall>(s, row) \<in> set legs. originates row \<and> start < s \<longrightarrow>
     of_call env (row_id row) s (links_taken env links start p) = of_call env (row_id row) s (pipe_links p))"

definition whole :: "'j pipeline_env \<Rightarrow> (int \<times> db_row) list \<Rightarrow> 'j call_record \<Rightarrow> bool" where
  "whole env links r \<longleftrightarrow> call_links env links (cr_orig r) (cr_startTime r) \<subseteq># mset (cr_links r)"

definition own_links :: "'j call_record \<Rightarrow> bool" where
  "own_links r \<longleftrightarrow> (\<forall>l \<in> set (cr_links r). cll_uniqueid_orig l = cr_orig r)"

definition service_inv ::
  "'j pipeline_env \<Rightarrow> (int \<times> db_row) list \<Rightarrow> (int \<times> db_row) list \<Rightarrow> int \<Rightarrow> bool \<Rightarrow> 'j pipeline \<Rightarrow> bool" where
  "service_inv env legs links start sweeping p \<longleftrightarrow>
     pipeline_inv env legs links start p \<and> windows_ok env legs links p \<and> legs_ahead env legs start p \<and>
     queues_ok env links sweeping p \<and> (\<forall>r \<in> pipe_records p. known legs r \<and> start < cr_startTime r) \<and>
     links_kept env legs links start p \<and>
     (\<forall>r \<in> set (mc_output (pl_merge p)) \<union> set (pl_finished p). whole env links r) \<and>
     (\<forall>r \<in> set (pl_finished p). own_links r)"

section \<open>The steps of the readers\<close>

lemma leg_query_cases:
  obtains (same) "leg_query env now1 now2 p = p"
    | (asks) rd where "pl_legRows p = None"
      "leg_query env now1 now2 p = p\<lparr>pl_legReader := rd,
         pl_legRows := Some (pe_leg_rows env (rw_startTime (pl_legReader p)) (rw_stopTime (pl_legReader p)))\<rparr>"
      "rw_startTime rd = rw_startTime (pl_legReader p)" "rw_stopTime rd = rw_stopTime (pl_legReader p)"
proof (cases "pl_legRows p = None \<and> read_ready (pe_read env) (pe_leg_exists env) now1 now2
    ((pl_legReader p)\<lparr>rw_paused := mc_leg_paused (pl_merge p)\<rparr>)")
  case True
  show thesis
    by (rule asks [of "(pl_legReader p)\<lparr>rw_paused := mc_leg_paused (pl_merge p)\<rparr>"])
      (use True in \<open>simp_all add: leg_query_def\<close>)
next
  case False
  show thesis by (rule same) (use False in \<open>auto simp: leg_query_def Let_def\<close>)
qed

lemma link_query_cases:
  obtains (same) "link_query env now1 now2 p = p"
    | (asks) rd where "pl_linkRows p = None"
      "link_query env now1 now2 p = p\<lparr>pl_linkReader := rd,
         pl_linkRows := Some (pe_link_rows env (rw_startTime (pl_linkReader p)) (rw_stopTime (pl_linkReader p)))\<rparr>"
      "rw_startTime rd = rw_startTime (pl_linkReader p)" "rw_stopTime rd = rw_stopTime (pl_linkReader p)"
proof (cases "pl_linkRows p = None \<and> read_ready (pe_read env) (pe_link_exists env) now1 now2
    ((pl_linkReader p)\<lparr>rw_paused := mc_link_paused (pl_merge p)\<rparr>)")
  case True
  show thesis
    by (rule asks [of "(pl_linkReader p)\<lparr>rw_paused := mc_link_paused (pl_merge p)\<rparr>"])
      (use True in \<open>simp_all add: link_query_def\<close>)
next
  case False
  show thesis by (rule same) (use False in \<open>auto simp: link_query_def Let_def\<close>)
qed

lemma leg_deliver_cases:
  obtains (same) "leg_deliver p = p"
    | (delivers) row rows rd where "pl_legRows p = Some (row # rows)"
      "leg_deliver p = p\<lparr>pl_legReader := rd, pl_legRows := Some rows,
         pl_merge := (pl_merge p)\<lparr>mc_queueLeg := mc_queueLeg (pl_merge p) @ [decode_leg row]\<rparr>\<rparr>"
      "rw_startTime rd = rw_startTime (pl_legReader p)" "rw_stopTime rd = rw_stopTime (pl_legReader p)"
  by (cases "pl_legRows p"; cases "the (pl_legRows p)") (auto simp: leg_deliver_def read_leg_def Let_def)

lemma link_deliver_cases:
  obtains (waits) rd where "link_deliver env oo ot p = p\<lparr>pl_linkReader := rd\<rparr>"
      "rw_startTime rd = rw_startTime (pl_linkReader p)" "rw_stopTime rd = rw_stopTime (pl_linkReader p)"
    | (delivers) row rows rd where "pl_linkRows p = Some (row # rows)"
      "link_deliver env oo ot p = p\<lparr>pl_linkReader := rd, pl_linkRows := Some rows,
         pl_merge := (pl_merge p)\<lparr>mc_queueLink := mc_queueLink (pl_merge p) @ [decode_link (pe_parse_json env) row]\<rparr>\<rparr>"
      "rw_startTime rd = rw_startTime (pl_linkReader p)" "rw_stopTime rd = rw_stopTime (pl_linkReader p)"
proof (cases "\<exists>row rows. pl_linkRows p = Some (row # rows)")
  case True
  then obtain row rows where rows: "pl_linkRows p = Some (row # rows)" by blast
  show thesis
    by (cases rule: read_link_cases [of "pe_parse_json env" oo ot row "pl_linkReader p"])
      (use that rows in \<open>auto simp: link_deliver_def\<close>)
next
  case False
  then have "link_deliver env oo ot p = p\<lparr>pl_linkReader := pl_linkReader p\<rparr>"
    by (auto simp: link_deliver_def split: option.split list.split)
  then show thesis using that(1) by blast
qed

lemma leg_advance_cases:
  obtains (same) "leg_advance env now3 p = p"
    | (moves) rd where "pl_legRows p = Some []" "leg_advance env now3 p = p\<lparr>pl_legReader := rd, pl_legRows := None\<rparr>"
      "rw_startTime rd = rw_stopTime (pl_legReader p)"
      "rw_stopTime rd \<in> {rw_startTime rd + rs_max_call_time (pe_read env), rw_startTime rd + rs_read_threshold_second (pe_read env)}"
  by (cases "pl_legRows p = Some []") (auto simp: leg_advance_def advance_window_def Let_def split: if_splits)

lemma link_advance_cases:
  obtains (same) "link_advance env now3 p = p"
    | (moves) rd where "pl_linkRows p = Some []" "link_advance env now3 p = p\<lparr>pl_linkReader := rd, pl_linkRows := None\<rparr>"
      "rw_startTime rd = rw_stopTime (pl_linkReader p)"
  by (cases "pl_linkRows p = Some []") (auto simp: link_advance_def advance_window_fields)


lemma stamped_in: "mset rows \<subseteq># stamped tbl a b \<Longrightarrow> row \<in> set rows \<Longrightarrow> \<exists>t. (t, row) \<in> set tbl \<and> a < t \<and> t \<le> b"
  by (drule mset_subset_eqD [where x = row]) (auto simp: stamped_def)

lemma pipeline_windows:
  "pipeline_inv env legs links start p \<Longrightarrow>
     start \<le> rw_startTime (pl_legReader p) \<and> rw_startTime (pl_legReader p) \<le> rw_stopTime (pl_legReader p) \<and>
     start \<le> rw_startTime (pl_linkReader p) \<and> rw_startTime (pl_linkReader p) \<le> rw_stopTime (pl_linkReader p) \<and>
     merge_inv (pl_merge p)"
  by (simp add: pipeline_inv_def window_inv_def)

lemma legs_ahead_bound:
  assumes "legs_ahead env legs start p" "leg_bound p \<le> leg_bound p'" "mc_maxLegTime (pl_merge p') = mc_maxLegTime (pl_merge p)"
    "set (mc_queueLeg (pl_merge p')) = set (mc_queueLeg (pl_merge p))"
  shows "legs_ahead env legs start p'"
  using assms unfolding legs_ahead_def by (auto intro: order_trans) (meson order_trans)+

lemma leg_query_service:
  assumes "env_ok env legs links" "service_inv env legs links start sw p"
  shows "service_inv env legs links start sw (leg_query env now1 now2 p)"
proof (cases rule: leg_query_cases [of env now1 now2 p])
  case same
  with assms(2) show ?thesis by simp
next
  case (asks rd)
  let ?p = "leg_query env now1 now2 p"
  have inv: "pipeline_inv env legs links start p" "windows_ok env legs links p" "legs_ahead env legs start p"
    using assms(2) by (simp_all add: service_inv_def)
  have "leg_bound p \<le> leg_bound ?p" using pipeline_windows [OF inv(1)] asks by (simp add: leg_bound_def)
  then have "legs_ahead env legs start ?p" by (rule legs_ahead_bound [OF inv(3)]) (simp_all add: asks(2))
  moreover have "windows_ok env legs links ?p"
    using inv(2) assms(1) asks by (simp add: windows_ok_def env_ok_def)
  moreover have "pipeline_inv env legs links start ?p" by (rule leg_query_inv [OF assms(1) inv(1)])
  ultimately show ?thesis
    using assms(2) by (simp add: service_inv_def asks(2) queues_ok_def pipe_records_def links_kept_def links_taken_def pipe_links_def)
qed

lemma link_query_service:
  assumes "env_ok env legs links" "service_inv env legs links start sw p"
  shows "service_inv env legs links start sw (link_query env now1 now2 p)"
proof (cases rule: link_query_cases [of env now1 now2 p])
  case same
  with assms(2) show ?thesis by simp
next
  case (asks rd)
  let ?p = "link_query env now1 now2 p"
  have inv: "pipeline_inv env legs links start p" "windows_ok env legs links p" "legs_ahead env legs start p"
    using assms(2) by (simp_all add: service_inv_def)
  have "legs_ahead env legs start ?p" by (rule legs_ahead_bound [OF inv(3)]) (simp_all add: asks(2) leg_bound_def split: option.split)
  moreover have "windows_ok env legs links ?p"
    using inv(2) assms(1) asks by (simp add: windows_ok_def env_ok_def)
  moreover have "pipeline_inv env legs links start ?p" by (rule link_query_inv [OF assms(1) inv(1)])
  moreover have "links_taken env links start ?p = links_taken env links start p"
  proof -
    have "window_inv links start rd None" "window_inv links start (pl_linkReader p) None"
      using inv(1) asks(1,3,4) by (simp_all add: pipeline_inv_def window_inv_def)
    from window_query(2) [OF this(1), of "pe_link_rows env (rw_startTime (pl_linkReader p)) (rw_stopTime (pl_linkReader p))"] assms(1)
    show ?thesis using asks window_cong(2) [OF asks(3,4)] by (simp add: links_taken_def env_ok_def)
  qed
  ultimately show ?thesis
    using assms(2) unfolding service_inv_def links_kept_def
    by (simp add: asks(2,3) queues_ok_def pipe_records_def pipe_links_def)
qed

lemma leg_deliver_service:
  assumes "service_inv env legs links start sw p" "length (mc_queueLeg (pl_merge p)) < ms_max_queue_size (pe_merge env)"
  shows "service_inv env legs links start sw (leg_deliver p)"
proof (cases rule: leg_deliver_cases [of p])
  case same
  with assms(1) show ?thesis by simp
next
  case (delivers row rows rd)
  let ?p = "leg_deliver p"
  have inv: "pipeline_inv env legs links start p" "windows_ok env legs links p" "legs_ahead env legs start p"
    using assms(1) by (simp_all add: service_inv_def)
  have rows: "mset (row # rows) \<subseteq># stamped legs (rw_startTime (pl_legReader p)) (rw_stopTime (pl_legReader p))"
    using inv(2) delivers(1) by (simp add: windows_ok_def)
  obtain t where t: "(t, row) \<in> set legs" "rw_startTime (pl_legReader p) < t" "t \<le> rw_stopTime (pl_legReader p)"
    using stamped_in [OF rows, of row] by auto
  have bound: "leg_bound p = rw_stopTime (pl_legReader p)" "leg_bound ?p = rw_stopTime (pl_legReader p)"
    using delivers by (simp_all add: leg_bound_def)
  have "mc_maxLegTime (pl_merge p) \<le> t + ms_max_call_time (pe_merge env)"
    using inv(2,3) t bound by (simp add: windows_ok_def legs_ahead_def)
  moreover have "start < t" using t(2) pipeline_windows [OF inv(1)] by simp
  ultimately have "\<exists>t' row'. (t', row') \<in> set legs \<and> decode_leg row = decode_leg row' \<and> start < t' \<and> t' \<le> leg_bound ?p \<and>
      mc_maxLegTime (pl_merge p) \<le> t' + ms_max_call_time (pe_merge env)"
    using t bound by (intro exI [of _ t] exI [of _ row]) simp
  then have "legs_ahead env legs start ?p"
    using inv(3) bound unfolding legs_ahead_def delivers(2) by auto
  moreover have "mset rows \<subseteq># stamped legs (rw_startTime (pl_legReader p)) (rw_stopTime (pl_legReader p))"
    by (rule subset_mset.order_trans [OF _ rows]) simp
  then have "windows_ok env legs links ?p" using inv(2) delivers by (simp add: windows_ok_def)
  moreover have "pipeline_inv env legs links start ?p" by (rule leg_deliver_inv [OF inv(1)])
  ultimately show ?thesis
    using assms by (simp add: service_inv_def delivers(2) queues_ok_def pipe_records_def links_kept_def links_taken_def
        pipe_links_def state_links_def)
qed

lemma of_call_plus [simp]: "of_call env k s (A + B) = of_call env k s A + of_call env k s B"
  by (simp add: of_call_def)

lemma links_kept_add:
  assumes "links_kept env legs links start p" "links_taken env links start p' = links_taken env links start p + M"
    "pipe_links p' = pipe_links p + M"
  shows "links_kept env legs links start p'"
  using assms(1) unfolding links_kept_def assms(2,3) by auto

lemma link_deliver_service:
  assumes "service_inv env legs links start sw p" "length (mc_queueLink (pl_merge p)) < ms_max_queue_size (pe_merge env)"
  shows "service_inv env legs links start sw (link_deliver env oo ot p)"
proof (cases rule: link_deliver_cases [of env oo ot p])
  case (waits rd)
  let ?p = "link_deliver env oo ot p"
  have inv: "pipeline_inv env legs links start p" "windows_ok env legs links p" "legs_ahead env legs start p"
    using assms(1) by (simp_all add: service_inv_def)
  have "legs_ahead env legs start ?p" by (rule legs_ahead_bound [OF inv(3)]) (simp_all add: waits(1) leg_bound_def split: option.split)
  moreover have "pipeline_inv env legs links start ?p" by (rule link_deliver_inv [OF inv(1)])
  moreover have "links_taken env links start ?p = links_taken env links start p"
    by (simp add: links_taken_def waits(1) window_cong(2) [OF waits(2,3)])
  ultimately show ?thesis
    using assms(1) waits(2,3) unfolding service_inv_def links_kept_def windows_ok_def
    by (simp add: waits(1) queues_ok_def pipe_records_def pipe_links_def)
next
  case (delivers row rows rd)
  let ?p = "link_deliver env oo ot p" and ?link = "decode_link (pe_parse_json env) row"
  have inv: "pipeline_inv env legs links start p" "windows_ok env legs links p" "legs_ahead env legs start p"
    using assms(1) by (simp_all add: service_inv_def)
  have rows: "mset (row # rows) \<subseteq># stamped links (rw_startTime (pl_linkReader p)) (rw_stopTime (pl_linkReader p))"
    using inv(2) delivers(1) by (simp add: windows_ok_def)
  obtain t where t: "(t, row) \<in> set links" "rw_startTime (pl_linkReader p) < t"
    using stamped_in [OF rows, of row] by auto
  have "legs_ahead env legs start ?p" by (rule legs_ahead_bound [OF inv(3)]) (simp_all add: delivers(2) leg_bound_def split: option.split)
  moreover have "mset rows \<subseteq># stamped links (rw_startTime (pl_linkReader p)) (rw_stopTime (pl_linkReader p))"
    by (rule subset_mset.order_trans [OF _ rows]) simp
  then have "windows_ok env legs links ?p" using inv(2) delivers by (simp add: windows_ok_def)
  moreover have "pipeline_inv env legs links start ?p" by (rule link_deliver_inv [OF inv(1)])
  moreover have "queues_ok env links sw ?p"
    using assms t unfolding service_inv_def queues_ok_def delivers(2) by (auto simp: delivers(3))
  moreover have lt: "links_taken env links start ?p = links_taken env links start p + {#?link#}"
    using window_deliver(2) [of links start "pl_linkReader p" row rows] inv(1) delivers(1)
    by (simp add: links_taken_def delivers(2) window_cong(2) [OF delivers(3,4)] link_items_def pipeline_inv_def)
  moreover have pl: "pipe_links ?p = pipe_links p + {#?link#}"
    by (simp add: pipe_links_def delivers(2) state_links_def)
  have kept: "links_kept env legs links start p" using assms(1) by (simp add: service_inv_def)
  have "links_kept env legs links start ?p" by (rule links_kept_add [OF kept lt pl])
  moreover have "pipe_records ?p = pipe_records p" "mc_output (pl_merge ?p) = mc_output (pl_merge p)"
    "pl_finished ?p = pl_finished p" by (simp_all add: pipe_records_def delivers(2))
  ultimately show ?thesis using assms(1) unfolding service_inv_def by simp
qed

lemma leg_advance_service:
  assumes "env_ok env legs links" "tables_ok env start legs links" "service_inv env legs links start sw p"
  shows "service_inv env legs links start sw (leg_advance env now3 p)"
proof (cases rule: leg_advance_cases [of env now3 p])
  case same
  with assms(3) show ?thesis by simp
next
  case (moves rd)
  let ?p = "leg_advance env now3 p"
  have inv: "pipeline_inv env legs links start p" "windows_ok env legs links p" "legs_ahead env legs start p"
    using assms(3) by (simp_all add: service_inv_def)
  have "leg_bound p = leg_bound ?p" using moves by (simp add: leg_bound_def)
  then have "legs_ahead env legs start ?p" by (intro legs_ahead_bound [OF inv(3)]) (simp_all add: moves(2))
  moreover have "windows_ok env legs links ?p"
    using inv(2) assms(2) moves by (auto simp: windows_ok_def tables_ok_def)
  moreover have "pipeline_inv env legs links start ?p" by (rule leg_advance_inv [OF assms(1) inv(1)])
  ultimately show ?thesis
    using assms(3) by (simp add: service_inv_def moves(2) queues_ok_def pipe_records_def links_kept_def links_taken_def pipe_links_def)
qed

lemma link_advance_service:
  assumes "env_ok env legs links" "service_inv env legs links start sw p" "\<not> sw"
  shows "service_inv env legs links start sw (link_advance env now3 p)"
proof (cases rule: link_advance_cases [of env now3 p])
  case same
  with assms(2) show ?thesis by simp
next
  case (moves rd)
  let ?p = "link_advance env now3 p"
  have inv: "pipeline_inv env legs links start p" "windows_ok env legs links p" "legs_ahead env legs start p"
    using assms(2) by (simp_all add: service_inv_def)
  have "legs_ahead env legs start ?p" by (rule legs_ahead_bound [OF inv(3)]) (simp_all add: moves(2) leg_bound_def split: option.split)
  moreover have "windows_ok env legs links ?p" using inv(2) moves by (simp add: windows_ok_def)
  moreover have "pipeline_inv env legs links start ?p" by (rule link_advance_inv [OF assms(1) inv(1)])
  moreover have "links_taken env links start ?p = links_taken env links start p"
    using moves by (simp add: links_taken_def window_taken_def)
  ultimately show ?thesis
    using assms(2,3) unfolding service_inv_def links_kept_def
    by (simp add: moves(2) queues_ok_def pipe_records_def pipe_links_def)
qed


section \<open>The consumer\<close>

lemma choose_leg_start [simp]: "cr_startTime (choose_leg leg rc) = cr_startTime rc"
  by (simp add: choose_leg_def Let_def split: prod.split)

lemma choose_parties_start [simp]: "cr_startTime (choose_parties rc) = cr_startTime rc"
proof -
  have "cr_startTime (fold choose_leg ls rc) = cr_startTime rc" for ls
    by (induction ls arbitrary: rc) simp_all
  then show ?thesis by (simp add: choose_parties_def)
qed

lemma finish_record_id: "record_id (finish_record sort_legs sort_links r) = record_id r"
  by (simp add: record_id_def finish_record_def Let_def)

lemma record_id_eq: "record_id r' = record_id r \<longleftrightarrow> cr_orig r' = cr_orig r \<and> cr_startTime r' = cr_startTime r"
  by (simp add: record_id_def)

lemma serve_service:
  assumes "env_ok env legs links" "service_inv env legs links start sw p"
  shows "service_inv env legs links start sw (serve env n p)"
proof -
  let ?p = "serve env n p" and ?out = "mc_output (pl_merge p)"
  let ?fin = "map (finish_record (pe_sort_legs env) (pe_sort_links env)) (take n ?out)"
  have inv: "pipeline_inv env legs links start p" "legs_ahead env legs start p"
    using assms(2) by (simp_all add: service_inv_def)
  have out_ok: "\<forall>r \<in> set (take n ?out). record_ok r"
    using pipeline_windows [OF inv(1)] by (auto simp: merge_inv_def dest: in_set_takeD)
  have srt: "std_sort linkCompareByLinkId (pe_sort_links env)" using assms(1) by (simp add: env_ok_def)
  have eq: "?p = p\<lparr>pl_merge := (pl_merge p)\<lparr>mc_output := drop n ?out\<rparr>, pl_finished := pl_finished p @ ?fin\<rparr>"
    by (simp add: serve_def)
  have fin: "\<exists>r \<in> set (take n ?out). record_id f = record_id r \<and> mset (cr_links f) = mset (cr_links r) \<and> own_links f"
    if f: "f \<in> set ?fin" for f
  proof -
    obtain r where r: "r \<in> set (take n ?out)" "f = finish_record (pe_sort_legs env) (pe_sort_links env) r"
      using f by (auto simp: set_map)
    have ok: "record_ok r" using out_ok r(1) by blast
    note keeps = finish_record_keeps [OF srt ok, of "pe_sort_legs env"]
    have "set (cr_links f) = set (cr_links r)" using keeps(2) r(2) by (metis mset_eq_setD)
    then have "own_links f" using ok keeps(1) r(2) by (simp add: own_links_def record_ok_def)
    with r keeps(2) show ?thesis by (intro bexI [OF _ r(1)]) (simp add: finish_record_id)
  qed
  have "pipeline_inv env legs links start ?p" by (rule serve_inv [OF assms(1) inv(1)])
  moreover have "legs_ahead env legs start ?p"
    by (rule legs_ahead_bound [OF inv(2)]) (simp_all add: eq leg_bound_def split: option.split)
  moreover have "windows_ok env legs links ?p" "queues_ok env links sw ?p"
    using assms(2) by (simp_all add: service_inv_def windows_ok_def queues_ok_def eq)
  moreover have "known legs r \<and> start < cr_startTime r" if "r \<in> pipe_records ?p" for r
  proof (cases "r \<in> set ?fin")
    case True
    from fin [OF this] obtain q where q: "q \<in> set ?out" "record_id r = record_id q" by (auto dest: in_set_takeD)
    then have "known legs q \<and> start < cr_startTime q" using assms(2) by (auto simp: service_inv_def pipe_records_def)
    moreover have "cr_startTime r = cr_startTime q" using q(2) by (simp add: record_id_eq)
    ultimately show ?thesis using q(2) by (simp add: known_def)
  next
    case False
    with that have "r \<in> pipe_records p" by (auto simp: pipe_records_def eq dest: in_set_dropD)
    with assms(2) show ?thesis by (simp add: service_inv_def)
  qed
  moreover have "links_kept env legs links start ?p"
  proof -
    have "record_links ?fin = record_links (take n ?out)" by (rule finished_records(2) [OF srt out_ok])
    moreover have "record_links ?out = record_links (take n ?out) + record_links (drop n ?out)"
      by (metis append_take_drop_id record_links_simps(3))
    ultimately have "pipe_links ?p = pipe_links p" by (simp add: pipe_links_def eq state_links_def)
    moreover have "links_taken env links start ?p = links_taken env links start p" by (simp add: links_taken_def eq)
    ultimately show ?thesis using assms(2) by (simp add: service_inv_def links_kept_def)
  qed
  moreover have "whole env links r" if "r \<in> set (mc_output (pl_merge ?p)) \<union> set (pl_finished ?p)" for r
  proof (cases "r \<in> set ?fin")
    case True
    from fin [OF this] obtain q where q: "q \<in> set ?out" "record_id r = record_id q" "mset (cr_links r) = mset (cr_links q)"
      by (auto dest: in_set_takeD)
    then have "whole env links q" using assms(2) by (auto simp: service_inv_def)
    with q(2,3) show ?thesis by (simp add: whole_def record_id_eq)
  next
    case False
    with that have "r \<in> set ?out \<union> set (pl_finished p)" by (auto simp: eq dest: in_set_dropD)
    with assms(2) show ?thesis by (simp add: service_inv_def)
  qed
  moreover have "own_links r" if "r \<in> set (pl_finished ?p)" for r
    using that fin assms(2) by (auto simp: eq service_inv_def)
  ultimately show ?thesis unfolding service_inv_def by blast
qed

section \<open>The intake\<close>

lemma fold_max: "fold max xs (m :: int) \<in> insert m (set xs)"
  by (induction xs arbitrary: m) (auto simp: max_def)

lemma fold_max_le: "m \<le> b \<Longrightarrow> \<forall>x \<in> set xs. x \<le> b \<Longrightarrow> fold max xs (m :: int) \<le> b"
  by (induction xs arbitrary: m) auto

lemma take_in_service:
  assumes "tables_ok env start legs links" "service_inv env legs links start sw p"
  shows "service_inv env legs links start True (take_in env g a0 p)"
proof -
  let ?p = "take_in env g a0 p" and ?st = "pl_merge p" and ?n = "ms_max_queue_size (pe_merge env)"
  have inv: "pipeline_inv env legs links start p" "legs_ahead env legs start p"
    using assms(2) by (simp_all add: service_inv_def)
  have ok: "merge_inv ?st" using pipeline_windows [OF inv(1)] by simp
  have len: "length (mc_queueLeg ?st) \<le> ?n" "length (mc_queueLink ?st) \<le> ?n"
    using assms(2) by (simp_all add: service_inv_def queues_ok_def)
  have eq: "?p = p\<lparr>pl_merge := pass_begin (pe_merge env) g a0 ?st\<rparr>" by (simp add: take_in_def)
  have stamp: "\<exists>row. (stamp_of g (cl_start_time l), row) \<in> set legs \<and> l = decode_leg row \<and>
      start < stamp_of g (cl_start_time l) \<and> stamp_of g (cl_start_time l) \<le> leg_bound p"
    if l: "l \<in> set (mc_queueLeg ?st)" for l
  proof -
    obtain t row where "(t, row) \<in> set legs" "l = decode_leg row" "start < t" "t \<le> leg_bound p"
      using inv(2) l by (auto simp: legs_ahead_def)
    moreover from this(1) have "stamp_of g (cl_start_time (decode_leg row)) = t" using assms(1) by (auto simp: tables_ok_def)
    ultimately show ?thesis by auto
  qed
  let ?stamps = "map (\<lambda>l. stamp_of g (cl_start_time l)) (mc_queueLeg ?st)"
  have newest: "mc_maxLegTime (pl_merge ?p) = fold max ?stamps (mc_maxLegTime ?st)"
    using len(1) by (simp add: eq pass_begin_keeps merge_intake_def fold_take_leg_max)
  have "legs_ahead env legs start ?p"
    unfolding legs_ahead_def
  proof (intro conjI ballI)
    have "leg_bound ?p = leg_bound p" by (simp add: eq leg_bound_def split: option.split)
    then show "mc_maxLegTime (pl_merge ?p) \<le> leg_bound ?p"
      unfolding newest using inv(2) stamp by (intro fold_max_le) (auto simp: legs_ahead_def)
    from fold_max [of ?stamps "mc_maxLegTime ?st"]
    show "int32 (mc_maxLegTime (pl_merge ?p) - ms_max_call_time (pe_merge env))
        = mc_maxLegTime (pl_merge ?p) - ms_max_call_time (pe_merge env)"
      unfolding newest
    proof
      assume "fold max ?stamps (mc_maxLegTime ?st) = mc_maxLegTime ?st"
      with inv(2) show "int32 (fold max ?stamps (mc_maxLegTime ?st) - ms_max_call_time (pe_merge env))
          = fold max ?stamps (mc_maxLegTime ?st) - ms_max_call_time (pe_merge env)" by (simp add: legs_ahead_def)
    next
      assume "fold max ?stamps (mc_maxLegTime ?st) \<in> set ?stamps"
      then obtain l where "l \<in> set (mc_queueLeg ?st)" "fold max ?stamps (mc_maxLegTime ?st) = stamp_of g (cl_start_time l)" by auto
      with stamp [OF this(1)] have "fold max ?stamps (mc_maxLegTime ?st) \<in> fst ` set legs" by force
      then show "int32 (fold max ?stamps (mc_maxLegTime ?st) - ms_max_call_time (pe_merge env))
          = fold max ?stamps (mc_maxLegTime ?st) - ms_max_call_time (pe_merge env)" by (rule tables_okD(4) [OF assms(1)])
    qed
  qed (use len(1) in \<open>simp add: eq pass_begin_keeps\<close>)
  moreover have "pipeline_inv env legs links start ?p"
    using inv(1) ok by (simp add: pipeline_inv_def eq pass_begin_keeps pass_begin_inv pass_begin_links)
  moreover have "windows_ok env legs links ?p" using assms(2) by (simp add: service_inv_def windows_ok_def eq)
  moreover have "queues_ok env links True ?p" using len by (simp add: queues_ok_def eq pass_begin_keeps)
  moreover have "known legs r \<and> start < cr_startTime r" if r: "r \<in> pipe_records ?p" for r
  proof (cases "r \<in> pipe_records p")
    case True
    with assms(2) show ?thesis by (simp add: service_inv_def)
  next
    case False
    with r len(1) obtain l where l: "l \<in> set (mc_queueLeg ?st)" "cl_orig l"
      "r = new_call_record a0 l (stamp_of g (cl_start_time l))"
      by (auto simp: pipe_records_def eq pass_begin_keeps merge_intake_def fold_take_leg_data)
    with stamp [OF l(1)] show ?thesis
      by (auto simp: known_def record_id_def new_call_record_def originates_def row_id_def)
  qed
  moreover have "links_kept env legs links start ?p"
    using assms(2) pass_begin_links [OF ok]
    by (simp add: service_inv_def links_kept_def links_taken_def pipe_links_def eq)
  moreover have "mc_output (pl_merge ?p) = mc_output (pl_merge p)" "pl_finished ?p = pl_finished p"
    by (simp_all add: eq pass_begin_keeps)
  ultimately show ?thesis using assms(2) unfolding service_inv_def by simp
qed


section \<open>The sweep\<close>

lemma distinct_sub:
  assumes "distinct ys" "mset xs \<subseteq># mset ys"
  shows "distinct xs"
proof -
  have "count (mset xs) a = (if a \<in> set xs then 1 else 0)" for a
  proof -
    have "count (mset xs) a \<le> count (mset ys) a" by (rule mset_subset_eq_count [OF assms(2)])
    also have "\<dots> \<le> 1" using assms(1) by (simp add: distinct_count_atmost_1)
    finally have "count (mset xs) a \<le> 1" .
    then show ?thesis
      using count_greater_zero_iff [of "mset xs" a] by (cases "a \<in> set xs") (simp_all add: le_Suc_eq not_in_iff)
  qed
  then show ?thesis by (simp add: distinct_count_atmost_1)
qed

lemma mset_map_filter_sub: "mset (map f (filter P xs)) \<subseteq># mset (map f xs)"
  by (induction xs) (auto intro: subset_mset.order_trans)

lemma taken_in_table: "window_taken tbl start rd rows \<subseteq># mset (map snd tbl)"
proof -
  have "stamped tbl start b \<subseteq># mset (map snd tbl)" for b
    unfolding stamped_def by (rule mset_map_filter_sub)
  then show ?thesis by (auto simp: window_taken_def split: option.splits intro: subset_mset.order_trans [OF diff_subset_eq_self])
qed

text \<open>The originating ids in the service are those of rows of the table, each once.\<close>

lemma origs_once:
  assumes "tables_ok env start legs links" "pipeline_inv env legs links start p"
  shows "distinct (map cr_orig (mc_data (pl_merge p) @ mc_output (pl_merge p) @ pl_finished p) @
    map cl_uniqueid (filter cl_orig (mc_queueLeg (pl_merge p))))"
proof -
  have "window_taken legs start (pl_legReader p) (pl_legRows p) \<subseteq># mset (map snd legs)" by (rule taken_in_table)
  then have "orig_ids (window_taken legs start (pl_legReader p) (pl_legRows p)) \<subseteq># orig_ids (mset (map snd legs))"
    unfolding orig_ids_def by (intro image_mset_subseteq_mono multiset_filter_mono)
  also have "orig_ids (mset (map snd legs)) = mset (map row_id (filter originates (map snd legs)))"
  proof -
    have "image_mset cl_uniqueid (filter_mset cl_orig (image_mset decode_leg (mset rows))) = mset (map row_id (filter originates rows))" for rows
      by (induction rows) (simp_all add: row_id_def originates_def)
    from this [of "map snd legs"] show ?thesis by (simp only: orig_ids_def)
  qed
  finally have "mset (map cr_orig (mc_data (pl_merge p) @ mc_output (pl_merge p) @ pl_finished p) @
      map cl_uniqueid (filter cl_orig (mc_queueLeg (pl_merge p)))) \<subseteq># mset (map row_id (filter originates (map snd legs)))"
    using assms(2) by (simp add: pipeline_inv_def state_origs_def ac_simps)
  with tables_okD(5) [OF assms(1)] show ?thesis
    by (rule distinct_sub)
qed


text \<open>A call that is not in the service yet did not start longer than the longest call before the newest leg taken.\<close>

lemma pending_leg:
  assumes "env_ok env legs links" "tables_ok env start legs links" "service_inv env legs links start sw p"
    and leg: "(s, row) \<in> set legs" "originates row" "start < s"
    and pending: "row_id row \<notin> cr_orig ` pipe_records p"
  shows "mc_maxLegTime (pl_merge p) \<le> s + ms_max_call_time (pe_merge env)"
proof -
  let ?rd = "pl_legReader p" and ?max = "ms_max_call_time (pe_merge env)"
  have inv: "pipeline_inv env legs links start p" "windows_ok env legs links p" "legs_ahead env legs start p"
    using assms(3) by (simp_all add: service_inv_def)
  have max: "0 \<le> ?max" using assms(1,2) by (simp add: env_ok_def settings_ok_def tables_ok_def)
  have bound: "mc_maxLegTime (pl_merge p) \<le> leg_bound p" using inv(3) by (simp add: legs_ahead_def)
  have in_table: "row \<in># stamped legs start b" if "s \<le> b" for b
    using leg that by (force simp: stamped_def)
  have queued: ?thesis if "row \<in># window_taken legs start ?rd (pl_legRows p)"
  proof -
    have "row_id row \<in># orig_ids (window_taken legs start ?rd (pl_legRows p))"
      using that leg(2) by (auto simp: orig_ids_def row_id_def originates_def)
    also have "orig_ids (window_taken legs start ?rd (pl_legRows p))
        = state_origs (pl_merge p) + mset (map cr_orig (pl_finished p))" using inv(1) by (simp add: pipeline_inv_def)
    finally obtain l where l: "l \<in> set (mc_queueLeg (pl_merge p))" "cl_orig l" "cl_uniqueid l = row_id row"
      using pending by (auto simp: state_origs_def pipe_records_def)
    then obtain t row' where t: "(t, row') \<in> set legs" "l = decode_leg row'" "mc_maxLegTime (pl_merge p) \<le> t + ?max"
      using inv(3) by (auto simp: legs_ahead_def)
    with tables_one_leg [OF assms(2) t(1) leg(1)] l leg(2) show ?thesis by (simp add: originates_def row_id_def)
  qed
  show ?thesis
  proof (cases "pl_legRows p")
    case None
    show ?thesis
    proof (cases "s \<le> rw_startTime ?rd")
      case True
      with in_table None queued show ?thesis by (simp add: window_taken_def)
    next
      case False
      with bound None max show ?thesis by (simp add: leg_bound_def)
    qed
  next
    case (Some rows)
    have late: "rw_stopTime ?rd \<le> rw_startTime ?rd + ?max" using inv(2) by (simp add: windows_ok_def)
    have b: "mc_maxLegTime (pl_merge p) \<le> rw_stopTime ?rd" using bound Some by (simp add: leg_bound_def)
    show ?thesis
    proof (cases "rw_startTime ?rd < s")
      case True
      with b late show ?thesis by simp
    next
      case False
      have "s \<le> rw_stopTime ?rd" using False pipeline_windows [OF inv(1)] by simp
      then have "row \<in># stamped legs start (rw_stopTime ?rd)" by (rule in_table)
      moreover have "row \<notin> set rows"
      proof
        assume memb: "row \<in> set rows"
        have sub: "mset rows \<subseteq># stamped legs (rw_startTime ?rd) (rw_stopTime ?rd)"
          using inv(2) Some by (simp add: windows_ok_def)
        from stamped_in [OF sub memb] obtain t where t: "(t, row) \<in> set legs" "rw_startTime ?rd < t" by (elim exE conjE)
        have "t = s" using tables_one_leg [OF assms(2) t(1) leg(1,2,2)] by simp
        with t(2) False show False by simp
      qed
      ultimately have "row \<in># stamped legs start (rw_stopTime ?rd) - mset rows"
        by (simp add: in_diff_count not_in_iff [THEN iffD1])
      with queued Some show ?thesis by (simp add: window_taken_def)
    qed
  qed
qed

section \<open>The links of one call\<close>

lemma of_call_items:
  assumes "tables_ok env start legs links"
  shows "of_call env orig s (link_items (pe_parse_json env) (mset (map snd (filter P links)))) =
    mset (map (decode_link (pe_parse_json env)) (map snd (filter (\<lambda>(t, row). P (t, row) \<and>
      cll_uniqueid_orig (decode_link (pe_parse_json env) row) = orig \<and> t \<le> s + ms_max_call_time (pe_merge env)) links)))"
proof -
  have "\<forall>(t, row) \<in> set links. stamp_of (gmtime 0) (cll_link_start_time (decode_link (pe_parse_json env) row)) = t"
    using tables_okD(2) [OF assms] by auto
  then show ?thesis
    by (induction links) (auto simp: of_call_def link_items_def)
qed

lemma call_links_all:
  assumes "tables_ok env start legs links"
  shows "call_links env links orig s = of_call env orig s (link_items (pe_parse_json env) (mset (map snd links)))"
  using of_call_items [OF assms, of orig s "\<lambda>_. True"] by (simp add: call_links_def)

lemma sub_plus_diff:
  assumes "R \<subseteq># B"
  shows "A \<subseteq># A + B - R"
proof -
  obtain C where "B = R + C" using assms by (auto simp: mset_subset_eq_exists_conv)
  then have "A + B - R = A + C" by (metis add.left_commute add_diff_cancel_left')
  then show ?thesis by simp
qed

text \<open>When the link reader has passed a call, all its links have been taken.\<close>

lemma call_links_taken:
  assumes "tables_ok env start legs links" "service_inv env legs links start sw p"
    and leg: "(s, row) \<in> set legs" "originates row" "start < s"
    and passed: "s + ms_max_call_time (pe_merge env) < rw_startTime (pl_linkReader p)"
  shows "call_links env links (row_id row) s \<subseteq># of_call env (row_id row) s (links_taken env links start p)"
proof -
  let ?rd = "pl_linkReader p" and ?T = "rw_startTime (pl_linkReader p)"
  have inv: "pipeline_inv env legs links start p" "windows_ok env legs links p"
    using assms(2) by (simp_all add: service_inv_def)
  have "filter (\<lambda>(t, r). cll_uniqueid_orig (decode_link (pe_parse_json env) r) = row_id row \<and> t \<le> s + ms_max_call_time (pe_merge env)) links
      = filter (\<lambda>(t, r). (case (t, r) of (t, r) \<Rightarrow> start < t \<and> t \<le> ?T) \<and>
          cll_uniqueid_orig (decode_link (pe_parse_json env) r) = row_id row \<and> t \<le> s + ms_max_call_time (pe_merge env)) links"
    by (rule filter_cong [OF refl]) (use tables_okD(3) [OF assms(1) leg(1) _ leg(2)] leg(3) passed in force)
  then have "call_links env links (row_id row) s = of_call env (row_id row) s (link_items (pe_parse_json env) (stamped links start ?T))"
    by (simp only: call_links_def stamped_def of_call_items [OF assms(1)])
  also have "\<dots> \<subseteq># of_call env (row_id row) s (links_taken env links start p)"
  proof -
    have "stamped links start ?T \<subseteq># window_taken links start ?rd (pl_linkRows p)"
    proof (cases "pl_linkRows p")
      case (Some rows)
      have whole: "stamped links start (rw_stopTime ?rd) = stamped links start ?T + stamped links ?T (rw_stopTime ?rd)"
        using stamped_split [of start ?T "rw_stopTime ?rd" links] pipeline_windows [OF inv(1)] by simp
      have "mset rows \<subseteq># stamped links ?T (rw_stopTime ?rd)" using inv(2) Some by (simp add: windows_ok_def)
      from sub_plus_diff [OF this, of "stamped links start ?T"] show ?thesis
        by (simp only: window_taken_def Some option.case whole)
    qed (simp add: window_taken_def)
    then show ?thesis
      unfolding of_call_def links_taken_def link_items_def by (intro multiset_filter_mono image_mset_subseteq_mono)
  qed
  finally show ?thesis .
qed

text \<open>Of the items of a call, a record of it has those of the records, its bucket those of the buckets.\<close>

lemma of_call_sub: "of_call env k s M \<subseteq># M"
  by (simp add: of_call_def)

lemma of_call_other: "\<forall>l \<in># M. cll_uniqueid_orig l \<noteq> k \<Longrightarrow> of_call env k s M = {#}"
  by (auto simp: of_call_def multiset_eq_iff count_eq_zero_iff)

lemma of_call_mono: "M \<subseteq># N \<Longrightarrow> of_call env k s M \<subseteq># of_call env k s N"
  by (simp add: of_call_def multiset_filter_mono)

lemma record_own: "record_ok r \<Longrightarrow> own_links r"
  by (simp add: record_ok_def own_links_def)

lemma of_call_others:
  "\<forall>r \<in> set rs. own_links r \<Longrightarrow> k \<notin> cr_orig ` set rs \<Longrightarrow> of_call env k s (record_links rs) = {#}"
  by (intro of_call_other) (auto simp: record_links_def own_links_def)

lemma of_call_records:
  assumes "\<forall>r \<in> set rs. own_links r" "distinct (map cr_orig rs)" "r \<in> set rs"
  shows "of_call env (cr_orig r) s (record_links rs) \<subseteq># mset (cr_links r)"
proof -
  obtain ys zs where rs: "rs = ys @ r # zs" using assms(3) by (meson split_list)
  have "of_call env (cr_orig r) s (record_links (ys @ zs)) = {#}"
    by (rule of_call_others) (use assms(1,2) rs in auto)
  then have "of_call env (cr_orig r) s (record_links rs) = of_call env (cr_orig r) s (mset (cr_links r))"
    by (simp add: rs)
  then show ?thesis by (simp add: of_call_sub)
qed

lemma of_call_buckets:
  assumes "links_ok m"
  shows "of_call env k s (mset (bucket_items m)) \<subseteq># mset (sbucket.bucket m k)"
proof -
  have ok: "sm_ok m" using assms by (simp add: links_ok_def)
  have "of_call env k s (mset (bucket_items (sm_erase k m))) = {#}"
    by (rule of_call_other) (use assms in \<open>auto simp: bucket_items_def links_ok_def sm_erase_def\<close>)
  moreover have "mset (bucket_items (sm_erase k m)) + mset (sbucket.bucket m k) = mset (bucket_items m)"
    using bucket_items_erase [OF ok, of k] by (cases "map_of m k") (auto simp: sm_bucket_def sm_erase_fresh ac_simps)
  ultimately show ?thesis using of_call_plus [of env k s] of_call_sub by (metis add_0)
qed

lemma queued_late:
  "queues_ok env links True p \<Longrightarrow> l \<in> set (mc_queueLink (pl_merge p)) \<Longrightarrow>
   \<exists>t row. (t, row) \<in> set links \<and> l = decode_link (pe_parse_json env) row \<and> rw_startTime (pl_linkReader p) < t"
  by (simp add: queues_ok_def)

text \<open>All links of a record that is retired are in it and in its bucket.\<close>

lemma call_in_record:
  assumes "tables_ok env start legs links" "service_inv env legs links start True p"
    and r: "r \<in> set (mc_data (pl_merge p))"
    and passed: "cr_startTime r + ms_max_call_time (pe_merge env) < rw_startTime (pl_linkReader p)"
  shows "call_links env links (cr_orig r) (cr_startTime r)
    \<subseteq># mset (cr_links r) + mset (sbucket.bucket (mc_links (pl_merge p)) (cr_orig r))"
proof -
  let ?st = "pl_merge p" and ?k = "cr_orig r" and ?s = "cr_startTime r"
  let ?of = "of_call env ?k ?s"
  have inv: "pipeline_inv env legs links start p" "queues_ok env links True p" "links_kept env legs links start p"
    using assms(2) by (simp_all add: service_inv_def)
  have ok: "merge_inv ?st" using pipeline_windows [OF inv(1)] by simp
  have known: "known legs r \<and> start < ?s"
    using assms(2) r by (simp add: service_inv_def pipe_records_def)
  then obtain row where row: "(?s, row) \<in> set legs" "originates row" "row_id row = ?k"
    by (auto simp: known_def record_id_def)
  have own: "\<forall>q \<in> set (mc_data ?st). own_links q" "\<forall>q \<in> set (mc_output ?st). own_links q"
    "\<forall>q \<in> set (pl_finished p). own_links q"
    using ok assms(2) by (auto simp: merge_inv_def record_own service_inv_def)
  have once: "distinct (map cr_orig (mc_data ?st))" "?k \<notin> cr_orig ` set (mc_output ?st)" "?k \<notin> cr_orig ` set (pl_finished p)"
    using origs_once [OF assms(1) inv(1)] r by auto
  have queue: "?of (mset (mc_queueLink ?st)) = {#}"
  proof -
    have "\<not> stamp_of (gmtime 0) (cll_link_start_time l) \<le> ?s + ms_max_call_time (pe_merge env)"
      if "l \<in> set (mc_queueLink ?st)" for l
    proof -
      from queued_late [OF inv(2) that] obtain t row where "(t, row) \<in> set links" "l = decode_link (pe_parse_json env) row"
        "rw_startTime (pl_linkReader p) < t" by (elim exE conjE)
      with tables_okD(2) [OF assms(1)] passed show ?thesis by auto
    qed
    then show ?thesis by (auto simp: of_call_def multiset_eq_iff count_eq_zero_iff)
  qed
  have "call_links env links ?k ?s \<subseteq># ?of (links_taken env links start p)"
    using call_links_taken [OF assms(1,2) row(1,2) _ passed] known row(3) by simp
  also have "?of (links_taken env links start p) = ?of (pipe_links p)"
    using inv(3) row known unfolding links_kept_def by fastforce
  also have "?of (pipe_links p) = ?of (mset (bucket_items (mc_links ?st))) + ?of (record_links (mc_data ?st))"
    by (simp add: pipe_links_def state_links_def queue of_call_others [OF own(2) once(2)] of_call_others [OF own(3) once(3)])
  also have "\<dots> \<subseteq># mset (sbucket.bucket (mc_links ?st) ?k) + mset (cr_links r)"
    using ok by (intro subset_mset.add_mono of_call_buckets of_call_records [OF own(1) once(1) r]) (simp add: merge_inv_def)
  finally show ?thesis by (simp add: ac_simps)
qed

lemma sweep_outputs_whole:
  assumes "tables_ok env start legs links" "service_inv env legs links start True p"
    and r: "r \<in> set (mc_output (pl_merge (sweep_records env g p)))"
  shows "whole env links r"
proof -
  let ?st = "pl_merge p" and ?T = "rw_startTime (pl_linkReader p)" and ?save = "recordSaveTime (pe_merge env) (pl_merge p)"
  obtain kept w where w: "sweep (pe_merge env) ?save (\<lambda>_. ?T) 0 (mc_data ?st) ?st = (kept, w)"
    "pl_merge (sweep_records env g p) = w\<lparr>mc_data := kept, mc_legs := drop_legs (pe_merge env) g ?save (\<lambda>_. ?T) (mc_legs w),
       mc_links := drop_links g ?save (mc_links w)\<rparr>"
    using pass_end_work [of "pe_merge env" ?st "\<lambda>_. ?T" g "\<lambda>_. ?T"] by (auto simp: sweep_records_def reader_getTime_def)
  have "distinct (map cr_orig (mc_data ?st))"
    using origs_once [OF assms(1)] assms(2) by (simp add: service_inv_def)
  from sweep_retired [OF w(1) this] obtain outs where outs: "mc_output w = mc_output ?st @ outs"
    "\<forall>r' \<in> set outs. \<exists>q \<in> set (mc_data ?st). retired_from (pe_merge env) ?save (\<lambda>_. ?T) (mc_links ?st) q r'" by blast
  show ?thesis
  proof (cases "r \<in> set (mc_output ?st)")
    case True
    with assms(2) show ?thesis by (simp add: service_inv_def)
  next
    case False
    with r outs w(2) obtain q where q: "q \<in> set (mc_data ?st)" "retired_from (pe_merge env) ?save (\<lambda>_. ?T) (mc_links ?st) q r"
      by auto
    then have "cr_startTime q + ms_max_call_time (pe_merge env) < ?T" by (auto simp: retired_from_def retires_def)
    from call_in_record [OF assms(1,2) q(1) this] q(2) show ?thesis
      by (simp add: whole_def retired_from_def record_id_eq)
  qed
qed

lemma enumerate_filter_set: "set (map snd (filter P (enumerate n xs))) \<subseteq> set xs"
proof -
  have "set (map snd (enumerate n xs)) = set xs" by simp
  then show ?thesis by (auto simp del: map_snd_enumerate)
qed

lemma sweep_record_ids:
  assumes "r \<in> pipe_records (sweep_records env g p)"
  shows "\<exists>q \<in> pipe_records p. record_id q = record_id r"
proof -
  let ?st = "pl_merge p" and ?T = "rw_startTime (pl_linkReader p)" and ?save = "recordSaveTime (pe_merge env) (pl_merge p)"
  obtain kept w where w: "sweep (pe_merge env) ?save (\<lambda>_. ?T) 0 (mc_data ?st) ?st = (kept, w)"
    "pl_merge (sweep_records env g p) = w\<lparr>mc_data := kept, mc_legs := drop_legs (pe_merge env) g ?save (\<lambda>_. ?T) (mc_legs w),
       mc_links := drop_links g ?save (mc_links w)\<rparr>"
    using pass_end_work [of "pe_merge env" ?st "\<lambda>_. ?T" g "\<lambda>_. ?T"] by (auto simp: sweep_records_def reader_getTime_def)
  let ?ids = "set (map record_id kept) \<union> set (map record_id (mc_output w))"
  have "?ids \<subseteq> set (map record_id (mc_data ?st)) \<union> set (map record_id (mc_output ?st))"
    unfolding conjunct1 [OF sweep_ids [OF w(1)]] conjunct2 [OF sweep_ids [OF w(1)]] set_append
    by (intro Un_least le_supI1 enumerate_filter_set le_supI2 subset_refl)
  moreover have "record_id r \<in> ?ids \<union> record_id ` set (pl_finished p)"
    using assms w(2) by (auto simp: pipe_records_def sweep_records_def)
  ultimately have "record_id r \<in> record_id ` pipe_records p" by (auto simp: pipe_records_def image_Un)
  then show ?thesis by auto
qed

lemma sweep_orig_set: "cr_orig ` pipe_records (sweep_records env g p) = cr_orig ` pipe_records p"
proof -
  let ?p = "sweep_records env g p"
  have "mset (map cr_orig (mc_data (pl_merge ?p))) + mset (map cr_orig (mc_output (pl_merge ?p)))
      = mset (map cr_orig (mc_data (pl_merge p))) + mset (map cr_orig (mc_output (pl_merge p)))"
    using pass_end_origs [of "pe_merge env" g _ _ "pl_merge p"] by (simp add: sweep_records_def state_origs_def pass_end_queues)
  then have "cr_orig ` (set (mc_data (pl_merge ?p)) \<union> set (mc_output (pl_merge ?p)))
      = cr_orig ` (set (mc_data (pl_merge p)) \<union> set (mc_output (pl_merge p)))"
    by (metis (no_types) image_Un list.set_map set_append set_mset_mset mset_append)
  then show ?thesis by (simp add: pipe_records_def image_Un sweep_records_def)
qed

lemma of_call_idem: "of_call env k s (of_call env k s M) = of_call env k s M"
  by (simp add: of_call_def filter_filter_mset)

lemma of_call_again: "of_call env k s M \<subseteq># N \<Longrightarrow> of_call env k s M \<subseteq># of_call env k s N"
  using of_call_mono [of "of_call env k s M" N env k s] by (simp add: of_call_idem)

lemma record_links_part: "r \<in> set rs \<Longrightarrow> mset (cr_links r) \<subseteq># record_links rs"
proof -
  assume "r \<in> set rs"
  then obtain ys zs where "rs = ys @ r # zs" by (meson split_list)
  then have "record_links rs = mset (cr_links r) + (record_links ys + record_links zs)" by simp
  then show ?thesis by (metis mset_subset_eq_add_left)
qed

lemma pipe_links_part:
  assumes "r \<in> set (mc_output (pl_merge p)) \<union> set (pl_finished p)"
  shows "mset (cr_links r) \<subseteq># pipe_links p"
proof -
  have "mset (cr_links r) \<subseteq># record_links (mc_output (pl_merge p) @ pl_finished p)"
    by (rule record_links_part) (use assms in simp)
  also have "\<dots> \<subseteq># pipe_links p"
  proof -
    have "pipe_links p = record_links (mc_output (pl_merge p) @ pl_finished p)
        + (mset (bucket_items (mc_links (pl_merge p))) + record_links (mc_data (pl_merge p)) + mset (mc_queueLink (pl_merge p)))"
      by (simp add: pipe_links_def state_links_def ac_simps)
    then show ?thesis by (metis mset_subset_eq_add_left)
  qed
  finally show ?thesis .
qed

lemma no_room:
  assumes "C \<subseteq># A" "A + B \<subseteq># C"
  shows "B = {#}"
  using subset_mset.order_trans [OF assms(2,1)] by simp

lemma record_places:
  "k \<in> cr_orig ` set (mc_data (pl_merge p)) \<or> (\<exists>r \<in> set (mc_output (pl_merge p)) \<union> set (pl_finished p). cr_orig r = k) \<or>
   k \<notin> cr_orig ` pipe_records p"
  by (auto simp: pipe_records_def)

text \<open>A bucket that is dropped as too old holds no link of a call that is still wanted.\<close>

lemma lost_links_unwanted:
  assumes "env_ok env legs links" "tables_ok env start legs links" "service_inv env legs links start True p"
    and leg: "(s, row) \<in> set legs" "originates row" "start < s"
    and lost: "pipe_links (sweep_records env g p) + mset (bucket_items lost) = pipe_links p"
      "\<forall>(k, ls) \<in> set lost. stamp_of g (cll_link_start_time (hd ls)) < recordSaveTime (pe_merge env) (pl_merge p) \<and>
         k \<notin> cr_orig ` set (mc_data (pl_merge (sweep_records env g p))) \<and> ls \<noteq> [] \<and> (\<forall>l \<in> set ls. cll_uniqueid_orig l = k)"
  shows "of_call env (row_id row) s (mset (bucket_items lost)) = {#}"
proof -
  let ?k = "row_id row" and ?p = "sweep_records env g p"
  have inv: "pipeline_inv env legs links start p" "links_kept env legs links start p" "legs_ahead env legs start p"
    using assms(3) by (simp_all add: service_inv_def)
  have table: "pipe_links p \<subseteq># link_items (pe_parse_json env) (mset (map snd links))"
  proof -
    have "window_taken links start (pl_linkReader p) (pl_linkRows p) \<subseteq># mset (map snd links)"
      by (rule taken_in_table)
    then have "link_items (pe_parse_json env) (window_taken links start (pl_linkReader p) (pl_linkRows p))
        \<subseteq># link_items (pe_parse_json env) (mset (map snd links))"
      unfolding link_items_def by (rule image_mset_subseteq_mono)
    with inv(1) show ?thesis unfolding pipeline_inv_def pipe_links_def by (blast intro: subset_mset.order_trans)
  qed
  consider (kept) "?k \<in> cr_orig ` set (mc_data (pl_merge ?p))"
    | (retired) r where "r \<in> set (mc_output (pl_merge ?p)) \<union> set (pl_finished ?p)" "cr_orig r = ?k"
    | (pending) "?k \<notin> cr_orig ` pipe_records ?p"
    using record_places [of ?k ?p] by metis
  then show ?thesis
  proof cases
    case kept
    show ?thesis
    proof (rule of_call_other, rule ballI, rule notI)
      fix l assume l: "l \<in># mset (bucket_items lost)" "cll_uniqueid_orig l = ?k"
      from l(1) obtain k ls where ls: "(k, ls) \<in> set lost" "l \<in> set ls" by (auto simp: bucket_items_def)
      from bspec [OF lost(2) ls(1)] have "k \<notin> cr_orig ` set (mc_data (pl_merge ?p))" "\<forall>l \<in> set ls. cll_uniqueid_orig l = k" by simp_all
      with kept l(2) ls(2) show False by simp
    qed
  next
    case (retired r)
    have whole: "whole env links r"
      using retired(1) sweep_outputs_whole [OF assms(2,3), of r g] assms(3) by (auto simp: sweep_records_def service_inv_def)
    have "r \<in> pipe_records ?p" using retired(1) by (auto simp: pipe_records_def)
    from sweep_record_ids [OF this] obtain q where "q \<in> pipe_records p" "record_id q = record_id r" by blast
    then obtain row' where "(cr_startTime r, row') \<in> set legs" "originates row'" "row_id row' = ?k"
      using assms(3) retired(2) by (auto simp: service_inv_def known_def record_id_def)
    with tables_one_leg [OF assms(2) _ leg(1) _ leg(2)] have s: "cr_startTime r = s" by blast
    have "mset (cr_links r) \<subseteq># pipe_links ?p" using retired(1) by (rule pipe_links_part)
    with whole have "call_links env links ?k s \<subseteq># pipe_links ?p"
      unfolding whole_def retired(2) s by (rule subset_mset.order_trans)
    then have "call_links env links ?k s \<subseteq># of_call env ?k s (pipe_links ?p)"
      unfolding call_links_all [OF assms(2)] by (rule of_call_again)
    moreover have "of_call env ?k s (pipe_links ?p) + of_call env ?k s (mset (bucket_items lost)) \<subseteq># call_links env links ?k s"
      unfolding call_links_all [OF assms(2)] of_call_plus [symmetric] lost(1) by (rule of_call_mono [OF table])
    ultimately show ?thesis by (rule no_room)
  next
    case pending
    have "?k \<notin> cr_orig ` pipe_records p" using pending by (simp add: sweep_orig_set)
    from pending_leg [OF assms(1-3) leg this] inv(3)
    have late: "recordSaveTime (pe_merge env) (pl_merge p) \<le> s"
      by (simp add: recordSaveTime_def legs_ahead_def)
    have "\<not> (cll_uniqueid_orig l = ?k)" if l: "l \<in> set (bucket_items lost)" for l
    proof
      assume k: "cll_uniqueid_orig l = ?k"
      from l obtain k ls where ls: "(k, ls) \<in> set lost" "l \<in> set ls" by (auto simp: bucket_items_def)
      from bspec [OF lost(2) ls(1)] late ls(2) k
      have old: "stamp_of g (cll_link_start_time (hd ls)) < s" "ls \<noteq> []" "cll_uniqueid_orig (hd ls) = ?k" by simp_all
      have "hd ls \<in># mset (bucket_items lost)" using ls(1) old(2) by (force simp: bucket_items_def)
      then have "hd ls \<in># link_items (pe_parse_json env) (mset (map snd links))"
        using lost(1) table by (metis mset_subset_eq_add_right mset_subset_eqD)
      then obtain t row' where "(t, row') \<in> set links" "hd ls = decode_link (pe_parse_json env) row'"
        by (auto simp: link_items_def)
      with old tables_okD(2) [OF assms(2) this(1), of g] tables_okD(3) [OF assms(2) leg(1) this(1) leg(2)] show False by simp
    qed
    then show ?thesis by (intro of_call_other) auto
  qed
qed

lemma sweep_service:
  assumes "env_ok env legs links" "tables_ok env start legs links" "service_inv env legs links start True p"
  shows "service_inv env legs links start False (sweep_records env g p)"
proof -
  let ?p = "sweep_records env g p" and ?st = "pl_merge p"
  have inv: "pipeline_inv env legs links start p" "legs_ahead env legs start p" "links_kept env legs links start p"
    using assms(3) by (simp_all add: service_inv_def)
  have ok: "merge_inv ?st" using pipeline_windows [OF inv(1)] by simp
  have eq: "pl_legReader ?p = pl_legReader p" "pl_linkReader ?p = pl_linkReader p" "pl_legRows ?p = pl_legRows p"
    "pl_linkRows ?p = pl_linkRows p" "pl_finished ?p = pl_finished p"
    "mc_maxLegTime (pl_merge ?p) = mc_maxLegTime ?st" "mc_queueLeg (pl_merge ?p) = mc_queueLeg ?st"
    "mc_queueLink (pl_merge ?p) = mc_queueLink ?st" "merge_inv (pl_merge ?p)" "state_origs (pl_merge ?p) = state_origs ?st"
    using ok by (simp_all add: sweep_records_def pass_end_queues pass_end_inv pass_end_origs)
  have "\<exists>lost. state_links (pl_merge ?p) + mset (bucket_items lost) = state_links ?st \<and>
    (\<forall>(k, ls) \<in> set lost. stamp_of g (cll_link_start_time (hd ls)) < recordSaveTime (pe_merge env) ?st \<and>
       k \<notin> cr_orig ` set (mc_data (pl_merge ?p)) \<and> ls \<noteq> [] \<and> (\<forall>l \<in> set ls. cll_uniqueid_orig l = k))"
    using pass_end_links [OF ok] by (simp add: sweep_records_def)
  then obtain lost where lost: "state_links (pl_merge ?p) + mset (bucket_items lost) = state_links ?st"
    "\<forall>(k, ls) \<in> set lost. stamp_of g (cll_link_start_time (hd ls)) < recordSaveTime (pe_merge env) ?st \<and>
       k \<notin> cr_orig ` set (mc_data (pl_merge ?p)) \<and> ls \<noteq> [] \<and> (\<forall>l \<in> set ls. cll_uniqueid_orig l = k)"
    by (elim exE conjE)
  have gone: "pipe_links ?p + mset (bucket_items lost) = pipe_links p"
    unfolding pipe_links_def eq(5) lost(1) [symmetric] by (simp add: ac_simps)
  have "pipeline_inv env legs links start ?p"
    using inv(1) gone eq unfolding pipeline_inv_def pipe_links_def [symmetric]
    by simp (metis mset_subset_eq_add_left subset_mset.order_trans)
  moreover have "legs_ahead env legs start ?p"
    by (rule legs_ahead_bound [OF inv(2)]) (simp_all add: eq leg_bound_def split: option.split)
  moreover have "windows_ok env legs links ?p" using assms(3) by (simp add: service_inv_def windows_ok_def eq)
  moreover have "queues_ok env links False ?p" using assms(3) by (simp add: service_inv_def queues_ok_def eq)
  moreover have "known legs r \<and> start < cr_startTime r" if r: "r \<in> pipe_records ?p" for r
  proof -
    from sweep_record_ids [OF r] obtain q where "q \<in> pipe_records p" "record_id q = record_id r" by blast
    moreover from this(1) have "known legs q \<and> start < cr_startTime q" using assms(3) by (simp add: service_inv_def)
    ultimately show ?thesis by (simp add: known_def record_id_def)
  qed
  moreover have "links_kept env legs links start ?p"
    unfolding links_kept_def
  proof (rule ballI, clarify)
    fix s row assume leg: "(s, row) \<in> set legs" "originates row" "start < s"
    have "of_call env (row_id row) s (links_taken env links start ?p) = of_call env (row_id row) s (pipe_links p)"
      using inv(3) leg by (auto simp: links_kept_def links_taken_def eq)
    then show "of_call env (row_id row) s (links_taken env links start ?p) = of_call env (row_id row) s (pipe_links ?p)"
      unfolding gone [symmetric] of_call_plus lost_links_unwanted [OF assms leg gone lost(2)] by simp
  qed
  moreover have "whole env links r" if "r \<in> set (mc_output (pl_merge ?p)) \<union> set (pl_finished ?p)" for r
    using that sweep_outputs_whole [OF assms(2,3)] assms(3) by (auto simp: service_inv_def eq)
  moreover have "own_links r" if "r \<in> set (pl_finished ?p)" for r
    using that assms(3) by (simp add: service_inv_def eq)
  ultimately show ?thesis unfolding service_inv_def by blast
qed

section \<open>The running service\<close>

lemma start_service:
  assumes "env_ok env legs links" "tables_ok env start legs links"
  shows "service_inv env legs links start False (pipeline_start env start)"
proof -
  let ?p = "pipeline_start env start"
  have inv: "pipeline_inv env legs links start ?p" by (rule pipeline_start_inv [OF assms(1)])
  have p: "mc_data (pl_merge ?p) = []" "mc_output (pl_merge ?p) = []" "mc_queueLeg (pl_merge ?p) = []"
    "mc_queueLink (pl_merge ?p) = []" "mc_links (pl_merge ?p) = []" "mc_maxLegTime (pl_merge ?p) = start"
    "pl_finished ?p = []" "pl_legRows ?p = None" "pl_linkRows ?p = None" "rw_startTime (pl_legReader ?p) = start"
    "rw_startTime (pl_linkReader ?p) = start"
    "rw_stopTime (pl_legReader ?p) = start + rs_read_threshold_second (pe_read env)"
    by (simp_all add: pipeline_start_def container_setStart_def Let_def setStart_def merge_init_def reader_setStart_def)
  have "links_taken env links start ?p = {#}" "pipe_links ?p = {#}"
    by (simp_all add: links_taken_def window_taken_def link_items_def pipe_links_def state_links_def p bucket_items_def)
  then have "links_kept env legs links start ?p" by (auto simp: links_kept_def)
  moreover have "legs_ahead env legs start ?p" "windows_ok env legs links ?p"
    using assms(2) by (simp_all add: legs_ahead_def leg_bound_def windows_ok_def tables_ok_def p)
  ultimately show ?thesis
    using inv by (simp add: service_inv_def queues_ok_def pipe_records_def p)
qed

lemma service_reachable_inv:
  assumes "env_ok env legs links" "tables_ok env start legs links" "service_reachable True env start s"
  shows "service_inv env legs links start (sv_sweeping s) (sv_pipe s)"
  using assms(3)
proof (induction rule: service_reachable.induct)
  case service_init
  show ?case using start_service [OF assms(1,2)] by (simp add: service_start_def)
next
  case (service_next s s')
  from service_next(2) service_next.IH show ?case
  proof cases
    case (takes_in g a0)
    with take_in_service [OF assms(2), of "sv_sweeping s" "sv_pipe s" g a0] service_next.IH show ?thesis by simp
  next
    case (sweeps g)
    with sweep_service [OF assms(1,2), of "sv_pipe s" g] service_next.IH show ?thesis by simp
  qed (simp_all add: leg_query_service leg_deliver_service leg_advance_service link_query_service link_deliver_service
      link_advance_service serve_service assms(1,2))
qed

section \<open>A run\<close>

text \<open>
  A call \<open>a\<close> with a link that starts twenty seconds after it and leads to the leg \<open>b\<close>, and the leg \<open>c\<close> with which the
  save time passes the start of the call.
\<close>

definition ex_a :: db_row where
  "ex_a c = (if c = ''orig'' then ''t'' else if c = ''uniqueid'' then ''a''
     else if c = ''start_time'' then ''1970-01-01 00:02:10'' else [])"

definition ex_b :: db_row where
  "ex_b c = (if c = ''uniqueid'' then ''b'' else if c = ''start_time'' then ''1970-01-01 00:02:35'' else [])"

definition ex_c :: db_row where
  "ex_c c = (if c = ''uniqueid'' then ''c'' else if c = ''start_time'' then ''1970-01-01 00:03:20'' else [])"

definition ex_k :: db_row where
  "ex_k c = (if c = ''uniqueid_orig'' then ''a'' else if c = ''uniqueid_term'' then ''b''
     else if c = ''link_start_time'' then ''1970-01-01 00:02:30'' else [])"

definition ex_legs :: "(int \<times> db_row) list" where
  "ex_legs = [(130, ex_a), (155, ex_b), (200, ex_c)]"

definition ex_links :: "(int \<times> db_row) list" where
  "ex_links = [(150, ex_k)]"

definition between :: "(int \<times> db_row) list \<Rightarrow> int \<Rightarrow> int \<Rightarrow> db_row list" where
  "between tbl a b = map snd (filter (\<lambda>(t, row). a < t \<and> t \<le> b) tbl)"

definition ex_env :: "unit pipeline_env" where
  "ex_env =
     \<lparr>pe_read = \<lparr>rs_read_threshold_second = 60, rs_read_waiting_second = 5, rs_max_call_time = 60\<rparr>,
      pe_merge = \<lparr>ms_max_call_time = 60, ms_max_queue_size = 10\<rparr>,
      pe_leg_exists = (\<lambda>_ _. True), pe_link_exists = (\<lambda>_ _. True),
      pe_leg_rows = between ex_legs, pe_link_rows = between ex_links,
      pe_parse_json = (\<lambda>_. ()), pe_sort_legs = sort_key cl_start_time, pe_sort_links = sort_key cll_id\<rparr>"

lemma ex_env_ok: "env_ok ex_env ex_legs ex_links"
  using legs_by_start.std_sort_axioms links_by_id.std_sort_axioms
  by (simp add: env_ok_def ex_env_def settings_ok_def stamped_def between_def)

lemma ex_stamps:
  "parseDateTime g ''1970-01-01 00:02:10'' = 130"
  "parseDateTime g ''1970-01-01 00:02:30'' = 150"
  "parseDateTime g ''1970-01-01 00:02:35'' = 155"
  "parseDateTime g ''1970-01-01 00:03:20'' = 200"
  by code_simp+

lemma ex_fields:
  "cl_uniqueid (decode_leg ex_a) = ''a''" "cl_orig (decode_leg ex_a)" "stamp_of g (cl_start_time (decode_leg ex_a)) = 130"
  "cl_uniqueid (decode_leg ex_b) = ''b''" "\<not> cl_orig (decode_leg ex_b)" "stamp_of g (cl_start_time (decode_leg ex_b)) = 155"
  "cl_uniqueid (decode_leg ex_c) = ''c''" "\<not> cl_orig (decode_leg ex_c)" "stamp_of g (cl_start_time (decode_leg ex_c)) = 200"
  by code_simp+

lemma ex_link_fields:
  "cll_uniqueid_orig (decode_link f ex_k) = ''a''" "cll_uniqueid_term (decode_link f ex_k) = ''b''"
  "stamp_of g (cll_link_start_time (decode_link f ex_k)) = 150"
  by code_simp+

lemma ex_tables_ok: "tables_ok ex_env 100 ex_legs ex_links"
  by (simp add: tables_ok_def ex_legs_def ex_links_def ex_fields ex_link_fields originates_def row_id_def ex_env_def)

text \<open>The readers take two windows of the legs, three of the links.\<close>

definition ex_read_legs :: "unit pipeline \<Rightarrow> unit pipeline" where
  "ex_read_legs = leg_deliver \<circ> leg_query ex_env 1000 1000 \<circ> leg_advance ex_env 1000 \<circ> leg_deliver \<circ> leg_deliver
     \<circ> leg_query ex_env 1000 1000"

definition ex_read_links :: "unit pipeline \<Rightarrow> unit pipeline" where
  "ex_read_links = link_advance ex_env 1000 \<circ> link_query ex_env 1000 1000 \<circ> link_advance ex_env 1000
     \<circ> link_deliver ex_env (\<lambda>_. False) (\<lambda>_. False) \<circ> link_query ex_env 1000 1000"

lemmas ex_reading = leg_deliver_def leg_query_def leg_advance_def link_deliver_def link_query_def link_advance_def
  read_ready_def advance_window_def read_leg_def read_link_def Let_def ex_env_def between_def ex_legs_def ex_links_def

lemma ex_legs_read:
  "pl_merge (ex_read_legs (pipeline_start ex_env 100)) =
     (setStart 100 (merge_init 0))\<lparr>mc_queueLeg := [decode_leg ex_a, decode_leg ex_b, decode_leg ex_c]\<rparr>"
  "pl_linkReader (ex_read_legs (pipeline_start ex_env 100)) = link_reader_new\<lparr>rw_startTime := 100, rw_stopTime := 160\<rparr>"
  "pl_linkRows (ex_read_legs (pipeline_start ex_env 100)) = None"
  "pl_finished (ex_read_legs (pipeline_start ex_env 100)) = []"
  by (simp_all add: ex_read_legs_def ex_reading pipeline_start_def container_setStart_def setStart_def merge_init_def
      reader_setStart_def leg_reader_new_def link_reader_new_def)

lemma ex_links_read:
  assumes "pl_linkReader p = link_reader_new\<lparr>rw_startTime := 100, rw_stopTime := 160\<rparr>" "pl_linkRows p = None"
    "\<not> mc_link_paused (pl_merge p)"
  shows "pl_merge (ex_read_links p) = (pl_merge p)\<lparr>mc_queueLink := mc_queueLink (pl_merge p) @ [decode_link (\<lambda>_. ()) ex_k]\<rparr>"
    "reader_getTime (pl_linkReader (ex_read_links p)) = 220"
    "pl_finished (ex_read_links p) = pl_finished p"
  using assms by (simp_all add: ex_read_links_def ex_reading link_reader_new_def reader_getTime_def)

lemma query_merge [simp]: "pl_merge (leg_query env now1 now2 p) = pl_merge p" "pl_merge (link_query env now1 now2 p) = pl_merge p"
  by (simp_all add: leg_query_def link_query_def Let_def)

lemma advance_merge [simp]: "pl_merge (leg_advance env now3 p) = pl_merge p" "pl_merge (link_advance env now3 p) = pl_merge p"
  by (simp_all add: leg_advance_def link_advance_def)

lemma reach_query_deliver:
  assumes "service_reachable calm env start s"
  shows "length (mc_queueLeg (pl_merge (sv_pipe s))) < ms_max_queue_size (pe_merge env) \<Longrightarrow>
      service_reachable calm env start (on_pipe (\<lambda>p. leg_deliver (leg_query env now1 now2 p)) s)"
    "length (mc_queueLink (pl_merge (sv_pipe s))) < ms_max_queue_size (pe_merge env) \<Longrightarrow>
      service_reachable calm env start (on_pipe (\<lambda>p. link_deliver env oo ot (link_query env now1 now2 p)) s)"
  using service_next [OF service_next [OF assms leg_queries] leg_delivers, of now1 now2]
    service_next [OF service_next [OF assms link_queries] link_delivers, of now1 now2] by simp_all

lemma reach_legs: "service_reachable calm ex_env 100 (on_pipe ex_read_legs (service_start ex_env 100))"
proof -
  let ?s = "service_start ex_env 100" and ?q = "\<lambda>p. length (mc_queueLeg (pl_merge (p :: unit pipeline)))"
  let ?one = "\<lambda>p. leg_deliver (leg_query ex_env 1000 1000 p)"
  have max: "ms_max_queue_size (pe_merge ex_env) = 10" by (simp add: ex_env_def)
  have start: "?q (sv_pipe ?s) = 0"
    by (simp add: service_start_def pipeline_start_def container_setStart_def setStart_def merge_init_def Let_def)
  have short: "?q (leg_deliver p) \<le> Suc (?q p)" for p
    by (cases rule: leg_deliver_cases [of p]) simp_all
  have one: "service_reachable calm ex_env 100 (on_pipe ?one ?s)" "?q (?one (sv_pipe ?s)) \<le> 1"
    using short [of "leg_query ex_env 1000 1000 (sv_pipe ?s)"] start
    by (auto intro!: reach_query_deliver(1) [OF service_init] simp: max)
  have two: "service_reachable calm ex_env 100 (on_pipe (\<lambda>p. leg_deliver (?one p)) ?s)" "?q (leg_deliver (?one (sv_pipe ?s))) \<le> 2"
    using service_next [OF one(1) leg_delivers] one(2) short [of "?one (sv_pipe ?s)"] by (simp_all add: max)
  have "service_reachable calm ex_env 100 (on_pipe (\<lambda>p. leg_advance ex_env 1000 (leg_deliver (?one p))) ?s)"
    using service_next [OF two(1) leg_advances, of 1000] by simp
  from reach_query_deliver(1) [OF this, of 1000 1000] two(2) show ?thesis by (simp add: ex_read_legs_def max)
qed

lemma reach_links:
  assumes "service_reachable calm ex_env 100 s" "\<not> (calm \<and> sv_sweeping s)" "mc_queueLink (pl_merge (sv_pipe s)) = []"
  shows "service_reachable calm ex_env 100 (on_pipe ex_read_links s)"
proof -
  let ?d = "\<lambda>p. link_deliver ex_env (\<lambda>_. False) (\<lambda>_. False) (link_query ex_env 1000 1000 p)"
  have "service_reachable calm ex_env 100 (on_pipe ?d s)"
    by (rule reach_query_deliver(2) [OF assms(1)]) (simp add: assms(3) ex_env_def)
  from service_next [OF this link_advances, of 1000] assms(2)
  have "service_reachable calm ex_env 100 (on_pipe (\<lambda>p. link_advance ex_env 1000 (?d p)) s)" by simp
  from service_next [OF service_next [OF this link_queries] link_advances, of 1000 1000 1000] assms(2)
  show ?thesis by (simp add: ex_read_links_def)
qed

text \<open>What one pass makes of the two legs, with or without the link.\<close>

lemma ex_calm_pass:
  "mc_output (pass_end (pe_merge ex_env) g (\<lambda>_. 220) (\<lambda>_. 220) (pass_begin (pe_merge ex_env) g a0
     ((setStart 100 (merge_init 0))\<lparr>mc_queueLeg := [decode_leg ex_a, decode_leg ex_b, decode_leg ex_c], mc_queueLink := [decode_link f ex_k]\<rparr>)))
   = [\<lparr>cr_orig = ''a'', cr_startTime = 130, cr_legs = [(''a'', decode_leg ex_a), (''b'', decode_leg ex_b)],
       cr_links = [decode_link f ex_k], cr_a = a0, cr_b = []\<rparr>]"
  by (simp add: sm_insert_def sm_erase_def pass_begin_def pass_end_def merge_intake_def take_leg_def take_link_def control_readers_def ex_env_def
      setStart_def merge_init_def Let_def recordSaveTime_def ex_fields ex_link_fields new_call_record_def sm_push_def
      attach_links_def attach_legs_def retires_def)

lemma ex_hasty_pass:
  "mc_output (pass_end (pe_merge ex_env) g (\<lambda>_. 220) (\<lambda>_. 220) ((pass_begin (pe_merge ex_env) g a0
     ((setStart 100 (merge_init 0))\<lparr>mc_queueLeg := [decode_leg ex_a, decode_leg ex_b, decode_leg ex_c]\<rparr>))\<lparr>mc_queueLink := [decode_link f ex_k]\<rparr>))
   = [\<lparr>cr_orig = ''a'', cr_startTime = 130, cr_legs = [(''a'', decode_leg ex_a)],
       cr_links = [], cr_a = a0, cr_b = []\<rparr>]"
  by (simp add: sm_insert_def sm_erase_def pass_begin_def pass_end_def merge_intake_def take_leg_def take_link_def control_readers_def ex_env_def
      setStart_def merge_init_def Let_def recordSaveTime_def ex_fields ex_link_fields new_call_record_def sm_push_def
      attach_links_def attach_legs_def retires_def)
text \<open>The record the consumer finishes when the links are read before the legs are taken in, and when they are read after that.\<close>

lemma ex_queues_read:
  "\<not> merge_idle (pe_merge ex_env) (pl_merge (ex_read_legs (pipeline_start ex_env 100)))"
  "\<not> mc_link_paused (pl_merge (ex_read_legs (pipeline_start ex_env 100)))"
  "mc_queueLink (pl_merge (ex_read_legs (pipeline_start ex_env 100))) = []"
  unfolding ex_legs_read by (simp_all add: setStart_def merge_init_def merge_idle_def) (simp add: ex_env_def)

lemma ex_finish:
  assumes "record_ok (r :: unit call_record)"
  shows "mset (cr_links (finish_record (pe_sort_legs ex_env) (pe_sort_links ex_env) r)) = mset (cr_links r)"
    "cr_orig (finish_record (pe_sort_legs ex_env) (pe_sort_links ex_env) r) = cr_orig r"
    "cr_startTime (finish_record (pe_sort_legs ex_env) (pe_sort_links ex_env) r) = cr_startTime r"
  using finish_record_keeps(2) [OF _ assms, of "pe_sort_links ex_env" "pe_sort_legs ex_env"] ex_env_ok
    finish_record_id [of "pe_sort_legs ex_env" "pe_sort_links ex_env" r]
  by (simp_all add: env_ok_def record_id_eq)

lemma ex_serve:
  assumes "service_reachable calm ex_env 100 s" "\<not> sv_sweeping s" "mc_output (pl_merge (sv_pipe s)) = [r]" "record_ok r"
  shows "\<exists>s f. service_reachable calm ex_env 100 s \<and> f \<in> set (pl_finished (sv_pipe s)) \<and>
    mset (cr_links f) = mset (cr_links r) \<and> cr_orig f = cr_orig r \<and> cr_startTime f = cr_startTime r"
proof -
  let ?f = "finish_record (pe_sort_legs ex_env) (pe_sort_links ex_env) r"
  have "?f \<in> set (pl_finished (serve ex_env 1 (sv_pipe s)))" using assms(3) by (simp add: serve_def)
  then show ?thesis
    using service_next [OF assms(1) serves, of 1] ex_finish [OF assms(4)]
    by (intro exI [of _ "on_pipe (serve ex_env 1) s"] exI [of _ ?f]) simp
qed

lemma ex_calm_run:
  "\<exists>s f. service_reachable True ex_env 100 s \<and> f \<in> set (pl_finished (sv_pipe s)) \<and>
    mset (cr_links f) = {#decode_link (\<lambda>_. ()) ex_k#} \<and> cr_orig f = ''a'' \<and> cr_startTime f = 130"
proof -
  let ?s = "service_start ex_env 100"
  let ?legs = "on_pipe ex_read_legs ?s" and ?a0 = call_leg_default
  let ?read = "on_pipe ex_read_links ?legs"
  let ?taken = "on_pipe (take_in ex_env (gmtime 0) ?a0) ?read\<lparr>sv_sweeping := True\<rparr>"
  let ?swept = "on_pipe (sweep_records ex_env (gmtime 0)) ?taken\<lparr>sv_sweeping := False\<rparr>"
  have calm: "sv_sweeping ?legs = False" "sv_pipe ?legs = ex_read_legs (pipeline_start ex_env 100)"
    by (simp_all add: service_start_def)
  have read: "service_reachable True ex_env 100 ?read"
    by (rule reach_links [OF reach_legs]) (use calm ex_queues_read in simp_all)
  have merge: "pl_merge (sv_pipe ?read) = (setStart 100 (merge_init 0))\<lparr>mc_queueLeg := [decode_leg ex_a, decode_leg ex_b, decode_leg ex_c],
      mc_queueLink := [decode_link (\<lambda>_. ()) ex_k]\<rparr>" "reader_getTime (pl_linkReader (sv_pipe ?read)) = 220"
    using ex_links_read [of "sv_pipe ?legs"] calm ex_legs_read ex_queues_read by simp_all
  have "\<not> merge_idle (pe_merge ex_env) (pl_merge (sv_pipe ?read))" unfolding merge by (simp add: merge_idle_def ex_env_def)
  from service_next [OF read takes_in, OF _ this] calm have "service_reachable True ex_env 100 ?taken" by simp
  from service_next [OF this sweeps] have reach: "service_reachable True ex_env 100 ?swept" by simp
  have out: "mc_output (pl_merge (sv_pipe ?swept)) = [\<lparr>cr_orig = ''a'', cr_startTime = 130,
      cr_legs = [(''a'', decode_leg ex_a), (''b'', decode_leg ex_b)], cr_links = [decode_link (\<lambda>_. ()) ex_k], cr_a = ?a0, cr_b = []\<rparr>]"
    using merge ex_calm_pass by (simp add: sweep_records_def take_in_def)
  show ?thesis
    using ex_serve [OF reach _ out] by (simp add: record_ok_def ex_fields ex_link_fields)
qed

lemma ex_hasty_run:
  "\<exists>s f. service_reachable False ex_env 100 s \<and> f \<in> set (pl_finished (sv_pipe s)) \<and>
    mset (cr_links f) = {#} \<and> cr_orig f = ''a'' \<and> cr_startTime f = 130"
proof -
  let ?s = "service_start ex_env 100"
  let ?legs = "on_pipe ex_read_legs ?s" and ?a0 = call_leg_default
  let ?taken = "on_pipe (take_in ex_env (gmtime 0) ?a0) ?legs\<lparr>sv_sweeping := True\<rparr>"
  let ?read = "on_pipe ex_read_links ?taken"
  let ?swept = "on_pipe (sweep_records ex_env (gmtime 0)) ?read\<lparr>sv_sweeping := False\<rparr>"
  have calm: "sv_sweeping ?legs = False" "sv_pipe ?legs = ex_read_legs (pipeline_start ex_env 100)"
    by (simp_all add: service_start_def)
  have taken: "service_reachable False ex_env 100 ?taken"
    using service_next [OF reach_legs takes_in, of False] calm ex_queues_read(1) by simp
  have queue: "mc_queueLink (pl_merge (sv_pipe ?taken)) = []" "\<not> mc_link_paused (pl_merge (sv_pipe ?taken))"
    using calm ex_queues_read(3) ex_legs_read(1)
    by (simp_all add: take_in_def pass_begin_keeps pass_begin_def control_readers_def setStart_def merge_init_def
        merge_intake_def take_leg_def ex_env_def ex_fields Let_def)
  have merge: "pl_merge (sv_pipe ?taken) = pass_begin (pe_merge ex_env) (gmtime 0) ?a0
      ((setStart 100 (merge_init 0))\<lparr>mc_queueLeg := [decode_leg ex_a, decode_leg ex_b, decode_leg ex_c]\<rparr>)"
    "pl_linkReader (sv_pipe ?taken) = link_reader_new\<lparr>rw_startTime := 100, rw_stopTime := 160\<rparr>" "pl_linkRows (sv_pipe ?taken) = None"
    using calm ex_legs_read by (simp_all add: take_in_def)
  have read: "service_reachable False ex_env 100 ?read"
    by (rule reach_links [OF taken]) (use queue in simp_all)
  from service_next [OF read sweeps] have reach: "service_reachable False ex_env 100 ?swept" by simp
  have out: "mc_output (pl_merge (sv_pipe ?swept)) = [\<lparr>cr_orig = ''a'', cr_startTime = 130,
      cr_legs = [(''a'', decode_leg ex_a)], cr_links = [], cr_a = ?a0, cr_b = []\<rparr>]"
    using ex_links_read [OF merge(2,3) queue(2)] ex_hasty_pass merge(1) queue(1) by (simp add: sweep_records_def)
  show ?thesis
    using ex_serve [OF reach _ out] by (simp add: record_ok_def ex_fields)
qed

section \<open>Properties\<close>




end
