(* ===== verification/Whole_Legs.thy ===== *)
theory Whole_Legs
  imports Whole_Calls
begin

text \<open>
  Whether a finished record has the legs its links lead to. The rows of a query come in the order of
  their ids; here their times are assumed to grow with them.
\<close>

section \<open>The tables\<close>

definition leg_stamp :: "call_leg \<Rightarrow> int" where
  "leg_stamp l = stamp_of (gmtime 0) (cl_start_time l)"

definition leads :: "'j pipeline_env \<Rightarrow> (int \<times> db_row) list \<Rightarrow> string \<Rightarrow> string \<Rightarrow> bool" where
  "leads env links a k \<longleftrightarrow> (\<exists>(t, row) \<in> set links.
     cll_uniqueid_orig (decode_link (pe_parse_json env) row) = a \<and> cll_uniqueid_term (decode_link (pe_parse_json env) row) = k)"

text \<open>
  The rows of a query are in the order of their times, a leg has an id of its own, links lead to a leg from
  one call only, and such a leg starts after its call and within the longest call.
\<close>

definition legs_in_order :: "'j pipeline_env \<Rightarrow> (int \<times> db_row) list \<Rightarrow> (int \<times> db_row) list \<Rightarrow> bool" where
  "legs_in_order env legs links \<longleftrightarrow>
     (\<forall>a b. sorted (map (leg_stamp \<circ> decode_leg) (pe_leg_rows env a b))) \<and>
     distinct (map row_id (map snd legs)) \<and>
     (\<forall>a a' k. leads env links a k \<longrightarrow> leads env links a' k \<longrightarrow> a = a') \<and>
     (\<forall>(s, call) \<in> set legs. \<forall>(t, leg) \<in> set legs. originates call \<and> \<not> originates leg \<and>
        leads env links (row_id call) (row_id leg) \<longrightarrow> s \<le> t \<and> t \<le> s + ms_max_call_time (pe_merge env))"

lemma one_leg:
  assumes "legs_in_order env legs links" "(t, leg) \<in> set legs" "(t', leg') \<in> set legs" "row_id leg = row_id leg'"
  shows "leg = leg'"
proof -
  have "leg \<in> set (map snd legs)" "leg' \<in> set (map snd legs)" using assms(2,3) by force+
  with assms(1,4) show ?thesis by (auto simp: legs_in_order_def distinct_map inj_on_def)
qed

section \<open>The sweep and the legs\<close>

text \<open>The terminating legs of the table under their ids; no id has two.\<close>

definition known_legs :: "(int \<times> db_row) list \<Rightarrow> (string \<times> call_leg) set" where
  "known_legs legs = {(row_id row, decode_leg row) |t row. (t, row) \<in> set legs \<and> \<not> originates row}"

lemma known_legs_once: "legs_in_order env legs links \<Longrightarrow> single_valued (known_legs legs)"
  using one_leg by (fastforce simp: known_legs_def single_valued_def)

abbreviation legs_of :: "'j call_record \<Rightarrow> (string \<times> call_leg) set" where
  "legs_of r \<equiv> set (cr_legs r)"

definition reaches :: "'j call_record \<Rightarrow> string \<Rightarrow> bool" where
  "reaches r k \<longleftrightarrow> (\<exists>l \<in> set (cr_links r). cll_uniqueid_term l = k)"

lemma sm_set_keeps: "x \<in> set m \<Longrightarrow> fst x \<noteq> k \<or> x = (k, v) \<Longrightarrow> x \<in> set (sm_set k v m)"
  by (induction k v m rule: sm_set.induct) auto

lemma sm_set_in: "(k, v) \<in> set (sm_set k v m)"
  by (induction k v m rule: sm_set.induct) auto

lemma sm_set_known:
  assumes "single_valued L" "(k, v) \<in> L"
  shows "set m \<inter> L \<subseteq> set (sm_set k v m)"
proof
  fix x assume x: "x \<in> set m \<inter> L"
  then have "fst x = k \<Longrightarrow> x = (k, v)" using assms by (cases x) (auto simp: single_valued_def)
  with x show "x \<in> set (sm_set k v m)" by (intro sm_set_keeps) auto
qed

text \<open>
  A waiting leg stays or goes to the record, which loses none of the table, and what the record reaches does not
  stay.
\<close>

lemma attach_leg_loop_moves:
  "attach_leg_loop ls own legs = (own', legs') \<Longrightarrow> legs_ok legs \<Longrightarrow> set legs \<subseteq> L \<Longrightarrow> single_valued L \<Longrightarrow>
   set own \<inter> L \<subseteq> set own' \<and> set legs' \<subseteq> set legs \<and> legs_ok legs' \<and>
   (\<forall>x \<in> set legs. x \<in> set legs' \<or> x \<in> set own' \<and> (\<exists>l \<in> set ls. cll_uniqueid_term l = fst x))"
proof (induction ls own legs arbitrary: own' legs' rule: attach_leg_loop.induct)
  case (1 own legs)
  then show ?case by simp
next
  case (2 link ls own legs)
  show ?case
  proof (cases "map_of legs (cll_uniqueid_term link)")
    case None
    have "set own \<inter> L \<subseteq> set own' \<and> set legs' \<subseteq> set legs \<and> legs_ok legs' \<and>
      (\<forall>x \<in> set legs. x \<in> set legs' \<or> x \<in> set own' \<and> (\<exists>l \<in> set ls. cll_uniqueid_term l = fst x))"
      using 2(1) [OF None] 2(3-6) None by simp
    then show ?thesis by (meson list.set_intros(2))
  next
    case (Some clt)
    let ?k = "cll_uniqueid_term link"
    have clt: "(?k, clt) \<in> L" "cl_uniqueid clt = ?k" using Some 2(4,5) by (auto simp: legs_ok_def dest: map_of_SomeD)
    have rest: "set (sm_erase ?k legs) = {x \<in> set legs. fst x \<noteq> ?k}" by (auto simp: sm_erase_def)
    have ok: "legs_ok (sm_erase ?k legs)" "set (sm_erase ?k legs) \<subseteq> L" using 2(4,5) rest by (auto simp: sm_erase_def)
    from 2(2) [OF Some _ ok 2(6)] 2(3) Some have ih: "set (sm_set ?k clt own) \<inter> L \<subseteq> set own'"
      "set legs' \<subseteq> set (sm_erase ?k legs)" "legs_ok legs'"
      "\<forall>x \<in> set (sm_erase ?k legs). x \<in> set legs' \<or> x \<in> set own' \<and> (\<exists>l \<in> set ls. cll_uniqueid_term l = fst x)"
      by (simp_all add: clt(2))
    have "set own \<inter> L \<subseteq> set own'" using sm_set_known [OF 2(6) clt(1), of own] ih(1) by auto
    moreover have "x \<in> set legs' \<or> x \<in> set own' \<and> (\<exists>l \<in> set (link # ls). cll_uniqueid_term l = fst x)" if x: "x \<in> set legs" for x
    proof (cases "fst x = ?k")
      case True
      have "x \<in> L" using x 2(5) by (rule set_rev_mp)
      with True clt(1) 2(6) have "x = (?k, clt)" by (metis prod.collapse single_valuedD)
      with sm_set_in [of ?k clt own] clt(1) ih(1) show ?thesis by auto
    next
      case False
      with x have "x \<in> set (sm_erase ?k legs)" by (simp add: rest)
      from bspec [OF ih(4) this] show ?thesis by auto
    qed
    moreover have "set legs' \<subseteq> set legs" using ih(2) rest by auto
    ultimately show ?thesis using ih(3) by blast
  qed
qed

lemma attach_legs_moves:
  assumes "attach_legs r legs = (r', legs')" "legs_ok legs" "set legs \<subseteq> L" "single_valued L"
  shows "legs_of r \<inter> L \<subseteq> legs_of r'" "set legs' \<subseteq> set legs" "legs_ok legs'"
    "x \<in> set legs \<Longrightarrow> x \<in> set legs' \<or> x \<in> legs_of r' \<and> reaches r' (fst x)"
    "reaches r' k \<Longrightarrow> k \<notin> fst ` set legs'"
proof -
  obtain own where own: "attach_leg_loop (cr_links r) (cr_legs r) legs = (own, legs')" "r' = r\<lparr>cr_legs := own\<rparr>"
    using assms(1) by (auto simp: attach_legs_def split: prod.splits)
  show "legs_of r \<inter> L \<subseteq> legs_of r'" "set legs' \<subseteq> set legs" "legs_ok legs'"
    "x \<in> set legs \<Longrightarrow> x \<in> set legs' \<or> x \<in> legs_of r' \<and> reaches r' (fst x)"
    using attach_leg_loop_moves [OF own(1) assms(2-4)] own(2) by (auto simp: reaches_def)
  show "reaches r' k \<Longrightarrow> k \<notin> fst ` set legs'"
    using attach_legs_erases [OF assms(1)] by (auto simp: reaches_def map_of_eq_None_iff)
qed

lemma swept_more:
  assumes "attach_legs r legs = (r', legs')" "legs_ok legs" "set legs \<subseteq> L" "single_valued L" "set left \<subseteq> set legs'"
    "\<forall>x \<in> set legs'. x \<in> set left \<or> (\<exists>r \<in> set swept. x \<in> legs_of r \<and> reaches r (fst x))"
    "\<forall>r \<in> set swept. \<forall>k. reaches r k \<longrightarrow> k \<notin> fst ` set left"
  shows "set left \<subseteq> set legs"
    "\<forall>x \<in> set legs. x \<in> set left \<or> (\<exists>r \<in> set (r' # swept). x \<in> legs_of r \<and> reaches r (fst x))"
    "\<forall>r \<in> set (r' # swept). \<forall>k. reaches r k \<longrightarrow> k \<notin> fst ` set left"
proof -
  note moves = attach_legs_moves [OF assms(1-4)]
  show "set left \<subseteq> set legs" using moves(2) assms(5) by simp
  show "\<forall>x \<in> set legs. x \<in> set left \<or> (\<exists>r \<in> set (r' # swept). x \<in> legs_of r \<and> reaches r (fst x))"
  proof
    fix x assume "x \<in> set legs"
    from moves(4) [OF this] assms(6) show "x \<in> set left \<or> (\<exists>r \<in> set (r' # swept). x \<in> legs_of r \<and> reaches r (fst x))"
      by (metis list.set_intros)
  qed
  have "fst ` set left \<subseteq> fst ` set legs'" using assms(5) by (rule image_mono)
  with moves(5) assms(7) show "\<forall>r \<in> set (r' # swept). \<forall>k. reaches r k \<longrightarrow> k \<notin> fst ` set left"
    by (simp del: image_subset_iff) blast
qed

text \<open>
  The same for the sweep: \<open>swept\<close> are all records after it, kept or retired, each with the id and the legs
  of one before it.
\<close>

lemma sweep_legs:
  "sweep cfg save lt n rs st = (kept, st') \<Longrightarrow> legs_ok (mc_legs st) \<Longrightarrow> set (mc_legs st) \<subseteq> L \<Longrightarrow> single_valued L \<Longrightarrow>
   \<exists>swept outs. mc_output st' = mc_output st @ outs \<and> set swept = set kept \<union> set outs \<and>
     list_all2 (\<lambda>r r'. record_id r' = record_id r \<and> legs_of r \<inter> L \<subseteq> legs_of r') rs swept \<and>
     set (mc_legs st') \<subseteq> set (mc_legs st) \<and>
     (\<forall>x \<in> set (mc_legs st). x \<in> set (mc_legs st') \<or> (\<exists>r \<in> set swept. x \<in> legs_of r \<and> reaches r (fst x))) \<and>
     (\<forall>r \<in> set swept. \<forall>k. reaches r k \<longrightarrow> k \<notin> fst ` set (mc_legs st'))"
proof (induction rs arbitrary: n st kept)
  case Nil
  then show ?case by simp
next
  case (Cons r rs)
  note before = Cons.prems(2-4)
  have one: "record_id r2 = record_id r \<and> legs_of r \<inter> L \<subseteq> legs_of r2"
    if "attach_links r (mc_links st) = (r1, links)" "attach_legs r1 (mc_legs st) = (r2, legs)" for r1 links r2 legs
  proof -
    have "cr_legs r1 = cr_legs r" using that(1) by (auto simp: attach_links_cases)
    then show ?thesis
      using attach_keeps(1) [OF that(1)] attach_keeps(2) [OF that(2)] attach_legs_moves(1) [OF that(2) before]
      by (simp add: record_id_def)
  qed
  from Cons.prems(1) show ?case
  proof (cases rule: sweep_ConsE)
    case (retired r1 links r2 legs)
    note moves = attach_legs_moves [OF retired(2) before]
    have "set legs \<subseteq> L" using moves(2) before(2) by simp
    then obtain swept outs where ih: "mc_output st' = mc_output st @ [r2] @ outs" "set swept = set kept \<union> set outs"
      "list_all2 (\<lambda>r r'. record_id r' = record_id r \<and> legs_of r \<inter> L \<subseteq> legs_of r') rs swept"
      "set (mc_legs st') \<subseteq> set legs"
      "\<forall>x \<in> set legs. x \<in> set (mc_legs st') \<or> (\<exists>r \<in> set swept. x \<in> legs_of r \<and> reaches r (fst x))"
      "\<forall>r \<in> set swept. \<forall>k. reaches r k \<longrightarrow> k \<notin> fst ` set (mc_legs st')"
      using Cons.IH [OF retired(4)] moves(3) before(3) by auto
    note more = swept_more [OF retired(2) before ih(4-6)]
    show ?thesis
      using ih(1-3) one [OF retired(1,2)] more by (intro exI [of _ "r2 # swept"] exI [of _ "r2 # outs"]) auto
  next
    case (kept r1 links r2 legs ks)
    note moves = attach_legs_moves [OF kept(2) before]
    have "set legs \<subseteq> L" using moves(2) before(2) by simp
    then obtain swept outs where ih: "mc_output st' = mc_output st @ outs" "set swept = set ks \<union> set outs"
      "list_all2 (\<lambda>r r'. record_id r' = record_id r \<and> legs_of r \<inter> L \<subseteq> legs_of r') rs swept"
      "set (mc_legs st') \<subseteq> set legs"
      "\<forall>x \<in> set legs. x \<in> set (mc_legs st') \<or> (\<exists>r \<in> set swept. x \<in> legs_of r \<and> reaches r (fst x))"
      "\<forall>r \<in> set swept. \<forall>k. reaches r k \<longrightarrow> k \<notin> fst ` set (mc_legs st')"
      using Cons.IH [OF kept(4)] moves(3) before(3) by auto
    note more = swept_more [OF kept(2) before ih(4-6)]
    show ?thesis
      using ih(1-3) one [OF kept(1,2)] kept(5) more by (intro exI [of _ "r2 # swept"] exI [of _ outs]) auto
  qed
qed

section \<open>The invariant\<close>

text \<open>The times of the legs queued and of those of the running query, and the newest leg taken in before them.\<close>

definition stamps_ahead :: "'j pipeline \<Rightarrow> int list" where
  "stamps_ahead p = map leg_stamp (mc_queueLeg (pl_merge p)) @
     (case pl_legRows p of None \<Rightarrow> [] | Some rows \<Rightarrow> map (leg_stamp \<circ> decode_leg) rows)"

definition in_order :: "'j pipeline \<Rightarrow> bool" where
  "in_order p \<longleftrightarrow> sorted (mc_maxLegTime (pl_merge p) # stamps_ahead p)"

definition legs_from :: "(int \<times> db_row) list \<Rightarrow> 'j merge_container \<Rightarrow> bool" where
  "legs_from legs st \<longleftrightarrow> set (mc_legs st) \<subseteq> known_legs legs"

definition gone :: "'j pipeline \<Rightarrow> string set" where
  "gone p = cr_orig ` (set (mc_output (pl_merge p)) \<union> set (pl_finished p))"

definition leg_held :: "string \<Rightarrow> call_leg \<Rightarrow> 'j pipeline \<Rightarrow> bool" where
  "leg_held a l p \<longleftrightarrow> l \<in> set (mc_queueLeg (pl_merge p)) \<or> (cl_uniqueid l, l) \<in> set (mc_legs (pl_merge p)) \<or>
     (\<exists>r \<in> set (mc_data (pl_merge p)). cr_orig r = a \<and> (cl_uniqueid l, l) \<in> legs_of r)"

text \<open>The legs a call's links lead to, and the records that have all of theirs.\<close>

definition wanted ::
  "'j pipeline_env \<Rightarrow> (int \<times> db_row) list \<Rightarrow> (int \<times> db_row) list \<Rightarrow> int \<Rightarrow> int \<times> db_row \<Rightarrow> int \<times> db_row \<Rightarrow> bool" where
  "wanted env legs links start call leg \<longleftrightarrow> call \<in> set legs \<and> leg \<in> set legs \<and> originates (snd call) \<and> \<not> originates (snd leg) \<and>
     start < fst call \<and> start < fst leg \<and> leads env links (row_id (snd call)) (row_id (snd leg))"

definition has_its_legs :: "(int \<times> db_row) list \<Rightarrow> int \<Rightarrow> 'j call_record \<Rightarrow> bool" where
  "has_its_legs legs start r \<longleftrightarrow> (\<forall>(t, row) \<in> set legs.
     \<not> originates row \<longrightarrow> start < t \<longrightarrow> reaches r (row_id row) \<longrightarrow> (row_id row, decode_leg row) \<in> legs_of r)"

definition legs_taken :: "(int \<times> db_row) list \<Rightarrow> int \<Rightarrow> 'j pipeline \<Rightarrow> db_row multiset" where
  "legs_taken legs start p = window_taken legs start (pl_legReader p) (pl_legRows p)"

definition legs_kept ::
  "'j pipeline_env \<Rightarrow> (int \<times> db_row) list \<Rightarrow> (int \<times> db_row) list \<Rightarrow> int \<Rightarrow> 'j pipeline \<Rightarrow> bool" where
  "legs_kept env legs links start p \<longleftrightarrow> (\<forall>call leg. wanted env legs links start call leg \<longrightarrow> row_id (snd call) \<notin> gone p \<longrightarrow>
     snd leg \<in># legs_taken legs start p \<longrightarrow> leg_held (row_id (snd call)) (decode_leg (snd leg)) p)"

definition legs_inv ::
  "'j pipeline_env \<Rightarrow> (int \<times> db_row) list \<Rightarrow> (int \<times> db_row) list \<Rightarrow> int \<Rightarrow> 'j pipeline \<Rightarrow> bool" where
  "legs_inv env legs links start p \<longleftrightarrow> in_order p \<and> legs_from legs (pl_merge p) \<and> legs_kept env legs links start p \<and>
     (\<forall>r \<in> set (mc_output (pl_merge p)) \<union> set (pl_finished p). has_its_legs legs start r)"

text \<open>What the steps of the readers leave alone.\<close>

lemma legs_inv_same:
  assumes "legs_inv env legs links start p" "in_order p'" "legs_taken legs start p' = legs_taken legs start p"
    "mc_queueLeg (pl_merge p') = mc_queueLeg (pl_merge p)" "mc_legs (pl_merge p') = mc_legs (pl_merge p)"
    "mc_data (pl_merge p') = mc_data (pl_merge p)" "mc_output (pl_merge p') = mc_output (pl_merge p)"
    "pl_finished p' = pl_finished p"
  shows "legs_inv env legs links start p'"
  using assms by (simp add: legs_inv_def legs_from_def legs_kept_def leg_held_def gone_def)

lemma in_order_same:
  "in_order p \<Longrightarrow> mc_maxLegTime (pl_merge p') = mc_maxLegTime (pl_merge p) \<Longrightarrow> stamps_ahead p' = stamps_ahead p \<Longrightarrow> in_order p'"
  by (simp add: in_order_def)

section \<open>The steps\<close>

lemma link_steps_legs:
  assumes "legs_inv env legs links start p"
  shows "legs_inv env legs links start (link_query env now1 now2 p)"
    "legs_inv env legs links start (link_deliver env oo ot p)"
    "legs_inv env legs links start (link_advance env now3 p)"
proof -
  have ord: "in_order p" using assms by (simp add: legs_inv_def)
  show "legs_inv env legs links start (link_query env now1 now2 p)"
    by (cases rule: link_query_cases [of env now1 now2 p])
      (use assms in \<open>auto intro!: legs_inv_same [OF assms] in_order_same [OF ord] simp: stamps_ahead_def legs_taken_def\<close>)
  show "legs_inv env legs links start (link_deliver env oo ot p)"
    by (cases rule: link_deliver_cases [of env oo ot p])
      (use assms in \<open>auto intro!: legs_inv_same [OF assms] in_order_same [OF ord] simp: stamps_ahead_def legs_taken_def\<close>)
  show "legs_inv env legs links start (link_advance env now3 p)"
    by (cases rule: link_advance_cases [of env now3 p])
      (use assms in \<open>auto intro!: legs_inv_same [OF assms] in_order_same [OF ord] simp: stamps_ahead_def legs_taken_def\<close>)
qed

lemma leg_stamp_row: "tables_ok env start legs links \<Longrightarrow> (t, row) \<in> set legs \<Longrightarrow> leg_stamp (decode_leg row) = t"
  by (simp add: leg_stamp_def tables_okD(1))

lemma leg_query_legs:
  assumes "env_ok env legs links" "tables_ok env start legs links" "legs_in_order env legs links"
    "service_inv env legs links start sw p" "legs_inv env legs links start p"
  shows "legs_inv env legs links start (leg_query env now1 now2 p)"
proof (cases rule: leg_query_cases [of env now1 now2 p])
  case same
  with assms(5) show ?thesis by simp
next
  case (asks rd)
  let ?p = "leg_query env now1 now2 p" and ?a = "rw_startTime (pl_legReader p)" and ?b = "rw_stopTime (pl_legReader p)"
  have inv: "pipeline_inv env legs links start p" "legs_ahead env legs start p" "in_order p"
    using assms(4,5) by (simp_all add: service_inv_def legs_inv_def)
  have bound: "leg_bound p = ?a" using asks(1) by (simp add: leg_bound_def)
  have queue: "leg_stamp l \<le> ?a" if "l \<in> set (mc_queueLeg (pl_merge p))" for l
    using inv(2) that bound leg_stamp_row [OF assms(2)] by (auto simp: legs_ahead_def)
  have rows: "?a < leg_stamp (decode_leg row)" if row: "row \<in> set (pe_leg_rows env ?a ?b)" for row
  proof -
    have sub: "mset (pe_leg_rows env ?a ?b) \<subseteq># stamped legs ?a ?b" using assms(1) by (simp add: env_ok_def)
    from stamped_in [OF sub row] obtain t where "(t, row) \<in> set legs" "?a < t" by (elim exE conjE)
    with leg_stamp_row [OF assms(2)] show ?thesis by simp
  qed
  have "in_order ?p"
    using inv(3) queue rows assms(3) inv(2) bound asks
    by (fastforce simp: in_order_def stamps_ahead_def sorted_append legs_in_order_def legs_ahead_def)
  moreover have "legs_taken legs start ?p = legs_taken legs start p"
  proof -
    have "window_inv legs start rd None" using inv(1) asks(1,3,4) by (simp add: pipeline_inv_def window_inv_def)
    from window_query(2) [OF this, of "pe_leg_rows env ?a ?b"] assms(1)
    show ?thesis using asks window_cong(2) [OF asks(3,4)] by (simp add: legs_taken_def env_ok_def)
  qed
  ultimately show ?thesis by (intro legs_inv_same [OF assms(5)]) (simp_all add: asks(2))
qed

lemma leg_advance_legs:
  assumes "legs_inv env legs links start p"
  shows "legs_inv env legs links start (leg_advance env now3 p)"
proof (cases rule: leg_advance_cases [of env now3 p])
  case same
  with assms show ?thesis by simp
next
  case (moves rd)
  let ?p = "leg_advance env now3 p"
  have "in_order p" using assms by (simp add: legs_inv_def)
  then have "in_order ?p" by (rule in_order_same) (simp_all add: moves stamps_ahead_def)
  then show ?thesis
    by (rule legs_inv_same [OF assms]) (simp_all add: moves legs_taken_def window_taken_def)
qed

lemma leg_held_more:
  assumes "leg_held a l p" "set (mc_queueLeg (pl_merge p)) \<subseteq> set (mc_queueLeg (pl_merge p'))"
    "mc_legs (pl_merge p') = mc_legs (pl_merge p)" "mc_data (pl_merge p') = mc_data (pl_merge p)"
  shows "leg_held a l p'"
  using assms unfolding leg_held_def by auto

lemma legs_keptD:
  assumes "legs_inv env legs links start p" "wanted env legs links start call leg" "row_id (snd call) \<notin> gone p"
    "snd leg \<in># legs_taken legs start p"
  shows "leg_held (row_id (snd call)) (decode_leg (snd leg)) p"
  using assms unfolding legs_inv_def legs_kept_def by blast

lemma leg_deliver_legs:
  assumes "legs_inv env legs links start p" "pipeline_inv env legs links start p"
  shows "legs_inv env legs links start (leg_deliver p)"
proof (cases rule: leg_deliver_cases [of p])
  case same
  with assms(1) show ?thesis by simp
next
  case (delivers row rows rd)
  let ?p = "leg_deliver p"
  have ord: "in_order p" using assms(1) by (simp add: legs_inv_def)
  have "in_order ?p" by (rule in_order_same [OF ord]) (simp_all add: delivers stamps_ahead_def)
  moreover have taken: "legs_taken legs start ?p = add_mset row (legs_taken legs start p)"
    using window_deliver(2) [of legs start "pl_legReader p" row rows] assms(2) delivers(1)
    by (simp add: legs_taken_def delivers(2) window_cong(2) [OF delivers(3,4)] pipeline_inv_def)
  moreover have "legs_kept env legs links start ?p"
    unfolding legs_kept_def
  proof (intro allI impI)
    fix call leg assume w: "wanted env legs links start call leg" "row_id (snd call) \<notin> gone ?p"
      "snd leg \<in># legs_taken legs start ?p"
    show "leg_held (row_id (snd call)) (decode_leg (snd leg)) ?p"
    proof (cases "snd leg = row")
      case True
      then show ?thesis by (simp add: leg_held_def delivers(2))
    next
      case False
      have "snd leg \<in># legs_taken legs start p" using w(3) False unfolding taken by simp
      moreover have "gone ?p = gone p" by (simp add: gone_def delivers(2))
      ultimately have "leg_held (row_id (snd call)) (decode_leg (snd leg)) p"
        using legs_keptD [OF assms(1) w(1)] w(2) by simp
      then show ?thesis by (rule leg_held_more) (auto simp: delivers(2))
    qed
  qed
  ultimately show ?thesis using assms(1) by (simp add: legs_inv_def legs_from_def delivers(2))
qed

text \<open>Choosing the parties adds default legs for ids the record does not have, and takes none away.\<close>

lemma finish_record_legs: "legs_of r \<subseteq> legs_of (finish_record sort_legs sort_links r)"
proof -
  have at: "set legs \<subseteq> set (snd (leg_at k legs))" for k legs
    by (auto simp: leg_at_def map_of_eq_None_iff split: option.split intro!: sm_set_keeps)
  have one: "legs_of rc \<subseteq> legs_of (choose_leg leg rc)" for leg and rc :: "'a call_record"
    using at [of "cr_legs rc" "cl_last_linked_id leg"] by (auto simp: choose_leg_eq Let_def)
  have "legs_of rc \<subseteq> legs_of (fold choose_leg ls rc)" for ls and rc :: "'a call_record"
  proof (induction ls arbitrary: rc)
    case (Cons l ls)
    from one [of rc l] Cons.IH [of "choose_leg l rc"] show ?case by simp
  qed simp
  then show ?thesis by (simp add: finish_record_def choose_parties_def Let_def)
qed

lemma serve_legs:
  assumes "env_ok env legs links" "pipeline_inv env legs links start p" "legs_inv env legs links start p"
  shows "legs_inv env legs links start (serve env n p)"
proof -
  let ?p = "serve env n p" and ?out = "mc_output (pl_merge p)"
  let ?f = "finish_record (pe_sort_legs env) (pe_sort_links env)"
  have eq: "?p = p\<lparr>pl_merge := (pl_merge p)\<lparr>mc_output := drop n ?out\<rparr>, pl_finished := pl_finished p @ map ?f (take n ?out)\<rparr>"
    by (simp add: serve_def)
  have srt: "std_sort linkCompareByLinkId (pe_sort_links env)" using assms(1) by (simp add: env_ok_def)
  have ok: "\<forall>r \<in> set ?out. record_ok r" using pipeline_windows [OF assms(2)] by (auto simp: merge_inv_def)
  have has: "\<forall>r \<in> set ?out. has_its_legs legs start r" using assms(3) by (simp add: legs_inv_def)
  have fin: "has_its_legs legs start (?f r) \<and> cr_orig (?f r) = cr_orig r" if r: "r \<in> set ?out" for r
  proof -
    have "record_ok r" using ok r by blast
    note keeps = finish_record_keeps [OF srt this, of "pe_sort_legs env"]
    have "set (cr_links (?f r)) = set (cr_links r)" using keeps(2) by (metis mset_eq_setD)
    then have "reaches (?f r) = reaches r" by (simp add: reaches_def fun_eq_iff)
    then have "has_its_legs legs start r \<Longrightarrow> has_its_legs legs start (?f r)"
      using finish_record_legs [of r "pe_sort_legs env" "pe_sort_links env"] by (auto simp: has_its_legs_def)
    with has r keeps(1) show ?thesis by simp
  qed
  have split: "set ?out = set (take n ?out) \<union> set (drop n ?out)" by (metis append_take_drop_id set_append)
  have origs: "cr_orig ` ?f ` set (take n ?out) = cr_orig ` set (take n ?out)"
    using fin by (force simp: image_iff dest: in_set_takeD)
  have "gone ?p = gone p"
    unfolding gone_def eq using origs split by (simp add: image_Un Un_ac)
  moreover have "in_order ?p" using assms(3) by (simp add: legs_inv_def in_order_def stamps_ahead_def eq)
  moreover have "legs_taken legs start ?p = legs_taken legs start p" by (simp add: legs_taken_def eq)
  moreover have "leg_held a k ?p = leg_held a k p" for a k by (simp add: leg_held_def eq)
  moreover have "\<forall>r \<in> set (mc_output (pl_merge ?p)) \<union> set (pl_finished ?p). has_its_legs legs start r"
    using assms(3) fin by (auto simp: legs_inv_def eq dest: in_set_takeD in_set_dropD)
  moreover have "mc_legs (pl_merge ?p) = mc_legs (pl_merge p)" by (simp add: eq)
  ultimately show ?thesis using assms(3) by (simp add: legs_inv_def legs_kept_def legs_from_def)
qed

section \<open>The intake of legs\<close>

lemma fold_take_leg_legs:
  "single_valued L \<Longrightarrow> \<forall>l \<in> set ls. \<not> cl_orig l \<longrightarrow> (cl_uniqueid l, l) \<in> L \<Longrightarrow> set (mc_legs st) \<subseteq> L \<Longrightarrow>
   set (mc_legs (fold (take_leg g a0) ls st)) = set (mc_legs st) \<union> (\<lambda>l. (cl_uniqueid l, l)) ` {l \<in> set ls. \<not> cl_orig l}"
proof (induction ls arbitrary: st)
  case Nil
  then show ?case by simp
next
  case (Cons l ls)
  have one: "mc_legs (take_leg g a0 l st) = (if cl_orig l then mc_legs st else sm_set (cl_uniqueid l) l (mc_legs st))"
    by (simp add: take_leg_def Let_def)
  have "set (sm_set (cl_uniqueid l) l (mc_legs st)) = insert (cl_uniqueid l, l) (set (mc_legs st))" if "\<not> cl_orig l"
    using sm_set_known [OF Cons.prems(1), of "cl_uniqueid l" l "mc_legs st"] Cons.prems(2,3) that
      set_sm_set_subset [of "cl_uniqueid l" l "mc_legs st"] sm_set_in [of "cl_uniqueid l" l "mc_legs st"] by auto
  then have "set (mc_legs (take_leg g a0 l st)) = set (mc_legs st) \<union> (\<lambda>l. (cl_uniqueid l, l)) ` {x. x = l \<and> \<not> cl_orig x}"
    unfolding one by auto
  moreover from this have "set (mc_legs (take_leg g a0 l st)) \<subseteq> L" using Cons.prems(2,3) by auto
  moreover have "{x \<in> set (l # ls). \<not> cl_orig x} = {x. x = l \<and> \<not> cl_orig x} \<union> {x \<in> set ls. \<not> cl_orig x}" by auto
  ultimately show ?case using Cons.IH [of "take_leg g a0 l st"] Cons.prems(1,2) by (auto simp: image_Un)
qed

lemma take_in_legs:
  assumes "tables_ok env start legs links" "legs_in_order env legs links"
    "service_inv env legs links start sw p" "legs_inv env legs links start p"
  shows "legs_inv env legs links start (take_in env g a0 p)"
proof -
  let ?p = "take_in env g a0 p" and ?st = "pl_merge p" and ?n = "ms_max_queue_size (pe_merge env)"
  have inv: "legs_ahead env legs start p" "length (mc_queueLeg ?st) \<le> ?n"
    using assms(3) by (simp_all add: service_inv_def queues_ok_def)
  have eq: "?p = p\<lparr>pl_merge := pass_begin (pe_merge env) g a0 ?st\<rparr>" by (simp add: take_in_def)
  have rows: "\<exists>t row. (t, row) \<in> set legs \<and> l = decode_leg row" if "l \<in> set (mc_queueLeg ?st)" for l
    using inv(1) that unfolding legs_ahead_def by blast
  have stamp: "stamp_of g (cl_start_time l) = leg_stamp l" if "l \<in> set (mc_queueLeg ?st)" for l
    using rows [OF that] tables_okD(1) [OF assms(1)] by (auto simp: leg_stamp_def)
  have known: "(cl_uniqueid l, l) \<in> known_legs legs" if "l \<in> set (mc_queueLeg ?st)" "\<not> cl_orig l" for l
    using rows [OF that(1)] that(2) by (auto simp: known_legs_def row_id_def originates_def)
  have from_table: "set (mc_legs ?st) \<subseteq> known_legs legs" using assms(4) by (simp add: legs_inv_def legs_from_def)
  let ?legs = "mc_legs (pl_merge ?p)"
  have new: "set ?legs = set (mc_legs ?st) \<union> (\<lambda>l. (cl_uniqueid l, l)) ` {l \<in> set (mc_queueLeg ?st). \<not> cl_orig l}"
    using fold_take_leg_legs [OF known_legs_once [OF assms(2)], of "mc_queueLeg ?st"
        "?st\<lparr>mc_queueLeg := drop ?n (mc_queueLeg ?st), mc_queueLink := drop ?n (mc_queueLink ?st)\<rparr>" g a0]
      inv(2) known from_table by (simp add: eq pass_begin_def merge_intake_def)
  have data: "set (mc_data ?st) \<subseteq> set (mc_data (pl_merge ?p))"
    by (simp add: eq pass_begin_keeps merge_intake_def fold_take_leg_data)
  have "in_order ?p"
  proof -
    let ?rows = "case pl_legRows p of None \<Rightarrow> [] | Some rows \<Rightarrow> map (leg_stamp \<circ> decode_leg) rows"
    have ord: "sorted (mc_maxLegTime ?st # map leg_stamp (mc_queueLeg ?st) @ ?rows)"
      using assms(4) by (simp add: legs_inv_def in_order_def stamps_ahead_def)
    have "mc_maxLegTime (pl_merge ?p) = fold max (map leg_stamp (mc_queueLeg ?st)) (mc_maxLegTime ?st)"
      using inv(2) by (simp add: eq pass_begin_keeps merge_intake_def fold_take_leg_max stamp cong: map_cong)
    moreover have "stamps_ahead ?p = ?rows" using inv(2) by (simp add: stamps_ahead_def eq pass_begin_keeps)
    moreover have "fold max (map leg_stamp (mc_queueLeg ?st)) (mc_maxLegTime ?st) \<le> t" if "t \<in> set ?rows" for t
      by (rule fold_max_le) (use ord that in \<open>auto simp: sorted_append\<close>)
    ultimately show ?thesis using ord by (simp add: in_order_def sorted_append)
  qed
  moreover have "legs_from legs (pl_merge ?p)" using new known from_table by (auto simp: legs_from_def)
  moreover have "legs_kept env legs links start ?p"
    unfolding legs_kept_def
  proof (intro allI impI)
    fix call leg assume w: "wanted env legs links start call leg" "row_id (snd call) \<notin> gone ?p"
      "snd leg \<in># legs_taken legs start ?p"
    have "gone ?p = gone p" "legs_taken legs start ?p = legs_taken legs start p"
      by (simp_all add: gone_def legs_taken_def eq pass_begin_keeps)
    with w legs_keptD [OF assms(4) w(1)] have "leg_held (row_id (snd call)) (decode_leg (snd leg)) p" by simp
    moreover have "\<not> cl_orig (decode_leg (snd leg))" using w(1) by (simp add: wanted_def originates_def)
    ultimately show "leg_held (row_id (snd call)) (decode_leg (snd leg)) ?p"
      using data unfolding leg_held_def new by blast
  qed
  moreover have "mc_output (pl_merge ?p) = mc_output ?st" "pl_finished ?p = pl_finished p" by (simp_all add: eq pass_begin_keeps)
  ultimately show ?thesis using assms(4) by (simp add: legs_inv_def)
qed


section \<open>The sweep\<close>

text \<open>A leg that has not been taken is not older than the newest one that was taken in.\<close>

lemma late_leg:
  assumes "tables_ok env start legs links" "service_inv env legs links start sw p" "in_order p"
    "(t, leg) \<in> set legs" "start < t" "leg \<notin># legs_taken legs start p"
  shows "mc_maxLegTime (pl_merge p) \<le> t"
proof (cases "t \<le> leg_bound p")
  case False
  then show ?thesis using assms(2) by (simp add: service_inv_def legs_ahead_def)
next
  case True
  then have old: "leg \<in># stamped legs start (leg_bound p)" using assms(4,5) by (force simp: stamped_def)
  show ?thesis
  proof (cases "pl_legRows p")
    case None
    with old assms(6) show ?thesis by (simp add: legs_taken_def window_taken_def leg_bound_def)
  next
    case (Some rows)
    with old assms(6) have "leg \<in> set rows"
      by (metis in_diff_count leg_bound_def legs_taken_def not_in_iff option.case(2) set_mset_mset window_taken_def count_greater_zero_iff)
    with Some have "leg_stamp (decode_leg leg) \<in> set (stamps_ahead p)" by (auto simp: stamps_ahead_def)
    with assms(3) show ?thesis by (simp add: in_order_def leg_stamp_row [OF assms(1,4)])
  qed
qed

text \<open>What a record reaches a link of its call leads to.\<close>

lemma record_leads:
  assumes "service_inv env legs links start sw p" "r \<in> pipe_records p" "reaches r k"
  shows "leads env links (cr_orig r) k"
proof -
  have inv: "pipeline_inv env legs links start p" using assms(1) by (simp add: service_inv_def)
  have own: "own_links r"
  proof -
    have "merge_inv (pl_merge p)" using pipeline_windows [OF inv] by simp
    then have "\<forall>r \<in> set (mc_data (pl_merge p)) \<union> set (mc_output (pl_merge p)). own_links r"
      by (auto simp: merge_inv_def record_own)
    moreover have "\<forall>r \<in> set (pl_finished p). own_links r" using assms(1) by (simp add: service_inv_def)
    ultimately show ?thesis using assms(2) by (auto simp: pipe_records_def)
  qed
  obtain l where l: "l \<in> set (cr_links r)" "cll_uniqueid_term l = k" using assms(3) by (auto simp: reaches_def)
  have "l \<in># record_links (mc_data (pl_merge p) @ mc_output (pl_merge p) @ pl_finished p)"
    using l(1) assms(2) by (auto simp: pipe_records_def record_links_def)
  then have "l \<in># state_links (pl_merge p) + record_links (pl_finished p)" by (auto simp: state_links_def)
  then have "l \<in># link_items (pe_parse_json env) (window_taken links start (pl_linkReader p) (pl_linkRows p))"
    using inv unfolding pipeline_inv_def by (meson mset_subset_eqD)
  then obtain row where row: "row \<in># window_taken links start (pl_linkReader p) (pl_linkRows p)"
    "l = decode_link (pe_parse_json env) row" by (auto simp: link_items_def)
  from mset_subset_eqD [OF taken_in_table this(1)] have "row \<in># mset (map snd links)" .
  then obtain u where "(u, row) \<in> set links" by auto
  moreover have "cll_uniqueid_orig l = cr_orig r" using own l(1) by (simp add: own_links_def)
  ultimately show ?thesis using row(2) l(2) unfolding leads_def by (intro bexI [of _ "(u, row)"]) simp_all
qed

lemma record_call:
  assumes "tables_ok env start legs links" "service_inv env legs links start sw p" "r \<in> pipe_records p"
    "(s, call) \<in> set legs" "originates call" "row_id call = cr_orig r"
  shows "cr_startTime r = s"
proof -
  have "known legs r" using assms(2,3) by (simp add: service_inv_def)
  then obtain row where "(cr_startTime r, row) \<in> set legs" "originates row" "row_id row = cr_orig r"
    by (auto simp: known_def record_id_def)
  with tables_one_leg [OF assms(1) _ assms(4) _ assms(5)] assms(6) show ?thesis by auto
qed

lemma enumerate_filter_in: "y \<in> set (map snd (filter P (enumerate n xs))) \<Longrightarrow> \<exists>i. P (i, y)"
  by auto

text \<open>The second half of a pass, as it concerns the legs.\<close>

lemma sweep_facts:
  fixes env :: "'j pipeline_env" and p :: "'j pipeline"
  assumes "legs_in_order env legs links" "service_inv env legs links start True p" "legs_inv env legs links start p"
  obtains swept outs left where
    "mc_output (pl_merge (sweep_records env g p)) = mc_output (pl_merge p) @ outs"
    "set swept = set (mc_data (pl_merge (sweep_records env g p))) \<union> set outs"
    "list_all2 (\<lambda>r r'. record_id r' = record_id r \<and> legs_of r \<inter> known_legs legs \<subseteq> legs_of r') (mc_data (pl_merge p)) swept"
    "set left \<subseteq> set (mc_legs (pl_merge p))"
    "\<forall>x \<in> set (mc_legs (pl_merge p)). x \<in> set left \<or> (\<exists>r \<in> set swept. x \<in> legs_of r \<and> reaches r (fst x))"
    "\<forall>r \<in> set swept. \<forall>k. reaches r k \<longrightarrow> k \<notin> fst ` set left"
    "mc_legs (pl_merge (sweep_records env g p)) =
       drop_legs (pe_merge env) g (recordSaveTime (pe_merge env) (pl_merge p)) (\<lambda>_. rw_startTime (pl_linkReader p)) left"
    "\<forall>r \<in> set (mc_data (pl_merge (sweep_records env g p))).
       \<not> (cr_startTime r < recordSaveTime (pe_merge env) (pl_merge p) \<and>
          cr_startTime r + ms_max_call_time (pe_merge env) < rw_startTime (pl_linkReader p))"
    "\<forall>r \<in> set outs. cr_startTime r < recordSaveTime (pe_merge env) (pl_merge p)"
proof -
  let ?st = "pl_merge p" and ?T = "rw_startTime (pl_linkReader p)" and ?save = "recordSaveTime (pe_merge env) (pl_merge p)"
  obtain kept w where w: "sweep (pe_merge env) ?save (\<lambda>_. ?T) 0 (mc_data ?st) ?st = (kept, w)"
    "pl_merge (sweep_records env g p) = w\<lparr>mc_data := kept, mc_legs := drop_legs (pe_merge env) g ?save (\<lambda>_. ?T) (mc_legs w),
       mc_links := drop_links g ?save (mc_links w)\<rparr>"
    using pass_end_work [of "pe_merge env" ?st "\<lambda>_. ?T" g "\<lambda>_. ?T"] by (auto simp: sweep_records_def reader_getTime_def)
  have ok: "legs_ok (mc_legs ?st)" "set (mc_legs ?st) \<subseteq> known_legs legs"
    using assms(2,3) pipeline_windows [of env legs links start p] by (simp_all add: service_inv_def merge_inv_def legs_inv_def legs_from_def)
  obtain swept outs where sw: "mc_output w = mc_output ?st @ outs" "set swept = set kept \<union> set outs"
    "list_all2 (\<lambda>r r'. record_id r' = record_id r \<and> legs_of r \<inter> known_legs legs \<subseteq> legs_of r') (mc_data ?st) swept"
    "set (mc_legs w) \<subseteq> set (mc_legs ?st)"
    "\<forall>x \<in> set (mc_legs ?st). x \<in> set (mc_legs w) \<or> (\<exists>r \<in> set swept. x \<in> legs_of r \<and> reaches r (fst x))"
    "\<forall>r \<in> set swept. \<forall>k. reaches r k \<longrightarrow> k \<notin> fst ` set (mc_legs w)"
    using sweep_legs [OF w(1) ok known_legs_once [OF assms(1)]] by (elim exE conjE)
  have ids: "map record_id kept = map snd (filter (\<lambda>q. \<not> id_retires (pe_merge env) ?save (\<lambda>_. ?T) q) (enumerate 0 (map record_id (mc_data ?st))))"
    "map record_id outs = map snd (filter (id_retires (pe_merge env) ?save (\<lambda>_. ?T)) (enumerate 0 (map record_id (mc_data ?st))))"
    using sweep_ids [OF w(1)] sw(1) by simp_all
  have kept_ids: "\<not> (cr_startTime r < ?save \<and> cr_startTime r + ms_max_call_time (pe_merge env) < ?T)" if "r \<in> set kept" for r
  proof -
    have "record_id r \<in> set (map record_id kept)" using that by simp
    from enumerate_filter_in [OF this [unfolded ids(1)]] show ?thesis by (simp add: id_retires_def record_id_def)
  qed
  have out_ids: "cr_startTime r < ?save" if "r \<in> set outs" for r
  proof -
    have "record_id r \<in> set (map record_id outs)" using that by simp
    from enumerate_filter_in [OF this [unfolded ids(2)]] show ?thesis by (simp add: id_retires_def record_id_def)
  qed
  show thesis
    by (rule that [of outs swept "mc_legs w"]) (use sw w(2) kept_ids out_ids in simp_all)
qed


lemma list_all2_left: "list_all2 P xs ys \<Longrightarrow> x \<in> set xs \<Longrightarrow> \<exists>y \<in> set ys. P x y"
  by (induction rule: list_all2_induct) auto

lemma list_all2_right: "list_all2 P xs ys \<Longrightarrow> y \<in> set ys \<Longrightarrow> \<exists>x \<in> set xs. P x y"
  by (induction rule: list_all2_induct) auto

lemma swept_once:
  assumes "list_all2 (\<lambda>r r'. record_id r' = record_id r \<and> P r r') rs swept" "distinct (map cr_orig rs)"
    "r \<in> set swept" "r' \<in> set swept" "cr_orig r = cr_orig r'"
  shows "r = r'"
proof -
  have "map cr_orig swept = map cr_orig rs"
    using assms(1) by (induction rule: list_all2_induct) (simp_all add: record_id_eq)
  with assms(2) have "distinct (map cr_orig swept)" by simp
  with assms(3-5) show ?thesis by (auto simp: distinct_map inj_on_def)
qed

lemma known_legsI: "(t, leg) \<in> set legs \<Longrightarrow> \<not> originates leg \<Longrightarrow> (row_id leg, decode_leg leg) \<in> known_legs legs"
  by (auto simp: known_legs_def)

lemma legs_in_orderD:
  assumes "legs_in_order env legs links"
  shows "leads env links a k \<Longrightarrow> leads env links a' k \<Longrightarrow> a = a'"
    "wanted env legs links start call leg \<Longrightarrow> fst call \<le> fst leg \<and> fst leg \<le> fst call + ms_max_call_time (pe_merge env)"
proof -
  show "leads env links a k \<Longrightarrow> leads env links a' k \<Longrightarrow> a = a'"
    using assms unfolding legs_in_order_def by blast
  have "\<forall>(s, call) \<in> set legs. \<forall>(t, leg) \<in> set legs. originates call \<and> \<not> originates leg \<and>
      leads env links (row_id call) (row_id leg) \<longrightarrow> s \<le> t \<and> t \<le> s + ms_max_call_time (pe_merge env)"
    using assms by (simp add: legs_in_order_def)
  then show "wanted env legs links start call leg \<Longrightarrow> fst call \<le> fst leg \<and> fst leg \<le> fst call + ms_max_call_time (pe_merge env)"
    unfolding wanted_def by fastforce
qed

lemma leg_after_call:
  assumes "legs_in_order env legs links" "(s, call) \<in> set legs" "(t, leg) \<in> set legs" "originates call" "\<not> originates leg"
    "leads env links (row_id call) (row_id leg)"
  shows "s \<le> t"
  using assms unfolding legs_in_order_def by fastforce

lemma save_time_exact:
  "service_inv env legs links start sw p \<Longrightarrow>
   recordSaveTime (pe_merge env) (pl_merge p) = mc_maxLegTime (pl_merge p) - ms_max_call_time (pe_merge env)"
  by (simp add: recordSaveTime_def service_inv_def legs_ahead_def)

lemma sweep_keeps_legs:
  fixes env :: "'j pipeline_env" and p :: "'j pipeline"
  assumes "env_ok env legs links" "tables_ok env start legs links" "legs_in_order env legs links"
    "service_inv env legs links start True p" "legs_inv env legs links start p"
    and w: "wanted env legs links start call leg" "row_id (snd call) \<notin> gone (sweep_records env g p)"
      "snd leg \<in># legs_taken legs start p"
  shows "leg_held (row_id (snd call)) (decode_leg (snd leg)) (sweep_records env g p)"
proof -
  let ?p = "sweep_records env g p" and ?st = "pl_merge p" and ?l = "decode_leg (snd leg)" and ?a = "row_id (snd call)"
  let ?x = "(cl_uniqueid ?l, ?l)" and ?save = "recordSaveTime (pe_merge env) (pl_merge p)" and ?T = "rw_startTime (pl_linkReader p)"
  obtain swept outs left where sw: "mc_output (pl_merge ?p) = mc_output ?st @ outs"
    "set swept = set (mc_data (pl_merge ?p)) \<union> set outs"
    "list_all2 (\<lambda>r r'. record_id r' = record_id r \<and> legs_of r \<inter> known_legs legs \<subseteq> legs_of r') (mc_data ?st) swept"
    "set left \<subseteq> set (mc_legs ?st)"
    "\<forall>x \<in> set (mc_legs ?st). x \<in> set left \<or> (\<exists>r \<in> set swept. x \<in> legs_of r \<and> reaches r (fst x))"
    "\<forall>r \<in> set swept. \<forall>k. reaches r k \<longrightarrow> k \<notin> fst ` set left"
    "mc_legs (pl_merge ?p) = drop_legs (pe_merge env) g ?save (\<lambda>_. ?T) left"
    "\<forall>r \<in> set (mc_data (pl_merge ?p)). \<not> (cr_startTime r < ?save \<and> cr_startTime r + ms_max_call_time (pe_merge env) < ?T)"
    "\<forall>r \<in> set outs. cr_startTime r < ?save"
    by (rule sweep_facts [OF assms(3-5)])
  have same: "pl_finished ?p = pl_finished p" "mc_queueLeg (pl_merge ?p) = mc_queueLeg ?st"
    by (simp_all add: sweep_records_def pass_end_queues)
  have id: "?x = (row_id (snd leg), ?l)" by (simp add: row_id_def)
  have wd: "call \<in> set legs" "leg \<in> set legs" "originates (snd call)" "\<not> originates (snd leg)" "start < fst call" "start < fst leg"
    "leads env links ?a (row_id (snd leg))" using w(1) by (simp_all add: wanted_def)
  have x: "?x \<in> known_legs legs" unfolding id using wd(2,4) by (intro known_legsI [of "fst leg"]) simp_all
  have times: "fst call \<le> fst leg" using legs_in_orderD(2) [OF assms(3) w(1)] by simp
  have stay: "r \<in> set (mc_data (pl_merge ?p))" if "r \<in> set swept" "cr_orig r = ?a" for r
  proof -
    have "cr_orig ` set outs \<subseteq> gone ?p" by (auto simp: gone_def sw(1))
    then have "r \<notin> set outs" using that(2) w(2) by (metis imageI subsetD)
    with that(1) sw(2) show ?thesis by simp
  qed
  have old: "?a \<notin> gone p" using w(2) sw(1) same(1) by (auto simp: gone_def)
  have after: "service_inv env legs links start False ?p" by (rule sweep_service [OF assms(1,2,4)])
  from legs_keptD [OF assms(5) w(1) old w(3)]
  consider (queued) "?l \<in> set (mc_queueLeg ?st)" | (waiting) "?x \<in> set (mc_legs ?st)"
    | (held) r where "r \<in> set (mc_data ?st)" "cr_orig r = ?a" "?x \<in> legs_of r"
    unfolding leg_held_def by (elim disjE bexE conjE)
  then show ?thesis
  proof cases
    case queued
    then show ?thesis by (simp add: leg_held_def same)
  next
    case (held r)
    from list_all2_left [OF sw(3) held(1)] obtain r' where r': "r' \<in> set swept" "record_id r' = record_id r"
      "legs_of r \<inter> known_legs legs \<subseteq> legs_of r'" by blast
    have "cr_orig r' = ?a" using r'(2) held(2) by (simp add: record_id_eq)
    moreover have "?x \<in> legs_of r'" using r'(3) held(3) x by blast
    ultimately show ?thesis using stay [OF r'(1)] unfolding leg_held_def by blast
  next
    case waiting
    show ?thesis
    proof (cases "?x \<in> set left")
      case False
      with bspec [OF sw(5) waiting] obtain r where r: "r \<in> set swept" "?x \<in> legs_of r" "reaches r (row_id (snd leg))"
        by (auto simp: id)
      have "r \<in> pipe_records ?p" using r(1) sw(1,2) by (auto simp: pipe_records_def)
      from record_leads [OF after this r(3)] have "cr_orig r = ?a" using legs_in_orderD(1) [OF assms(3)] wd(7) by blast
      with stay [OF r(1)] r(2) show ?thesis unfolding leg_held_def by blast
    next
      case True
      have stamp: "stamp_of g (cl_start_time ?l) = fst leg"
        using tables_okD(1) [OF assms(2), of "fst leg" "snd leg" g] wd(2) by simp
      have "\<not> (fst leg < ?save \<and> fst leg + ms_max_call_time (pe_merge env) < ?T)"
      proof
        assume late: "fst leg < ?save \<and> fst leg + ms_max_call_time (pe_merge env) < ?T"
        show False
        proof (cases "?a \<in> cr_orig ` set (mc_data ?st)")
          case True
          then obtain r where r: "r \<in> set (mc_data ?st)" "cr_orig r = ?a" by auto
          from list_all2_left [OF sw(3) r(1)] obtain r' where r': "r' \<in> set swept" "record_id r' = record_id r" by blast
          have s: "cr_startTime r = fst call"
            using record_call [OF assms(2,4), of r "fst call" "snd call"] r wd(1,3) by (simp add: pipe_records_def)
          have "r' \<in> set (mc_data (pl_merge ?p))" using stay [OF r'(1)] r'(2) r(2) by (simp add: record_id_eq)
          with bspec [OF sw(8) this] r'(2) s late times show False by (simp add: record_id_eq)
        next
          case False
          then have "?a \<notin> cr_orig ` pipe_records p" using old by (auto simp: pipe_records_def gone_def)
          from pending_leg [OF assms(1,2,4) _ wd(3,5) this] wd(1)
          have "mc_maxLegTime ?st \<le> fst call + ms_max_call_time (pe_merge env)" by simp
          with late times save_time_exact [OF assms(4)] show False by simp
        qed
      qed
      with True stamp have "?x \<in> set (mc_legs (pl_merge ?p))" unfolding sw(7) drop_legs_def by auto
      then show ?thesis by (simp add: leg_held_def)
    qed
  qed
qed

lemma sweep_outputs_legs:
  fixes env :: "'j pipeline_env" and p :: "'j pipeline"
  assumes "env_ok env legs links" "tables_ok env start legs links" "legs_in_order env legs links"
    "service_inv env legs links start True p" "legs_inv env legs links start p"
    and r: "r \<in> set (mc_output (pl_merge (sweep_records env g p)))"
  shows "has_its_legs legs start r"
proof (cases "r \<in> set (mc_output (pl_merge p))")
  case True
  with assms(5) show ?thesis by (simp add: legs_inv_def)
next
  case False
  let ?p = "sweep_records env g p" and ?st = "pl_merge p" and ?a = "cr_orig r"
  let ?save = "recordSaveTime (pe_merge env) (pl_merge p)" and ?T = "rw_startTime (pl_linkReader p)"
  obtain swept outs left where sw: "mc_output (pl_merge ?p) = mc_output ?st @ outs"
    "set swept = set (mc_data (pl_merge ?p)) \<union> set outs"
    "list_all2 (\<lambda>r r'. record_id r' = record_id r \<and> legs_of r \<inter> known_legs legs \<subseteq> legs_of r') (mc_data ?st) swept"
    "set left \<subseteq> set (mc_legs ?st)"
    "\<forall>x \<in> set (mc_legs ?st). x \<in> set left \<or> (\<exists>r \<in> set swept. x \<in> legs_of r \<and> reaches r (fst x))"
    "\<forall>r \<in> set swept. \<forall>k. reaches r k \<longrightarrow> k \<notin> fst ` set left"
    "mc_legs (pl_merge ?p) = drop_legs (pe_merge env) g ?save (\<lambda>_. ?T) left"
    "\<forall>r \<in> set (mc_data (pl_merge ?p)). \<not> (cr_startTime r < ?save \<and> cr_startTime r + ms_max_call_time (pe_merge env) < ?T)"
    "\<forall>r \<in> set outs. cr_startTime r < ?save"
    by (rule sweep_facts [OF assms(3-5)])
  have inv: "pipeline_inv env legs links start p" "in_order p" using assms(4,5) by (simp_all add: service_inv_def legs_inv_def)
  have out: "r \<in> set outs" "r \<in> set swept" "r \<in> pipe_records ?p" using r False sw(1,2) by (auto simp: pipe_records_def)
  have once: "distinct (map cr_orig (mc_data ?st))" using origs_once [OF assms(2) inv(1)] by simp
  have single: "q = r" if "q \<in> set swept" "cr_orig q = ?a" for q
    by (rule swept_once [OF sw(3) once that(1) out(2) that(2)])
  from list_all2_right [OF sw(3) out(2)] obtain r0 where r0: "r0 \<in> set (mc_data ?st)" "record_id r = record_id r0" by blast
  have start_r: "cr_orig r0 = ?a" "cr_startTime r0 = cr_startTime r" using r0(2) by (simp_all add: record_id_eq)
  have after: "service_inv env legs links start False ?p" by (rule sweep_service [OF assms(1,2,4)])
  have "known legs r0 \<and> start < cr_startTime r0" using assms(4) r0(1) by (simp add: service_inv_def pipe_records_def)
  then obtain call where call: "(cr_startTime r, call) \<in> set legs" "originates call" "row_id call = ?a" "start < cr_startTime r"
    using start_r by (auto simp: known_def record_id_def)
  have there: "?a \<notin> gone p"
    using origs_once [OF assms(2) inv(1)] r0(1) start_r(1) by (auto simp: gone_def)
  have "(row_id row, decode_leg row) \<in> legs_of r"
    if leg: "(t, row) \<in> set legs" "\<not> originates row" "start < t" "reaches r (row_id row)" for t row
  proof -
    let ?l = "decode_leg row" and ?x = "(row_id row, decode_leg row)"
    have "leads env links ?a (row_id row)" by (rule record_leads [OF after out(3) leg(4)])
    then have w: "wanted env legs links start (cr_startTime r, call) (t, row)"
      using call leg by (simp add: wanted_def)
    have "t < mc_maxLegTime ?st"
      using legs_in_orderD(2) [OF assms(3) w] bspec [OF sw(9) out(1)] save_time_exact [OF assms(4)] by simp
    then have "row \<in># legs_taken legs start p"
      using late_leg [OF assms(2,4) inv(2) leg(1,3)] by fastforce
    with legs_keptD [OF assms(5) w] there call(3) have "leg_held ?a ?l p" by simp
    then consider (queued) "?l \<in> set (mc_queueLeg ?st)" | (waiting) "?x \<in> set (mc_legs ?st)"
      | (held) q where "q \<in> set (mc_data ?st)" "cr_orig q = ?a" "?x \<in> legs_of q"
      unfolding leg_held_def row_id_def by (elim disjE bexE conjE)
    then show ?thesis
    proof cases
      case queued
      then have "leg_stamp ?l \<in> set (stamps_ahead p)" by (simp add: stamps_ahead_def)
      with inv(2) leg_stamp_row [OF assms(2) leg(1)] \<open>t < mc_maxLegTime ?st\<close> show ?thesis by (simp add: in_order_def) fastforce
    next
      case waiting
      have "?x \<notin> set left" using sw(6) out(2) leg(4) by (metis fst_conv imageI)
      with bspec [OF sw(5) waiting] obtain q where q: "q \<in> set swept" "?x \<in> legs_of q" "reaches q (row_id row)" by auto
      have "q \<in> pipe_records ?p" using q(1) sw(1,2) by (auto simp: pipe_records_def)
      from record_leads [OF after this q(3)] have "cr_orig q = ?a"
        using legs_in_orderD(1) [OF assms(3)] \<open>leads env links ?a (row_id row)\<close> by blast
      with single [OF q(1)] q(2) show ?thesis by simp
    next
      case (held q)
      from list_all2_left [OF sw(3) held(1)] obtain q' where q': "q' \<in> set swept" "record_id q' = record_id q"
        "legs_of q \<inter> known_legs legs \<subseteq> legs_of q'" by blast
      have "q' = r" by (rule single [OF q'(1)]) (use q'(2) held(2) in \<open>simp add: record_id_eq\<close>)
      with q'(3) held(3) known_legsI [OF leg(1,2)] show ?thesis by blast
    qed
  qed
  then show ?thesis by (auto simp: has_its_legs_def)
qed

lemma sweep_legs_inv:
  fixes env :: "'j pipeline_env" and p :: "'j pipeline"
  assumes "env_ok env legs links" "tables_ok env start legs links" "legs_in_order env legs links"
    "service_inv env legs links start True p" "legs_inv env legs links start p"
  shows "legs_inv env legs links start (sweep_records env g p)"
proof -
  let ?p = "sweep_records env g p"
  have same: "pl_finished ?p = pl_finished p" "mc_queueLeg (pl_merge ?p) = mc_queueLeg (pl_merge p)"
    "mc_maxLegTime (pl_merge ?p) = mc_maxLegTime (pl_merge p)" "pl_legRows ?p = pl_legRows p" "pl_legReader ?p = pl_legReader p"
    by (simp_all add: sweep_records_def pass_end_queues)
  have "in_order ?p" by (rule in_order_same) (use assms(5) in \<open>simp_all add: legs_inv_def same stamps_ahead_def\<close>)
  moreover have "legs_taken legs start ?p = legs_taken legs start p" by (simp add: legs_taken_def same)
  then have "legs_kept env legs links start ?p"
    using sweep_keeps_legs [OF assms] by (simp add: legs_kept_def)
  moreover have "legs_from legs (pl_merge ?p)"
  proof -
    obtain left where "set left \<subseteq> set (mc_legs (pl_merge p))" "mc_legs (pl_merge ?p) =
       drop_legs (pe_merge env) g (recordSaveTime (pe_merge env) (pl_merge p)) (\<lambda>_. rw_startTime (pl_linkReader p)) left"
      by (rule sweep_facts [OF assms(3-5)])
    then show ?thesis using assms(5) by (auto simp: legs_inv_def legs_from_def drop_legs_def)
  qed
  moreover have "\<forall>r \<in> set (mc_output (pl_merge ?p)) \<union> set (pl_finished ?p). has_its_legs legs start r"
    using sweep_outputs_legs [OF assms] assms(5) by (auto simp: same legs_inv_def)
  ultimately show ?thesis by (simp add: legs_inv_def)
qed

section \<open>The running service\<close>

lemma start_legs: "legs_inv env legs links start (pipeline_start env start)"
proof -
  let ?p = "pipeline_start env start"
  have p: "mc_output (pl_merge ?p) = []" "mc_queueLeg (pl_merge ?p) = []" "mc_legs (pl_merge ?p) = []"
    "pl_finished ?p = []" "pl_legRows ?p = None" "rw_startTime (pl_legReader ?p) = start"
    by (simp_all add: pipeline_start_def container_setStart_def Let_def setStart_def merge_init_def reader_setStart_def)
  show ?thesis
    by (simp add: legs_inv_def in_order_def stamps_ahead_def legs_from_def legs_kept_def legs_taken_def window_taken_def p)
qed

lemma service_reachable_legs:
  assumes "env_ok env legs links" "tables_ok env start legs links" "legs_in_order env legs links"
    "service_reachable True env start s"
  shows "legs_inv env legs links start (sv_pipe s)"
  using assms(4)
proof (induction rule: service_reachable.induct)
  case service_init
  show ?case using start_legs by (simp add: service_start_def)
next
  case (service_next s s')
  have inv: "service_inv env legs links start (sv_sweeping s) (sv_pipe s)"
    by (rule service_reachable_inv [OF assms(1,2) service_next(1)])
  have pipe: "pipeline_inv env legs links start (sv_pipe s)" using inv by (simp add: service_inv_def)
  from service_next(2) service_next.IH show ?case
  proof cases
    case (leg_queries now1 now2)
    with leg_query_legs [OF assms(1-3) inv service_next.IH] show ?thesis by simp
  next
    case leg_delivers
    with leg_deliver_legs [OF service_next.IH pipe] show ?thesis by simp
  next
    case (takes_in g a0)
    with take_in_legs [OF assms(2,3) inv service_next.IH] show ?thesis by simp
  next
    case (sweeps g)
    with sweep_legs_inv [OF assms(1-3) _ service_next.IH, of g] inv show ?thesis by simp
  next
    case (serves n)
    with serve_legs [OF assms(1) pipe service_next.IH] show ?thesis by simp
  qed (simp_all add: leg_advance_legs link_steps_legs service_next.IH)
qed

section \<open>Properties\<close>


lemma ex_in_order: "legs_in_order ex_env ex_legs ex_links"
proof -
  have stamps: "leg_stamp (decode_leg ex_a) = 130" "leg_stamp (decode_leg ex_b) = 155" "leg_stamp (decode_leg ex_c) = 200"
    by (simp_all add: leg_stamp_def ex_fields)
  have "sorted (map (leg_stamp \<circ> decode_leg) (pe_leg_rows ex_env a b))" for a b
    by (simp add: ex_env_def between_def ex_legs_def stamps)
  moreover have "leads ex_env ex_links a k \<longleftrightarrow> a = ''a'' \<and> k = ''b''" for a k
    by (auto simp: leads_def ex_links_def ex_link_fields)
  ultimately show ?thesis by (simp add: legs_in_order_def ex_legs_def ex_fields row_id_def originates_def) (simp add: ex_env_def)
qed


end
