(* ===== verification/Handles.thy ===== *)
theory Handles
  imports Sync Data Merge_Online Log
begin

text \<open>
  The handles the components give out: what an accessor shows of a data object over its loads
  (\<open>data/BaseData.hpp\<close>), copies of counters, connections in a reusable object
  (\<open>common/reusable_object.hpp\<close>), the levels of the log, and the questions and getters of single objects.
\<close>

section \<open>\<open>BaseData\<close> and \<open>DataAccessor\<close>\<close>

definition total_loading_time :: "'a base_data \<Rightarrow> int" where
  "total_loading_time b = bd_total_time_in_ms b"

definition bd_get_state :: "'a base_data \<Rightarrow> base_data_state" where
  "bd_get_state b = bd_state b"

definition bd_get_version :: "'a base_data \<Rightarrow> nat" where
  "bd_get_version b = bd_version b"

definition get_base :: "'a base_data \<Rightarrow> 'a option" where
  "get_base b = bd_data b"

text \<open>
  The accessor holds a pointer to the data object, here the object itself; \<open>cast\<close> is the
  dynamic cast to the type of its lists.
\<close>

definition accessor_get :: "('a \<Rightarrow> 'l option) \<Rightarrow> 'a base_data \<Rightarrow> 'l option" where
  "accessor_get cast b = (case get_base b of None \<Rightarrow> None | Some l \<Rightarrow> cast l)"

definition accessor_load ::
  "int \<Rightarrow> int \<Rightarrow> 'a \<times> string option \<Rightarrow> 'a base_data \<times> nat \<Rightarrow> ('a base_data \<times> nat) \<times> unit outcome" where
  "accessor_load t0 t1 list_load bg = bd_load t0 t1 list_load bg"

definition accessor_ready :: "'a base_data \<Rightarrow> bool" where
  "accessor_ready b = bd_ready b"

definition get_load_time_in_ms :: "'a base_data \<Rightarrow> int" where
  "get_load_time_in_ms b = uint64 (bd_get_time_in_ms b)"

definition accessor_state :: "'a base_data \<Rightarrow> base_data_state" where
  "accessor_state b = bd_get_state b"

definition accessor_bool :: "'a base_data \<Rightarrow> bool" where
  "accessor_bool b = (case get_base b of None \<Rightarrow> False | Some _ \<Rightarrow> True)"

text \<open>
  A load changes what an accessor shows only when it completes; after a failed one the accessor
  still shows the list of the last completed load although it is not ready.
\<close>

lemma accessor_after_load:
  assumes "bd_state b \<noteq> LOADING"
  shows "case accessor_load t0 t1 (l, r) (b, g) of ((b', g'), res) \<Rightarrow>
     (case r of
        None \<Rightarrow> res = Ok () \<and> accessor_get cast b' = cast l \<and> accessor_bool b' \<and> accessor_ready b'
      | Some m \<Rightarrow> res = Throws m \<and> accessor_get cast b' = accessor_get cast b \<and> accessor_bool b' = accessor_bool b \<and>
          \<not> accessor_ready b') \<and>
     total_loading_time b' = total_loading_time b + (t1 - t0)"
  using assms
  by (cases r) (simp_all add: accessor_load_def bd_load_def lt_new_def lt_destroy_def Let_def start_loading_def end_loading_def
      fetch_data_version_def accessor_get_def accessor_bool_def get_base_def accessor_ready_def bd_ready_def total_loading_time_def)

text \<open>While a load runs, a second one throws and leaves the object as it is.\<close>

lemma accessor_nested_load:
  "bd_state b = LOADING \<Longrightarrow>
   accessor_load t0 t1 lr (b, g) = ((b, g), Throws ''can't execute nested loading transaction'')"
  by (simp add: accessor_load_def bd_load_def lt_new_def)

section \<open>\<open>ObjCounter\<close> and \<open>ObjList\<close>\<close>

definition oc_size :: "'v obj_counter \<Rightarrow> nat" where
  "oc_size c = length (oc_data c)"

text \<open>\<open>sizeof_T\<close> is the size of an element; the product wraps as a \<open>size_t\<close>.\<close>

definition oc_dataSize :: "int \<Rightarrow> 'v obj_counter \<Rightarrow> int" where
  "oc_dataSize sizeof_T c = uint64 (sizeof_T * int (oc_size c))"

definition ol_dataSize :: "int \<Rightarrow> ('a, 'r) obj_list_scheme \<Rightarrow> int" where
  "ol_dataSize sizeof_T l = uint64 (sizeof_T * int (ol_size l))"

definition oc_getData :: "'v obj_counter \<Rightarrow> (int \<times> 'v) list" where
  "oc_getData c = oc_data c"

definition oc_deepCopy :: "'v obj_counter \<Rightarrow> 'v obj_counter" where
  "oc_deepCopy c = (let newObject = oc_new in newObject\<lparr>oc_data := oc_data c\<rparr>)"

text \<open>A copy answers as the original does, and has neither its load time nor its version.\<close>

lemma deep_copy_answers:
  "oc_get i (oc_deepCopy c) = oc_get i c" "oc_size (oc_deepCopy c) = oc_size c"
  "oc_loadtime (oc_deepCopy c) = 0" "oc_data_version (oc_deepCopy c) = 0"
  by (simp_all add: oc_deepCopy_def oc_get_def oc_size_def oc_new_def Let_def)

section \<open>\<open>Repository\<close>\<close>

definition repo_currentTime :: "repository \<Rightarrow> int" where
  "repo_currentTime r = rp_repository_time r"

text \<open>
  \<open>clear\<close> assigns a new repository, whose constructor sets neither the version nor the time:
  \<open>garbage\<close> is what they happen to hold.
\<close>

definition repo_clear :: "repository \<Rightarrow> repository \<Rightarrow> repository" where
  "repo_clear garbage r = garbage"

lemma prepare_after_clear:
  "repo_prepare v t (repo_clear garbage r) = (True, garbage\<lparr>rp_repository_time := t, rp_data_version := v\<rparr>)"
  by (cases garbage) (simp add: repo_prepare_def repo_clear_def Let_def)

section \<open>\<open>reusable_object\<close>\<close>

definition ru_new :: "int \<Rightarrow> 'a option \<Rightarrow> 'a reusable" where
  "ru_new poolId inst = \<lparr>ru_poolId = poolId, ru_instance = inst\<rparr>"

definition ru_new_default :: "'a option \<Rightarrow> 'a reusable" where
  "ru_new_default inst = \<lparr>ru_poolId = 0, ru_instance = inst\<rparr>"

definition ru_bool :: "'a reusable \<Rightarrow> bool" where
  "ru_bool r = (case ru_instance r of None \<Rightarrow> False | Some _ \<Rightarrow> True)"

text \<open>The operators assert that there is an instance; without the assertion a null pointer is used.\<close>

definition ru_deref :: "'a reusable \<Rightarrow> 'a outcome" where
  "ru_deref r = (case ru_instance r of None \<Rightarrow> Undefined | Some x \<Rightarrow> Ok x)"

definition ru_get :: "'a reusable \<Rightarrow> 'a option" where
  "ru_get r = ru_instance r"

text \<open>
  The callback returns an instance to its pool. What is moved returns it once; a copy and its
  original return it twice.
\<close>

lemma reusable_returns:
  "ru_instance r = Some x \<Longrightarrow>
   (case ru_move r of (taken, left) \<Rightarrow> ru_destroy (\<lambda>i y ys. ys @ [(i, y)]) left (ru_destroy (\<lambda>i y ys. ys @ [(i, y)]) taken []))
     = [(ru_poolId r, x)] \<and>
   ru_destroy (\<lambda>i y ys. ys @ [(i, y)]) r (ru_destroy (\<lambda>i y ys. ys @ [(i, y)]) (ru_copy r) [])
     = [(ru_poolId r, x), (ru_poolId r, x)]"
  by (simp add: ru_move_def ru_destroy_def ru_copy_def)

text \<open>So a connection that was copied is in the map of its pool under two times, and is handed to two users.\<close>

lemma copied_connection_twice:
  assumes "t < t'"
  shows "map snd (pool_connections (pool_back t' c (pool_back t c (pool_new cs)))) = [c, c]"
  using assms by (simp add: pool_back_def pool_new_def)

section \<open>\<open>ExceptionHolder\<close>\<close>

text \<open>
  Holders are handles: copies share their \<open>ExceptionHolderImpl\<close>, here an entry of a list, and a
  holder is its number. A thread has one of its own, made when it first asks for it.
\<close>

record 'e holders =
  eh_impls :: "'e option list"
  eh_threads :: "nat \<Rightarrow> nat option"

definition no_holders :: "'e holders" where
  "no_holders = \<lparr>eh_impls = [], eh_threads = (\<lambda>_. None)\<rparr>"

definition holder_new :: "'e holders \<Rightarrow> nat \<times> 'e holders" where
  "holder_new hs = (length (eh_impls hs), hs\<lparr>eh_impls := eh_impls hs @ [None]\<rparr>)"

definition holder_save :: "nat \<Rightarrow> 'e option \<Rightarrow> 'e holders \<Rightarrow> 'e holders" where
  "holder_save h ex hs = hs\<lparr>eh_impls := (eh_impls hs)[h := save_exception ex (eh_impls hs ! h)]\<rparr>"

definition holder_try_rethrow :: "nat \<Rightarrow> 'e holders \<Rightarrow> 'e option \<times> 'e holders" where
  "holder_try_rethrow h hs = (case try_rethrow (eh_impls hs ! h) of (ex, held) \<Rightarrow> (ex, hs\<lparr>eh_impls := (eh_impls hs)[h := held]\<rparr>))"

definition holder_have :: "nat \<Rightarrow> 'e holders \<Rightarrow> bool" where
  "holder_have h hs = have_exception (eh_impls hs ! h)"

definition tl_exception_holder :: "nat \<Rightarrow> 'e holders \<Rightarrow> nat \<times> 'e holders" where
  "tl_exception_holder tid hs = (case eh_threads hs tid of
     Some h \<Rightarrow> (h, hs)
   | None \<Rightarrow> (case holder_new hs of (h, hs) \<Rightarrow> (h, hs\<lparr>eh_threads := (eh_threads hs)(tid := Some h)\<rparr>)))"

text \<open>Every thread has a holder of its own, and it exists.\<close>

definition holders_ok :: "'e holders \<Rightarrow> bool" where
  "holders_ok hs \<longleftrightarrow> (\<forall>tid h. eh_threads hs tid = Some h \<longrightarrow> h < length (eh_impls hs) \<and>
     (\<forall>other. other \<noteq> tid \<longrightarrow> eh_threads hs other \<noteq> Some h))"

lemma holders_ok_steps:
  "holders_ok (no_holders :: 'e holders)"
  "holders_ok hs \<Longrightarrow> holders_ok (snd (holder_new hs))"
  "holders_ok hs \<Longrightarrow> holders_ok (holder_save h ex hs)"
  "holders_ok hs \<Longrightarrow> holders_ok (snd (holder_try_rethrow h hs))"
  "holders_ok hs \<Longrightarrow> holders_ok (snd (tl_exception_holder tid hs))"
  by (auto simp: holders_ok_def no_holders_def holder_new_def holder_save_def holder_try_rethrow_def tl_exception_holder_def
      less_Suc_eq split: option.splits prod.splits)

text \<open>
  What is saved through a copy of the holder of a thread is thrown in that thread once, and no
  other thread sees it.
\<close>

lemma holder_thrown_once:
  assumes "holders_ok hs" "tl_exception_holder tid hs = (h, hs')"
  shows "case holder_try_rethrow h (holder_save h (Some e) hs') of (ex, hs'') \<Rightarrow>
    ex = Some e \<and> \<not> holder_have h hs'' \<and> fst (holder_try_rethrow h hs'') = None \<and>
    (\<forall>other k. other \<noteq> tid \<longrightarrow> eh_threads hs' other = Some k \<longrightarrow> holder_have k hs'' = holder_have k hs')"
proof -
  have ok: "holders_ok hs'" using holders_ok_steps(5) [OF assms(1), of tid] assms(2) by simp
  have mine: "eh_threads hs' tid = Some h" "h < length (eh_impls hs')"
    using assms by (auto simp: tl_exception_holder_def holder_new_def holders_ok_def split: option.splits)
  have "(eh_impls hs')[h := None] ! k = eh_impls hs' ! k" if "other \<noteq> tid" "eh_threads hs' other = Some k" for other k
    using ok mine(1) that by (auto simp: holders_ok_def nth_list_update)
  with mine(2) show ?thesis
    by (auto simp: holder_try_rethrow_def holder_save_def holder_have_def save_exception_def try_rethrow_def have_exception_def)
qed

section \<open>The levels of the log\<close>

definition log_as_debug where "log_as_debug global now null_json args = log_impl global now null_json DEBUG args"
definition log_as_verbose where "log_as_verbose global now null_json args = log_impl global now null_json VERBOSE args"
definition log_as_info where "log_as_info global now null_json args = log_impl global now null_json INFO args"
definition log_as_notice where "log_as_notice global now null_json args = log_impl global now null_json NOTICE args"
definition log_as_warning where "log_as_warning global now null_json args = log_impl global now null_json WARNING args"
definition log_as_error where "log_as_error global now null_json args = log_impl global now null_json ERROR args"
definition log_as_critical where "log_as_critical global now null_json args = log_impl global now null_json CRITICAL args"

section \<open>Single objects\<close>

definition bdb_default :: bdb where
  "bdb_default = \<lparr>db_connected = False, db_connstr = [], db_need_advisory_lock = 0, db_noticies = []\<rparr>"

definition bdb_setCS :: "string \<Rightarrow> bdb \<Rightarrow> bdb" where
  "bdb_setCS connstr db = db\<lparr>db_connstr := connstr\<rparr>"

definition bdb_is_connected :: "bdb \<Rightarrow> bool" where
  "bdb_is_connected db = db_connected db"

definition bdb_exec_string :: "'w pq_api \<Rightarrow> string \<Rightarrow> bdb \<Rightarrow> 'w \<Rightarrow> (unit, 'w) db_result" where
  "bdb_exec_string api squery db w = bdb_exec api (c_str squery) db w"

definition bdb_query_string :: "'w pq_api \<Rightarrow> string \<Rightarrow> bdb \<Rightarrow> 'w \<Rightarrow> (bdb_result, 'w) db_result" where
  "bdb_query_string api squery db w = bdb_query api (c_str squery) db w"

text \<open>A connection string set on a new object gives the object made with it.\<close>

lemma setCS_default: "bdb_setCS cs bdb_default = bdb_new cs"
  by (simp add: bdb_setCS_def bdb_default_def bdb_new_def)

text \<open>The questions of a watcher, and its rows.\<close>

definition watcher_check_term :: "string \<Rightarrow> online_watcher \<Rightarrow> bool option" where
  "watcher_check_term uniqueId w =
     (if \<not> ow_ready w then None
      else Some (if uniqueId \<noteq> [] then any_row cllo_uniqueid_term uniqueId (ow_data w) else False))"

definition watcher_getData :: "online_watcher \<Rightarrow> call_leg_link_online list" where
  "watcher_getData w = ow_data w"

lemma check_term_loop:
  "\<forall>w \<in> set ws. ow_ready w \<Longrightarrow>
   checkUniqueIdTerm x ws = Some (\<exists>w \<in> set ws. watcher_check_term x w = Some True)"
proof (induction ws)
  case Nil
  then show ?case by (simp add: checkUniqueIdTerm_def)
next
  case (Cons w ws)
  then show ?case
    by (auto simp: checkUniqueIdTerm_def watcher_check_term_def watcher_check_def split: if_splits bool.splits)
qed

lemma check_term_rows:
  "\<forall>w \<in> set ws. ow_ready w \<Longrightarrow>
   checkUniqueIdTerm x ws = Some (x \<noteq> [] \<and> (\<exists>w \<in> set ws. x \<in> cllo_uniqueid_term ` set (watcher_getData w)))"
  by (subst check_term_loop) (auto simp: watcher_check_term_def any_row_iff watcher_getData_def)

definition puller_get_event :: "puller \<Rightarrow> string" where
  "puller_get_event p = pl_event p"

definition puller_get_info :: "puller \<Rightarrow> puller_info" where
  "puller_get_info p = pl_info p"

definition puller_get_priority :: "puller \<Rightarrow> puller_priority" where
  "puller_get_priority p = pl_priority p"

definition copied_bytes_in_last_operation :: "puller \<Rightarrow> int" where
  "copied_bytes_in_last_operation p = pl_copied_bytes p"

definition pm_get_errors_count :: "pull_manager \<Rightarrow> int" where
  "pm_get_errors_count pm = pm_errors_count pm"

end
