(* ===== verification/Spec2Isabelle.thy ===== *)
theory Spec2Isabelle
  imports Common Split Utilities Db Merge_Online Merge_Service Data Trace Thread Daemon Sync Pages
    Pipeline Report_Rows Application Locks Streams Graylog Watcher
    Ownership Scopes Mock_Db Limited_Copy Base64_Decode Reader_Thread Settings_Store Web_Session Whole_Calls Whole_Legs Handles
begin

text \<open>
  Verification of the call aggregation service \<open>call45aggr\<close>.

  The program. Two reader threads follow the tables of call legs and of links between legs by time
  windows (\<open>src/service/ReadCallLeg*.cpp\<close>) and queue what they read. The merge thread
  (\<open>MergeContainer.cpp\<close>) starts a record for each originating leg, attaches the legs and links
  that belong to it, retires records and stale buckets by time, pauses the reader that runs
  ahead, and queues finished records; \<open>MergeService.cpp\<close> chooses the two parties and writes the
  reports. Notifications keep tables of the calls in progress (\<open>MergeOnline.cpp\<close>). Around this
  stand the database layer (\<open>src/db\<close>), the data lists and counters (\<open>src/data\<close>), table
  synchronisation (\<open>src/data/sync\<close>), logging and tracing (\<open>src/log\<close>), the daemon
  (\<open>src/daemon\<close>: settings, life span, cyclic tasks, health, threads), web pages (\<open>src/web\<close>) and
  helpers (\<open>src/common*\<close>, \<open>src/systems\<close>).

  The theories, and what they model.
  \<^item> \<open>Prelude\<close>: narrowing of C++ integers, the type \<open>outcome\<close> of code that returns, throws, is
    undefined or does not end, decimal printing, list lemmas. \<open>Std_Lib\<close>: the functions of the C
    and C++ library the sources call. \<open>Std_Map\<close>: ordered maps as sorted association lists, with
    the interfaces of a key store and of a store of buckets.
  \<^item> \<open>Calendar\<close>: the civil calendar, \<open>gmtime\<close> and \<open>timegm\<close>. \<open>Common\<close>: \<open>common.cpp\<close>. \<open>Split\<close>:
    \<open>common/split.cpp\<close> and the base64 encoder; \<open>Base64_Decode\<close>: the decoder. \<open>Containers\<close>: ring buffer and range algorithms. \<open>Utilities\<close>:
    \<open>src/systems\<close> and small headers of \<open>src/common\<close>. \<open>Scopes\<close>: timer scopes over the threads that share
    a timer, and the iterators of views.
  \<^item> \<open>Models\<close>: the classes of \<open>data/model\<close>, one record each. \<open>Merge_Container\<close>: the merge thread
    over a record of its members. \<open>Readers\<close>: one round of each reader and their control.
    \<open>Reader_Thread\<close>: the loops of the reader threads with their waits, and the stop of the container, with the
    interface of what a reader has to deliver.
    \<open>Merge_Online\<close>: watchers and notifications. \<open>Watcher\<close>: their threads, session by session.
    \<open>Merge_Service\<close>: parties and report builders.
    \<open>Report_Rows\<close>: the rows of the reports as SQL reads them. \<open>Pipeline\<close>: readers, merge thread and
    consumer together, every query, delivery, pass and consumption a step. \<open>Whole_Calls\<close>: the same with
    the pass in two halves, between which the readers go on; \<open>Whole_Legs\<close>: the legs of its finished records.
  \<^item> \<open>Db_Result\<close>, \<open>Db\<close>: results, transactions, pool, limiter, connections with their retries and
    the statements they build. \<open>Sync\<close>: \<open>BDb::copy\<close>, \<open>Puller\<close>, \<open>PullWorker\<close>, \<open>PullManager\<close> and
    the active part of \<open>Loader.cpp\<close>. \<open>Limited_Copy\<close>: the copy with a limit on its bandwidth.
    \<open>Ownership\<close>: who frees the results of queries and the parameters of statements, with the interface
    of an owner. \<open>Mock_Db\<close>: the database of the tests.
  \<^item> \<open>Data\<close>: loading states, lists, counters, repository and parameters of \<open>src/data\<close>.
  \<^item> \<open>Log\<close>, \<open>Trace\<close>: the log instance with its delayed messages, writers and expressions; traces.
    \<open>Graylog\<close>: the graylog writer. \<open>Json_Value\<close>: the part of a JSON value the sources look at.
    \<open>Settings\<close>, \<open>Thread\<close>, \<open>Daemon\<close>: \<open>src/daemon\<close>. \<open>Settings_Store\<close>: the settings that handles share
    over the readings of the file. \<open>Application\<close>: the life of the process, from
    \<open>main\<close> to the destructors of its static objects, with the log and the merge thread and the
    handlers of the io context as interleaved events.
  \<^item> \<open>Locks\<close>: the spinlock over all interleavings of its threads, with the interface of a mutex.
    \<open>Streams\<close>: streams that write into a string.
  \<^item> \<open>Url\<close>, \<open>Web\<close>, \<open>Pages\<close>: \<open>src/web\<close>: request lines, routing, sessions, and every page.
    \<open>Web_Session\<close>: sessions interleaved.
  \<^item> \<open>Handles\<close>: accessors of data objects, shared exception holders, connections in reusable
    objects, and the getters and small questions of single objects.

  Correspondence. A class is a record of its members, an enumeration a datatype, a method a function
  on the record that returns the new one. \<open>std::map\<close> is a sorted association list; unordered maps
  are kept sorted too, as their order is not fixed. Concurrent queues are lists. An exception is
  \<open>Throws\<close> with its message (a sum where its type matters), undefined behaviour is \<open>Undefined\<close>.
  Numbers are \<open>int\<close>, with \<open>int32\<close>, \<open>uint32\<close>, \<open>uint64\<close> written where a value is narrowed; \<open>double\<close>
  values are exact rationals, and printing them is a parameter. Clocks, databases, files and the
  JSON, HTTP and queue libraries are parameters or events. What runs beside a step, as a reader
  beside the merge pass, enters as a reading that may differ each time.

  What is shown. For the pipeline, over all interleavings of readers, merge thread and consumer: every
  call is in exactly one place, and a finished record has all the links the tables have for its call,
  as long as the link reader finishes no window between the intake and the sweep of a pass; without
  that proviso a link can be missed, which an explicit run shows. It also has the legs these links lead to, when the
  rows of a query, which are sorted by id, are in the order of their times. A reader thread delivers every row up to the time it reports, once,
  and ends when nothing holds it; a held one keeps the container from ending. For a pass: the
  invariant, conservation of calls and links, which records retire. The notification tables
  are a refinement of the table of calls. The rows of
  the reports fit their headers. Critical sections under the spinlock are serial.
  For the database layer, bounds on retries, recovery, the order of a pull's statements and what
  a copy sends and how long it sleeps, results cleared exactly once. For the rest, round trips
  (times, settings, query parameters, base64), handles of settings that keep what they show, web
  sessions that answer in order, loading under interleaved failures, delayed messages, traces as the program's
  tree, life span order, stopping threads. Several properties show
  the code failing its purpose: retirement after 2038, the retry that leaves a transaction, the
  configuration page, stopping a starting thread, the end of the process (it
  hangs or is terminated), messages lost when the log stops, a log that feeds itself, quotes in
  the raw report, flushes of string streams, the first session of a watcher and the changes it misses.

  Termination. Loops that follow a structure are recursive functions; the splitter, the cursor
  loops, the path parser and the loop of a watcher are functions with a proved measure. The range loop
  over a view has its size as fuel, which \<open>view_loop_items\<close> proves enough. \<open>replace_all_subs\<close> and
  \<open>allocate_aligned\<close> may not return and are partial functions, with theorems that say when they do. The
  attempts of \<open>query\<close> and \<open>exec\<close> are counted by the source itself, two on an open connection and
  one otherwise. Whether the join of the log thread returns is decided by two of its steps, which
  lemma \<open>log_join_decides\<close> proves enough. The sessions of a watcher are counted by the argument of
  \<open>watch_run\<close>, any number of them. How many steps a reader thread takes to its end is a theorem of
  \<open>Reader_Thread\<close>. No other fuel is used.

  Not modelled. Sockets and the scheduling of asio, whose completions are events; the thread pool,
  which is a map; locks other than the spinlock, as the steps they protect are taken whole;
  template helpers without behaviour of their own (\<open>common/meta\<close>, \<open>type.hpp\<close>); the library
  iterators inside the base64 decoder, which are a parameter; local times and \<open>double\<close> conversions; code that is commented out
  (\<open>PullManager::init\<close> and \<open>pull\<close>, most of \<open>Loader.cpp\<close>) or not built
  (\<open>DataVoipRecordReport_old.cpp\<close>); \<open>third_party\<close>, packaging and the SQL schema.
\<close>

end
